(* ===== verification/Prelude.thy ===== *)
theory Prelude
  imports Main "HOL-Library.Word" "HOL-Library.Sublist"
begin

text \<open>
  Shared vocabulary of the development: the integer and byte types of the C sources, the status
  codes of \<^verbatim>\<open>switch_types.h\<close>, the ways a C routine can go wrong (an aborting
  assertion, a null or wild pointer), the string routines of the C library that the sources
  call, and two generic interfaces.  \<open>step_system\<close> turns a one-step invariant
  into one of every reachable state; \<open>data_refinement\<close> turns a one-step simulation into
  one of whole operation sequences.

  Strings are lists of the bytes before the terminating NUL; a null \<open>char *\<close> is
  \<open>None\<close>.
\<close>

unbundle bit_operations_syntax

named_theorems fs_defs \<open>unfolding rules for the operations of a component\<close>
named_theorems fs_inv \<open>preservation of a component's invariant\<close>

section \<open>Types shared by the sources\<close>

type_synonym switch_byte_t = "8 word"
type_synonym uint8 = "8 word"
type_synonym uint16 = "16 word"
type_synonym uint32 = "32 word"

datatype switch_status_t =
    SWITCH_STATUS_SUCCESS
  | SWITCH_STATUS_FALSE
  | SWITCH_STATUS_TIMEOUT
  | SWITCH_STATUS_RESTART
  | SWITCH_STATUS_INTR
  | SWITCH_STATUS_NOTIMPL
  | SWITCH_STATUS_MEMERR
  | SWITCH_STATUS_NOOP
  | SWITCH_STATUS_RESAMPLE
  | SWITCH_STATUS_GENERR
  | SWITCH_STATUS_INUSE
  | SWITCH_STATUS_BREAK
  | SWITCH_STATUS_SOCKERR
  | SWITCH_STATUS_MORE_DATA
  | SWITCH_STATUS_NOTFOUND
  | SWITCH_STATUS_UNLOAD
  | SWITCH_STATUS_NOUNLOAD
  | SWITCH_STATUS_IGNORE
  | SWITCH_STATUS_TOO_SMALL
  | SWITCH_STATUS_FOUND
  | SWITCH_STATUS_CONTINUE
  | SWITCH_STATUS_TERM
  | SWITCH_STATUS_NOT_INITALIZED

text \<open>
  What stops a C routine before it returns: \<open>switch_assert\<close> aborting the process, a null
  pointer followed, an access outside the object, a division by zero.
\<close>

datatype fault = AssertionFailed | NullPointer | OutOfBounds | DivideByZero

type_synonym 'a outcome = "fault + 'a"

definition bindE :: "'a outcome \<Rightarrow> ('a \<Rightarrow> 'b outcome) \<Rightarrow> 'b outcome" where
  "bindE m f = (case m of Inl e \<Rightarrow> Inl e | Inr x \<Rightarrow> f x)"

lemma bindE_simps [simp]: "bindE (Inl e) f = Inl e" "bindE (Inr x) f = f x"
  by (simp_all add: bindE_def)

lemma bindE_eq_Inr: "bindE m f = Inr y \<longleftrightarrow> (\<exists>x. m = Inr x \<and> f x = Inr y)"
  by (cases m) auto

section \<open>The 64-bit \<open>switch_size_t\<close>\<close>

text \<open>
  Sizes are natural numbers below \<open>2 ^ 64\<close>; the two operations below are the wrapping
  addition and subtraction of the unsigned type.
\<close>

definition size_add :: "nat \<Rightarrow> nat \<Rightarrow> nat" where
  "size_add a b = (a + b) mod 2 ^ 64"

definition size_sub :: "nat \<Rightarrow> nat \<Rightarrow> nat" where
  "size_sub a b = (a + (2 ^ 64 - b mod 2 ^ 64)) mod 2 ^ 64"

lemma size_add_exact: "a + b < 2 ^ 64 \<Longrightarrow> size_add a b = a + b"
  by (simp add: size_add_def)

lemma size_sub_exact:
  assumes "b \<le> a" and "a < 2 ^ 64"
  shows "size_sub a b = a - b"
proof -
  have "a + (2 ^ 64 - b mod 2 ^ 64) = (a - b) + 2 ^ 64"
    using assms by simp
  then show ?thesis
    using assms unfolding size_sub_def by (simp only: mod_add_self2) simp
qed

lemma size_sub_wraps:
  assumes "a < b" and "b < 2 ^ 64"
  shows "size_sub a b = 2 ^ 64 - (b - a)"
  using assms by (simp add: size_sub_def)

section \<open>Copies inside a block of memory\<close>

definition mem_read :: "'b list \<Rightarrow> nat \<Rightarrow> nat \<Rightarrow> 'b list outcome" where
  "mem_read m off n = (if off + n \<le> length m then Inr (take n (drop off m)) else Inl OutOfBounds)"

definition mem_write :: "'b list \<Rightarrow> nat \<Rightarrow> 'b list \<Rightarrow> 'b list outcome" where
  "mem_write m off src =
     (if off + length src \<le> length m
      then Inr (take off m @ src @ drop (off + length src) m) else Inl OutOfBounds)"

lemma mem_read_in [simp]: "off + n \<le> length m \<Longrightarrow> mem_read m off n = Inr (take n (drop off m))"
  by (simp add: mem_read_def)

lemma mem_write_in [simp]:
  "off + length src \<le> length m \<Longrightarrow>
     mem_write m off src = Inr (take off m @ src @ drop (off + length src) m)"
  by (simp add: mem_write_def)

lemma mem_write_length: "mem_write m off src = Inr m' \<Longrightarrow> length m' = length m"
  by (auto simp: mem_write_def split: if_splits)

lemma mem_read_write_same:
  "mem_write m off src = Inr m' \<Longrightarrow> mem_read m' off (length src) = Inr src"
  by (auto simp: mem_write_def mem_read_def split: if_splits)

lemma take_drop_splice:
  "h + u \<le> length d \<Longrightarrow>
     take (u + length s) (drop h (take (h + u) d @ s @ rest)) = take u (drop h d) @ s"
  by (simp add: drop_take)

section \<open>C library routines on strings\<close>

definition c_tolower :: "char \<Rightarrow> char" where
  "c_tolower c = (let n = of_char c :: nat in if 65 \<le> n \<and> n \<le> 90 then char_of (n + 32) else c)"

definition strcasecmp_eq :: "string \<Rightarrow> string \<Rightarrow> bool" where
  "strcasecmp_eq s t \<longleftrightarrow> map c_tolower s = map c_tolower t"

definition strncasecmp_eq :: "nat \<Rightarrow> string \<Rightarrow> string \<Rightarrow> bool" where
  "strncasecmp_eq n s t \<longleftrightarrow> map c_tolower (take n s) = map c_tolower (take n t)"

definition zstr :: "string option \<Rightarrow> bool" where
  "zstr s \<longleftrightarrow> (case s of None \<Rightarrow> True | Some t \<Rightarrow> t = [])"

fun strchr :: "string \<Rightarrow> char \<Rightarrow> nat option" where
  "strchr [] c = None"
| "strchr (x # xs) c = (if x = c then Some 0 else map_option Suc (strchr xs c))"

fun strstr :: "string \<Rightarrow> string \<Rightarrow> nat option" where
  "strstr [] p = (if p = [] then Some 0 else None)"
| "strstr (x # xs) p =
     (if prefix p (x # xs) then Some 0 else map_option Suc (strstr xs p))"

lemma strcasecmp_eq_refl [simp]: "strcasecmp_eq s s"
  by (simp add: strcasecmp_eq_def)

lemma strcasecmp_eq_sym: "strcasecmp_eq s t \<longleftrightarrow> strcasecmp_eq t s"
  by (auto simp: strcasecmp_eq_def)

lemma strcasecmp_eq_trans: "strcasecmp_eq s t \<Longrightarrow> strcasecmp_eq t u \<Longrightarrow> strcasecmp_eq s u"
  by (simp add: strcasecmp_eq_def)

lemma strchr_Some: "strchr s c = Some i \<Longrightarrow> i < length s \<and> s ! i = c \<and> c \<notin> set (take i s)"
  by (induction s arbitrary: i) (auto split: if_splits)

lemma strchr_None: "strchr s c = None \<longleftrightarrow> c \<notin> set s"
  by (induction s) auto

lemma strstr_Some_prefix: "strstr s p = Some i \<Longrightarrow> i + length p \<le> length s \<and> prefix p (drop i s)"
proof (induction s arbitrary: i)
  case Nil
  then show ?case by (auto split: if_splits)
next
  case (Cons x xs)
  then show ?case by (auto split: if_splits dest: prefix_length_le)
qed

lemma strstr_None_iff: "strstr s p = None \<longleftrightarrow> \<not> sublist p s"
  by (induction s) (auto simp: sublist_Cons_right)

definition c_isspace :: "char \<Rightarrow> bool" where
  "c_isspace c \<longleftrightarrow> (let n = of_char c :: nat in n = 32 \<or> 9 \<le> n \<and> n \<le> 13)"

definition c_isdigit :: "char \<Rightarrow> bool" where
  "c_isdigit c \<longleftrightarrow> (let n = of_char c :: nat in 48 \<le> n \<and> n \<le> 57)"

text \<open>
  \<open>atoi\<close>: white space, a sign, decimal digits.  The number is read as a saturating 64-bit
  \<open>long\<close> and cut to 32 bits, which is what the GNU library does where C leaves it open.
\<close>

fun decimal :: "int \<Rightarrow> string \<Rightarrow> int" where
  "decimal acc [] = acc"
| "decimal acc (c # cs) = (if c_isdigit c then decimal (acc * 10 + (of_char c - 48)) cs else acc)"

definition strtol10 :: "string \<Rightarrow> int" where
  "strtol10 s =
     (case dropWhile c_isspace s of
        [] \<Rightarrow> 0
      | c # cs \<Rightarrow>
          if c = CHR ''-'' then - decimal 0 cs
          else if c = CHR ''+'' then decimal 0 cs else decimal 0 (c # cs))"

definition atoi :: "string \<Rightarrow> int" where
  "atoi s =
     (let n = strtol10 s; n = (if n > 2 ^ 63 - 1 then 2 ^ 63 - 1 else if n < - (2 ^ 63) then - (2 ^ 63) else n)
      in (n + 2 ^ 31) mod 2 ^ 32 - 2 ^ 31)"

fun join :: "string \<Rightarrow> string list \<Rightarrow> string" where
  "join sep [] = []"
| "join sep [x] = x"
| "join sep (x # y # ys) = x @ sep @ join sep (y # ys)"

lemma join_Cons: "join sep (x # xs) = (if xs = [] then x else x @ sep @ join sep xs)"
  by (cases xs) auto

lemma join_append_last: "xs \<noteq> [] \<Longrightarrow> join sep (xs @ [y]) = join sep xs @ sep @ y"
  by (induction xs) (auto simp: join_Cons)

section \<open>Two generic interfaces\<close>

fun run_ops :: "('op \<Rightarrow> 's \<Rightarrow> 's \<times> 'out) \<Rightarrow> 'op list \<Rightarrow> 's \<Rightarrow> 's \<times> 'out list" where
  "run_ops f [] s = (s, [])"
| "run_ops f (x # xs) s =
     (let r = f x s; rs = run_ops f xs (fst r) in (fst rs, snd r # snd rs))"

locale data_refinement =
  fixes inv :: "'c \<Rightarrow> bool"
    and abs :: "'c \<Rightarrow> 'a"
    and cstep :: "'op \<Rightarrow> 'c \<Rightarrow> 'c \<times> 'out"
    and astep :: "'op \<Rightarrow> 'a \<Rightarrow> 'a \<times> 'out"
  assumes step_inv: "inv c \<Longrightarrow> inv (fst (cstep x c))"
    and step_abs: "inv c \<Longrightarrow> astep x (abs c) = (abs (fst (cstep x c)), snd (cstep x c))"
begin

lemma run_inv: "inv c \<Longrightarrow> inv (fst (run_ops cstep xs c))"
proof (induction xs arbitrary: c)
  case Nil
  then show ?case by simp
next
  case (Cons x xs)
  then show ?case by (simp add: Let_def step_inv)
qed

lemma run_abs:
  "inv c \<Longrightarrow> run_ops astep xs (abs c) = (abs (fst (run_ops cstep xs c)), snd (run_ops cstep xs c))"
proof (induction xs arbitrary: c)
  case Nil
  then show ?case by simp
next
  case (Cons x xs)
  from step_abs [OF Cons.prems, of x] Cons.IH [OF step_inv [OF Cons.prems, of x]]
  show ?case by (simp add: Let_def)
qed

lemma run_outputs: "inv c \<Longrightarrow> snd (run_ops cstep xs c) = snd (run_ops astep xs (abs c))"
  by (simp add: run_abs)

end

locale step_system =
  fixes init :: "'s \<Rightarrow> bool"
    and step :: "'s \<Rightarrow> 's \<Rightarrow> bool"
    and inv :: "'s \<Rightarrow> bool"
  assumes init_inv: "init s \<Longrightarrow> inv s"
    and step_inv: "inv s \<Longrightarrow> step s t \<Longrightarrow> inv t"
begin

lemma star_inv: "step\<^sup>*\<^sup>* s t \<Longrightarrow> inv s \<Longrightarrow> inv t"
  by (induction rule: rtranclp_induct) (auto intro: step_inv)

lemma reachable_inv: "init s \<Longrightarrow> step\<^sup>*\<^sup>* s t \<Longrightarrow> inv t"
  using star_inv init_inv by blast

end

end
