(* ===== verification/Buffer.thy ===== *)
theory Buffer
  imports Prelude
begin

text \<open>
  The data buffers of \<^verbatim>\<open>switch_buffer.c\<close>: a block of memory, a head offset into
  it and counters, written at the tail and read at the head, fixed in size or growing with
  \<open>realloc\<close>.  The operations keep the relation of the counters to the block, behave as a
  byte queue, and a fixed buffer refines a bounded queue over any sequence of operations.
\<close>

section \<open>Model of \<^verbatim>\<open>switch_buffer.c\<close>\<close>

text \<open>
  \<open>buf_data\<close> is \<open>None\<close> for the null pointer (a dynamic buffer created with
  \<open>start_len = 0\<close>); \<open>buf_head\<close> is the offset of \<open>head\<close> from \<open>data\<close>; the mutex is
  known by a number.
\<close>

record switch_buffer =
  buf_data :: "switch_byte_t list option"
  buf_head :: nat
  buf_used :: nat
  buf_actually_used :: nat
  buf_datalen :: nat
  buf_max_len :: nat
  buf_blocksize :: nat
  buf_mutex :: "nat option"
  buf_flags :: uint32
  buf_id :: uint32
  buf_loops :: int

definition SWITCH_BUFFER_FLAG_DYNAMIC :: uint32 where
  "SWITCH_BUFFER_FLAG_DYNAMIC = 1"

definition buf_dynamic :: "switch_buffer \<Rightarrow> bool" where
  "buf_dynamic b \<longleftrightarrow> buf_flags b AND SWITCH_BUFFER_FLAG_DYNAMIC \<noteq> 0"

text \<open>
  What the C heap contributes: whether \<open>realloc\<close> to a size succeeds and what the fresh part
  of the block holds.
\<close>

record heap =
  realloc_ok :: "nat \<Rightarrow> bool"
  junk :: "nat \<Rightarrow> switch_byte_t"

text \<open>
  Creation.  The two Booleans say whether the two allocations succeed; the static counter
  \<open>buffer_id\<close> is passed and returned; \<open>None\<close> in the result is an out-parameter not written.
  \<open>switch_core_alloc\<close> hands out zeroed memory.
\<close>

definition switch_buffer_create ::
  "bool \<Rightarrow> bool \<Rightarrow> uint32 \<Rightarrow> nat \<Rightarrow> switch_status_t \<times> switch_buffer option \<times> uint32" where
  "switch_buffer_create struct_ok data_ok buffer_id max_len =
     (if struct_ok \<and> data_ok
      then (SWITCH_STATUS_SUCCESS,
            Some \<lparr>buf_data = Some (replicate max_len 0), buf_head = 0, buf_used = 0,
                  buf_actually_used = 0, buf_datalen = max_len, buf_max_len = 0,
                  buf_blocksize = 0, buf_mutex = None, buf_flags = 0, buf_id = buffer_id,
                  buf_loops = 0\<rparr>,
            buffer_id + 1)
      else (SWITCH_STATUS_MEMERR, None, buffer_id))"

definition switch_buffer_create_dynamic ::
  "bool \<Rightarrow> bool \<Rightarrow> uint32 \<Rightarrow> nat \<Rightarrow> nat \<Rightarrow> nat \<Rightarrow>
     switch_status_t \<times> switch_buffer option \<times> uint32" where
  "switch_buffer_create_dynamic struct_ok data_ok buffer_id blocksize start_len max_len =
     (if struct_ok then
        if start_len \<noteq> 0 \<and> \<not> data_ok then (SWITCH_STATUS_MEMERR, None, buffer_id)
        else (SWITCH_STATUS_SUCCESS,
              Some \<lparr>buf_data = (if start_len \<noteq> 0 then Some (replicate start_len 0) else None),
                    buf_head = 0, buf_used = 0, buf_actually_used = 0, buf_datalen = start_len,
                    buf_max_len = max_len, buf_blocksize = blocksize, buf_mutex = None,
                    buf_flags = 0 OR SWITCH_BUFFER_FLAG_DYNAMIC, buf_id = buffer_id,
                    buf_loops = 0\<rparr>,
              buffer_id + 1)
      else (SWITCH_STATUS_MEMERR, None, buffer_id))"

text \<open>Locking hands the call to the mutex library; the value is the call made, if any.\<close>

datatype mutex_call = Mutex_lock nat | Mutex_unlock nat

definition switch_buffer_add_mutex :: "switch_buffer \<Rightarrow> nat option \<Rightarrow> switch_buffer" where
  "switch_buffer_add_mutex b m = b\<lparr>buf_mutex := m\<rparr>"

definition switch_buffer_lock :: "switch_buffer \<Rightarrow> mutex_call option" where
  "switch_buffer_lock b = map_option Mutex_lock (buf_mutex b)"

definition switch_buffer_trylock ::
  "(mutex_call \<Rightarrow> switch_status_t) \<Rightarrow> switch_buffer \<Rightarrow> mutex_call option \<times> switch_status_t" where
  "switch_buffer_trylock do_call b =
     (case buf_mutex b of
        Some m \<Rightarrow> (Some (Mutex_lock m), do_call (Mutex_lock m))
      | None \<Rightarrow> (None, SWITCH_STATUS_FALSE))"

definition switch_buffer_unlock :: "switch_buffer \<Rightarrow> mutex_call option" where
  "switch_buffer_unlock b = map_option Mutex_unlock (buf_mutex b)"

definition switch_buffer_len :: "switch_buffer \<Rightarrow> nat" where
  "switch_buffer_len b = buf_datalen b"

definition switch_buffer_freespace :: "switch_buffer \<Rightarrow> nat" where
  "switch_buffer_freespace b =
     (if buf_dynamic b then
        (if buf_max_len b \<noteq> 0 then size_sub (buf_max_len b) (buf_used b) else 1000000)
      else size_sub (buf_datalen b) (buf_used b))"

definition switch_buffer_inuse :: "switch_buffer \<Rightarrow> nat" where
  "switch_buffer_inuse b = buf_used b"

definition switch_buffer_toss :: "switch_buffer \<Rightarrow> nat \<Rightarrow> switch_buffer \<times> nat" where
  "switch_buffer_toss b datalen =
     (if buf_used b < 1 then (b\<lparr>buf_used := 0\<rparr>, 0)
      else let reading = (if buf_used b \<ge> datalen then datalen else buf_used b);
               b' = b\<lparr>buf_used := buf_used b - reading, buf_head := buf_head b + reading\<rparr>
           in (b', buf_used b'))"

definition switch_buffer_set_loops :: "switch_buffer \<Rightarrow> int \<Rightarrow> switch_buffer" where
  "switch_buffer_set_loops b loops = b\<lparr>buf_loops := loops\<rparr>"

text \<open>
  The reading routines return the bytes copied out; their C result is the number of them.
\<close>

definition buffer_bytes :: "switch_buffer \<Rightarrow> nat \<Rightarrow> nat \<Rightarrow> switch_byte_t list outcome" where
  "buffer_bytes b off n =
     (case buf_data b of None \<Rightarrow> Inl NullPointer | Some d \<Rightarrow> mem_read d off n)"

definition switch_buffer_read ::
  "switch_buffer \<Rightarrow> nat \<Rightarrow> (switch_buffer \<times> switch_byte_t list) outcome" where
  "switch_buffer_read b datalen =
     (if buf_used b < 1 then Inr (b\<lparr>buf_used := 0\<rparr>, [])
      else let reading = (if buf_used b \<ge> datalen then datalen else buf_used b)
           in bindE (buffer_bytes b (buf_head b) reading)
                (\<lambda>out. Inr (b\<lparr>buf_used := buf_used b - reading,
                             buf_head := buf_head b + reading\<rparr>, out)))"

definition switch_buffer_read_loop ::
  "switch_buffer \<Rightarrow> nat \<Rightarrow> (switch_buffer \<times> switch_byte_t list) outcome" where
  "switch_buffer_read_loop b datalen =
     bindE (switch_buffer_read b datalen)
       (\<lambda>(b1, out).
          if length out = 0 then
            let b2 = (if buf_loops b1 > 0 then b1\<lparr>buf_loops := buf_loops b1 - 1\<rparr> else b1)
            in if buf_loops b2 = 0 then Inr (b2, [])
               else switch_buffer_read (b2\<lparr>buf_head := 0, buf_used := buf_actually_used b2\<rparr>) datalen
          else Inr (b1, out))"

definition switch_buffer_peek ::
  "switch_buffer \<Rightarrow> nat \<Rightarrow> (switch_buffer \<times> switch_byte_t list) outcome" where
  "switch_buffer_peek b datalen =
     (if buf_used b < 1 then Inr (b\<lparr>buf_used := 0\<rparr>, [])
      else let reading = (if buf_used b \<ge> datalen then datalen else buf_used b)
           in bindE (buffer_bytes b (buf_head b) reading) (\<lambda>out. Inr (b, out)))"

text \<open>\<open>Some off\<close> is the pointer handed out, as an offset into the block.\<close>

definition switch_buffer_peek_zerocopy ::
  "switch_buffer \<Rightarrow> switch_buffer \<times> nat option \<times> nat" where
  "switch_buffer_peek_zerocopy b =
     (if buf_used b < 1 then (b\<lparr>buf_used := 0\<rparr>, None, 0)
      else (b, Some (buf_head b), buf_used b))"

text \<open>
  The write routine in its three steps: slide the unread bytes to the start of the block when
  the tail has no room, enlarge the block of a dynamic buffer, copy the new bytes behind the
  unread ones.
\<close>

definition buffer_compact :: "switch_buffer \<Rightarrow> switch_byte_t list \<Rightarrow> switch_buffer outcome" where
  "buffer_compact b d =
     bindE (mem_read d (buf_head b) (buf_used b))
       (\<lambda>u. bindE (mem_write d 0 u)
          (\<lambda>d'. Inr (b\<lparr>buf_data := Some d', buf_head := 0, buf_actually_used := buf_used b\<rparr>)))"

definition realloc_bytes :: "heap \<Rightarrow> switch_byte_t list \<Rightarrow> nat \<Rightarrow> switch_byte_t list" where
  "realloc_bytes hp d n = take n d @ map (junk hp) [length d..<n]"

definition buffer_grow :: "heap \<Rightarrow> switch_buffer \<Rightarrow> switch_byte_t list \<Rightarrow> nat \<Rightarrow> switch_buffer option" where
  "buffer_grow hp b d datalen =
     (let new_size = size_add (buf_datalen b) datalen;
          new_block_size = size_add (buf_datalen b) (buf_blocksize b);
          new_size = (if new_block_size > new_size then new_block_size else new_size)
      in if realloc_ok hp new_size
         then Some (b\<lparr>buf_data := Some (realloc_bytes hp d new_size), buf_head := 0,
                      buf_datalen := new_size\<rparr>)
         else None)"

definition buffer_store ::
  "switch_buffer \<Rightarrow> switch_byte_t list \<Rightarrow> (switch_buffer \<times> nat) outcome" where
  "buffer_store b src =
     (if size_sub (buf_datalen b) (buf_used b) < length src then Inr (b, 0)
      else case buf_data b of
             None \<Rightarrow> Inl NullPointer
           | Some d \<Rightarrow>
               bindE (mem_write d (buf_head b + buf_used b) src)
                 (\<lambda>d'. let b' = b\<lparr>buf_data := Some d',
                                  buf_used := size_add (buf_used b) (length src),
                                  buf_actually_used :=
                                    size_add (buf_actually_used b) (length src)\<rparr>
                       in Inr (b', buf_used b')))"

definition switch_buffer_write ::
  "heap \<Rightarrow> switch_buffer \<Rightarrow> switch_byte_t list \<Rightarrow> (switch_buffer \<times> nat) outcome" where
  "switch_buffer_write hp b src =
     (case buf_data b of
        None \<Rightarrow> Inl AssertionFailed
      | Some d \<Rightarrow>
          if length src = 0 then Inr (b, buf_used b)
          else
            bindE (if size_sub (buf_datalen b) (buf_actually_used b) < length src
                   then buffer_compact b d else Inr b)
              (\<lambda>b1.
                 if buf_dynamic b1 \<and> size_sub (buf_datalen b1) (buf_used b1) < length src \<and>
                    (buf_max_len b1 = 0 \<or> size_add (buf_used b1) (length src) \<le> buf_max_len b1)
                 then case buffer_grow hp b1 (the (buf_data b1)) (length src) of
                        None \<Rightarrow> Inr (b1\<lparr>buf_head := 0\<rparr>, 0)
                      | Some b2 \<Rightarrow> buffer_store b2 src
                 else buffer_store b1 src))"

definition switch_buffer_zero :: "switch_buffer \<Rightarrow> switch_buffer outcome" where
  "switch_buffer_zero b =
     (case buf_data b of
        None \<Rightarrow> Inl AssertionFailed
      | Some d \<Rightarrow> Inr (b\<lparr>buf_used := 0, buf_actually_used := 0, buf_head := 0\<rparr>))"

definition switch_buffer_zwrite ::
  "heap \<Rightarrow> switch_buffer \<Rightarrow> switch_byte_t list \<Rightarrow> (switch_buffer \<times> nat) outcome" where
  "switch_buffer_zwrite hp b src =
     bindE (switch_buffer_write hp b src)
       (\<lambda>(b1, w). if w = 0 then bindE (switch_buffer_zero b1) (\<lambda>b2. switch_buffer_write hp b2 src)
                  else Inr (b1, w))"

definition switch_buffer_slide_write ::
  "heap \<Rightarrow> switch_buffer \<Rightarrow> switch_byte_t list \<Rightarrow> (switch_buffer \<times> nat) outcome" where
  "switch_buffer_slide_write hp b src =
     bindE (switch_buffer_write hp b src)
       (\<lambda>(b1, w). if w = 0 then switch_buffer_write hp (fst (switch_buffer_toss b1 (length src))) src
                  else Inr (b1, w))"

text \<open>Destruction reports what is given back to \<open>free\<close>.\<close>

datatype freed = Freed_data | Freed_struct

definition switch_buffer_destroy :: "switch_buffer option \<Rightarrow> switch_buffer option \<times> freed list" where
  "switch_buffer_destroy bp =
     (case bp of
        None \<Rightarrow> (None, [])
      | Some b \<Rightarrow>
          (None, if buf_dynamic b
                 then (if buf_data b \<noteq> None then [Freed_data] else []) @ [Freed_struct]
                 else []))"

section \<open>Invariant and contents\<close>

definition buf_inv :: "switch_buffer \<Rightarrow> bool" where
  "buf_inv b \<longleftrightarrow>
     buf_head b + buf_used b = buf_actually_used b \<and>
     buf_actually_used b \<le> buf_datalen b \<and> buf_datalen b < 2 ^ 64 \<and>
     (case buf_data b of None \<Rightarrow> buf_dynamic b \<and> buf_datalen b = 0
                       | Some d \<Rightarrow> length d = buf_datalen b)"

definition buf_content :: "switch_buffer \<Rightarrow> switch_byte_t list" where
  "buf_content b =
     (case buf_data b of None \<Rightarrow> [] | Some d \<Rightarrow> take (buf_used b) (drop (buf_head b) d))"

text \<open>Room for \<open>n\<close> more bytes: in the block as it is, or in the block \<open>realloc\<close> will give.\<close>

definition buf_grown :: "switch_buffer \<Rightarrow> nat \<Rightarrow> nat" where
  "buf_grown b n = buf_datalen b + max n (buf_blocksize b)"

definition buf_fits :: "heap \<Rightarrow> switch_buffer \<Rightarrow> nat \<Rightarrow> bool" where
  "buf_fits hp b n \<longleftrightarrow>
     buf_used b + n \<le> buf_datalen b \<or>
     (buf_dynamic b \<and> (buf_max_len b = 0 \<or> buf_used b + n \<le> buf_max_len b) \<and>
      realloc_ok hp (buf_grown b n))"

definition same_config :: "switch_buffer \<Rightarrow> switch_buffer \<Rightarrow> bool" where
  "same_config b b' \<longleftrightarrow>
     buf_flags b' = buf_flags b \<and> buf_max_len b' = buf_max_len b \<and>
     buf_blocksize b' = buf_blocksize b \<and> (buf_data b' = None \<longleftrightarrow> buf_data b = None)"

lemma length_content: "buf_inv b \<Longrightarrow> length (buf_content b) = buf_used b"
  by (auto simp: buf_inv_def buf_content_def split: option.splits)

lemma buf_dynamic_cong: "buf_flags b' = buf_flags b \<Longrightarrow> buf_dynamic b' = buf_dynamic b"
  by (simp add: buf_dynamic_def)

lemma buf_dynamic_update [simp]:
  "buf_dynamic (b\<lparr>buf_data := d\<rparr>) = buf_dynamic b"
  "buf_dynamic (b\<lparr>buf_head := n\<rparr>) = buf_dynamic b"
  "buf_dynamic (b\<lparr>buf_used := n\<rparr>) = buf_dynamic b"
  "buf_dynamic (b\<lparr>buf_actually_used := n\<rparr>) = buf_dynamic b"
  "buf_dynamic (b\<lparr>buf_datalen := n\<rparr>) = buf_dynamic b"
  "buf_dynamic (b\<lparr>buf_loops := l\<rparr>) = buf_dynamic b"
  "buf_dynamic (b\<lparr>buf_mutex := mx\<rparr>) = buf_dynamic b"
  by (simp_all add: buf_dynamic_def)

lemma same_config_refl [simp]: "same_config b b"
  by (simp add: same_config_def)

lemma same_config_trans: "same_config a b \<Longrightarrow> same_config b c \<Longrightarrow> same_config a c"
  by (simp add: same_config_def)

lemma create_inv:
  assumes "switch_buffer_create sok dok i n = (st, Some b, i')" and "n < 2 ^ 64"
  shows "buf_inv b \<and> \<not> buf_dynamic b \<and> buf_datalen b = n \<and> buf_content b = []"
  using assms
  by (auto simp: switch_buffer_create_def buf_inv_def buf_content_def buf_dynamic_def split: if_splits)

lemma create_dynamic_inv:
  assumes "switch_buffer_create_dynamic sok dok i bs n m = (st, Some b, i')" and "n < 2 ^ 64"
  shows "buf_inv b \<and> buf_dynamic b \<and> buf_content b = []"
  using assms
  by (auto simp: switch_buffer_create_dynamic_def buf_inv_def buf_content_def buf_dynamic_def
      SWITCH_BUFFER_FLAG_DYNAMIC_def split: if_splits)

section \<open>Reading\<close>

lemma toss_effect:
  assumes "buf_inv b"
  shows "switch_buffer_toss b n = (fst (switch_buffer_toss b n), buf_used b - n)"
    and "buf_inv (fst (switch_buffer_toss b n))"
    and "buf_content (fst (switch_buffer_toss b n)) = drop n (buf_content b)"
    and "same_config b (fst (switch_buffer_toss b n))"
    and "buf_datalen (fst (switch_buffer_toss b n)) = buf_datalen b"
  using assms
  by (auto simp: switch_buffer_toss_def buf_inv_def buf_content_def same_config_def Let_def
      drop_take add.commute split: option.splits)

lemma bytes_at_head:
  assumes "buf_inv b" and "n \<le> buf_used b" and "0 < buf_used b"
  shows "buffer_bytes b (buf_head b) n = Inr (take n (buf_content b))"
  using assms by (auto simp: buffer_bytes_def buf_inv_def buf_content_def min_def split: option.splits)

lemma read_effect:
  assumes "buf_inv b"
  shows "switch_buffer_read b n = Inr (fst (switch_buffer_toss b n), take n (buf_content b))"
proof (cases "buf_used b < 1")
  case True
  with assms show ?thesis
    by (auto simp: switch_buffer_read_def switch_buffer_toss_def buf_content_def split: option.splits)
next
  case False
  define r where "r = (if buf_used b \<ge> n then n else buf_used b)"
  from False assms have "buffer_bytes b (buf_head b) r = Inr (take r (buf_content b))"
    by (intro bytes_at_head) (auto simp: r_def)
  moreover have "take r (buf_content b) = take n (buf_content b)"
    using length_content [OF assms] by (auto simp: r_def)
  ultimately show ?thesis
    using False by (simp add: switch_buffer_read_def switch_buffer_toss_def r_def Let_def)
qed

lemma peek_effect:
  assumes "buf_inv b"
  shows "switch_buffer_peek b n = Inr (b, take n (buf_content b))"
proof (cases "buf_used b < 1")
  case True
  then show ?thesis
    by (auto simp: switch_buffer_peek_def buf_content_def split: option.splits)
next
  case False
  define r where "r = (if buf_used b \<ge> n then n else buf_used b)"
  from False assms have "buffer_bytes b (buf_head b) r = Inr (take r (buf_content b))"
    by (intro bytes_at_head) (auto simp: r_def)
  moreover have "take r (buf_content b) = take n (buf_content b)"
    using length_content [OF assms] by (auto simp: r_def)
  ultimately show ?thesis
    using False by (simp add: switch_buffer_peek_def r_def Let_def)
qed

lemma zero_effect:
  assumes "buf_inv b" and "buf_data b \<noteq> None"
  shows "\<exists>b'. switch_buffer_zero b = Inr b' \<and> buf_inv b' \<and> buf_content b' = [] \<and>
      same_config b b' \<and> buf_datalen b' = buf_datalen b"
  using assms by (auto simp: switch_buffer_zero_def buf_inv_def buf_content_def same_config_def)

section \<open>Writing\<close>

lemma compact_effect:
  assumes "buf_inv b" and "buf_data b = Some d"
  shows "\<exists>b'. buffer_compact b d = Inr b' \<and> buf_inv b' \<and> buf_content b' = buf_content b \<and>
      same_config b b' \<and> buf_datalen b' = buf_datalen b \<and> buf_used b' = buf_used b \<and>
      buf_head b' = 0 \<and> buf_actually_used b' = buf_used b"
  using assms by (auto simp: buffer_compact_def buf_inv_def buf_content_def same_config_def)

lemma grow_effect:
  assumes inv: "buf_inv b" and d: "buf_data b = Some d" and h: "buf_head b = 0"
    and ok: "buf_grown b n < 2 ^ 64"
  shows "if realloc_ok hp (buf_grown b n)
         then \<exists>b'. buffer_grow hp b d n = Some b' \<and> buf_inv b' \<and> buf_content b' = buf_content b \<and>
             same_config b b' \<and> buf_datalen b' = buf_grown b n \<and> buf_used b' = buf_used b \<and>
             buf_head b' = 0 \<and> buf_actually_used b' = buf_actually_used b
         else buffer_grow hp b d n = None"
proof -
  have "size_add (buf_datalen b) n = buf_datalen b + n"
    "size_add (buf_datalen b) (buf_blocksize b) = buf_datalen b + buf_blocksize b"
    using ok by (auto simp: buf_grown_def intro!: size_add_exact)
  then have "buffer_grow hp b d n =
     (if realloc_ok hp (buf_grown b n)
      then Some (b\<lparr>buf_data := Some (realloc_bytes hp d (buf_grown b n)), buf_head := 0,
                   buf_datalen := buf_grown b n\<rparr>) else None)"
    by (auto simp: buffer_grow_def buf_grown_def Let_def max_def)
  with inv d h ok show ?thesis
    by (auto simp: buf_inv_def buf_content_def same_config_def realloc_bytes_def buf_grown_def)
qed

lemma store_effect:
  assumes inv: "buf_inv b" and d: "buf_data b \<noteq> None" and src: "src \<noteq> []"
    and au: "buf_actually_used b + length src \<le> buf_datalen b \<or>
             buf_datalen b < buf_used b + length src"
  shows "\<exists>b' r. buffer_store b src = Inr (b', r) \<and> buf_inv b' \<and> same_config b b' \<and>
      buf_datalen b' = buf_datalen b \<and>
      (if buf_used b + length src \<le> buf_datalen b
       then buf_content b' = buf_content b @ src \<and> r = length (buf_content b @ src)
       else buf_content b' = buf_content b \<and> r = 0)"
proof -
  obtain dd where dd: "buf_data b = Some dd" using d by auto
  have len: "length dd = buf_datalen b" and le: "buf_used b \<le> buf_datalen b"
    and lt: "buf_datalen b < 2 ^ 64"
    using inv dd by (auto simp: buf_inv_def)
  have free: "size_sub (buf_datalen b) (buf_used b) = buf_datalen b - buf_used b"
    using le lt by (rule size_sub_exact)
  show ?thesis
  proof (cases "buf_used b + length src \<le> buf_datalen b")
    case False
    then show ?thesis using inv free le by (auto simp: buffer_store_def)
  next
    case True
    with au have fit: "buf_actually_used b + length src \<le> buf_datalen b" by simp
    from True have "\<not> size_sub (buf_datalen b) (buf_used b) < length src"
      using free by simp
    with inv dd fit lt have
      "buffer_store b src =
         Inr (b\<lparr>buf_data := Some (take (buf_head b + buf_used b) dd @ src @
                   drop (buf_head b + buf_used b + length src) dd),
                buf_used := buf_used b + length src,
                buf_actually_used := buf_actually_used b + length src\<rparr>, buf_used b + length src)"
      by (simp add: buffer_store_def buf_inv_def size_add_exact Let_def)
    moreover have "take (buf_used b + length src)
        (drop (buf_head b) (take (buf_head b + buf_used b) dd @ src @
            drop (buf_head b + buf_used b + length src) dd)) = buf_content b @ src"
      using take_drop_splice [of "buf_head b" "buf_used b" dd src] inv dd
      by (simp only: buf_inv_def buf_content_def option.case)
    ultimately show ?thesis
      using True inv dd au lt
      by (auto simp: buf_inv_def buf_content_def same_config_def)
  qed
qed

lemma write_prepare:
  assumes inv: "buf_inv b" and d: "buf_data b = Some d"
  shows "\<exists>b1. (if size_sub (buf_datalen b) (buf_actually_used b) < n then buffer_compact b d
               else Inr b) = Inr b1 \<and>
      buf_inv b1 \<and> buf_content b1 = buf_content b \<and> same_config b b1 \<and>
      buf_datalen b1 = buf_datalen b \<and> buf_used b1 = buf_used b \<and>
      (buf_actually_used b1 + n \<le> buf_datalen b1 \<or>
       (buf_head b1 = 0 \<and> buf_actually_used b1 = buf_used b1))"
proof -
  have le: "buf_actually_used b \<le> buf_datalen b" and lt: "buf_datalen b < 2 ^ 64"
    using inv by (auto simp: buf_inv_def)
  have free: "size_sub (buf_datalen b) (buf_actually_used b) = buf_datalen b - buf_actually_used b"
    using le lt by (rule size_sub_exact)
  show ?thesis
  proof (cases "buf_datalen b - buf_actually_used b < n")
    case True
    with compact_effect [OF inv d] free show ?thesis by auto
  next
    case False
    then have "buf_actually_used b + n \<le> buf_datalen b" using le by arith
    with False inv free show ?thesis by auto
  qed
qed

lemma grow_then_store:
  assumes inv: "buf_inv b" and d: "buf_data b = Some d" and h: "buf_head b = 0"
    and ok: "buf_grown b (length src) < 2 ^ 64" and ne: "src \<noteq> []"
  shows "\<exists>b' r. (case buffer_grow hp b d (length src) of None \<Rightarrow> Inr (b\<lparr>buf_head := 0\<rparr>, 0)
                   | Some b2 \<Rightarrow> buffer_store b2 src) = Inr (b', r) \<and> buf_inv b' \<and> same_config b b' \<and>
      (if realloc_ok hp (buf_grown b (length src))
       then buf_content b' = buf_content b @ src \<and> r = length (buf_content b @ src)
       else buf_content b' = buf_content b \<and> r = 0)"
proof (cases "realloc_ok hp (buf_grown b (length src))")
  case True
  with grow_effect [OF inv d h ok, of hp] obtain b2 where
    b2: "buffer_grow hp b d (length src) = Some b2" "buf_inv b2" "buf_content b2 = buf_content b"
      "same_config b b2" "buf_datalen b2 = buf_grown b (length src)" "buf_used b2 = buf_used b"
      "buf_actually_used b2 = buf_actually_used b"
    by auto
  have "buf_used b2 + length src \<le> buf_datalen b2"
    using b2(5,6) inv by (auto simp: buf_grown_def buf_inv_def)
  moreover have "buf_actually_used b2 = buf_used b2"
    using b2(6,7) inv h by (simp add: buf_inv_def)
  moreover have "buf_data b2 \<noteq> None" using b2(4) d by (simp add: same_config_def)
  ultimately show ?thesis
    using store_effect [OF b2(2) _ ne] b2(1,3,4) True by (auto intro: same_config_trans)
next
  case False
  moreover have "b\<lparr>buf_head := 0\<rparr> = b" using h by simp
  ultimately show ?thesis using grow_effect [OF inv d h ok, of hp] inv by simp
qed

text \<open>
  The effect of a write: never a fault, the block and counters stay consistent, and either all
  bytes are appended behind the unread ones or nothing changes.
\<close>

lemma write_effect:
  assumes inv: "buf_inv b" and d: "buf_data b = Some d"
    and ok: "buf_dynamic b \<Longrightarrow> buf_grown b (length src) < 2 ^ 64"
  shows "\<exists>b' r. switch_buffer_write hp b src = Inr (b', r) \<and> buf_inv b' \<and> same_config b b' \<and>
      (\<not> buf_dynamic b \<longrightarrow> buf_datalen b' = buf_datalen b) \<and>
      (if src = [] then buf_content b' = buf_content b \<and> r = buf_used b
       else if buf_fits hp b (length src)
       then buf_content b' = buf_content b @ src \<and> r = length (buf_content b @ src)
       else buf_content b' = buf_content b \<and> r = 0)"
proof (cases "src = []")
  case True
  then show ?thesis using inv d by (simp add: switch_buffer_write_def)
next
  case ne: False
  let ?n = "length src"
  have le: "buf_used b \<le> buf_datalen b" and lt: "buf_datalen b < 2 ^ 64"
    using inv by (auto simp: buf_inv_def)
  obtain b1 where b1: "(if size_sub (buf_datalen b) (buf_actually_used b) < ?n
        then buffer_compact b d else Inr b) = Inr b1" "buf_inv b1" "buf_content b1 = buf_content b"
      "same_config b b1" "buf_datalen b1 = buf_datalen b" "buf_used b1 = buf_used b"
      "buf_actually_used b1 + ?n \<le> buf_datalen b1 \<or>
       (buf_head b1 = 0 \<and> buf_actually_used b1 = buf_used b1)"
    using write_prepare [OF inv d, of ?n] by blast
  obtain d1 where d1: "buf_data b1 = Some d1" using b1(4) d by (auto simp: same_config_def)
  have dyn: "buf_dynamic b1 = buf_dynamic b" and mx: "buf_max_len b1 = buf_max_len b"
    and gr: "buf_grown b1 ?n = buf_grown b ?n"
    using b1(4,5) by (auto simp: same_config_def buf_dynamic_def buf_grown_def)
  have free1: "size_sub (buf_datalen b1) (buf_used b1) = buf_datalen b - buf_used b"
    using b1(5,6) le lt by (simp add: size_sub_exact)
  have add1: "size_add (buf_used b1) ?n = buf_used b + ?n" if "buf_dynamic b"
    using ok [OF that] b1(6) le by (intro trans [OF size_add_exact]) (auto simp: buf_grown_def)
  show ?thesis
  proof (cases "buf_dynamic b \<and> buf_datalen b - buf_used b < ?n \<and>
                (buf_max_len b = 0 \<or> buf_used b + ?n \<le> buf_max_len b)")
    case grow: True
    then have h0: "buf_head b1 = 0" using b1(2,5,6,7) by (auto simp: buf_inv_def)
    have fits: "buf_fits hp b ?n \<longleftrightarrow> realloc_ok hp (buf_grown b ?n)"
      using grow by (auto simp: buf_fits_def)
    show ?thesis
      using grow_then_store [OF b1(2) d1 h0 _ ne, of hp, unfolded gr] ok
        grow ne d b1(1,3,4) free1 add1 dyn mx d1 fits
      by (auto simp: switch_buffer_write_def intro: same_config_trans)
  next
    case stay: False
    have wr: "switch_buffer_write hp b src = buffer_store b1 src"
      using stay ne d b1(1) free1 add1 dyn mx by (auto simp: switch_buffer_write_def)
    have fits: "buf_fits hp b ?n \<longleftrightarrow> buf_used b1 + ?n \<le> buf_datalen b1"
      using stay b1(5,6) le by (auto simp: buf_fits_def)
    have "buf_actually_used b1 + ?n \<le> buf_datalen b1 \<or> buf_datalen b1 < buf_used b1 + ?n"
      using b1(7) by auto
    then show ?thesis
      using store_effect [OF b1(2) _ ne] d1 wr fits b1(3,4,5) ne by (auto intro: same_config_trans)
  qed
qed

section \<open>A fixed buffer refines a bounded queue\<close>

datatype buf_op =
    Op_write "switch_byte_t list" | Op_zwrite "switch_byte_t list" | Op_slide_write "switch_byte_t list"
  | Op_read nat | Op_peek nat | Op_toss nat | Op_zero | Op_inuse | Op_freespace

datatype buf_out = Count nat | Bytes "switch_byte_t list" | Done | Failed fault

definition lift_out :: "'s \<Rightarrow> ('s \<times> 'r) outcome \<Rightarrow> ('r \<Rightarrow> buf_out) \<Rightarrow> 's \<times> buf_out" where
  "lift_out s m f = (case m of Inl e \<Rightarrow> (s, Failed e) | Inr (s', r) \<Rightarrow> (s', f r))"

fun buffer_step :: "heap \<Rightarrow> buf_op \<Rightarrow> switch_buffer \<Rightarrow> switch_buffer \<times> buf_out" where
  "buffer_step hp (Op_write src) b = lift_out b (switch_buffer_write hp b src) Count"
| "buffer_step hp (Op_zwrite src) b = lift_out b (switch_buffer_zwrite hp b src) Count"
| "buffer_step hp (Op_slide_write src) b = lift_out b (switch_buffer_slide_write hp b src) Count"
| "buffer_step hp (Op_read n) b = lift_out b (switch_buffer_read b n) Bytes"
| "buffer_step hp (Op_peek n) b = lift_out b (switch_buffer_peek b n) Bytes"
| "buffer_step hp (Op_toss n) b = (fst (switch_buffer_toss b n), Count (snd (switch_buffer_toss b n)))"
| "buffer_step hp Op_zero b =
     (case switch_buffer_zero b of Inl e \<Rightarrow> (b, Failed e) | Inr b' \<Rightarrow> (b', Done))"
| "buffer_step hp Op_inuse b = (b, Count (switch_buffer_inuse b))"
| "buffer_step hp Op_freespace b = (b, Count (switch_buffer_freespace b))"

text \<open>The specification: a list of at most \<open>cap\<close> bytes, all-or-nothing writes.\<close>

definition fifo_write ::
  "nat \<Rightarrow> switch_byte_t list \<Rightarrow> switch_byte_t list \<Rightarrow> switch_byte_t list \<times> nat" where
  "fifo_write cap src q =
     (if src = [] then (q, length q)
      else if length q + length src \<le> cap then (q @ src, length q + length src) else (q, 0))"

definition fifo_retry ::
  "nat \<Rightarrow> switch_byte_t list \<Rightarrow> switch_byte_t list \<Rightarrow> switch_byte_t list \<Rightarrow>
     switch_byte_t list \<times> buf_out" where
  "fifo_retry cap src q q_retry =
     (if snd (fifo_write cap src q) = 0
      then map_prod (\<lambda>x. x) Count (fifo_write cap src q_retry)
      else map_prod (\<lambda>x. x) Count (fifo_write cap src q))"

fun fifo_step :: "nat \<Rightarrow> buf_op \<Rightarrow> switch_byte_t list \<Rightarrow> switch_byte_t list \<times> buf_out" where
  "fifo_step cap (Op_write src) q = map_prod (\<lambda>x. x) Count (fifo_write cap src q)"
| "fifo_step cap (Op_zwrite src) q = fifo_retry cap src q []"
| "fifo_step cap (Op_slide_write src) q = fifo_retry cap src q (drop (length src) q)"
| "fifo_step cap (Op_read n) q = (drop n q, Bytes (take n q))"
| "fifo_step cap (Op_peek n) q = (q, Bytes (take n q))"
| "fifo_step cap (Op_toss n) q = (drop n q, Count (length q - n))"
| "fifo_step cap Op_zero q = ([], Done)"
| "fifo_step cap Op_inuse q = (q, Count (length q))"
| "fifo_step cap Op_freespace q = (q, Count (cap - length q))"

definition fixed_inv :: "nat \<Rightarrow> switch_buffer \<Rightarrow> bool" where
  "fixed_inv cap b \<longleftrightarrow> buf_inv b \<and> \<not> buf_dynamic b \<and> buf_datalen b = cap"

lemma fixed_data: "fixed_inv cap b \<Longrightarrow> \<exists>d. buf_data b = Some d"
  by (auto simp: fixed_inv_def buf_inv_def split: option.splits)

lemma fixed_config:
  "fixed_inv cap b \<Longrightarrow> buf_inv b' \<Longrightarrow> same_config b b' \<Longrightarrow> buf_datalen b' = buf_datalen b \<Longrightarrow>
     fixed_inv cap b'"
  by (auto simp: fixed_inv_def same_config_def buf_dynamic_def)

lemma fixed_write:
  assumes "fixed_inv cap b"
  shows "\<exists>b'. switch_buffer_write hp b src = Inr (b', snd (fifo_write cap src (buf_content b))) \<and>
      fixed_inv cap b' \<and> buf_content b' = fst (fifo_write cap src (buf_content b))"
proof -
  obtain d where d: "buf_data b = Some d" using fixed_data [OF assms] by blast
  have inv: "buf_inv b" and dyn: "\<not> buf_dynamic b" and cap: "buf_datalen b = cap"
    using assms by (auto simp: fixed_inv_def)
  have fits: "buf_fits hp b n \<longleftrightarrow> length (buf_content b) + n \<le> cap" for n
    using dyn cap by (simp add: buf_fits_def length_content [OF inv])
  from write_effect [OF inv d, of src hp] dyn obtain b' r where
    w: "switch_buffer_write hp b src = Inr (b', r)" "buf_inv b'" "same_config b b'"
      "buf_datalen b' = buf_datalen b"
      "if src = [] then buf_content b' = buf_content b \<and> r = buf_used b
       else if buf_fits hp b (length src)
       then buf_content b' = buf_content b @ src \<and> r = length (buf_content b @ src)
       else buf_content b' = buf_content b \<and> r = 0"
    by auto
  have "fixed_inv cap b'" using fixed_config [OF assms w(2,3,4)] .
  moreover have "r = snd (fifo_write cap src (buf_content b))"
    "buf_content b' = fst (fifo_write cap src (buf_content b))"
    using w(5) by (auto simp: fifo_write_def fits length_content [OF inv] split: if_splits)
  ultimately show ?thesis using w(1) by blast
qed

lemma fixed_toss:
  assumes "fixed_inv cap b"
  shows "fixed_inv cap (fst (switch_buffer_toss b n))"
  using assms by (intro fixed_config [OF assms] toss_effect) (simp_all add: fixed_inv_def)

lemma fixed_zero:
  "fixed_inv cap b \<Longrightarrow> \<exists>b'. switch_buffer_zero b = Inr b' \<and> fixed_inv cap b' \<and> buf_content b' = []"
  using zero_effect [of b] fixed_data [of cap b] fixed_config [of cap b]
  by (auto simp: fixed_inv_def)

lemma fixed_retry:
  assumes w: "switch_buffer_write hp b src = Inr (b1, w)" "w = snd (fifo_write cap src (buf_content b))"
      "buf_content b1 = fst (fifo_write cap src (buf_content b))" "fixed_inv cap b1"
    and r: "fixed_inv cap b2" "w = 0 \<Longrightarrow> buf_content b2 = q"
  shows "\<exists>b' r. (if w = 0 then switch_buffer_write hp b2 src else Inr (b1, w)) = Inr (b', r) \<and>
      fixed_inv cap b' \<and> (buf_content b', Count r) = fifo_retry cap src (buf_content b) q"
proof (cases "w = 0")
  case True
  with fixed_write [OF r(1), of hp src] r(2) w(2) show ?thesis
    by (auto simp: fifo_retry_def map_prod_def split: prod.splits)
next
  case False
  with w show ?thesis
    by (auto simp: fifo_retry_def map_prod_def split: prod.splits)
qed

lemma fifo_write_failed: "snd (fifo_write cap src q) = 0 \<Longrightarrow> fst (fifo_write cap src q) = q"
  by (auto simp: fifo_write_def split: if_splits)

lemma buffer_step_sim:
  assumes "fixed_inv cap b"
  shows "fixed_inv cap (fst (buffer_step hp x b)) \<and>
     fifo_step cap x (buf_content b) =
       (buf_content (fst (buffer_step hp x b)), snd (buffer_step hp x b))"
proof -
  have inv: "buf_inv b" using assms by (simp add: fixed_inv_def)
  obtain b1 where b1: "switch_buffer_write hp b src = Inr (b1 src, snd (fifo_write cap src (buf_content b)))"
      "fixed_inv cap (b1 src)" "buf_content (b1 src) = fst (fifo_write cap src (buf_content b))" for src
    using fixed_write [OF assms, of hp] by metis
  show ?thesis
  proof (cases x)
    case (Op_write src)
    then show ?thesis using b1 [of src] by (simp add: lift_out_def map_prod_def split: prod.splits)
  next
    case (Op_zwrite src)
    obtain b2 where "switch_buffer_zero (b1 src) = Inr b2" "fixed_inv cap b2" "buf_content b2 = []"
      using fixed_zero [OF b1(2) [of src]] by blast
    with Op_zwrite fixed_retry [OF b1(1) [of src] refl b1(3,2), of b2 "[]"] b1(1) [of src] show ?thesis
      by (auto simp: switch_buffer_zwrite_def lift_out_def)
  next
    case (Op_slide_write src)
    let ?b2 = "fst (switch_buffer_toss (b1 src) (length src))"
    have "fixed_inv cap ?b2" by (rule fixed_toss [OF b1(2)])
    moreover have "buf_content ?b2 = drop (length src) (buf_content b)"
      if "snd (fifo_write cap src (buf_content b)) = 0"
      using toss_effect(3) [of "b1 src" "length src"] b1(2,3) [of src] fifo_write_failed [OF that]
      by (simp add: fixed_inv_def)
    ultimately show ?thesis
      using Op_slide_write fixed_retry [OF b1(1) [of src] refl b1(3,2), of ?b2] b1(1) [of src]
      by (auto simp: switch_buffer_slide_write_def lift_out_def)
  next
    case (Op_read n)
    then show ?thesis
      using read_effect [OF inv, of n] toss_effect [OF inv, of n] fixed_toss [OF assms, of n]
      by (simp add: lift_out_def)
  next
    case (Op_peek n)
    then show ?thesis using peek_effect [OF inv, of n] assms by (simp add: lift_out_def)
  next
    case (Op_toss n)
    then show ?thesis
      using toss_effect [OF inv, of n] fixed_toss [OF assms, of n] length_content [OF inv]
      by (metis buffer_step.simps(6) fifo_step.simps(6) fst_conv snd_conv)
  next
    case Op_zero
    then show ?thesis using fixed_zero [OF assms] by auto
  next
    case Op_inuse
    then show ?thesis using assms length_content [OF inv] by (simp add: switch_buffer_inuse_def)
  next
    case Op_freespace
    then show ?thesis
      using assms length_content [OF inv]
      by (auto simp: switch_buffer_freespace_def fixed_inv_def buf_inv_def size_sub_exact)
  qed
qed

interpretation fixed_fifo: data_refinement
  "fixed_inv cap" buf_content "buffer_step hp" "fifo_step cap" for cap hp
  by unfold_locales (use buffer_step_sim in auto)

section \<open>Properties\<close>

text \<open>
  C13. A buffer from \<open>switch_buffer_create\<close> answers every sequence of writes, reads, peeks,
  tosses, resets, overwriting and sliding writes exactly as a queue of at most \<open>max_len\<close> bytes
  does: no byte is lost, duplicated or reordered, a write is all or nothing, and no operation
  runs outside the block.
\<close>

theorem fixed_buffer_refines_fifo:
  assumes "switch_buffer_create True True i cap = (st, Some b, i')" and "cap < 2 ^ 64"
  shows "snd (run_ops (buffer_step hp) xs b) = snd (run_ops (fifo_step cap) xs [])"
proof -
  from create_inv [OF assms] have "fixed_inv cap b" "buf_content b = []"
    by (auto simp: fixed_inv_def)
  with fixed_fifo.run_outputs show ?thesis by metis
qed

theorem fixed_buffer_refines_fifo_witness:
  "snd (run_ops (buffer_step \<lparr>realloc_ok = (\<lambda>_. False), junk = (\<lambda>_. 0)\<rparr>)
     [Op_write [1, 2, 3], Op_read 2, Op_write [4, 5], Op_write [6, 7], Op_slide_write [6, 7], Op_read 9]
     (the (fst (snd (switch_buffer_create True True 0 4))))) =
   [Count 3, Bytes [1, 2], Count 3, Count 0, Count 3, Bytes [5, 6, 7]]"
  (is "snd (run_ops (buffer_step ?hp) ?xs ?b) = _")
proof -
  have "switch_buffer_create True True 0 4 = (SWITCH_STATUS_SUCCESS, Some ?b, 1)"
    by (simp add: switch_buffer_create_def)
  then have "snd (run_ops (buffer_step ?hp) ?xs ?b) = snd (run_ops (fifo_step 4) ?xs [])"
    by (rule fixed_buffer_refines_fifo) simp
  also have "\<dots> = [Count 3, Bytes [1, 2], Count 3, Count 0, Count 3, Bytes [5, 6, 7]]"
    by code_simp
  finally show ?thesis .
qed

text \<open>
  A write to a fixed or dynamic buffer whose counters are consistent never faults and
  leaves them consistent; it appends all bytes, at the tail, compacting or enlarging the block as
  needed, exactly when they fit in the block or in the block \<open>realloc\<close> may give within
  \<open>max_len\<close>, and otherwise returns 0 and keeps the contents.
\<close>

theorem buffer_write_appends:
  assumes "buf_inv b" and "buf_data b = Some d" and "src \<noteq> []"
    and "buf_grown b (length src) < 2 ^ 64"
  shows "\<exists>b' r. switch_buffer_write hp b src = Inr (b', r) \<and> buf_inv b' \<and>
     (if buf_fits hp b (length src)
      then buf_content b' = buf_content b @ src \<and> r = length (buf_content b')
      else buf_content b' = buf_content b \<and> r = 0)"
  using write_effect [OF assms(1,2,4), of hp] assms(3)
  by (cases "buf_fits hp b (length src)") auto

theorem buffer_write_appends_witness:
  "\<exists>b' r. switch_buffer_write \<lparr>realloc_ok = (\<lambda>_. True), junk = (\<lambda>_. 7)\<rparr>
      (the (fst (snd (switch_buffer_create_dynamic True True 0 2 1 0)))) [1, 2] = Inr (b', r) \<and>
      buf_inv b' \<and> buf_content b' = [1, 2] \<and> r = 2"
proof -
  let ?b = "the (fst (snd (switch_buffer_create_dynamic True True 0 2 1 0)))"
  have "buf_inv ?b" "buf_data ?b = Some [0]" "buf_grown ?b (length [1, 2 :: 8 word]) < 2 ^ 64"
    "buf_content ?b = []" "buf_used ?b = 0" "buf_datalen ?b = 1" "buf_dynamic ?b" "buf_max_len ?b = 0"
    by (simp_all add: switch_buffer_create_dynamic_def buf_inv_def buf_grown_def buf_content_def
        buf_dynamic_def SWITCH_BUFFER_FLAG_DYNAMIC_def)
  then show ?thesis
    using buffer_write_appends [of ?b "[0]" "[1, 2]" "\<lparr>realloc_ok = (\<lambda>_. True), junk = (\<lambda>_. 7)\<rparr>"]
    by (auto simp: buf_fits_def)
qed

text \<open>
  C26. Looped playback: while unread bytes remain \<open>switch_buffer_read_loop\<close> reads on; when
  they are used up it rewinds to everything written so far, once per remaining loop, endlessly
  for a negative count, and reads nothing once the last loop is over.
\<close>

theorem buffer_read_loop_playback:
  assumes inv: "buf_inv b" and d: "buf_data b = Some d" and n: "0 < n"
    and au: "0 < buf_actually_used b"
  shows "\<exists>b' out. switch_buffer_read_loop b n = Inr (b', out) \<and> buf_inv b' \<and>
     buf_data b' = Some d \<and> buf_actually_used b' = buf_actually_used b \<and>
     (if 0 < buf_used b then out = take n (buf_content b) \<and> buf_loops b' = buf_loops b
      else if buf_loops b = 0 \<or> buf_loops b = 1 then out = [] \<and> buf_loops b' = 0
      else out = take n (take (buf_actually_used b) d) \<and> out \<noteq> [] \<and>
           buf_loops b' = (if 0 < buf_loops b then buf_loops b - 1 else buf_loops b))"
proof (cases "0 < buf_used b")
  case True
  then have "take n (buf_content b) \<noteq> []"
    using n length_content [OF inv] by auto
  moreover have "buf_loops (fst (switch_buffer_toss b n)) = buf_loops b"
    "buf_data (fst (switch_buffer_toss b n)) = Some d"
    "buf_actually_used (fst (switch_buffer_toss b n)) = buf_actually_used b"
    using d by (simp_all add: switch_buffer_toss_def Let_def)
  ultimately show ?thesis
    using read_effect [OF inv, of n] toss_effect(2) [OF inv, of n] True
    by (simp add: switch_buffer_read_loop_def)
next
  case False
  define l where "l = (if 0 < buf_loops b then buf_loops b - 1 else buf_loops b)"
  let ?c = "b\<lparr>buf_loops := l, buf_head := 0, buf_used := buf_actually_used b\<rparr>"
  from False have b0: "b\<lparr>buf_used := 0\<rparr> = b" by simp
  have invs: "buf_inv (b\<lparr>buf_loops := l\<rparr>)" "buf_inv ?c"
    using inv d by (auto simp: buf_inv_def)
  have len: "length d = buf_datalen b" "buf_actually_used b \<le> buf_datalen b"
    using inv d by (auto simp: buf_inv_def)
  have "switch_buffer_read_loop b n =
      (if l = 0 then Inr (b\<lparr>buf_loops := l\<rparr>, []) else switch_buffer_read ?c n)"
    using False b0 by (simp add: switch_buffer_read_loop_def switch_buffer_read_def l_def Let_def)
  moreover have "switch_buffer_read ?c n =
      Inr (fst (switch_buffer_toss ?c n), take n (take (buf_actually_used b) d))"
    using read_effect [OF invs(2), of n] d by (simp add: buf_content_def)
  moreover have "buf_inv (fst (switch_buffer_toss ?c n))" by (rule toss_effect(2) [OF invs(2)])
  moreover have "buf_loops (fst (switch_buffer_toss ?c n)) = l"
    "buf_data (fst (switch_buffer_toss ?c n)) = Some d"
    "buf_actually_used (fst (switch_buffer_toss ?c n)) = buf_actually_used b"
    using d by (simp_all add: switch_buffer_toss_def Let_def)
  moreover have "take n (take (buf_actually_used b) d) \<noteq> []" using n au len by auto
  ultimately show ?thesis using False invs(1) d by (auto simp: l_def)
qed

theorem buffer_read_loop_playback_witness:
  "\<exists>b' out. switch_buffer_read_loop
      \<lparr>buf_data = Some [8, 9, 0], buf_head = 2, buf_used = 0, buf_actually_used = 2, buf_datalen = 3,
       buf_max_len = 0, buf_blocksize = 0, buf_mutex = None, buf_flags = 0, buf_id = 0, buf_loops = 3\<rparr> 5
     = Inr (b', out) \<and> out = [8, 9] \<and> buf_loops b' = 2"
  using buffer_read_loop_playback [of "\<lparr>buf_data = Some [8, 9, 0], buf_head = 2, buf_used = 0,
       buf_actually_used = 2, buf_datalen = 3, buf_max_len = 0, buf_blocksize = 0, buf_mutex = None,
       buf_flags = 0, buf_id = 0, buf_loops = 3\<rparr>" "[8, 9, 0]" 5]
  by (auto simp: buf_inv_def)

text \<open>
  The documented limit \<open>max_len\<close> ("length the buffer is allowed to grow to") is only
  consulted when the block must grow: a dynamic buffer that starts larger than its limit accepts
  writes past it, and \<open>switch_buffer_freespace\<close> then wraps around to almost \<open>2 ^ 64\<close>.
\<close>

theorem buffer_freespace_wraps:
  "\<exists>b b'. fst (snd (switch_buffer_create_dynamic True True 0 8 8 4)) = Some b \<and>
     switch_buffer_write hp b [1, 2, 3, 4, 5, 6] = Inr (b', 6) \<and>
     switch_buffer_freespace b' = 2 ^ 64 - 2"
  by (simp add: switch_buffer_create_dynamic_def switch_buffer_write_def buffer_store_def
      switch_buffer_freespace_def buf_dynamic_def SWITCH_BUFFER_FLAG_DYNAMIC_def
      size_sub_def size_add_def Let_def)

end
