(* ===== verification/Strings.thy ===== *)
theory Strings
  imports Prelude
begin

text \<open>
  String routines of \<^verbatim>\<open>switch_utils.c\<close>: the character tables, the DTMF code
  conversions, the tokenisers that split an argument string at a delimiter and strip quotes and
  escapes, search and replace, shell quoting, escaping.  A \<open>char *\<close> into a buffer is the
  list of the bytes that remain before the NUL; reading past the NUL is the fault
  \<open>OutOfBounds\<close>.
\<close>

section \<open>Character tables\<close>

text \<open>
  The tables have 257 entries, the one for \<open>EOF = -1\<close> first, then one for each byte.
\<close>

definition switch_C_toupper :: "int list" where
  "switch_C_toupper = -1 # map (\<lambda>n. if 97 \<le> n \<and> n \<le> 122 then n - 32 else n) [0..255]"

definition switch_C_tolower :: "int list" where
  "switch_C_tolower = -1 # map (\<lambda>n. if 65 \<le> n \<and> n \<le> 90 then n + 32 else n) [0..255]"

definition switch_toupper :: "int \<Rightarrow> int" where
  "switch_toupper c = (if c < 0 \<or> c > 255 then c else switch_C_toupper ! nat (c + 1))"

definition switch_tolower :: "int \<Rightarrow> int" where
  "switch_tolower c = (if c < 0 \<or> c > 255 then c else switch_C_tolower ! nat (c + 1))"

text \<open>The class bits \<open>_U _L _N _S _P _C _X _B\<close> and the table of the C locale, row by row.\<close>

definition ct_U :: nat where "ct_U = 1"
definition ct_L :: nat where "ct_L = 2"
definition ct_N :: nat where "ct_N = 4"
definition ct_S :: nat where "ct_S = 8"
definition ct_P :: nat where "ct_P = 16"
definition ct_C :: nat where "ct_C = 32"
definition ct_X :: nat where "ct_X = 64"
definition ct_B :: nat where "ct_B = 128"

definition switch_C_ctype :: "nat list" where
  "switch_C_ctype =
     [0] @
     replicate 8 ct_C @
     [ct_C] @ replicate 5 (ct_C OR ct_S) @ replicate 2 ct_C @
     replicate 16 ct_C @
     [ct_S OR ct_B] @ replicate 7 ct_P @
     replicate 8 ct_P @
     replicate 8 ct_N @
     replicate 2 ct_N @ replicate 6 ct_P @
     [ct_P] @ replicate 6 (ct_U OR ct_X) @ [ct_U] @
     replicate 16 ct_U @
     replicate 3 ct_U @ replicate 5 ct_P @
     [ct_P] @ replicate 6 (ct_L OR ct_X) @ [ct_L] @
     replicate 16 ct_L @
     replicate 3 ct_L @ replicate 4 ct_P @ [ct_C] @
     replicate 32 ct_C @
     replicate 96 ct_P"

definition ctype_test :: "nat \<Rightarrow> int \<Rightarrow> nat" where
  "ctype_test bits c =
     (if c < 0 then 0 else if c > 255 then 0 else (switch_C_ctype ! nat (c + 1)) AND bits)"

definition switch_isalnum :: "int \<Rightarrow> nat" where
  "switch_isalnum c = ctype_test (ct_U OR ct_L OR ct_N) c"
definition switch_isalpha :: "int \<Rightarrow> nat" where
  "switch_isalpha c = ctype_test (ct_U OR ct_L) c"
definition switch_iscntrl :: "int \<Rightarrow> nat" where
  "switch_iscntrl c = ctype_test ct_C c"
definition switch_isdigit :: "int \<Rightarrow> nat" where
  "switch_isdigit c = ctype_test ct_N c"
definition switch_isgraph :: "int \<Rightarrow> nat" where
  "switch_isgraph c = ctype_test (ct_P OR ct_U OR ct_L OR ct_N) c"
definition switch_islower :: "int \<Rightarrow> nat" where
  "switch_islower c = ctype_test ct_L c"
definition switch_isprint :: "int \<Rightarrow> nat" where
  "switch_isprint c = ctype_test (ct_P OR ct_U OR ct_L OR ct_N OR ct_B) c"
definition switch_ispunct :: "int \<Rightarrow> nat" where
  "switch_ispunct c = ctype_test ct_P c"
definition switch_isspace :: "int \<Rightarrow> nat" where
  "switch_isspace c = ctype_test ct_S c"
definition switch_isupper :: "int \<Rightarrow> nat" where
  "switch_isupper c = ctype_test ct_U c"
definition switch_isxdigit :: "int \<Rightarrow> nat" where
  "switch_isxdigit c = ctype_test (ct_N OR ct_X) c"

lemmas ctype_defs =
  switch_isalnum_def switch_isalpha_def switch_iscntrl_def switch_isdigit_def switch_isgraph_def
  switch_islower_def switch_isprint_def switch_ispunct_def switch_isspace_def switch_isupper_def
  switch_isxdigit_def

section \<open>DTMF codes\<close>

definition RFC2833_CHARS :: string where
  "RFC2833_CHARS = ''0123456789*#ABCDF''"

text \<open>\<open>sizeof\<close> counts the terminating NUL, which the last valid event reads.\<close>

definition switch_rfc2833_to_char :: "int \<Rightarrow> char" where
  "switch_rfc2833_to_char event =
     (if event > -1 \<and> event < 18 then (RFC2833_CHARS @ [CHR 0x00]) ! nat event else CHR 0x00)"

text \<open>\<open>char\<close> is signed: a byte above 127 reaches \<open>switch_toupper\<close> as a negative number.\<close>

definition char_to_int :: "char \<Rightarrow> int" where
  "char_to_int c = (let n = of_char c in if n < 128 then n else n - 256)"

definition int_to_char :: "int \<Rightarrow> char" where
  "int_to_char n = char_of (n mod 256)"

fun rfc2833_scan :: "string \<Rightarrow> char \<Rightarrow> uint8 \<Rightarrow> uint8" where
  "rfc2833_scan [] key counter = 0"
| "rfc2833_scan (c # cs) key counter = (if c = key then counter else rfc2833_scan cs key (counter + 1))"

definition switch_char_to_rfc2833 :: "char \<Rightarrow> uint8" where
  "switch_char_to_rfc2833 key =
     rfc2833_scan RFC2833_CHARS (int_to_char (switch_toupper (char_to_int key))) 0"

section \<open>Splitting an argument string\<close>

abbreviation "ESCAPE_META \<equiv> CHR 0x5C"
abbreviation "QUOTE \<equiv> CHR 0x27"
abbreviation "DQUOTE \<equiv> CHR 0x22"
abbreviation "SPACE \<equiv> CHR 0x20"

definition unescape_char :: "char \<Rightarrow> char" where
  "unescape_char e =
     (if e = CHR ''n'' then CHR 0x0A else if e = CHR ''r'' then CHR 0x0D
      else if e = CHR ''t'' then CHR 0x09 else if e = CHR ''s'' then SPACE else e)"

text \<open>
  The loop of \<open>cleanup_separated_string\<close> writes its output over its input, never ahead of
  the reading position; \<open>out\<close> is what is written, \<open>fin\<close> the position of \<open>end\<close> in it.  The
  delimiter is \<open>None\<close> for the byte 0.
\<close>

definition escape_value :: "char option \<Rightarrow> char \<Rightarrow> char option" where
  "escape_value delim e =
     (if e = QUOTE \<or> e = DQUOTE \<or> delim = Some e \<or> e = ESCAPE_META then Some e
      else if unescape_char e \<noteq> e then Some (unescape_char e) else None)"

fun cleanup_loop :: "char option \<Rightarrow> bool \<Rightarrow> string \<Rightarrow> nat \<Rightarrow> string \<Rightarrow> string" where
  "cleanup_loop delim inside out fin [] = take fin out"
| "cleanup_loop delim inside out fin (c # cs) =
     (case (if c = ESCAPE_META then (case cs of [] \<Rightarrow> None | e # es \<Rightarrow> escape_value delim e) else None) of
        Some e' \<Rightarrow> cleanup_loop delim inside (out @ [e']) (length out + 1) (tl cs)
      | None \<Rightarrow>
          if c = QUOTE \<and> (inside \<or> QUOTE \<in> set cs) then
            cleanup_loop delim (\<not> inside) out (if \<not> inside then length out else fin) cs
          else
            cleanup_loop delim inside (out @ [c])
              (if c \<noteq> SPACE \<or> inside then length out + 1 else fin) cs)"

definition cleanup_separated_string :: "string \<Rightarrow> char option \<Rightarrow> string" where
  "cleanup_separated_string str delim =
     cleanup_loop delim False [] 0 (dropWhile (\<lambda>c. c = SPACE) str)"

text \<open>
  \<open>switch_separate_string_string\<close>: the entries of \<open>array\<close>.  \<open>slots\<close> is what is left of
  \<open>arraylen\<close>.
\<close>

function split_string_loop :: "string \<Rightarrow> nat \<Rightarrow> string \<Rightarrow> string list" where
  "split_string_loop delim slots buf =
     (case (if slots = 0 then None else strstr buf delim) of
        Some i \<Rightarrow> take i buf # split_string_loop delim (slots - 1) (drop (i + length delim) buf)
      | None \<Rightarrow> [buf])"
  by pat_completeness auto
termination
  by (relation "measure (\<lambda>(d, n, b). n)") (auto split: if_splits)

declare split_string_loop.simps [simp del]

definition switch_separate_string_string :: "string \<Rightarrow> string \<Rightarrow> nat \<Rightarrow> string list" where
  "switch_separate_string_string buf delim arraylen = split_string_loop delim (arraylen - 1) buf"

text \<open>
  The two tokenisers as the automata they are: \<open>slots\<close> is \<open>arraylen - count\<close>, \<open>tok\<close> the
  bytes of the current entry read so far.  An entry that takes the last slot is the whole rest
  of the buffer.  A lone backslash before the NUL makes the pointer skip the NUL.
\<close>

fun sep_start :: "char \<Rightarrow> nat \<Rightarrow> bool \<Rightarrow> string \<Rightarrow> string list outcome"
  and sep_find :: "char \<Rightarrow> nat \<Rightarrow> bool \<Rightarrow> string \<Rightarrow> string \<Rightarrow> string list outcome" where
  "sep_start delim slots inside [] = Inr []"
| "sep_start delim 0 inside (c # cs) = Inr []"
| "sep_start delim (Suc 0) inside (c # cs) = Inr [c # cs]"
| "sep_start delim (Suc (Suc n)) inside (c # cs) = sep_find delim (Suc n) inside [] (c # cs)"
| "sep_find delim slots inside tok [] = Inr [tok]"
| "sep_find delim slots inside tok (c # cs) =
     (if c = ESCAPE_META then
        (case cs of [] \<Rightarrow> Inl OutOfBounds
                  | e # es \<Rightarrow> sep_find delim slots inside (tok @ [c, e]) es)
      else if c = QUOTE \<and> (inside \<or> QUOTE \<in> set cs) then
        sep_find delim slots (\<not> inside) (tok @ [c]) cs
      else if c = delim \<and> \<not> inside then
        bindE (sep_start delim slots inside cs) (\<lambda>ts. Inr (tok # ts))
      else sep_find delim slots inside (tok @ [c]) cs)"

definition separate_string_char_delim :: "string \<Rightarrow> char \<Rightarrow> nat \<Rightarrow> string list outcome" where
  "separate_string_char_delim buf delim arraylen =
     bindE (sep_start delim arraylen False buf)
       (\<lambda>ts. Inr (map (\<lambda>t. cleanup_separated_string t (Some delim)) ts))"

fun blank_start :: "nat \<Rightarrow> bool \<Rightarrow> string \<Rightarrow> string list outcome"
  and blank_skip :: "nat \<Rightarrow> bool \<Rightarrow> string \<Rightarrow> string \<Rightarrow> string list outcome"
  and blank_find :: "nat \<Rightarrow> bool \<Rightarrow> string \<Rightarrow> string \<Rightarrow> string list outcome"
  and blank_end :: "nat \<Rightarrow> bool \<Rightarrow> string \<Rightarrow> string list outcome" where
  "blank_start slots inside [] = Inr []"
| "blank_start 0 inside (c # cs) = Inr []"
| "blank_start (Suc 0) inside (c # cs) = Inr [c # cs]"
| "blank_start (Suc (Suc n)) inside (c # cs) = blank_skip (Suc n) inside [] (c # cs)"
| "blank_skip slots inside tok [] = Inr [tok]"
| "blank_skip slots inside tok (c # cs) =
     (if c = SPACE then blank_skip slots inside (tok @ [c]) cs
      else blank_find slots inside tok (c # cs))"
| "blank_find slots inside tok [] = Inr [tok]"
| "blank_find slots inside tok (c # cs) =
     (if c = ESCAPE_META then
        (case cs of [] \<Rightarrow> Inl OutOfBounds
                  | e # es \<Rightarrow> blank_find slots inside (tok @ [c, e]) es)
      else if c = QUOTE then blank_find slots (\<not> inside) (tok @ [c]) cs
      else if c = SPACE \<and> \<not> inside then
        bindE (blank_end slots inside cs) (\<lambda>ts. Inr (tok # ts))
      else blank_find slots inside (tok @ [c]) cs)"
| "blank_end slots inside [] = Inr []"
| "blank_end slots inside (c # cs) =
     (if c = SPACE then blank_end slots inside cs else blank_start slots inside (c # cs))"

definition separate_string_blank_delim :: "string \<Rightarrow> nat \<Rightarrow> string list outcome" where
  "separate_string_blank_delim buf arraylen =
     bindE (blank_start arraylen False buf)
       (\<lambda>ts. Inr (map (\<lambda>t. cleanup_separated_string t None) ts))"

text \<open>
  The result is the filled entries of \<open>array\<close>; their number is the C result.
\<close>

definition switch_separate_string ::
  "string option \<Rightarrow> char \<Rightarrow> nat \<Rightarrow> string list outcome" where
  "switch_separate_string buf delim arraylen =
     (case buf of
        None \<Rightarrow> Inr []
      | Some b \<Rightarrow>
          if arraylen = 0 then Inr []
          else if delim = SPACE then separate_string_blank_delim b arraylen
          else separate_string_char_delim b delim arraylen)"

section \<open>Search, replace, quote, escape\<close>

text \<open>
  \<open>switch_find_end_paren\<close>: the position of the closing bracket; \<open>paren_scan\<close> is its loop
  from position \<open>pos\<close> on.
\<close>

fun paren_scan :: "char \<Rightarrow> char \<Rightarrow> nat \<Rightarrow> nat \<Rightarrow> string \<Rightarrow> nat option" where
  "paren_scan opn cls depth pos [] = None"
| "paren_scan opn cls depth pos (c # cs) =
     (if c = opn \<and> opn \<noteq> cls then paren_scan opn cls (depth + 1) (pos + 1) cs
      else if c = cls then
        (if depth - 1 = 0 then Some pos else paren_scan opn cls (depth - 1) (pos + 1) cs)
      else paren_scan opn cls depth (pos + 1) cs)"

definition switch_find_end_paren :: "string option \<Rightarrow> char \<Rightarrow> char \<Rightarrow> nat option" where
  "switch_find_end_paren s opn cls =
     (case s of
        None \<Rightarrow> None
      | Some str \<Rightarrow>
          let k = length (takeWhile (\<lambda>c. c = SPACE) str) in
          case drop k str of
            [] \<Rightarrow> None
          | c # cs \<Rightarrow> if c = opn then paren_scan opn cls 1 (k + 1) cs else None)"

text \<open>
  \<open>switch_cut_path\<close>: what follows the last slash; if there is a backslash, what follows the
  last backslash, since that pass comes second.
\<close>

definition after_last :: "char \<Rightarrow> string \<Rightarrow> string option" where
  "after_last c s = (if c \<in> set s then Some (rev (takeWhile (\<lambda>x. x \<noteq> c) (rev s))) else None)"

definition switch_cut_path :: "string option \<Rightarrow> string option" where
  "switch_cut_path inp =
     (case inp of
        None \<Rightarrow> None
      | Some s \<Rightarrow>
          let ret1 = (case after_last (CHR ''/'') s of None \<Rightarrow> s | Some r \<Rightarrow> r);
              ret2 = (case after_last ESCAPE_META s of None \<Rightarrow> ret1 | Some r \<Rightarrow> r)
          in Some ret2)"

definition switch_string_match :: "string \<Rightarrow> string \<Rightarrow> switch_status_t" where
  "switch_string_match str search =
     (if prefix search str then SWITCH_STATUS_SUCCESS else SWITCH_STATUS_FALSE)"

text \<open>
  \<open>switch_string_replace\<close>: with an empty search string the index is set back by one on every
  round and the loop does not end, which is the value \<open>None\<close>.
\<close>

partial_function (option) string_replace_loop :: "string \<Rightarrow> string \<Rightarrow> string \<Rightarrow> string \<Rightarrow> string option" where
  "string_replace_loop search repl dest str =
     (case str of
        [] \<Rightarrow> Some dest
      | c # cs \<Rightarrow>
          if switch_string_match str search = SWITCH_STATUS_SUCCESS
          then string_replace_loop search repl (dest @ repl) (drop (length search) str)
          else string_replace_loop search repl (dest @ [c]) cs)"

definition switch_string_replace :: "string \<Rightarrow> string \<Rightarrow> string \<Rightarrow> string option" where
  "switch_string_replace str search repl = string_replace_loop search repl [] str"

text \<open>
  \<open>switch_util_quote_shell_arg\<close> (the branch for systems other than Windows) with its final
  assertion on the computed length.
\<close>

fun quote_loop :: "string \<Rightarrow> nat \<Rightarrow> string \<Rightarrow> string \<times> nat" where
  "quote_loop dest dest_len [] = (dest, dest_len)"
| "quote_loop dest dest_len (c # cs) =
     (if c = QUOTE then quote_loop (dest @ [QUOTE, ESCAPE_META, QUOTE, QUOTE]) (dest_len + 3) cs
      else quote_loop (dest @ [c]) dest_len cs)"

definition switch_util_quote_shell_arg :: "string \<Rightarrow> string outcome" where
  "switch_util_quote_shell_arg str =
     (let (dest, dest_len) = quote_loop [QUOTE] (length str + 1) str;
          dest = dest @ [QUOTE]
      in if length dest + 1 = dest_len + 2 then Inr dest else Inl AssertionFailed)"

fun switch_escape_string :: "string \<Rightarrow> string" where
  "switch_escape_string [] = []"
| "switch_escape_string (c # cs) =
     (if c = CHR 0x0A then ESCAPE_META # CHR ''n'' # switch_escape_string cs
      else if c = CHR 0x0D then ESCAPE_META # CHR ''r'' # switch_escape_string cs
      else if c = CHR 0x09 then ESCAPE_META # CHR ''t'' # switch_escape_string cs
      else if c = SPACE then ESCAPE_META # CHR ''s'' # switch_escape_string cs
      else if c = CHR ''$'' then ESCAPE_META # CHR ''$'' # switch_escape_string cs
      else c # switch_escape_string cs)"

text \<open>The pool variant gives the escaper a block of \<open>2 * strlen\<close> bytes.\<close>

definition switch_escape_string_pool :: "string \<Rightarrow> string outcome" where
  "switch_escape_string_pool inp =
     (if length (switch_escape_string inp) + 1 \<le> length inp * 2
      then Inr (switch_escape_string inp) else Inl OutOfBounds)"

text \<open>
  \<open>switch_split_user_domain\<close>: the user and domain parts it points into the buffer.
\<close>

definition cut_at :: "char \<Rightarrow> string \<Rightarrow> string" where
  "cut_at c s = takeWhile (\<lambda>x. x \<noteq> c) s"

definition switch_split_user_domain :: "string option \<Rightarrow> (string \<times> string option) option" where
  "switch_split_user_domain inp =
     (case inp of
        None \<Rightarrow> None
      | Some s \<Rightarrow>
          let u = cut_at (CHR ''@'') s;
              h = (case strchr s (CHR ''@'') of None \<Rightarrow> None | Some i \<Rightarrow> Some (drop (i + 1) s));
              u' = (case strchr u (CHR '':'') of None \<Rightarrow> u | Some i \<Rightarrow> drop (i + 1) u);
              h' = map_option (\<lambda>x. cut_at SPACE (cut_at (CHR '';'') (cut_at (CHR '':'') x))) h
          in Some (u', h'))"

section \<open>Laws of the tokeniser\<close>

lemma cleanup_loop_plain:
  assumes "QUOTE \<notin> set t" and "ESCAPE_META \<notin> set t" and "t \<noteq> []" and "last t \<noteq> SPACE"
  shows "cleanup_loop d False out fin t = out @ t"
  using assms
proof (induction t arbitrary: out fin)
  case Nil
  then show ?case by simp
next
  case (Cons c cs)
  then show ?case by (cases cs) auto
qed

lemma cleanup_plain:
  assumes "QUOTE \<notin> set t" "ESCAPE_META \<notin> set t" "t \<noteq> []" "hd t \<noteq> SPACE" "last t \<noteq> SPACE"
  shows "cleanup_separated_string t d = t"
proof -
  have "dropWhile (\<lambda>c. c = SPACE) t = t" using assms(3,4) by (cases t) auto
  then show ?thesis
    using cleanup_loop_plain [OF assms(1,2,3,5)] by (simp add: cleanup_separated_string_def)
qed

definition plain_token :: "char \<Rightarrow> string \<Rightarrow> bool" where
  "plain_token delim t \<longleftrightarrow>
     t \<noteq> [] \<and> delim \<notin> set t \<and> QUOTE \<notin> set t \<and> ESCAPE_META \<notin> set t \<and>
     hd t \<noteq> SPACE \<and> last t \<noteq> SPACE"

text \<open>
  How an argument can be written for \<open>switch_separate_string\<close>: as it is, when it has none of the
  characters with a meaning; with a backslash before each of these and \<open>\s\<close> for a space; or in
  quotes, with a backslash before quotes and backslashes only.
\<close>

definition escaped :: "char \<Rightarrow> string \<Rightarrow> string" where
  "escaped delim t = concat (map (\<lambda>c. if c = SPACE then [ESCAPE_META, CHR ''s'']
     else if c = QUOTE \<or> c = ESCAPE_META \<or> c = delim then [ESCAPE_META, c] else [c]) t)"

definition in_quotes :: "string \<Rightarrow> string" where
  "in_quotes t = concat (map (\<lambda>c. if c = QUOTE \<or> c = ESCAPE_META then [ESCAPE_META, c] else [c]) t)"

definition written_as :: "char \<Rightarrow> string \<Rightarrow> string \<Rightarrow> bool" where
  "written_as delim t txt \<longleftrightarrow>
     txt = t \<and> plain_token delim t \<or> txt = escaped delim t \<or> txt = QUOTE # in_quotes t @ [QUOTE]"

lemma escaped_simps [simp]:
  "escaped d [] = []"
  "escaped d (c # t) = (if c = SPACE then [ESCAPE_META, CHR ''s'']
     else if c = QUOTE \<or> c = ESCAPE_META \<or> c = d then [ESCAPE_META, c] else [c]) @ escaped d t"
  by (simp_all add: escaped_def)

lemma in_quotes_simps [simp]:
  "in_quotes [] = []"
  "in_quotes (c # t) = (if c = QUOTE \<or> c = ESCAPE_META then [ESCAPE_META, c] else [c]) @ in_quotes t"
  by (simp_all add: in_quotes_def)

text \<open>Both tokenisers go over such a text without stopping in it.\<close>

lemma sep_find_escaped: "sep_find d n False tok (escaped d t @ rest) = sep_find d n False (tok @ escaped d t) rest"
  by (induction t arbitrary: tok) auto

lemma sep_find_body: "sep_find d n True tok (in_quotes t @ rest) = sep_find d n True (tok @ in_quotes t) rest"
  by (induction t arbitrary: tok) auto

lemma sep_find_plain:
  assumes "plain_token d t"
  shows "sep_find d n False tok (t @ rest) = sep_find d n False (tok @ t) rest"
proof -
  have "d \<notin> set t \<Longrightarrow> QUOTE \<notin> set t \<Longrightarrow> ESCAPE_META \<notin> set t \<Longrightarrow> ?thesis"
    by (induction t arbitrary: tok) auto
  with assms show ?thesis by (simp add: plain_token_def)
qed

lemma sep_find_written:
  "written_as d t txt \<Longrightarrow> sep_find d n False tok (txt @ rest) = sep_find d n False (tok @ txt) rest"
  by (auto simp: written_as_def sep_find_escaped sep_find_body sep_find_plain)

lemma blank_find_escaped: "blank_find n False tok (escaped SPACE t @ rest) = blank_find n False (tok @ escaped SPACE t) rest"
  by (induction t arbitrary: tok) auto

lemma blank_find_body: "blank_find n True tok (in_quotes t @ rest) = blank_find n True (tok @ in_quotes t) rest"
  by (induction t arbitrary: tok) auto

lemma blank_find_written:
  assumes "written_as SPACE t txt"
  shows "blank_find n False tok (txt @ rest) = blank_find n False (tok @ txt) rest"
proof -
  have "SPACE \<notin> set t \<Longrightarrow> QUOTE \<notin> set t \<Longrightarrow> ESCAPE_META \<notin> set t \<Longrightarrow>
     blank_find n False tok (t @ rest) = blank_find n False (tok @ t) rest"
    by (induction t arbitrary: tok) auto
  with assms show ?thesis by (auto simp: written_as_def plain_token_def blank_find_escaped blank_find_body)
qed

text \<open>The cleaning gives the argument back.\<close>

lemma cleanup_escaped:
  "e = None \<and> d = SPACE \<or> e = Some d \<and> d \<noteq> CHR ''s'' \<Longrightarrow>
   cleanup_loop e False out (length out) (escaped d t) = out @ t"
proof (induction t arbitrary: out)
  case (Cons c t)
  then show ?case using Cons.IH [of "out @ [c]"] by (auto simp: escape_value_def unescape_char_def)
qed simp

lemma cleanup_body: "cleanup_loop e True out (length out) (in_quotes t @ [QUOTE]) = out @ t"
proof (induction t arbitrary: out)
  case (Cons c t)
  then show ?case using Cons.IH [of "out @ [c]"] by (auto simp: escape_value_def)
qed simp

lemma escaped_first: "dropWhile (\<lambda>c. c = SPACE) (escaped d t) = escaped d t"
  by (cases t) auto

lemma cleanup_written:
  assumes "written_as d t txt" and "e = None \<and> d = SPACE \<or> e = Some d \<and> d \<noteq> CHR ''s''"
  shows "cleanup_separated_string txt e = t"
proof -
  have "plain_token d t \<Longrightarrow> cleanup_separated_string t e = t" by (simp add: plain_token_def cleanup_plain)
  moreover have "cleanup_separated_string (escaped d t) e = t"
    using cleanup_escaped [OF assms(2), of "[]" t] by (simp add: escaped_first cleanup_separated_string_def)
  moreover have "cleanup_separated_string (QUOTE # in_quotes t @ [QUOTE]) e = t"
    using cleanup_body [of e "[]" t] by (simp add: cleanup_separated_string_def)
  ultimately show ?thesis using assms(1) by (auto simp: written_as_def)
qed

lemma sep_start_more: "s \<noteq> [] \<Longrightarrow> sep_start d (Suc (Suc m)) b s = sep_find d (Suc m) b [] s"
  by (cases s) auto

lemma sep_start_written:
  assumes "list_all2 (written_as d) ts txts" and "txts \<noteq> []" and "last txts \<noteq> []" and "length txts \<le> n"
    and "d \<noteq> QUOTE" and "d \<noteq> ESCAPE_META"
  shows "sep_start d n False (join [d] txts) = Inr txts"
  using assms(1-4)
proof (induction ts txts arbitrary: n rule: list_all2_induct)
  case (Cons t ts x xs)
  note w = sep_find_written [OF Cons.hyps(1)]
  show ?case
  proof (cases xs)
    case Nil
    with Cons.prems obtain c cs where x: "x = c # cs" by (cases x) auto
    show ?thesis
    proof (cases "n = 1")
      case True
      with Nil x show ?thesis by simp
    next
      case False
      then obtain m where "n = Suc (Suc m)" using Cons.prems(3) Nil by (metis One_nat_def Suc_le_D length_Cons list.size(3) nat.exhaust)
      then show ?thesis using Nil x w [of "Suc m" "[]" "[]"] by simp
    qed
  next
    note IH = Cons.IH and Cons' = Cons.prems
    case (Cons y ys)
    then obtain m where n: "n = Suc (Suc m)" using Cons'(3) by (metis Suc_le_D length_Cons Suc_le_mono)
    have j: "join [d] (x # xs) = x @ d # join [d] xs" using Cons by simp
    have ne: "join [d] (x # xs) \<noteq> []" using j by simp
    have "sep_start d n False (join [d] (x # xs)) = sep_find d (Suc m) False [] (x @ d # join [d] xs)"
      using ne unfolding n j by (rule sep_start_more)
    also have "\<dots> = bindE (sep_start d (Suc m) False (join [d] xs)) (\<lambda>us. Inr (x # us))"
      using w [of "Suc m" "[]" "d # join [d] xs"] assms(5,6) by simp
    also have "sep_start d (Suc m) False (join [d] xs) = Inr xs"
      using IH [of "Suc m"] Cons Cons'(2,3) n by simp
    finally show ?thesis by simp
  qed
qed simp

lemma written_hd: "written_as SPACE t x \<Longrightarrow> x \<noteq> [] \<Longrightarrow> hd x \<noteq> SPACE"
  by (cases t) (auto simp: written_as_def plain_token_def split: if_splits)

lemma blank_start_more:
  "s \<noteq> [] \<Longrightarrow> hd s \<noteq> SPACE \<Longrightarrow> blank_start (Suc (Suc m)) b s = blank_find (Suc m) b [] s"
  "s \<noteq> [] \<Longrightarrow> hd s \<noteq> SPACE \<Longrightarrow> blank_end n b s = blank_start n b s"
  by (cases s, auto)+

lemma blank_start_written:
  assumes "list_all2 (written_as SPACE) ts txts" and "txts \<noteq> []" and "[] \<notin> set txts" and "length txts \<le> n"
  shows "blank_start n False (join [SPACE] txts) = Inr txts"
  using assms
proof (induction ts txts arbitrary: n rule: list_all2_induct)
  case (Cons t ts x xs)
  note w = blank_find_written [OF Cons.hyps(1)]
  have x: "x \<noteq> []" "hd x \<noteq> SPACE" using Cons.prems(2) written_hd [OF Cons.hyps(1)] by auto
  show ?case
  proof (cases xs)
    case Nil
    obtain m where m: "n = Suc m" using Cons.prems(3) by (cases n) auto
    show ?thesis
    proof (cases m)
      case 0
      with Nil m x(1) show ?thesis by (cases x) auto
    next
      case (Suc k)
      with Nil m show ?thesis using blank_start_more(1) [OF x, of k False] w [of "Suc k" "[]" "[]"] by simp
    qed
  next
    note IH = Cons.IH and pr = Cons.prems and hy = Cons.hyps
    case (Cons y ys)
    then obtain m where n: "n = Suc (Suc m)" using pr(3) by (metis Suc_le_D length_Cons Suc_le_mono)
    have j: "join [SPACE] (x # xs) = x @ SPACE # join [SPACE] xs" using Cons by simp
    obtain t' where y: "written_as SPACE t' y" "y \<noteq> []" using hy(2) pr(2) Cons by (cases ts) auto
    have "join [SPACE] xs \<noteq> []" "hd (join [SPACE] xs) \<noteq> SPACE"
      using written_hd [OF y] y(2) Cons by (cases ys; simp)+
    then have "blank_end (Suc m) False (join [SPACE] xs) = blank_start (Suc m) False (join [SPACE] xs)"
      by (rule blank_start_more(2))
    moreover have "blank_start n False (join [SPACE] (x # xs)) = blank_find (Suc m) False [] (x @ SPACE # join [SPACE] xs)"
      unfolding n j using x by (intro blank_start_more(1)) auto
    moreover have "blank_start (Suc m) False (join [SPACE] xs) = Inr xs" using IH [of "Suc m"] Cons pr(2,3) n by simp
    ultimately show ?thesis using w [of "Suc m" "[]" "SPACE # join [SPACE] xs"] by simp
  qed
qed simp

lemma sep_length:
  "sep_start d n ins buf = Inr ts \<Longrightarrow> length ts \<le> n"
  "sep_find d m ins tok buf = Inr ts \<Longrightarrow> 0 < m \<Longrightarrow> length ts \<le> Suc m"
proof (induction d n ins buf and d m ins tok buf arbitrary: ts and ts rule: sep_start_sep_find.induct)
  case (6 delim slots inside tok c cs)
  then show ?case by (fastforce simp: bindE_eq_Inr split: if_splits list.splits)
qed auto

lemma sep_no_escape:
  "ESCAPE_META \<notin> set buf \<Longrightarrow> \<exists>ts. sep_start d n ins buf = Inr ts"
  "ESCAPE_META \<notin> set buf \<Longrightarrow> \<exists>ts. sep_find d m ins tok buf = Inr ts"
  by (induction d n ins buf and d m ins tok buf rule: sep_start_sep_find.induct) auto

lemma blank_length:
  "blank_start n ins buf = Inr ts \<Longrightarrow> length ts \<le> n"
  "blank_skip m ins tok buf = Inr ts \<Longrightarrow> 0 < m \<Longrightarrow> length ts \<le> Suc m"
  "blank_find m ins tok buf = Inr ts \<Longrightarrow> 0 < m \<Longrightarrow> length ts \<le> Suc m"
  "blank_end n ins buf = Inr ts \<Longrightarrow> length ts \<le> n"
proof (induction n ins buf and m ins tok buf and m ins tok buf and n ins buf
    arbitrary: ts and ts and ts and ts rule: blank_start_blank_skip_blank_find_blank_end.induct)
  case (8 slots inside tok c cs)
  then show ?case by (fastforce simp: bindE_eq_Inr split: if_splits list.splits)
qed (auto split: if_splits)

lemma blank_no_escape:
  "ESCAPE_META \<notin> set buf \<Longrightarrow> \<exists>ts. blank_start n ins buf = Inr ts"
  "ESCAPE_META \<notin> set buf \<Longrightarrow> \<exists>ts. blank_skip m ins tok buf = Inr ts"
  "ESCAPE_META \<notin> set buf \<Longrightarrow> \<exists>ts. blank_find m ins tok buf = Inr ts"
  "ESCAPE_META \<notin> set buf \<Longrightarrow> \<exists>ts. blank_end n ins buf = Inr ts"
  by (induction n ins buf and m ins tok buf and m ins tok buf and n ins buf
      rule: blank_start_blank_skip_blank_find_blank_end.induct) auto

lemma sep_find_trailing:
  "delim \<notin> set t \<Longrightarrow> QUOTE \<notin> set t \<Longrightarrow> ESCAPE_META \<notin> set t \<Longrightarrow>
     sep_find delim n False tok (t @ [ESCAPE_META]) = Inl OutOfBounds"
  by (induction t arbitrary: tok) auto

section \<open>Replacement is splitting and joining\<close>

lemma string_replace_loop_spec:
  assumes "search \<noteq> []" and "length str \<le> n"
  shows "string_replace_loop search repl dest str =
     Some (dest @ join repl (split_string_loop search n str))"
  using assms(2)
proof (induction str arbitrary: n dest rule: length_induct)
  case (1 str)
  show ?case
  proof (cases str)
    case Nil
    then show ?thesis
      using assms(1) by (subst string_replace_loop.simps) (simp add: split_string_loop.simps)
  next
    case (Cons c cs)
    with "1.prems" obtain m where n: "n = Suc m" by (cases n) auto
    show ?thesis
    proof (cases "prefix search str")
      case True
      let ?rest = "drop (length search) str"
      have lt: "length ?rest < length str" using Cons assms(1) by simp
      have "length ?rest \<le> m" using lt "1.prems" n by simp
      then have ih: "string_replace_loop search repl (dest @ repl) ?rest =
          Some ((dest @ repl) @ join repl (split_string_loop search m ?rest))"
        using "1.IH" lt by blast
      have "split_string_loop search n str = [] # split_string_loop search m ?rest"
        using True Cons n by (subst split_string_loop.simps) simp
      moreover have "split_string_loop search m ?rest \<noteq> []"
        by (subst split_string_loop.simps) (simp split: option.splits)
      ultimately show ?thesis
        using True Cons ih
        by (subst string_replace_loop.simps) (simp add: switch_string_match_def join_Cons)
    next
      case False
      have "length cs < length str" "length cs \<le> n" using Cons "1.prems" by auto
      then have ih: "string_replace_loop search repl (dest @ [c]) cs =
          Some ((dest @ [c]) @ join repl (split_string_loop search n cs))"
        using "1.IH" by blast
      have "split_string_loop search n str =
          (case split_string_loop search n cs of [] \<Rightarrow> [] | x # xs \<Rightarrow> (c # x) # xs)"
        using False Cons n
        by (subst (1 2) split_string_loop.simps) (auto split: option.splits)
      moreover have "split_string_loop search n cs \<noteq> []"
        by (subst split_string_loop.simps) (simp split: option.splits)
      then obtain x xs where "split_string_loop search n cs = x # xs"
        by (auto simp: neq_Nil_conv)
      ultimately show ?thesis
        using False Cons ih
        by (subst string_replace_loop.simps) (simp add: switch_string_match_def join_Cons)
    qed
  qed
qed

section \<open>Shell quoting and escaping\<close>

text \<open>
  The reading side of quoting, after POSIX: inside single quotes every byte stands for itself;
  outside, a backslash protects the next byte, and any other byte is subject to expansion, which
  is \<open>None\<close> here, as is an unterminated quote.
\<close>

fun sh_word :: "bool \<Rightarrow> string \<Rightarrow> string option" where
  "sh_word inq [] = (if inq then None else Some [])"
| "sh_word inq (c # cs) =
     (if inq then (if c = QUOTE then sh_word False cs else map_option ((#) c) (sh_word True cs))
      else if c = QUOTE then sh_word True cs
      else if c = ESCAPE_META then
        (case cs of [] \<Rightarrow> None | e # es \<Rightarrow> map_option ((#) e) (sh_word False es))
      else None)"

fun quoted_body :: "string \<Rightarrow> string" where
  "quoted_body [] = []"
| "quoted_body (c # cs) =
     (if c = QUOTE then [QUOTE, ESCAPE_META, QUOTE, QUOTE] else [c]) @ quoted_body cs"

lemma length_quoted_body: "length str \<le> length (quoted_body str)"
  by (induction str) auto

lemma quote_loop_eq:
  "quote_loop dest n str = (dest @ quoted_body str, n + (length (quoted_body str) - length str))"
proof (induction str arbitrary: dest n)
  case Nil
  then show ?case by simp
next
  case (Cons c cs)
  then show ?case using length_quoted_body [of cs] by auto
qed

lemma sh_word_quoted_body: "sh_word True (quoted_body str @ [QUOTE]) = Some str"
  by (induction str) auto

definition escape_special :: "char \<Rightarrow> bool" where
  "escape_special c \<longleftrightarrow> c \<in> {CHR 0x0A, CHR 0x0D, CHR 0x09, SPACE, CHR ''$''}"

lemma length_escape_string:
  "length (switch_escape_string s) = length s + length (filter escape_special s)"
  by (induction s) (auto simp: escape_special_def)

lemma filter_all_length: "length (filter P xs) = length xs \<longleftrightarrow> list_all P xs"
  by (induction xs) (auto simp: le_imp_less_Suc length_filter_le less_imp_neq)

section \<open>The character tables, range by range\<close>

lemmas ctype_bits = ct_U_def ct_L_def ct_N_def ct_S_def ct_P_def ct_C_def ct_X_def ct_B_def

lemma nth_segment:
  "0 < k \<Longrightarrow> (replicate k v @ xs) ! (n - a) = (if n < a + k then v else xs ! (n - (a + k)))"
  "([v] @ xs) ! (n - a) = (if n < a + 1 then v else xs ! (n - (a + 1)))"
  by (auto simp add: nth_append nth_Cons')

lemma ctype_entry:
  assumes "0 \<le> c" and "c \<le> 255"
  shows "switch_C_ctype ! nat (c + 1) =
    (if c \<le> 8 then 32 else if c \<le> 13 then 40 else if c \<le> 31 then 32 else if c = 32 then 136
     else if c \<le> 47 then 16 else if c \<le> 57 then 4 else if c \<le> 64 then 16
     else if c \<le> 70 then 65 else if c \<le> 90 then 1 else if c \<le> 96 then 16
     else if c \<le> 102 then 66 else if c \<le> 122 then 2 else if c \<le> 126 then 16
     else if c \<le> 159 then 32 else 16)"
proof -
  obtain n where n: "c = int n" "n \<le> 255" using assms by (metis nonneg_int_cases of_nat_le_iff of_nat_numeral)
  have "switch_C_ctype ! (Suc n - 0) =
    (if n < 9 then 32 else if n < 14 then 40 else if n < 32 then 32 else if n < 33 then 136
     else if n < 48 then 16 else if n < 58 then 4 else if n < 65 then 16
     else if n < 71 then 65 else if n < 91 then 1 else if n < 97 then 16
     else if n < 103 then 66 else if n < 123 then 2 else if n < 127 then 16
     else if n < 160 then 32 else 16)"
    using n(2) unfolding switch_C_ctype_def ctype_bits
    apply (simp only: nth_segment zero_less_numeral arith_simps add_0 One_nat_def)
    apply (simp only: nth_replicate)
    apply (simp split del: if_split)
    apply (auto split: if_split)
    done

  then show ?thesis using n by (simp add: nat_add_distrib)
qed

lemma case_tables:
  assumes "0 \<le> c" and "c \<le> 255"
  shows "switch_toupper c = (if 97 \<le> c \<and> c \<le> 122 then c - 32 else c)"
    and "switch_tolower c = (if 65 \<le> c \<and> c \<le> 90 then c + 32 else c)"
  using assms
  by (simp_all add: switch_toupper_def switch_tolower_def switch_C_toupper_def switch_C_tolower_def
      nat_add_distrib)

lemma ctype_ascii:
  assumes "0 \<le> c" and "c \<le> 255"
  shows "switch_isupper c \<noteq> 0 \<longleftrightarrow> 65 \<le> c \<and> c \<le> 90"
    "switch_islower c \<noteq> 0 \<longleftrightarrow> 97 \<le> c \<and> c \<le> 122"
    "switch_isdigit c \<noteq> 0 \<longleftrightarrow> 48 \<le> c \<and> c \<le> 57"
    "switch_isalpha c \<noteq> 0 \<longleftrightarrow> 65 \<le> c \<and> c \<le> 90 \<or> 97 \<le> c \<and> c \<le> 122"
    "switch_isspace c \<noteq> 0 \<longleftrightarrow> c = 32 \<or> 9 \<le> c \<and> c \<le> 13"
    "switch_isxdigit c \<noteq> 0 \<longleftrightarrow> 48 \<le> c \<and> c \<le> 57 \<or> 65 \<le> c \<and> c \<le> 70 \<or> 97 \<le> c \<and> c \<le> 102"
    "switch_iscntrl c \<noteq> 0 \<longleftrightarrow> c \<le> 31 \<or> 127 \<le> c \<and> c \<le> 159"
    "switch_isprint c \<noteq> 0 \<longleftrightarrow> 32 \<le> c \<and> c \<le> 126 \<or> 160 \<le> c"
  using assms
  by (simp_all add: ctype_defs ctype_test_def ctype_entry ctype_bits)

section \<open>Properties\<close>

text \<open>
  C27. Splitting undoes joining.  Arguments of any characters, each written in one of the three
  ways (as it is if nothing in it has a meaning, with backslashes, or in quotes) and joined by a
  delimiter, come back from \<open>switch_separate_string\<close> one by one when the array is long enough:
  quotes, escapes and protected spaces and delimiters are resolved.  With a delimiter other than
  the space only the last text must not be empty, with the space none; the letter \<open>s\<close> cannot be
  the delimiter, since its escape stands for a space.
\<close>

theorem separate_string_join:
  assumes "delim \<notin> {QUOTE, ESCAPE_META, CHR ''s''}" and "ts \<noteq> []" and "list_all2 (written_as delim) ts txts"
    and "if delim = SPACE then [] \<notin> set txts else last txts \<noteq> []" and "length ts \<le> n"
  shows "switch_separate_string (Some (join [delim] txts)) delim n = Inr ts"
proof -
  define e where "e = (if delim = SPACE then None else Some delim)"
  have e: "e = None \<and> delim = SPACE \<or> e = Some delim \<and> delim \<noteq> CHR ''s''" using assms(1) by (simp add: e_def)
  have txts: "txts \<noteq> []" "length txts \<le> n" "0 < n" using assms(2,3,5) by (cases ts; auto dest: list_all2_lengthD)+
  have "map (\<lambda>x. cleanup_separated_string x e) txts = ts"
    using assms(3) cleanup_written [OF _ e] by (induction rule: list_all2_induct) auto
  then show ?thesis
    using txts assms(1,4) blank_start_written [of ts txts n] sep_start_written [OF assms(3) txts(1) _ txts(2)] assms(3)
    by (auto simp: e_def switch_separate_string_def separate_string_char_delim_def separate_string_blank_delim_def split: if_splits)
qed

text \<open>A field in quotes with a comma and outer spaces, one with backslashes, one empty, one as it is.\<close>

theorem separate_string_join_witness:
  "switch_separate_string (Some ([QUOTE] @ '' a,b '' @ [QUOTE] @ '','' @ [ESCAPE_META, QUOTE, ESCAPE_META, CHR '',''] @ '',,c d'')) (CHR '','') 32 =
     Inr ['' a,b '', [QUOTE, CHR '',''], [], ''c d'']"
proof -
  have "list_all2 (written_as (CHR '','')) ['' a,b '', [QUOTE, CHR '',''], [], ''c d'']
      [[QUOTE] @ '' a,b '' @ [QUOTE], [ESCAPE_META, QUOTE, ESCAPE_META, CHR '',''], [], ''c d'']"
    by (simp add: written_as_def plain_token_def)
  from separate_string_join [OF _ _ this, of 32] show ?thesis by simp
qed

text \<open>
  \<open>switch_separate_string\<close> never fills more entries than the array has, and it stays
  inside the buffer whenever the text has no backslash.
\<close>

theorem separate_string_bounded:
  "(\<forall>ts. switch_separate_string buf delim n = Inr ts \<longrightarrow> length ts \<le> n) \<and>
   (\<forall>b. buf = Some b \<and> ESCAPE_META \<notin> set b \<longrightarrow>
        (\<exists>ts. switch_separate_string buf delim n = Inr ts))"
  using sep_no_escape(1) [of _ delim n False] blank_no_escape(1) [of _ n False]
  by (fastforce simp: switch_separate_string_def separate_string_char_delim_def
      separate_string_blank_delim_def bindE_eq_Inr dest: sep_length(1) blank_length(1)
      split: option.splits if_splits)

theorem separate_string_bounded_witness:
  "(\<exists>ts. switch_separate_string (Some ''one two three'') SPACE 2 = Inr ts \<and> length ts \<le> 2)"
proof -
  have "ESCAPE_META \<notin> set ''one two three''" by simp
  with separate_string_bounded [of "Some ''one two three''" SPACE 2] show ?thesis by blast
qed

text \<open>
  A field that ends in a lone backslash makes the tokeniser step over the terminating NUL
  and read past the end of the buffer.
\<close>

theorem separate_string_trailing_backslash:
  assumes "delim \<notin> {QUOTE, ESCAPE_META, SPACE}" and "2 \<le> n"
    and "delim \<notin> set t" and "QUOTE \<notin> set t" and "ESCAPE_META \<notin> set t"
  shows "switch_separate_string (Some (t @ [ESCAPE_META])) delim n = Inl OutOfBounds"
proof -
  obtain m where n: "n = Suc (Suc m)" using assms(2) by (metis add_2_eq_Suc le_Suc_ex)
  have "sep_start delim n False (t @ [ESCAPE_META]) = sep_find delim (Suc m) False [] (t @ [ESCAPE_META])"
    using n by (cases t) auto
  then show ?thesis
    using sep_find_trailing [OF assms(3-5), of "Suc m" "[]"] assms(1) n
    by (simp add: switch_separate_string_def separate_string_char_delim_def)
qed

theorem separate_string_trailing_backslash_witness:
  "switch_separate_string (Some (''a=b'' @ [ESCAPE_META])) (CHR '','') 2 = Inl OutOfBounds"
  by (rule separate_string_trailing_backslash) simp_all

text \<open>
  C28. \<open>switch_util_quote_shell_arg\<close> passes its length assertion for every argument, and a
  POSIX shell reads its result back as exactly that argument, with nothing left to expansion.
\<close>

theorem quote_shell_arg_exact:
  "\<exists>q. switch_util_quote_shell_arg str = Inr q \<and> sh_word False q = Some str"
  using length_quoted_body [of str] sh_word_quoted_body [of str]
  by (simp add: switch_util_quote_shell_arg_def quote_loop_eq)

text \<open>
  C25. \<open>switch_string_replace\<close> ends for every non-empty search string, and its result is the
  text cut at the leftmost non-overlapping occurrences and joined by the replacement.
\<close>

theorem string_replace_is_split_join:
  assumes "search \<noteq> []"
  shows "switch_string_replace str search repl =
     Some (join repl (switch_separate_string_string str search (length str + 1)))"
  using string_replace_loop_spec [OF assms order_refl, of repl "[]" str]
  by (simp add: switch_string_replace_def switch_separate_string_string_def)

theorem string_replace_is_split_join_witness:
  "switch_string_replace ''a-b--c'' ''-'' ''::'' = Some ''a::b::::c''"
proof -
  have "switch_string_replace ''a-b--c'' ''-'' ''::'' =
      Some (join ''::'' (switch_separate_string_string ''a-b--c'' ''-'' (length ''a-b--c'' + 1)))"
    by (rule string_replace_is_split_join) simp
  also have "\<dots> = Some ''a::b::::c''" by code_simp
  finally show ?thesis .
qed

text \<open>
  The block that \<open>switch_escape_string_pool\<close> allocates is one byte short exactly for the
  strings that consist of escaped bytes only, the empty string among them.
\<close>

theorem escape_string_pool_overflow:
  "switch_escape_string_pool s = Inl OutOfBounds \<longleftrightarrow> list_all escape_special s"
proof -
  have le: "length (filter escape_special s) \<le> length s" by (rule length_filter_le)
  show ?thesis
  proof (cases "list_all escape_special s")
    case True
    then show ?thesis
      using filter_all_length [of escape_special s]
      by (simp add: switch_escape_string_pool_def length_escape_string)
  next
    case False
    then have "length (filter escape_special s) < length s"
      using le filter_all_length [of escape_special s] by linarith
    with False show ?thesis
      by (simp add: switch_escape_string_pool_def length_escape_string)
  qed
qed

text \<open>
  The character classes read from the tables agree with the ASCII ranges on every byte,
  and the case tables move exactly the 26 letters of each case.
\<close>

theorem ctype_tables_ascii:
  assumes "0 \<le> c" and "c \<le> 255"
  shows "(switch_isupper c \<noteq> 0 \<longleftrightarrow> 65 \<le> c \<and> c \<le> 90) \<and>
     (switch_islower c \<noteq> 0 \<longleftrightarrow> 97 \<le> c \<and> c \<le> 122) \<and>
     (switch_isdigit c \<noteq> 0 \<longleftrightarrow> 48 \<le> c \<and> c \<le> 57) \<and>
     (switch_isspace c \<noteq> 0 \<longleftrightarrow> c = 32 \<or> 9 \<le> c \<and> c \<le> 13) \<and>
     (switch_isxdigit c \<noteq> 0 \<longleftrightarrow> 48 \<le> c \<and> c \<le> 57 \<or> 65 \<le> c \<and> c \<le> 70 \<or> 97 \<le> c \<and> c \<le> 102) \<and>
     (switch_iscntrl c \<noteq> 0 \<longleftrightarrow> c \<le> 31 \<or> 127 \<le> c \<and> c \<le> 159) \<and>
     (switch_isprint c \<noteq> 0 \<longleftrightarrow> 32 \<le> c \<and> c \<le> 126 \<or> 160 \<le> c) \<and>
     (switch_toupper c \<noteq> c \<longleftrightarrow> switch_islower c \<noteq> 0) \<and>
     (switch_tolower c \<noteq> c \<longleftrightarrow> switch_isupper c \<noteq> 0) \<and>
     switch_tolower (switch_toupper c) = switch_tolower c"
proof (intro conjI)
  show "switch_toupper c \<noteq> c \<longleftrightarrow> switch_islower c \<noteq> 0"
    "switch_tolower c \<noteq> c \<longleftrightarrow> switch_isupper c \<noteq> 0"
    "switch_tolower (switch_toupper c) = switch_tolower c"
    using assms by (auto simp only: ctype_ascii case_tables split: if_splits)
qed (use ctype_ascii [OF assms] in blast)+

theorem ctype_tables_ascii_witness:
  "switch_isupper 65 \<noteq> 0 \<and> switch_isspace 9 \<noteq> 0 \<and> switch_isprint 127 = 0"
  using ctype_tables_ascii [of 65] ctype_tables_ascii [of 9] ctype_tables_ascii [of 127] by simp

text \<open>
  The DTMF codes round-trip: each of the 17 keys is sent as its position in the table and
  read back as the same key.
\<close>

lemma rfc2833_roundtrip:
  "list_all (\<lambda>c. switch_rfc2833_to_char (uint (switch_char_to_rfc2833 c)) = c) RFC2833_CHARS"
  by (simp add: RFC2833_CHARS_def switch_char_to_rfc2833_def switch_rfc2833_to_char_def char_to_int_def
      case_tables Let_def int_to_char_def char_of_def nth_Cons')

end
