(* ===== verification/Encoding.thy ===== *)
theory Encoding
  imports Strings
begin

text \<open>
  The text encodings of \<^verbatim>\<open>switch_utils.c\<close>: markup escaping, base64 and
  percent encoding.  The caller's output buffer is a list of bytes; a routine returns the buffer
  after its writes, or the fault of the first write outside it.
\<close>

section \<open>Markup\<close>

text \<open>
  The loop of \<open>switch_amp_encode\<close>: \<open>x\<close> bytes have been stored, \<open>s\<close> is what is left of the
  text, its NUL being the end of the list.
\<close>

fun amp_encode_loop :: "string \<Rightarrow> nat \<Rightarrow> nat \<Rightarrow> string" where
  "amp_encode_loop [] x len =
     (if x < len then if size_add x 1 > size_sub len 1 then [] else [CHR 0x00] else [])"
| "amp_encode_loop (c # cs) x len =
     (if x < len then
        if c = CHR ''<'' then
          if size_add x 4 > size_sub len 1 then [] else ''&lt;'' @ amp_encode_loop cs (x + 4) len
        else if c = CHR ''>'' then
          if size_add x 4 > size_sub len 1 then [] else ''&gt;'' @ amp_encode_loop cs (x + 4) len
        else
          if size_add x 1 > size_sub len 1 then [] else c # amp_encode_loop cs (x + 1) len
      else [])"

definition switch_amp_encode :: "string option \<Rightarrow> string \<Rightarrow> nat \<Rightarrow> string outcome" where
  "switch_amp_encode s buf len =
     (case s of None \<Rightarrow> Inl AssertionFailed
      | Some t \<Rightarrow> mem_write buf 0 (amp_encode_loop t 0 len))"

section \<open>Base64\<close>

definition switch_b64_table :: string where
  "switch_b64_table = ''ABCDEFGHIJKLMNOPQRSTUVWXYZabcdefghijklmnopqrstuvwxyz0123456789+/''"

text \<open>
  The inner loop of \<open>switch_b64_encode\<close>.  Its counter \<open>y\<close> only decided where a line break
  went, and that statement is commented out in the source.
\<close>

fun b64_emit :: "uint32 \<Rightarrow> nat \<Rightarrow> string \<Rightarrow> nat \<times> string" where
  "b64_emit b l out =
     (if 6 \<le> l
      then b64_emit b (l - 6) (out @ [switch_b64_table ! unat (drop_bit (l - 6) b mod 64)])
      else (l, out))"

declare b64_emit.simps [simp del]

fun b64_encode_loop :: "switch_byte_t list \<Rightarrow> uint32 \<Rightarrow> nat \<Rightarrow> string \<Rightarrow> uint32 \<times> nat \<times> string" where
  "b64_encode_loop [] b l out = (b, l, out)"
| "b64_encode_loop (x # xs) b l out =
     (let b' = push_bit 8 b + ucast x; r = b64_emit b' (l + 8) out
      in b64_encode_loop xs b' (fst r) (snd r))"

function b64_pad :: "nat \<Rightarrow> string" where
  "b64_pad l = (if l < 6 then CHR ''='' # b64_pad (l + 2) else [])"
  by pat_completeness auto
termination by (relation "measure (\<lambda>l. 6 - l)") auto

declare b64_pad.simps [simp del]

definition b64_text :: "switch_byte_t list \<Rightarrow> string" where
  "b64_text inp =
     (case b64_encode_loop inp 0 0 [] of (b, l, out) \<Rightarrow>
        out @
        (if l > 0 then [switch_b64_table ! unat (push_bit (6 - l) (b mod 16) mod 64)] else []) @
        (if l \<noteq> 0 then b64_pad l else []))"

text \<open>
  \<open>olen\<close> is never looked at: the writes go wherever they go.  The position in the output is an \<open>int\<close>
  in the code and a list position here, the same up to 2 GB of text.
\<close>

definition switch_b64_encode ::
    "switch_byte_t list \<Rightarrow> string \<Rightarrow> nat \<Rightarrow> (switch_status_t \<times> string) outcome" where
  "switch_b64_encode inp out olen =
     bindE (mem_write out 0 (b64_text inp)) (\<lambda>out. Inr (SWITCH_STATUS_SUCCESS, out))"

definition b64_l64 :: "int list" where
  "b64_l64 = fold (\<lambda>i t. t[of_char (switch_b64_table ! i) := int i]) [0..<64] (replicate 256 (-1))"

text \<open>
  The decoding loop.  \<open>b\<close> is an \<open>int\<close> that drops its high bits; a byte above 127 is a negative
  \<open>char\<close>, and the table is read before its start.  The result is the bytes stored, in order.
\<close>

fun b64_take_bytes :: "uint32 \<Rightarrow> nat \<Rightarrow> string \<Rightarrow> nat \<Rightarrow> bool \<times> nat \<times> string" where
  "b64_take_bytes b l op olen =
     (if 8 \<le> l then
        let op' = op @ [char_of (unat (drop_bit (l - 8) b mod 256))]
        in if size_sub olen 2 \<le> length op' then (True, l - 8, op')
           else b64_take_bytes b (l - 8) op' olen
      else (False, l, op))"

declare b64_take_bytes.simps [simp del]

fun b64_decode_loop :: "string \<Rightarrow> uint32 \<Rightarrow> nat \<Rightarrow> string \<Rightarrow> nat \<Rightarrow> string outcome" where
  "b64_decode_loop [] b l op olen = Inr op"
| "b64_decode_loop (ip # ips) b l op olen =
     (if (of_char ip :: nat) \<ge> 128 then Inl OutOfBounds
      else
        let c = b64_l64 ! of_char ip
        in if c = -1 then b64_decode_loop ips b l op olen
           else
             let b' = push_bit 6 b + word_of_int c
             in case b64_take_bytes b' (l + 6) op olen of (full, l', op') \<Rightarrow>
                  if full then Inr op' else b64_decode_loop ips b' l' op' olen)"

definition switch_b64_decode :: "string option \<Rightarrow> string \<Rightarrow> nat \<Rightarrow> (nat \<times> string) outcome" where
  "switch_b64_decode inp out olen =
     bindE (case inp of None \<Rightarrow> Inr [] | Some s \<Rightarrow> b64_decode_loop s 0 0 [] olen)
       (\<lambda>op. bindE (mem_write out 0 (op @ [CHR 0x00])) (\<lambda>out. Inr (length op + 1, out)))"

section \<open>Percent encoding\<close>

definition url_unsafe :: string where
  "url_unsafe = [CHR 0x0D, CHR 0x0A, SPACE, DQUOTE] @ ''#%&+:;<=>?@['' @ [ESCAPE_META] @ '']^`{|}''"

definition url_hex :: string where
  "url_hex = ''0123456789ABCDEF''"

definition url_must_encode :: "char \<Rightarrow> bool" where
  "url_must_encode c \<longleftrightarrow>
     char_to_int c < 32 \<or> char_to_int c > 126 \<or> c \<in> set url_unsafe"

fun url_encode_loop :: "string \<Rightarrow> nat \<Rightarrow> nat \<Rightarrow> string" where
  "url_encode_loop [] x len = []"
| "url_encode_loop (c # cs) x len =
     (if len \<le> x then []
      else if url_must_encode c then
        if size_add x 3 > len then []
        else CHR ''%'' # url_hex ! (of_char c div 16) # url_hex ! (of_char c mod 16) #
             url_encode_loop cs (x + 3) len
      else c # url_encode_loop cs (x + 1) len)"

definition switch_url_encode :: "string option \<Rightarrow> string option \<Rightarrow> nat \<Rightarrow> string option outcome" where
  "switch_url_encode url buf len =
     (case buf of None \<Rightarrow> Inr None
      | Some m \<Rightarrow>
         (case url of None \<Rightarrow> Inr None
          | Some u \<Rightarrow>
              bindE (mem_write m 0 (url_encode_loop u 0 (size_sub len 1) @ [CHR 0x00]))
                (\<lambda>m. Inr (Some m))))"

text \<open>
  \<open>sscanf(s, "%2x", &tmp)\<close>: white space is skipped, then at most two characters are converted,
  an optional sign and hexadecimal digits; \<open>0x\<close> alone is a prefix without digits and fails.
\<close>

definition hex_value :: "char \<Rightarrow> nat option" where
  "hex_value c =
     (let n = of_char c :: nat in
      if 48 \<le> n \<and> n \<le> 57 then Some (n - 48)
      else if 65 \<le> n \<and> n \<le> 70 then Some (n - 55)
      else if 97 \<le> n \<and> n \<le> 102 then Some (n - 87) else None)"

definition sscanf_2x :: "string \<Rightarrow> uint32 option" where
  "sscanf_2x s =
     (case dropWhile c_isspace s of
        [] \<Rightarrow> None
      | a # rest \<Rightarrow>
          if a = CHR ''+'' \<or> a = CHR ''-'' then
            (case rest of [] \<Rightarrow> None
             | d # _ \<Rightarrow> map_option (\<lambda>v. if a = CHR ''-'' then - of_nat v else of_nat v) (hex_value d))
          else
            (case hex_value a of
               None \<Rightarrow> None
             | Some v \<Rightarrow>
                 (case rest of [] \<Rightarrow> Some (of_nat v)
                  | d # _ \<Rightarrow>
                      if a = CHR ''0'' \<and> c_tolower d = CHR ''x'' then None
                      else (case hex_value d of None \<Rightarrow> Some (of_nat v)
                            | Some w \<Rightarrow> Some (of_nat (16 * v + w))))))"

text \<open>The buffer is rewritten in place; the result is the text left in it.\<close>

fun url_decode_loop :: "string \<Rightarrow> string" where
  "url_decode_loop [] = []"
| "url_decode_loop (c # cs) =
     (case (if c = CHR ''%'' \<and> length (c # cs) > 2 then sscanf_2x cs else None) of
        Some tmp \<Rightarrow> char_of (unat (tmp mod 256)) # url_decode_loop (drop 2 cs)
      | None \<Rightarrow> c # url_decode_loop cs)"

definition switch_url_decode :: "string option \<Rightarrow> string option" where
  "switch_url_decode s = (if zstr s then s else map_option url_decode_loop s)"

section \<open>Sextets and bytes\<close>

lemma join_bits:
  fixes b :: uint32 and x :: uint32
  assumes "take_bit n x = x"
  shows "push_bit n b + x = push_bit n b OR x"
proof (rule disjunctive_add_eq_or)
  show "push_bit n b AND x = 0"
    by (rule bit_eqI) (metis assms bit_and_iff bit_push_bit_iff bit_take_bit_iff bit_0_eq bot_apply bot_bool_def not_less)
qed

lemma mod_bits: "(w :: uint32) mod 64 = take_bit 6 w" "(w :: uint32) mod 256 = take_bit 8 w" "(w :: uint32) mod 16 = take_bit 4 w"
  by (simp_all add: take_bit_eq_mod)

lemma low8: "take_bit 8 (ucast (x::8 word) :: uint32) = ucast x"
  by (rule bit_eqI) (auto simp: bit_simps dest: bit_imp_le_length)
lemma low6: "take_bit 6 (w mod 64 :: uint32) = w mod 64"
  by (simp add: mod_bits)


lemma low8_eqI:
  assumes "\<And>n. n < 8 \<Longrightarrow> bit w n = bit x n"
  shows "take_bit 8 w = (ucast (x :: 8 word) :: uint32)"
proof (rule bit_eqI)
  fix n :: nat
  assume "possible_bit TYPE(32 word) n"
  then show "bit (take_bit 8 w) n = bit (ucast x :: uint32) n"
    using assms [of n] bit_imp_le_length [of x n] by (auto simp: bit_simps)
qed

lemma high8: "8 \<le> n \<Longrightarrow> \<not> bit (x :: 8 word) n"
  using bit_imp_le_length [of x n] by auto

lemma all_less_8:
  "P 0 \<Longrightarrow> P 1 \<Longrightarrow> P 2 \<Longrightarrow> P 3 \<Longrightarrow> P 4 \<Longrightarrow> P 5 \<Longrightarrow> P 6 \<Longrightarrow> P 7 \<Longrightarrow> (n :: nat) < 8 \<Longrightarrow> P n"
  by (auto simp: less_Suc_eq numeral_eq_Suc)

text \<open>Three bytes go out as four sextets and come back, whatever the registers held before.\<close>

lemma sextets_back:
  fixes b d :: uint32 and x y z :: "8 word"
  assumes b: "b1 = push_bit 8 b + ucast x" "b2 = push_bit 8 b1 + ucast y" "b3 = push_bit 8 b2 + ucast z"
    and d: "d1 = push_bit 6 d + drop_bit 2 b1 mod 64" "d2 = push_bit 6 d1 + drop_bit 4 b2 mod 64"
      "d3 = push_bit 6 d2 + drop_bit 6 b3 mod 64" "d4 = push_bit 6 d3 + b3 mod 64"
      "e2 = push_bit 6 d1 + push_bit 4 (b1 mod 16) mod 64"
      "e3 = push_bit 6 d2 + push_bit 2 (b2 mod 16) mod 64"
  shows "drop_bit 4 d2 mod 256 = ucast x" "drop_bit 2 d3 mod 256 = ucast y" "d4 mod 256 = ucast z"
    and "drop_bit 4 e2 mod 256 = ucast x" and "drop_bit 2 e3 mod 256 = ucast y"
proof -
  have "b1 = push_bit 8 b OR ucast x" "b2 = push_bit 8 b1 OR ucast y" "b3 = push_bit 8 b2 OR ucast z"
    "d1 = push_bit 6 d OR (drop_bit 2 b1 mod 64)" "d2 = push_bit 6 d1 OR (drop_bit 4 b2 mod 64)"
    "d3 = push_bit 6 d2 OR (drop_bit 6 b3 mod 64)" "d4 = push_bit 6 d3 OR (b3 mod 64)"
    "e2 = push_bit 6 d1 OR (push_bit 4 (b1 mod 16) mod 64)"
    "e3 = push_bit 6 d2 OR (push_bit 2 (b2 mod 16) mod 64)"
    by (simp_all only: b d join_bits low8 low6)
  note ors = this
  show "drop_bit 4 d2 mod 256 = ucast x" "drop_bit 2 d3 mod 256 = ucast y" "d4 mod 256 = ucast z"
    "drop_bit 4 e2 mod 256 = ucast x" "drop_bit 2 e3 mod 256 = ucast y"
    unfolding mod_bits(2)
    by (rule low8_eqI, erule all_less_8 [rotated -1]; simp add: bit_simps ors mod_bits high8)+
qed

lemma emit_simps:
  "b64_emit b 8 out = (2, out @ [switch_b64_table ! unat (drop_bit 2 b mod 64)])"
  "b64_emit b 10 out = (4, out @ [switch_b64_table ! unat (drop_bit 4 b mod 64)])"
  "b64_emit b 12 out = (0, out @ [switch_b64_table ! unat (drop_bit 6 b mod 64), switch_b64_table ! unat (b mod 64)])"
  by (simp_all add: b64_emit.simps [of b])

lemma b64_emit_out: "b64_emit b l (out @ o') = map_prod id ((@) out) (b64_emit b l o')"
proof (induction b l o' rule: b64_emit.induct)
  case (1 b l o')
  then show ?case by (simp add: b64_emit.simps [of b l])
qed

lemma b64_encode_loop_out:
  "b64_encode_loop xs b l (out @ o') = map_prod id (map_prod id ((@) out)) (b64_encode_loop xs b l o')"
  by (induction xs arbitrary: b l o') (simp_all add: Let_def b64_emit_out)

lemma fold_update_other: "k \<notin> f ` set ns \<Longrightarrow> fold (\<lambda>i t. t[f i := int i]) ns t ! k = t ! k"
  by (induction ns arbitrary: t) auto

lemma fold_update_get:
  assumes "distinct (map f ns)" and "\<forall>n\<in>set ns. f n < length t" and "i \<in> set ns"
  shows "fold (\<lambda>i t. t[f i := int i]) ns t ! f i = int i"
  using assms
proof (induction ns arbitrary: t)
  case Nil
  then show ?case by simp
next
  case (Cons n ns)
  show ?case
  proof (cases "i = n")
    case True
    then have "f i \<notin> f ` set ns" using Cons.prems(1) by auto
    then show ?thesis using True Cons.prems(2) by (simp add: fold_update_other)
  next
    case False
    then show ?thesis using Cons by simp
  qed
qed

lemma b64_table_facts: "length switch_b64_table = 64" "distinct switch_b64_table"
    "list_all (\<lambda>c. (of_char c :: nat) < 128 \<and> (of_char c :: nat) \<noteq> 61) switch_b64_table"
  by (simp_all add: switch_b64_table_def)

lemma b64_l64_table: "w < 64 \<Longrightarrow> b64_l64 ! of_char (switch_b64_table ! w) = int w"
proof -
  assume "w < 64"
  moreover have "map (\<lambda>i. of_char (switch_b64_table ! i) :: nat) [0..<64] = map of_char switch_b64_table"
    using map_nth [of switch_b64_table] by (metis (no_types, lifting) b64_table_facts(1) list.map_comp map_eq_conv comp_apply)
  then have "distinct (map (\<lambda>i. of_char (switch_b64_table ! i) :: nat) [0..<64])"
    using b64_table_facts(2) by (simp add: distinct_map inj_on_def)
  ultimately show ?thesis
    unfolding b64_l64_def by (intro fold_update_get) (auto simp: nat_of_char_less_256)
qed
lemma b64_l64_pad: "b64_l64 ! 61 = -1"
proof -
  have "(61 :: nat) \<notin> (\<lambda>i. of_char (switch_b64_table ! i)) ` set [0..<64]"
    using b64_table_facts by (auto simp: list_all_length)
  then have "b64_l64 ! 61 = replicate 256 (-1) ! 61" unfolding b64_l64_def by (rule fold_update_other)
  then show ?thesis by (simp only: nth_replicate)
qed

lemma b64_table_ascii: "w < 64 \<Longrightarrow> (of_char (switch_b64_table ! w) :: nat) < 128"
  using b64_table_facts by (simp add: list_all_length)

lemma unat_mod64: "unat (w mod 64 :: uint32) < 64"
  by (simp add: unat_mod)

lemma decode_pad:
  "b64_decode_loop (CHR ''='' # ips) b l op olen = b64_decode_loop ips b l op olen"
  by (simp add: b64_l64_pad)

lemma uint_not_minus1: "uint (v :: uint32) \<noteq> -1"
proof -
  have "0 \<le> uint v" by simp
  then show ?thesis by linarith
qed

lemma decode_sextet:
  "b64_decode_loop (switch_b64_table ! unat (w mod 64) # ips) b l op olen =
     (case b64_take_bytes (push_bit 6 b + w mod 64) (l + 6) op olen of (full, l', op') \<Rightarrow>
        if full then Inr op' else b64_decode_loop ips (push_bit 6 b + w mod 64) l' op' olen)"
  using b64_table_ascii [OF unat_mod64 [of w]] b64_l64_table [OF unat_mod64 [of w]]
  by (simp add: Let_def not_le uint_not_minus1)

lemma take_bytes_simps:
  "b64_take_bytes b 6 op olen = (False, 6, op)"
  "Suc (length op) < size_sub olen 2 \<Longrightarrow> b64_take_bytes b 8 op olen = (False, 0, op @ [char_of (unat (b mod 256))])"
  "Suc (length op) < size_sub olen 2 \<Longrightarrow> b64_take_bytes b 10 op olen = (False, 2, op @ [char_of (unat (drop_bit 2 b mod 256))])"
  "Suc (length op) < size_sub olen 2 \<Longrightarrow> b64_take_bytes b 12 op olen = (False, 4, op @ [char_of (unat (drop_bit 4 b mod 256))])"
  by (simp_all add: b64_take_bytes.simps [of b])

definition b64_finish :: "uint32 \<times> nat \<times> string \<Rightarrow> string" where
  "b64_finish s = (case s of (b, l, out) \<Rightarrow>
        out @
        (if l > 0 then [switch_b64_table ! unat (push_bit (6 - l) (b mod 16) mod 64)] else []) @
        (if l \<noteq> 0 then b64_pad l else []))"

lemma b64_finish_out:
  "b64_finish (b64_encode_loop xs b l (out @ o')) = out @ b64_finish (b64_encode_loop xs b l o')"
  by (simp add: b64_encode_loop_out b64_finish_def split: prod.splits)

lemma b64_pad_simps: "b64_pad 2 = ''==''" "b64_pad 4 = ''=''"
  by (simp_all add: b64_pad.simps)

definition byte_char :: "switch_byte_t \<Rightarrow> char" where
  "byte_char x = char_of (unat x)"

lemma unat_ucast8: "unat (ucast (x :: 8 word) :: uint32) = unat x"
proof -
  have "uint (ucast x :: uint32) = uint x" by (simp add: uint_up_ucast is_up)
  then show ?thesis by (metis unat_eq_nat_uint)
qed

fun chunks3 :: "'a list \<Rightarrow> nat" where
  "chunks3 (x # y # z # xs) = Suc (chunks3 xs)"
| "chunks3 [] = 0"
| "chunks3 [x] = 0"
| "chunks3 [x, y] = 0"

lemma b64_decode_encode:
  "length op + length xs < size_sub olen 2 \<Longrightarrow>
   b64_decode_loop (b64_finish (b64_encode_loop xs b 0 [])) d 0 op olen = Inr (op @ map byte_char xs)"
proof (induction xs arbitrary: b d op rule: chunks3.induct)
  case (1 x y z xs)
  let ?b1 = "push_bit 8 b + ucast x" let ?b2 = "push_bit 8 ?b1 + ucast y" let ?b3 = "push_bit 8 ?b2 + ucast z"
  let ?out = "[switch_b64_table ! unat (drop_bit 2 ?b1 mod 64), switch_b64_table ! unat (drop_bit 4 ?b2 mod 64),
     switch_b64_table ! unat (drop_bit 6 ?b3 mod 64), switch_b64_table ! unat (?b3 mod 64)]"
  have "b64_finish (b64_encode_loop (x # y # z # xs) b 0 []) = ?out @ b64_finish (b64_encode_loop xs ?b3 0 [])"
    using b64_finish_out [of xs ?b3 0 ?out "[]"] by (simp add: Let_def emit_simps)
  then show ?case
    using 1 sextets_back [where b = b and x = x and y = y and z = z and d = d, OF refl refl refl refl refl refl refl refl refl]
    by (simp add: decode_sextet take_bytes_simps byte_char_def unat_ucast8 del: b64_decode_loop.simps)
next
  case 2
  then show ?case by (simp add: b64_finish_def)
next
  case (3 x)
  then show ?case
    using sextets_back [where b = b and x = x and y = 0 and z = 0 and d = d, OF refl refl refl refl refl refl refl refl refl]
    by (simp add: Let_def emit_simps b64_finish_def b64_pad_simps decode_pad decode_sextet take_bytes_simps byte_char_def unat_ucast8 del: b64_decode_loop.simps(2))
next
  case (4 x y)
  then show ?case
    using sextets_back [where b = b and x = x and y = y and z = 0 and d = d, OF refl refl refl refl refl refl refl refl refl]
    by (simp add: Let_def emit_simps b64_finish_def b64_pad_simps decode_pad decode_sextet take_bytes_simps byte_char_def unat_ucast8 del: b64_decode_loop.simps(2))
qed

section \<open>Lengths, digits and truncation\<close>

lemma b64_text_finish: "b64_text xs = b64_finish (b64_encode_loop xs 0 0 [])"
  by (simp add: b64_text_def b64_finish_def)

lemma length_b64_finish: "length (b64_finish (b64_encode_loop xs b 0 [])) = 4 * ((length xs + 2) div 3)"
proof (induction xs arbitrary: b rule: chunks3.induct)
  case (1 x y z xs)
  have "(5 + length xs) div 3 = Suc ((length xs + 2) div 3)" by presburger
  with 1 show ?case
    using b64_finish_out [of xs _ 0 "[_, _, _, _]" "[]"] by (simp add: Let_def emit_simps)
qed (simp_all add: Let_def emit_simps b64_finish_def b64_pad_simps)

lemma hex_digit_back:
  "n < 16 \<Longrightarrow> hex_value (url_hex ! n) = Some n \<and> \<not> c_isspace (url_hex ! n) \<and>
     url_hex ! n \<noteq> CHR ''+'' \<and> url_hex ! n \<noteq> CHR ''-'' \<and> c_tolower (url_hex ! n) \<noteq> CHR ''x'' \<and> url_hex ! n \<noteq> CHR 0x00"
proof -
  have "list_all (\<lambda>n. hex_value (url_hex ! n) = Some n \<and> \<not> c_isspace (url_hex ! n) \<and>
     url_hex ! n \<noteq> CHR ''+'' \<and> url_hex ! n \<noteq> CHR ''-'' \<and> c_tolower (url_hex ! n) \<noteq> CHR ''x'' \<and> url_hex ! n \<noteq> CHR 0x00) [0..<16]"
    by code_simp
  then show "n < 16 \<Longrightarrow> ?thesis" by (simp add: list_all_iff)
qed

lemma sscanf_2x_digits:
  "i < 16 \<Longrightarrow> j < 16 \<Longrightarrow> sscanf_2x (url_hex ! i # url_hex ! j # rest) = Some (of_nat (16 * i + j))"
  using hex_digit_back [of i] hex_digit_back [of j] by (simp add: sscanf_2x_def)

lemma char_byte_back: "char_of (unat (of_nat (of_char c) mod 256 :: uint32)) = c"
  by (simp add: unat_mod unat_of_nat order.strict_trans [OF nat_of_char_less_256])

lemma url_percent_unsafe: "url_must_encode (CHR ''%'')"
  by (simp add: url_must_encode_def url_unsafe_def)

lemma url_encode_length: "len + 4 < 2 ^ 64 \<Longrightarrow> length (url_encode_loop s x len) \<le> len - x"
  by (induction s x len rule: url_encode_loop.induct) (auto simp: size_add_def)

lemma url_encode_no_nul: "CHR 0x00 \<notin> set s \<Longrightarrow> CHR 0x00 \<notin> set (url_encode_loop s x len)"
proof (induction s x len rule: url_encode_loop.induct)
  case (2 c cs x len)
  have "(of_char c :: nat) div 16 < 16"  by (rule less_mult_imp_div_less) simp
  with 2 hex_digit_back [of "of_char c div 16"]  hex_digit_back [of "of_char c mod 16"]
  show ?case by auto
qed auto

lemma url_decode_encode:
  "x + 3 * length s \<le> len \<Longrightarrow> len < 2 ^ 64 \<Longrightarrow> url_decode_loop (url_encode_loop s x len) = s"
proof (induction s x len rule: url_encode_loop.induct)
  case (2 c cs x len)
  have d: "(of_char c :: nat) div 16 < 16"  by (rule less_mult_imp_div_less) simp
  show ?case
  proof (cases "url_must_encode c")
    case True
    then show ?thesis
      using 2 d by (simp add: size_add_def sscanf_2x_digits char_byte_back)
  next
    case False
    then have "c \<noteq> CHR ''%''" using url_percent_unsafe by auto
    then show ?thesis using 2 False by simp
  qed
qed auto

fun amp_text :: "string \<Rightarrow> string" where
  "amp_text [] = []"
| "amp_text (c # cs) =
     (if c = CHR ''<'' then ''&lt;'' else if c = CHR ''>'' then ''&gt;'' else [c]) @ amp_text cs"

lemma amp_encode_loop_fits:
  "x + length (amp_text s) + 1 < len \<Longrightarrow> len < 2 ^ 64 \<Longrightarrow> amp_encode_loop s x len = amp_text s @ [CHR 0x00]"
  by (induction s x len rule: amp_encode_loop.induct) (auto simp: size_add_def size_sub_exact)

lemma amp_encode_loop_cut:
  "len \<le> x + length (amp_text s) + 1 \<Longrightarrow> len + 4 < 2 ^ 64 \<Longrightarrow> CHR 0x00 \<notin> set s \<Longrightarrow> 
   CHR 0x00 \<notin> set (amp_encode_loop s x len) \<and> prefix (amp_encode_loop s x len) (amp_text s)"
  by (induction s x len rule: amp_encode_loop.induct) (auto simp: size_add_def size_sub_exact)

lemma amp_encode_loop_length:
  "len + 4 < 2 ^ 64 \<Longrightarrow> length (amp_encode_loop s x len) \<le> len - 1 - x"
  by (induction s x len rule: amp_encode_loop.induct) (auto simp: size_add_def size_sub_exact)

section \<open>Properties\<close>

text \<open>
  C24. Base64 round trip: with buffers of the documented sizes, what \<open>switch_b64_encode\<close> writes is
  read back by \<open>switch_b64_decode\<close> as the same bytes, followed by a NUL, for every input.
\<close>

theorem b64_roundtrip:
  assumes "4 * ((length xs + 2) div 3) \<le> length enc" and "length xs < length dec"
    and "length xs + 3 \<le> olen" and "olen < 2 ^ 64"
  shows "\<exists>enc'. switch_b64_encode xs enc n = Inr (SWITCH_STATUS_SUCCESS, enc') \<and>
     switch_b64_decode (Some (take (4 * ((length xs + 2) div 3)) enc')) dec olen =
       Inr (length xs + 1, map byte_char xs @ [CHR 0x00] @ drop (length xs + 1) dec)"
proof -
  let ?t = "b64_text xs"
  have len: "length ?t = 4 * ((length xs + 2) div 3)"
    by (simp add: b64_text_finish length_b64_finish del: add_2_eq_Suc')
  then have "switch_b64_encode xs enc n = Inr (SWITCH_STATUS_SUCCESS, ?t @ drop (length ?t) enc)"
    using assms(1) by (simp add: switch_b64_encode_def)
  moreover have "b64_decode_loop ?t 0 0 [] olen = Inr (map byte_char xs)"
    using b64_decode_encode [of "[]" xs olen 0 0] assms(3,4) by (simp add: b64_text_finish size_sub_exact)
  ultimately show ?thesis
    using assms(2) len by (simp add: switch_b64_decode_def)
qed

theorem b64_roundtrip_witness:
  "\<exists>enc'. switch_b64_encode [77, 97, 110, 255] (replicate 8 (CHR ''?'')) 8 = Inr (SWITCH_STATUS_SUCCESS, enc') \<and>
     switch_b64_decode (Some (take 8 enc')) (replicate 10 (CHR ''?'')) 10 =
       Inr (length [77, 97, 110, 255 :: switch_byte_t] + 1, map byte_char [77, 97, 110, 255] @ [CHR 0x00] @ replicate 5 (CHR ''?''))"
  using b64_roundtrip [of "[77, 97, 110, 255]" "replicate 8 (CHR ''?'')" "replicate 10 (CHR ''?'')" 10 8]
  by simp

text \<open>
  \<open>switch_b64_encode\<close> writes four characters for every started group of three bytes
  whatever \<open>olen\<close> says: it leaves the buffer exactly when the buffer is shorter than that.
\<close>

theorem b64_encode_ignores_olen:
  "switch_b64_encode xs out olen = Inl OutOfBounds \<longleftrightarrow> length out < 4 * ((length xs + 2) div 3)"
  using length_b64_finish [of xs 0]
  by (auto simp: switch_b64_encode_def mem_write_def b64_text_finish)

text \<open>
  C29. Percent encoding round trip: with room for three characters per byte and the NUL,
  \<open>switch_url_decode\<close> gives back the text that \<open>switch_url_encode\<close> was given.
\<close>

theorem url_roundtrip:
  assumes "CHR 0x00 \<notin> set s" and "3 * length s < len" and "len \<le> length buf" and "len < 2 ^ 63"
  shows "\<exists>buf'. switch_url_encode (Some s) (Some buf) len = Inr (Some buf') \<and>
     switch_url_decode (Some (takeWhile (\<lambda>c. c \<noteq> CHR 0x00) buf')) = Some s"
proof -
  let ?e = "url_encode_loop s 0 (len - 1)"
  have sub: "size_sub len (Suc 0) = len - Suc 0" using assms(2,4) by (simp add: size_sub_exact)
  have "length ?e \<le> len - 1" using url_encode_length [of "len - 1" s 0] assms(4) by simp
  then have "switch_url_encode (Some s) (Some buf) len = Inr (Some (?e @ [CHR 0x00] @ drop (length ?e + 1) buf))"
    using assms(2,3) by (simp add: switch_url_encode_def sub)
  moreover have "takeWhile (\<lambda>c. c \<noteq> CHR 0x00) (?e @ [CHR 0x00] @ drop (length ?e + 1) buf) = ?e"
    using url_encode_no_nul [OF assms(1), of 0 "len - 1"] by (subst takeWhile_append2) auto
  moreover have "url_decode_loop ?e = s"
    using url_decode_encode [of 0 s "len - 1"] assms(2,4) by simp
  ultimately show ?thesis
    by (auto simp: switch_url_decode_def zstr_def)
qed

theorem url_roundtrip_witness:
  "\<exists>buf'. switch_url_encode (Some ''a b%&c'') (Some (replicate 20 (CHR ''?''))) 20 = Inr (Some buf') \<and>
     switch_url_decode (Some (takeWhile (\<lambda>c. c \<noteq> CHR 0x00) buf')) = Some ''a b%&c''"
  using url_roundtrip [of "''a b%&c''" 20 "replicate 20 (CHR ''?'')"] by simp

text \<open>
  \<open>switch_amp_encode\<close> stays inside a buffer of \<open>len\<close> bytes and writes the escaped text
  with its NUL when that leaves a byte to spare; otherwise it stops at a prefix and writes no
  NUL at all.
\<close>

theorem amp_encode_termination:
  assumes "CHR 0x00 \<notin> set s" and "0 < len" and "len \<le> length buf" and "len < 2 ^ 63"
  shows "\<exists>w. switch_amp_encode (Some s) buf len = Inr (w @ drop (length w) buf) \<and> length w < len \<and>
     (if length (amp_text s) + 1 < len then w = amp_text s @ [CHR 0x00]
      else prefix w (amp_text s) \<and> CHR 0x00 \<notin> set w)"
proof -
  let ?w = "amp_encode_loop s 0 len"
  have "length ?w < len" using amp_encode_loop_length [of len s 0] assms(2,4) by simp
  moreover from this have "switch_amp_encode (Some s) buf len = Inr (?w @ drop (length ?w) buf)"
    using assms(3) by (simp add: switch_amp_encode_def)
  ultimately show ?thesis
    using amp_encode_loop_fits [of 0 s len] amp_encode_loop_cut [of len 0 s] assms(1,4)
    by (intro exI [of _ ?w]) auto
qed

theorem amp_encode_termination_witness:
  "\<exists>w. switch_amp_encode (Some ''<b>'') (replicate 9 (CHR ''?'')) 9 = Inr (w @ drop (length w) (replicate 9 (CHR ''?''))) \<and>
     length w < 9 \<and> prefix w (amp_text ''<b>'') \<and> CHR 0x00 \<notin> set w"
  using amp_encode_termination [of "''<b>''" 9 "replicate 9 (CHR ''?'')"] by simp

end
