(* ===== verification/Network_List.thy ===== *)
theory Network_List
  imports Strings
begin

text \<open>
  The access control lists of \<^verbatim>\<open>switch_utils.c\<close>: lists of networks with a verdict
  each, built from CIDR strings or host/mask pairs and asked for the verdict on an address.

  The union \<open>ip_t\<close> is its 16 bytes; its member \<open>v4\<close> is the first four, least significant first
  as on the little-endian machines the server runs on.  The address parser of the C library, what
  the uninitialised stack variables hold and the value of a shift by the full width, which C
  leaves undefined, are the fields of an environment record.
\<close>

section \<open>Addresses\<close>

type_synonym ip_t = "uint8 list"

datatype family_t = AF_UNSPEC | AF_INET | AF_INET6

definition v4_bytes :: "uint32 \<Rightarrow> uint8 list" where
  "v4_bytes w = [ucast w, ucast (drop_bit 8 w), ucast (drop_bit 16 w), ucast (drop_bit 24 w)]"

definition bytes_v4 :: "uint8 list \<Rightarrow> uint32" where
  "bytes_v4 bs =
     ucast (bs ! 0) OR push_bit 8 (ucast (bs ! 1)) OR push_bit 16 (ucast (bs ! 2)) OR
     push_bit 24 (ucast (bs ! 3))"

definition ip_v4 :: "ip_t \<Rightarrow> uint32" where
  "ip_v4 ip = bytes_v4 (take 4 ip)"

definition ip_set_v4 :: "uint32 \<Rightarrow> ip_t \<Rightarrow> ip_t" where
  "ip_set_v4 w ip = v4_bytes w @ drop 4 ip"

definition htonl :: "uint32 \<Rightarrow> uint32" where
  "htonl w = bytes_v4 (rev (v4_bytes w))"

record net_env =
  pton :: "family_t \<Rightarrow> string \<Rightarrow> ip_t \<Rightarrow> ip_t"
  stack_ip :: ip_t
  stack_mask :: ip_t
  shr_full :: uint32

definition shr32 :: "net_env \<Rightarrow> uint32 \<Rightarrow> nat \<Rightarrow> uint32" where
  "shr32 env w n = (if n < 32 then drop_bit n w else shr_full env)"

section \<open>The lists\<close>

record switch_network_node =
  node_ip :: ip_t
  node_mask :: ip_t
  node_bits :: uint32
  node_family :: family_t
  node_ok :: bool
  node_token :: "string option"
  node_str :: string

record switch_network_list =
  node_list :: "switch_network_node list"
  default_type :: bool
  list_name :: string

definition switch_network_list_create :: "string \<Rightarrow> bool \<Rightarrow> switch_status_t \<times> switch_network_list" where
  "switch_network_list_create name dflt =
     (SWITCH_STATUS_SUCCESS, \<lparr>node_list = [], default_type = dflt, list_name = name\<rparr>)"

definition switch_test_subnet :: "uint32 \<Rightarrow> uint32 \<Rightarrow> uint32 \<Rightarrow> bool" where
  "switch_test_subnet ip net msk =
     (if msk \<noteq> 0 then net AND msk = ip AND msk else if net \<noteq> 0 then net = ip else True)"

definition IN6_AND_MASK :: "ip_t \<Rightarrow> ip_t \<Rightarrow> ip_t" where
  "IN6_AND_MASK ip msk = map2 (AND) ip msk"

definition IN6_IS_ADDR_UNSPECIFIED :: "ip_t \<Rightarrow> bool" where
  "IN6_IS_ADDR_UNSPECIFIED ip \<longleftrightarrow> list_all (\<lambda>b. b = 0) ip"

definition switch_testv6_subnet :: "ip_t \<Rightarrow> ip_t \<Rightarrow> ip_t \<Rightarrow> bool" where
  "switch_testv6_subnet ip net msk =
     (if \<not> IN6_IS_ADDR_UNSPECIFIED msk then IN6_AND_MASK net msk = IN6_AND_MASK ip msk
      else if \<not> IN6_IS_ADDR_UNSPECIFIED net then net = ip else True)"

text \<open>
  The two look-up loops share their shape: \<open>skip\<close> is the family left out and \<open>test\<close> the subnet
  test.  The token is written only where the caller passed a place for it.
\<close>

fun validate_loop ::
    "(switch_network_node \<Rightarrow> bool) \<Rightarrow> (switch_network_node \<Rightarrow> bool) \<Rightarrow> switch_network_node list \<Rightarrow>
     bool \<Rightarrow> uint32 \<Rightarrow> string option \<Rightarrow> bool \<times> string option" where
  "validate_loop skip test [] ok bits tok = (ok, tok)"
| "validate_loop skip test (n # ns) ok bits tok =
     (if skip n then validate_loop skip test ns ok bits tok
      else if bits < node_bits n \<and> test n
      then validate_loop skip test ns (node_ok n) (node_bits n) (node_token n)
      else validate_loop skip test ns ok bits tok)"

definition switch_network_list_validate_ip_token ::
    "switch_network_list \<Rightarrow> uint32 \<Rightarrow> string option \<Rightarrow> bool \<times> string option" where
  "switch_network_list_validate_ip_token l ip tok =
     validate_loop (\<lambda>n. node_family n = AF_INET6)
       (\<lambda>n. switch_test_subnet ip (ip_v4 (node_ip n)) (ip_v4 (node_mask n)))
       (node_list l) (default_type l) 0 tok"

definition switch_network_list_validate_ip6_token ::
    "switch_network_list \<Rightarrow> ip_t \<Rightarrow> string option \<Rightarrow> bool \<times> string option" where
  "switch_network_list_validate_ip6_token l ip tok =
     validate_loop (\<lambda>n. node_family n = AF_INET)
       (\<lambda>n. switch_testv6_subnet ip (node_ip n) (node_mask n))
       (node_list l) (default_type l) 0 tok"

section \<open>Building a list\<close>

fun v6_mask_loop :: "nat \<Rightarrow> nat \<Rightarrow> ip_t" where
  "v6_mask_loop n 0 = []"
| "v6_mask_loop n (Suc k) =
     (if 8 \<le> n then 0xFF # v6_mask_loop (n - 8) k
      else (0xFF AND NOT (drop_bit n 0xFF)) # v6_mask_loop (n - n) k)"

text \<open>
  \<open>switch_parse_cidr\<close> copies 128 bytes from the string, whose own end is not looked at; when the
  text is longer than that the copy has no NUL, and the searches in it run on.  The result is the
  return code with the contents of the three output variables.
\<close>

definition host_copy :: "string \<Rightarrow> string" where
  "host_copy s = take 128 s"

definition switch_parse_cidr ::
    "net_env \<Rightarrow> string \<Rightarrow> ip_t \<Rightarrow> ip_t \<Rightarrow> uint32 \<Rightarrow> (int \<times> ip_t \<times> ip_t \<times> uint32) outcome" where
  "switch_parse_cidr env s ip msk bitp =
     (case strchr (host_copy s) (CHR ''/'') of
        None \<Rightarrow> if 128 \<le> length s then Inl OutOfBounds else Inr (-1, ip, msk, bitp)
      | Some i \<Rightarrow>
          let host = take i (host_copy s);
              bit_str = drop (i + 1) (host_copy s);
              bits = atoi bit_str
          in if 128 \<le> length s \<and>
                list_all (\<lambda>c. c_isspace c \<or> c_isdigit c \<or> c = CHR ''+'' \<or> c = CHR ''-'') bit_str
             then Inl OutOfBounds
             else if CHR '':'' \<in> set s then
               if bits < 0 \<or> bits > 128 then Inr (-2, ip, msk, bitp)
               else Inr (0, pton env AF_INET6 host ip, v6_mask_loop (nat bits) 16, word_of_int bits)
             else
               if bits < 0 \<or> bits > 32 then Inr (-2, ip, msk, bitp)
               else
                 let ip' = pton env AF_INET host ip
                 in Inr (0, ip_set_v4 (htonl (ip_v4 ip')) ip',
                      ip_set_v4 (0xFFFFFFFF AND NOT (shr32 env 0xFFFFFFFF (nat bits))) msk,
                      word_of_int bits))"

definition switch_network_list_perform_add_cidr_token ::
    "net_env \<Rightarrow> switch_network_list \<Rightarrow> string \<Rightarrow> bool \<Rightarrow> string option \<Rightarrow>
     (switch_status_t \<times> switch_network_list) outcome" where
  "switch_network_list_perform_add_cidr_token env l cidr ok token =
     bindE (switch_parse_cidr env cidr (stack_ip env) (stack_mask env) 0)
       (\<lambda>(rc, ip, msk, bits).
          if rc \<noteq> 0 then Inr (SWITCH_STATUS_GENERR, l)
          else
            let node = \<lparr>node_ip = ip, node_mask = msk, node_bits = bits,
                        node_family = (if CHR '':'' \<in> set cidr then AF_INET6 else AF_INET),
                        node_ok = ok, node_token = (if zstr token then None else token),
                        node_str = cidr\<rparr>
            in Inr (SWITCH_STATUS_SUCCESS, l\<lparr>node_list := node # node_list l\<rparr>))"

fun add_cidr_each ::
    "net_env \<Rightarrow> string list \<Rightarrow> bool \<Rightarrow> string option \<Rightarrow> switch_status_t \<Rightarrow> switch_network_list \<Rightarrow>
     (switch_status_t \<times> switch_network_list) outcome" where
  "add_cidr_each env [] ok token status l = Inr (status, l)"
| "add_cidr_each env (a # as) ok token status l =
     bindE (switch_network_list_perform_add_cidr_token env l a ok token)
       (\<lambda>(st, l'). add_cidr_each env as ok token
          (if st \<noteq> SWITCH_STATUS_SUCCESS then st else status) l')"

definition switch_network_list_add_cidr_token ::
    "net_env \<Rightarrow> switch_network_list \<Rightarrow> string \<Rightarrow> bool \<Rightarrow> string option \<Rightarrow>
     (switch_status_t \<times> switch_network_list) outcome" where
  "switch_network_list_add_cidr_token env l cidr ok token =
     (if CHR '','' \<in> set cidr then
        bindE (switch_separate_string (Some cidr) (CHR '','') 32)
          (\<lambda>argv. add_cidr_each env argv ok token SWITCH_STATUS_SUCCESS l)
      else switch_network_list_perform_add_cidr_token env l cidr ok token)"

definition mask_bits :: "uint32 \<Rightarrow> uint32" where
  "mask_bits m0 =
     (let m1 = m0 - (drop_bit 1 m0 AND 0x55555555);
          m2 = (m1 AND 0x33333333) + (drop_bit 2 m1 AND 0x33333333)
      in drop_bit 24 (((m2 + drop_bit 4 m2) AND 0xF0F0F0F) * 0x1010101))"

text \<open>The new node comes zeroed from the pool, and its family stays zero.\<close>

definition switch_network_list_add_host_mask ::
    "net_env \<Rightarrow> switch_network_list \<Rightarrow> string \<Rightarrow> string \<Rightarrow> bool \<Rightarrow> switch_status_t \<times> switch_network_list" where
  "switch_network_list_add_host_mask env l host mask_str ok =
     (let ip = ip_v4 (pton env AF_INET host (stack_ip env));
          msk = ip_v4 (pton env AF_INET mask_str (stack_mask env));
          node = \<lparr>node_ip = ip_set_v4 (htonl ip) (replicate 16 0),
                  node_mask = ip_set_v4 (htonl msk) (replicate 16 0),
                  node_bits = mask_bits msk, node_family = AF_UNSPEC, node_ok = ok,
                  node_token = None, node_str = host @ '':'' @ mask_str\<rparr>
      in (SWITCH_STATUS_SUCCESS, l\<lparr>node_list := node # node_list l\<rparr>))"

section \<open>The longest matching prefix\<close>

fun longest :: "switch_network_node list \<Rightarrow> switch_network_node option" where
  "longest [] = None"
| "longest (n # ns) =
     (case longest ns of None \<Rightarrow> Some n | Some m \<Rightarrow> if node_bits n < node_bits m then Some m else Some n)"

lemma longest_None [simp]: "longest ns = None \<longleftrightarrow> ns = []"
  by (cases ns) (auto split: option.splits)

lemma longest_max: "longest ns = Some n \<Longrightarrow> list_all (\<lambda>m. node_bits m \<le> node_bits n) ns"
proof (induction ns arbitrary: n)
  case Nil
  then show ?case by simp
next
  case (Cons x ns)
  then show ?case
    by (cases "longest ns") (fastforce simp: list_all_iff split: if_splits)+
qed

lemma longest_first_max:
  "longest ns = Some n \<Longrightarrow>
     \<exists>as bs. ns = as @ n # bs \<and> list_all (\<lambda>m. node_bits m < node_bits n) as \<and>
       list_all (\<lambda>m. node_bits m \<le> node_bits n) bs"
proof (induction ns)
  case Nil
  then show ?case by simp
next
  case (Cons x ns)
  show ?case
  proof (cases "longest ns")
    case None
    then show ?thesis using Cons.prems by (auto intro: exI [of _ "[]"])
  next
    case (Some m)
    show ?thesis
    proof (cases "node_bits x < node_bits m")
      case True
      then have "n = m" using Cons.prems Some by simp
      with Some Cons.IH obtain as bs where
        "ns = as @ n # bs" "list_all (\<lambda>m. node_bits m < node_bits n) as" "list_all (\<lambda>m. node_bits m \<le> node_bits n) bs"
        by blast
      then show ?thesis using True \<open>n = m\<close> by (intro exI [of _ "x # as"] exI [of _ bs]) simp
    next
      case False
      then have n: "n = x" using Cons.prems Some by simp
      have "list_all (\<lambda>k. node_bits k \<le> node_bits m) ns"
        using longest_max [OF Some] .
      then show ?thesis using n False by (intro exI [of _ "[]"] exI [of _ ns]) (auto simp: list_all_iff)
    qed
  qed
qed

lemma longest_filter:
  "longest (filter (\<lambda>n. P n \<and> b < node_bits n) ns) =
     (case longest (filter P ns) of None \<Rightarrow> None | Some m \<Rightarrow> if b < node_bits m then Some m else None)"
  by (induction ns) (auto split: option.splits if_splits)

lemma validate_loop_longest:
  "validate_loop skip test ns ok bits tok =
     (case longest (filter (\<lambda>n. \<not> skip n \<and> test n \<and> bits < node_bits n) ns) of
        None \<Rightarrow> (ok, tok) | Some n \<Rightarrow> (node_ok n, node_token n))"
proof (induction ns arbitrary: ok bits tok)
  case Nil
  then show ?case by simp
next
  case (Cons a ns)
  have *: "longest (filter (\<lambda>n. \<not> skip n \<and> test n \<and> b < node_bits n) ns) =
     (case longest (filter (\<lambda>n. \<not> skip n \<and> test n) ns) of None \<Rightarrow> None
      | Some m \<Rightarrow> if b < node_bits m then Some m else None)" for b
    using longest_filter [of "\<lambda>n. \<not> skip n \<and> test n" b ns] by (simp add: conj_assoc)
  show ?case
    by (auto simp: Cons * split: option.splits)
qed

lemma v4_bytes_back: "bytes_v4 (v4_bytes w) = w"
proof (rule bit_eqI)
  fix n :: nat
  show "bit (bytes_v4 (v4_bytes w)) n = bit w n"
    using bit_imp_le_length [of w n]
    by (cases "n < 8"; cases "n < 16"; cases "n < 24"; cases "n < 32")
      (auto simp: bytes_v4_def v4_bytes_def bit_simps)
qed


lemma ip_v4_set [simp]: "ip_v4 (ip_set_v4 w ip) = w"
  by (simp add: ip_v4_def ip_set_v4_def v4_bytes_back) (simp add: v4_bytes_def v4_bytes_back [unfolded v4_bytes_def])

lemma prefix_mask_bit:
  assumes "b < 32"
  shows "bit (0xFFFFFFFF AND NOT (drop_bit b 0xFFFFFFFF) :: uint32) n \<longleftrightarrow> 32 - b \<le> n \<and> n < 32"
proof -
  have "(0xFFFFFFFF :: uint32) = -1" by simp
  then have "(0xFFFFFFFF AND NOT (drop_bit b 0xFFFFFFFF) :: uint32) = NOT (drop_bit b (-1))"
    by (simp only: and.left_neutral)
  then show ?thesis using assms by (auto simp: bit_simps)
qed

lemma test_subnet_bits:
  assumes "\<And>n. bit m n \<longleftrightarrow> 32 - b \<le> n \<and> n < 32" and "0 < b" and "b < 32"
  shows "switch_test_subnet ip net m \<longleftrightarrow> drop_bit (32 - b) ip = drop_bit (32 - b) net"
proof -
  have "bit m 31" using assms by simp
  then have "m \<noteq> 0" by (metis bit_0_eq bot_apply bot_bool_def)
  moreover have "net AND m = ip AND m \<longleftrightarrow> (\<forall>n. 32 - b \<le> n \<and> n < 32 \<longrightarrow> bit net n = bit ip n)"
    by (auto simp: bit_eq_iff bit_and_iff assms(1))
  moreover have "drop_bit (32 - b) ip = drop_bit (32 - b) net \<longleftrightarrow>
      (\<forall>n. 32 - b \<le> n \<and> n < 32 \<longrightarrow> bit net n = bit ip n)" (is "?l = ?r")
  proof
    assume l: ?l
    show ?r
    proof (intro allI impI)
      fix n assume n: "32 - b \<le> n \<and> n < 32"
      then have "bit (drop_bit (32 - b) ip) (n - (32 - b)) = bit (drop_bit (32 - b) net) (n - (32 - b))"
        using l by simp
      then show "bit net n = bit ip n" using n by (simp add: bit_drop_bit_eq)
    qed
  next
    assume r: ?r
    show ?l
    proof (rule bit_eqI)
      fix n :: nat
      show "bit (drop_bit (32 - b) ip) n = bit (drop_bit (32 - b) net) n"
        using r [rule_format, of "32 - b + n"] bit_imp_le_length [of ip "32 - b + n"]
          bit_imp_le_length [of net "32 - b + n"] by (auto simp: bit_drop_bit_eq)
    qed
  qed
  ultimately show ?thesis by (simp add: switch_test_subnet_def)
qed

lemma and_all_ones: "w AND 0xFFFFFFFF = (w :: uint32)"
proof -
  have "(0xFFFFFFFF :: uint32) = -1" by simp
  then show ?thesis by (simp only: and.right_neutral)
qed

lemma parse_cidr_v4:
  assumes "switch_parse_cidr env s ip0 msk0 b0 = Inr (0, ip, msk, bits)" and "CHR '':'' \<notin> set s"
    and "z = atoi (drop (Suc (the (strchr (host_copy s) (CHR ''/'')))) (host_copy s))"
  shows "0 \<le> z" "z \<le> 32" "bits = word_of_int z" "ip_v4 msk = 0xFFFFFFFF AND NOT (shr32 env 0xFFFFFFFF (nat z))"
  using assms by (auto simp: switch_parse_cidr_def Let_def split: option.splits if_splits)

section \<open>Properties\<close>

text \<open>
  The answer \<open>r\<close> is that of the entries \<open>ms\<close>, the newest first: of the one with most bits, the newest
  among equals, or the default with the caller's token when there are none.
\<close>

definition longest_decides :: "switch_network_list \<Rightarrow> string option \<Rightarrow> switch_network_node list \<Rightarrow> bool \<times> string option \<Rightarrow> bool" where
  "longest_decides l tok ms r \<longleftrightarrow>
     (if ms = [] then r = (default_type l, tok)
      else \<exists>newer n older. ms = newer @ n # older \<and>
        list_all (\<lambda>k. node_bits k < node_bits n) newer \<and> list_all (\<lambda>k. node_bits k \<le> node_bits n) older \<and>
        r = (node_ok n, node_token n))"

lemma loop_longest_decides:
  "longest_decides l tok (filter (\<lambda>n. \<not> skip n \<and> test n \<and> 0 < node_bits n) (node_list l))
     (validate_loop skip test (node_list l) (default_type l) 0 tok)"
proof -
  let ?ms = "filter (\<lambda>n. \<not> skip n \<and> test n \<and> 0 < node_bits n) (node_list l)"
  show ?thesis
  proof (cases "longest ?ms")
    case None
    then show ?thesis by (simp add: longest_decides_def validate_loop_longest)
  next
    case (Some n)
    then have "?ms \<noteq> []" by (metis longest_None option.distinct(1))
    with Some longest_first_max [OF Some] show ?thesis unfolding longest_decides_def validate_loop_longest by auto
  qed
qed


text \<open>
  A CIDR entry of \<open>b\<close> bits is stored with that length and matches exactly the addresses
  that agree with it in the first \<open>b\<close> bits.  For 32 bits the source shifts a 32-bit word by 32;
  the entry still matches exactly its own address if the machine gives zero, or if it gives the
  word back and the address is not zero.
\<close>

theorem cidr_entry_prefix:
  assumes "switch_network_list_perform_add_cidr_token env l cidr ok token = Inr (SWITCH_STATUS_SUCCESS, l')"
    and "CHR '':'' \<notin> set cidr"
  shows "\<exists>n b. node_list l' = n # node_list l \<and> node_ok n = ok \<and> node_family n = AF_INET \<and>
     node_bits n = of_nat b \<and> b \<le> 32 \<and>
     (if b < 32 then b = 0 \<or> (\<forall>ip. switch_test_subnet ip (ip_v4 (node_ip n)) (ip_v4 (node_mask n)) \<longleftrightarrow>
          drop_bit (32 - b) ip = drop_bit (32 - b) (ip_v4 (node_ip n)))
      else shr_full env = 0 \<or> shr_full env = -1 \<and> ip_v4 (node_ip n) \<noteq> 0 \<longrightarrow>
        (\<forall>ip. switch_test_subnet ip (ip_v4 (node_ip n)) (ip_v4 (node_mask n)) \<longleftrightarrow> ip = ip_v4 (node_ip n)))"
proof -
  obtain ip msk bits tok where
      p: "switch_parse_cidr env cidr (stack_ip env) (stack_mask env) 0 = Inr (0, ip, msk, bits)"
    and l': "l' = l\<lparr>node_list := \<lparr>node_ip = ip, node_mask = msk, node_bits = bits, node_family = AF_INET,
        node_ok = ok, node_token = tok, node_str = cidr\<rparr> # node_list l\<rparr>"
    using assms by (auto simp: switch_network_list_perform_add_cidr_token_def bindE_eq_Inr Let_def split: if_splits)
  note z = parse_cidr_v4 [OF p assms(2) refl]
  define b where "b = nat (atoi (drop (Suc (the (strchr (host_copy cidr) (CHR ''/'')))) (host_copy cidr)))"
  have b: "bits = of_nat b" "b \<le> 32" using z unfolding b_def by auto
  have short: "b < 32 \<Longrightarrow> 0 < b \<Longrightarrow> switch_test_subnet a (ip_v4 ip) (ip_v4 msk) \<longleftrightarrow>
      drop_bit (32 - b) a = drop_bit (32 - b) (ip_v4 ip)" for a
    using z(4) by (intro test_subnet_bits) (simp_all only: shr32_def if_True b_def prefix_mask_bit)
  have full: "b = 32 \<Longrightarrow> shr_full env = 0 \<or> shr_full env = -1 \<and> ip_v4 ip \<noteq> 0 \<Longrightarrow>
      switch_test_subnet a (ip_v4 ip) (ip_v4 msk) \<longleftrightarrow> a = ip_v4 ip" for a
    using z(4) unfolding b_def [symmetric] by (auto simp: shr32_def switch_test_subnet_def and_all_ones)
  show ?thesis
    by (rule exI, rule exI [of _ b]) (use l' b short full in auto)
qed

definition net_env0 :: net_env where
  "net_env0 = \<lparr>pton = (\<lambda>f s d. [10, 0, 0, 0] @ drop 4 d), stack_ip = replicate 16 0,
               stack_mask = replicate 16 0, shr_full = -1\<rparr>"

theorem cidr_entry_prefix_witness:
  "\<exists>l'. switch_network_list_perform_add_cidr_token net_env0 (snd (switch_network_list_create ''lan'' False))
         ''10.0.0.0/8'' True None = Inr (SWITCH_STATUS_SUCCESS, l') \<and>
      (\<exists>n b. node_list l' = n # node_list (snd (switch_network_list_create ''lan'' False)) \<and> node_ok n \<and> b \<le> 32 \<and> node_bits n = of_nat b)"
proof -
  let ?l = "snd (switch_network_list_create ''lan'' False)"
  obtain l' where "switch_network_list_perform_add_cidr_token net_env0 ?l ''10.0.0.0/8'' True None = Inr (SWITCH_STATUS_SUCCESS, l')"
    by (simp add: switch_network_list_perform_add_cidr_token_def switch_parse_cidr_def host_copy_def atoi_def strtol10_def c_isspace_def c_isdigit_def Let_def)
  with cidr_entry_prefix [OF this] show ?thesis by auto
qed

text \<open>
  An entry for \<open>0.0.0.0/0\<close> is accepted and never takes part in a decision: whatever its
  verdict, every address gets the answer it had before.
\<close>

theorem zero_prefix_entry_ignored:
  "\<exists>l'. switch_network_list_perform_add_cidr_token env l ''0.0.0.0/0'' ok token = Inr (SWITCH_STATUS_SUCCESS, l') \<and>
     length (node_list l') = Suc (length (node_list l)) \<and>
     switch_network_list_validate_ip_token l' ip tok = switch_network_list_validate_ip_token l ip tok"
  by (simp add: switch_network_list_perform_add_cidr_token_def switch_parse_cidr_def host_copy_def atoi_def
      strtol10_def c_isspace_def c_isdigit_def Let_def switch_network_list_validate_ip_token_def)

text \<open>
  An IPv4 host/mask entry carries no address family and is therefore also applied to IPv6
  addresses: an entry for network 10 of eight bits decides on every IPv6 address whose fourth
  byte is 10.
\<close>

theorem host_mask_applies_to_ipv6:
  assumes "take 4 (pton env AF_INET host (stack_ip env)) = [10, 0, 0, 0]"
    and "take 4 (pton env AF_INET msk (stack_mask env)) = [255, 0, 0, 0]"
    and "length ip6 = 16" and "ip6 ! 3 = 10"
  shows "fst (switch_network_list_validate_ip6_token
     (snd (switch_network_list_add_host_mask env (snd (switch_network_list_create name (\<not> ok))) host msk ok)) ip6 tok) = ok"
proof -
  have m: "mask_bits 255 = 8" by (simp add: mask_bits_def)
  have ip: "ip_v4 (pton env AF_INET host (stack_ip env)) = 10" "ip_v4 (pton env AF_INET msk (stack_mask env)) = 255"
    using assms(1,2) by (simp_all add: ip_v4_def bytes_v4_def)
  have h: "ip_set_v4 (htonl 10) (replicate 16 0) = [0, 0, 0, 10] @ replicate 12 0"
      "ip_set_v4 (htonl 255) (replicate 16 0) = [0, 0, 0, 255] @ replicate 12 0"
    by (simp_all add: ip_set_v4_def htonl_def v4_bytes_def bytes_v4_def)
  obtain a b c r where "ip6 = a # b # c # 10 # r" "length r = 12"
    using assms(3,4) by (auto simp: numeral_eq_Suc length_Suc_conv)
  then have "IN6_AND_MASK ip6 ([0, 0, 0, 255] @ replicate 12 0) = [0, 0, 0, 10] @ replicate 12 0"
    by (simp add: IN6_AND_MASK_def) (auto simp: numeral_eq_Suc length_Suc_conv)
  then have "switch_testv6_subnet ip6 ([0, 0, 0, 10] @ replicate 12 0) ([0, 0, 0, 255] @ replicate 12 0)"
    by (simp add: switch_testv6_subnet_def IN6_IS_ADDR_UNSPECIFIED_def IN6_AND_MASK_def)
  then show ?thesis
    by (simp add: switch_network_list_validate_ip6_token_def switch_network_list_add_host_mask_def
        switch_network_list_create_def Let_def ip h m)
qed

definition net_env1 :: net_env where
  "net_env1 = \<lparr>pton = (\<lambda>f s d. (if s = ''255.0.0.0'' then [255, 0, 0, 0] else [10, 0, 0, 0]) @ drop 4 d),
               stack_ip = replicate 16 0, stack_mask = replicate 16 0, shr_full = -1\<rparr>"

theorem host_mask_applies_to_ipv6_witness:
  "fst (switch_network_list_validate_ip6_token
     (snd (switch_network_list_add_host_mask net_env1 (snd (switch_network_list_create ''lan'' False))
        ''10.0.0.0'' ''255.0.0.0'' True)) ([0x20, 1, 13, 10] @ replicate 12 7) None)"
  using host_mask_applies_to_ipv6 [of net_env1 "''10.0.0.0''" "''255.0.0.0''"
      "[0x20, 1, 13, 10] @ replicate 12 7" "''lan''" True None]
  by (simp add: net_env1_def)

end
