(* ===== verification/Port_Allocator.thy ===== *)
theory Port_Allocator
  imports Prelude
begin

text \<open>
  The port allocator of \<^verbatim>\<open>switch_core_port_allocator.c\<close>, which hands out the UDP ports of
  media sessions.  A byte per port tells whether it is in use (positive), free (zero) or resting
  after use (negative).  The random numbers are a parameter, the \<open>k\<close>-th call of \<open>rand\<close> being
  \<open>rnd k\<close>.  A loop that never ends is \<open>None\<close>.
\<close>

record switch_core_port_allocator =
  pa_start :: uint16
  pa_end :: uint16
  pa_next :: uint16
  pa_track :: "int list"
  pa_track_len :: nat
  pa_track_used :: nat
  pa_even :: bool
  pa_odd :: bool

section \<open>Creation\<close>

text \<open>The rounding of the range for an allocator that is to give even or odd ports only.\<close>

definition round_range :: "bool \<Rightarrow> bool \<Rightarrow> uint16 \<Rightarrow> uint16 \<Rightarrow> uint16 \<times> uint16" where
  "round_range even_only odd_only s e =
     (if \<not> (even_only \<and> odd_only) then
        if even_only then
          (if s mod 2 \<noteq> 0 then s + 1 else s, if e mod 2 \<noteq> 0 then e - 1 else e)
        else if odd_only then
          (if s mod 2 = 0 then s + 1 else s, if e mod 2 = 0 then e - 1 else e)
        else (s, e)
      else (s, e))"

definition switch_core_port_allocator_new ::
    "uint16 \<Rightarrow> uint16 \<Rightarrow> bool \<Rightarrow> bool \<Rightarrow> switch_status_t \<times> switch_core_port_allocator" where
  "switch_core_port_allocator_new s e even_flag odd_flag =
     (let (s, e) = round_range even_flag odd_flag s e;
          len = nat ((uint e - uint s + 2) mod 2 ^ 32);
          len = (if \<not> (even_flag \<and> odd_flag) then len div 2 else len)
      in (SWITCH_STATUS_SUCCESS,
          \<lparr>pa_start = s, pa_end = e, pa_next = s,
           pa_track = replicate ((len + 2) mod 2 ^ 32) 0, pa_track_len = len, pa_track_used = 0,
           pa_even = even_flag, pa_odd = odd_flag\<rparr>))"

section \<open>Requests\<close>

text \<open>
  The walk from a randomly chosen entry to the next free one, which shortens the rest of the
  resting entries it passes.
\<close>

function walk :: "nat \<Rightarrow> int list \<Rightarrow> nat \<Rightarrow> nat \<Rightarrow> (int list \<times> nat \<times> nat) outcome" where
  "walk len track index tries =
     (if length track \<le> index then Inl OutOfBounds
      else if track ! index \<noteq> 0 \<and> tries < len then
        walk len
          (if track ! index < 0 then track[index := track ! index + 1] else track)
          (if len \<le> index + 1 then 0 else index + 1) (tries + 1)
      else Inr (track, index, tries))"
  by pat_completeness auto
termination by (relation "measure (\<lambda>(len, _, _, tries). len - tries)") auto

declare walk.simps [simp del]

definition port_at :: "switch_core_port_allocator \<Rightarrow> nat \<Rightarrow> uint16" where
  "port_at a index =
     (if pa_even a \<and> pa_odd a then of_nat (index + unat (pa_start a))
      else of_nat (index + unat (pa_start a) div 2) * 2)"

partial_function (option) request_loop ::
    "(nat \<Rightarrow> nat) \<Rightarrow> nat \<Rightarrow> switch_core_port_allocator \<Rightarrow>
     (switch_status_t \<times> uint16 \<times> switch_core_port_allocator) outcome option" where
  "request_loop rnd k a =
     (if pa_track_used a < pa_track_len a then
        (case walk (pa_track_len a) (pa_track a) (rnd k mod pa_track_len a) 0 of
           Inl e \<Rightarrow> Some (Inl e)
         | Inr (track, index, tries) \<Rightarrow>
             if tries < pa_track_len a then
               Some (Inr (SWITCH_STATUS_SUCCESS, port_at a index,
                 a\<lparr>pa_track := track[index := 1], pa_track_used := pa_track_used a + 1\<rparr>))
             else request_loop rnd (k + 1) (a\<lparr>pa_track := track\<rparr>))
      else Some (Inr (SWITCH_STATUS_FALSE, 0, a)))"

definition switch_core_port_allocator_request_port ::
    "(nat \<Rightarrow> nat) \<Rightarrow> switch_core_port_allocator \<Rightarrow>
     (switch_status_t \<times> uint16 \<times> switch_core_port_allocator) outcome option" where
  "switch_core_port_allocator_request_port rnd a = request_loop rnd 0 a"

section \<open>Releases\<close>

text \<open>Division by two cuts towards zero, and so can leave the index of a wrong port negative.\<close>

definition c_half :: "int \<Rightarrow> int" where
  "c_half i = (if 0 \<le> i then i div 2 else - ((- i) div 2))"

definition switch_core_port_allocator_free_port ::
    "switch_core_port_allocator \<Rightarrow> uint16 \<Rightarrow> (switch_status_t \<times> switch_core_port_allocator) outcome" where
  "switch_core_port_allocator_free_port a port =
     (let index = uint port - uint (pa_start a);
          index = (if \<not> (pa_even a \<and> pa_odd a) then c_half index else index)
      in if index < 0 \<or> int (length (pa_track a)) \<le> index then Inl OutOfBounds
         else if pa_track a ! nat index > 0 then
           Inr (SWITCH_STATUS_SUCCESS,
             a\<lparr>pa_track := (pa_track a)[nat index := -4],
               pa_track_used := (pa_track_used a + 2 ^ 32 - 1) mod 2 ^ 32\<rparr>)
         else Inr (SWITCH_STATUS_FALSE, a))"

definition switch_core_port_allocator_destroy ::
    "switch_core_port_allocator option \<Rightarrow> switch_core_port_allocator option outcome" where
  "switch_core_port_allocator_destroy a =
     (case a of None \<Rightarrow> Inl NullPointer | Some _ \<Rightarrow> Inr None)"

section \<open>The walk\<close>

definition bump :: "int \<Rightarrow> int" where
  "bump x = (if x < 0 then x + 1 else x)"

definition walked :: "nat \<Rightarrow> int list \<Rightarrow> nat \<Rightarrow> nat \<Rightarrow> int list" where
  "walked len t i n =
     map (\<lambda>k. if k < len \<and> (k + len - i) mod len < n then bump (t ! k) else t ! k) [0..<length t]"

lemma length_walked [simp]: "length (walked len t i n) = length t"
  by (simp add: walked_def)

lemma walked_0 [simp]: "walked len t i 0 = t"
  by (simp add: walked_def map_nth)

lemma mod_once: "(a :: nat) < 2 * len \<Longrightarrow> a mod len = (if a < len then a else a - len)"
  by (simp add: le_mod_geq)

lemma offset_at:
  fixes i n len :: nat
  assumes "i < len" and "n < len"
  shows "((i + n) mod len + len - i) mod len = n"
proof (cases "i + n < len")
  case True
  then show ?thesis using assms by simp
next
  case False
  then have "(i + n) mod len = i + n - len" using assms by (simp add: mod_once)
  then show ?thesis using False assms by simp
qed

lemma offset_inj:
  fixes i n len k :: nat
  assumes "i < len" and "k < len" and "(k + len - i) mod len = n"
  shows "k = (i + n) mod len"
proof (cases "i \<le> k")
  case True
  then have "k + len - i = (k - i) + len" by simp
  then have "n = k - i" using assms by (metis less_imp_diff_less mod_add_self2 mod_less)
  then show ?thesis using True assms by simp
next
  case False
  then have "n = k + len - i" using assms by simp
  then have "i + n = k + len" using False assms by simp
  then show ?thesis using assms by simp
qed

lemma nth_walked:
  "k < length t \<Longrightarrow> walked len t i n ! k =
     (if k < len \<and> (k + len - i) mod len < n then bump (t ! k) else t ! k)"
  by (simp add: walked_def)

lemma walked_Suc:
  assumes "i < len" and "n < len" and "len \<le> length t"
  shows "walked len t i (Suc n) = (walked len t i n)[(i + n) mod len := bump (t ! ((i + n) mod len))]"
proof (rule nth_equalityI)
  fix k assume "k < length (walked len t i (Suc n))"
  then have k: "k < length t" by simp
  show "walked len t i (Suc n) ! k =
      (walked len t i n)[(i + n) mod len := bump (t ! ((i + n) mod len))] ! k"
  proof (cases "k = (i + n) mod len")
    case True
    then show ?thesis using assms k offset_at [OF assms(1,2)] by (simp add: nth_walked)
  next
    case False
    then have "k < len \<Longrightarrow> (k + len - i) mod len \<noteq> n" using offset_inj [OF assms(1)] by blast
    then show ?thesis using False k by (auto simp: nth_walked nth_list_update less_Suc_eq)
  qed
qed simp

lemma walk_from:
  assumes "i < len" and "len \<le> length t" and "n \<le> len"
  shows "\<exists>m. n \<le> m \<and> m \<le> len \<and>
     walk len (walked len t i n) ((i + n) mod len) n = Inr (walked len t i m, (i + m) mod len, m) \<and>
     (m < len \<longrightarrow> t ! ((i + m) mod len) = 0) \<and> (\<forall>j. n \<le> j \<and> j < m \<longrightarrow> t ! ((i + j) mod len) \<noteq> 0)"
  using assms(3)
proof (induction "len - n" arbitrary: n)
  case 0
  then have "n = len" by simp
  moreover have "(i + len) mod len < length t" using assms by (simp add: mod_if)
  ultimately show ?case
    by (intro exI [of _ len]) (simp add: walk.simps [of len])
next
  case (Suc d)
  then have n: "n < len" by simp
  let ?j = "(i + n) mod len"
  have j: "?j < len" using assms(1) by (intro mod_less_divisor) simp
  with assms(2) have jt: "?j < length t" by simp
  have w: "walked len t i n ! ?j = t ! ?j"
    using j jt offset_at [OF assms(1) n] by (simp add: nth_walked)
  show ?case
  proof (cases "t ! ?j = 0")
    case True
    then show ?thesis using n jt w by (intro exI [of _ n]) (simp add: walk.simps [of len])
  next
    case False
    have nxt: "(if len \<le> ?j + 1 then 0 else ?j + 1) = (i + Suc n) mod len"
      using j by (metis Suc_eq_plus1 add_Suc_right mod_Suc not_less_eq_eq le_antisym Suc_leI)
    have upd: "(if t ! ?j < 0 then (walked len t i n)[?j := t ! ?j + 1] else walked len t i n) = walked len t i (Suc n)"
      using list_update_id [of "walked len t i n" ?j] unfolding w walked_Suc [OF assms(1) n assms(2)]
      by (simp add: bump_def)
    have "walk len (walked len t i n) ?j n = walk len (walked len t i (Suc n)) ((i + Suc n) mod len) (Suc n)"
      using False jt n w upd nxt by (subst walk.simps) (auto split: if_splits)
    moreover have d: "d = len - Suc n" using Suc.hyps(2) by simp
    obtain m where m: "Suc n \<le> m" "m \<le> len"
      "walk len (walked len t i (Suc n)) ((i + Suc n) mod len) (Suc n) = Inr (walked len t i m, (i + m) mod len, m)"
      "m < len \<longrightarrow> t ! ((i + m) mod len) = 0" "\<forall>j. Suc n \<le> j \<and> j < m \<longrightarrow> t ! ((i + j) mod len) \<noteq> 0"
      using Suc.hyps(1) [OF d] n by auto
    have "n \<le> j \<and> j < m \<longrightarrow> t ! ((i + j) mod len) \<noteq> 0" for j
      using m(5) False by (cases "j = n") auto
    with m calculation show ?thesis by (intro exI [of _ m]) auto
  qed
qed

section \<open>The request loop ends\<close>

definition track_ok :: "switch_core_port_allocator \<Rightarrow> bool" where
  "track_ok a \<longleftrightarrow>
     pa_track_len a \<le> length (pa_track a) \<and>
     pa_track_used a = card {k. k < pa_track_len a \<and> 0 < pa_track a ! k}"

definition rest_left :: "switch_core_port_allocator \<Rightarrow> nat" where
  "rest_left a = (\<Sum>k<pa_track_len a. nat (- (pa_track a ! k)))"

lemma bump_pos [simp]: "0 < bump x \<longleftrightarrow> 0 < x"
  by (simp add: bump_def)

lemma walked_pos: "k < length t \<Longrightarrow> 0 < walked len t i n ! k \<longleftrightarrow> 0 < t ! k"
  by (simp add: nth_walked)

lemma track_ok_walked:
  assumes "track_ok a"
  shows "track_ok (a\<lparr>pa_track := walked (pa_track_len a) (pa_track a) i n\<rparr>)"
proof -
  have "{k. k < pa_track_len a \<and> 0 < walked (pa_track_len a) (pa_track a) i n ! k} =
      {k. k < pa_track_len a \<and> 0 < pa_track a ! k}"
    using assms by (auto simp: track_ok_def walked_pos)
  then show ?thesis using assms by (simp add: track_ok_def)
qed

lemma rest_left_full_walk:
  assumes "track_ok a" and "pa_track_used a < pa_track_len a" and "i < pa_track_len a"
    and "\<forall>k < pa_track_len a. pa_track a ! k \<noteq> 0"
  shows "rest_left (a\<lparr>pa_track := walked (pa_track_len a) (pa_track a) i (pa_track_len a)\<rparr>) < rest_left a"
proof -
  let ?t = "pa_track a" and ?n = "pa_track_len a"
  have w: "walked ?n ?t i ?n ! k = bump (?t ! k)" if "k < ?n" for k
    using that assms(1) by (simp add: nth_walked track_ok_def)
  have "\<exists>k < ?n. \<not> 0 < ?t ! k"
  proof (rule ccontr)
    assume "\<not> (\<exists>k < ?n. \<not> 0 < ?t ! k)"
    then have "{k. k < ?n \<and> 0 < ?t ! k} = {..<?n}" by auto
    then show False using assms(1,2) by (simp add: track_ok_def)
  qed
  then obtain k where k: "k < ?n" "?t ! k < 0" using assms(4) by force
  have "(\<Sum>k<?n. nat (- (walked ?n ?t i ?n ! k))) < (\<Sum>k<?n. nat (- (?t ! k)))"
  proof (rule sum_strict_mono_ex1)
    show "\<forall>x\<in>{..<?n}. nat (- (walked ?n ?t i ?n ! x)) \<le> nat (- (?t ! x))"
      using w by (auto simp: bump_def)
    show "\<exists>x\<in>{..<?n}. nat (- (walked ?n ?t i ?n ! x)) < nat (- (?t ! x))"
      using k w by (intro bexI [of _ k]) (auto simp: bump_def)
  qed simp
  then show ?thesis by (simp add: rest_left_def)
qed

lemma index_hit: "i < len \<Longrightarrow> k < (len :: nat) \<Longrightarrow> \<exists>j < len. (i + j) mod len = k"
  by (rule exI [of _ "(k + len - i) mod len"]) (metis offset_inj mod_less_divisor not_less0 neq0_conv)

text \<open>
  What a request does: it takes an entry not in use, and one that is not resting either if there
  is one.
\<close>

lemma request_loop_takes:
  assumes "track_ok a" and "pa_track_used a < pa_track_len a"
  shows "\<exists>t index. request_loop rnd n a =
       Some (Inr (SWITCH_STATUS_SUCCESS, port_at a index,
         a\<lparr>pa_track := t[index := 1], pa_track_used := pa_track_used a + 1\<rparr>)) \<and>
     index < pa_track_len a \<and> \<not> 0 < pa_track a ! index \<and> length t = length (pa_track a) \<and>
     (\<forall>k < pa_track_len a. 0 < t ! k \<longleftrightarrow> 0 < pa_track a ! k) \<and>
     (\<forall>k. pa_track_len a \<le> k \<and> k < length (pa_track a) \<longrightarrow> t ! k = pa_track a ! k) \<and>
     ((\<exists>k < pa_track_len a. pa_track a ! k = 0) \<longrightarrow> pa_track a ! index = 0)"
  using assms
proof (induction "rest_left a" arbitrary: a n rule: less_induct)
  case less
  let ?t = "pa_track a" and ?len = "pa_track_len a"
  let ?i = "rnd n mod ?len"
  have len: "?len \<le> length ?t" using less.prems by (simp add: track_ok_def)
  have i: "?i < ?len" using less.prems(2) by (intro mod_less_divisor) simp
  obtain m where m: "m \<le> ?len" "walk ?len ?t ?i 0 = Inr (walked ?len ?t ?i m, (?i + m) mod ?len, m)"
      "m < ?len \<longrightarrow> ?t ! ((?i + m) mod ?len) = 0" "\<forall>j < m. ?t ! ((?i + j) mod ?len) \<noteq> 0"
    using walk_from [OF i len, of 0] i by auto
  show ?case
  proof (cases "m < ?len")
    case True
    then have "request_loop rnd n a = Some (Inr (SWITCH_STATUS_SUCCESS, port_at a ((?i + m) mod ?len),
        a\<lparr>pa_track := (walked ?len ?t ?i m)[(?i + m) mod ?len := 1], pa_track_used := pa_track_used a + 1\<rparr>))"
      using less.prems(2) m(2) by (subst request_loop.simps) simp
    moreover have "(?i + m) mod ?len < ?len" using less.prems(2) by (intro mod_less_divisor) simp
    ultimately show ?thesis
      using True m(3) len by (intro exI [of _ "walked ?len ?t ?i m"] exI [of _ "(?i + m) mod ?len"]) (simp add: walked_pos nth_walked)
  next
    case False
    with m(1) have full: "m = ?len" by simp
    let ?a' = "a\<lparr>pa_track := walked ?len ?t ?i ?len\<rparr>"
    have nz: "\<forall>k < ?len. ?t ! k \<noteq> 0" using m(4) full index_hit [OF i] by metis
    have "request_loop rnd n a = request_loop rnd (n + 1) ?a'"
      using less.prems(2) m(2) full by (subst request_loop.simps) simp
    moreover obtain t index where "request_loop rnd (n + 1) ?a' =
        Some (Inr (SWITCH_STATUS_SUCCESS, port_at ?a' index,
          ?a'\<lparr>pa_track := t[index := 1], pa_track_used := pa_track_used a + 1\<rparr>))"
      "index < ?len" "\<not> 0 < walked ?len ?t ?i ?len ! index" "length t = length ?t"
      "\<forall>k < ?len. 0 < t ! k \<longleftrightarrow> 0 < walked ?len ?t ?i ?len ! k"
      "\<forall>k. ?len \<le> k \<and> k < length ?t \<longrightarrow> t ! k = walked ?len ?t ?i ?len ! k"
      using less.hyps [of ?a' "n + 1"] rest_left_full_walk [OF less.prems i nz] track_ok_walked [OF less.prems(1)]
        less.prems(2) by fastforce
    moreover have "port_at ?a' index = port_at a index" for index by (simp add: port_at_def)
    ultimately show ?thesis
      using nz len by (intro exI [of _ t] exI [of _ index]) (auto simp: walked_pos nth_walked)
  qed
qed

section \<open>Allocators of even ports\<close>

text \<open>
  The allocators of media ports are created with \<open>SPF_EVEN\<close>.  Their invariant, and the set of the
  ports they have given out.
\<close>

definition port_inv :: "switch_core_port_allocator \<Rightarrow> bool" where
  "port_inv a \<longleftrightarrow>
     pa_even a \<and> \<not> pa_odd a \<and> even (unat (pa_start a)) \<and> even (unat (pa_end a)) \<and>
     pa_start a \<le> pa_end a \<and>
     pa_track_len a = (unat (pa_end a) - unat (pa_start a)) div 2 + 1 \<and>
     length (pa_track a) = pa_track_len a + 2 \<and> track_ok a"

definition ports_used :: "switch_core_port_allocator \<Rightarrow> uint16 set" where
  "ports_used a = port_at a ` {k. k < pa_track_len a \<and> 0 < pa_track a ! k}"

lemma unat_port_bound: "unat (p :: uint16) < 2 ^ 16"
  using unsigned_less [of p] by simp

lemma unat_port_at:
  assumes "port_inv a" and "k < pa_track_len a"
  shows "unat (port_at a k) = unat (pa_start a) + 2 * k"
proof -
  have le: "unat (pa_start a) \<le> unat (pa_end a)" using assms by (simp add: port_inv_def word_le_nat_alt)
  have k: "unat (pa_start a) + 2 * k \<le> unat (pa_end a)" using assms le by (auto simp: port_inv_def)
  have "unat (pa_start a) div 2 * 2 = unat (pa_start a)" using assms by (simp add: port_inv_def)
  then have "(k + unat (pa_start a) div 2) * 2 = unat (pa_start a) + 2 * k" by simp
  moreover have "port_at a k = of_nat (k + unat (pa_start a) div 2) * 2"
    using assms(1) by (simp only: port_at_def port_inv_def simp_thms if_False)
  then have "port_at a k = of_nat ((k + unat (pa_start a) div 2) * 2)"
    by (simp only: of_nat_mult of_nat_numeral)
  ultimately have "unat (port_at a k) = (unat (pa_start a) + 2 * k) mod 2 ^ LENGTH(16)"
    by (simp only: unat_of_nat)
  moreover have "unat (pa_end a) < 2 ^ 16" by (rule unat_port_bound)
  ultimately show ?thesis using k by simp
qed

lemma port_at_inj: "port_inv a \<Longrightarrow> inj_on (port_at a) {k. k < pa_track_len a}"
  by (rule inj_onI) (metis (mono_tags, lifting) unat_port_at mem_Collect_eq add_left_cancel mult_left_cancel zero_neq_numeral)

lemma port_at_mem:
  "port_inv a \<Longrightarrow> k < pa_track_len a \<Longrightarrow> port_at a k \<in> ports_used a \<longleftrightarrow> 0 < pa_track a ! k"
  using port_at_inj [of a] by (auto simp: ports_used_def inj_on_def)

lemma card_ports_used: "port_inv a \<Longrightarrow> card (ports_used a) = pa_track_used a"
proof -
  assume "port_inv a"
  moreover from this have "inj_on (port_at a) {k. k < pa_track_len a \<and> 0 < pa_track a ! k}"
    by (rule inj_on_subset [OF port_at_inj]) auto
  ultimately show ?thesis by (simp add: ports_used_def card_image port_inv_def track_ok_def)
qed

lemma used_le_len: "port_inv a \<Longrightarrow> pa_track_used a \<le> pa_track_len a"
  using card_mono [of "{..<pa_track_len a}" "{k. k < pa_track_len a \<and> 0 < pa_track a ! k}"]
  by (auto simp: port_inv_def track_ok_def)

lemma port_in_range:
  assumes "port_inv a" and "k < pa_track_len a"
  shows "pa_start a \<le> port_at a k \<and> port_at a k \<le> pa_end a \<and> even (unat (port_at a k))"
  using assms unat_port_at [OF assms] by (auto simp: port_inv_def word_le_nat_alt)

lemma port_at_index:
  assumes "port_inv a" and "even (unat p)" and "pa_start a \<le> p" and "p \<le> pa_end a"
  shows "\<exists>k < pa_track_len a. p = port_at a k"
proof -
  let ?k = "(unat p - unat (pa_start a)) div 2"
  have k: "?k < pa_track_len a" "unat (pa_start a) + 2 * ?k = unat p"
    using assms by (auto simp: port_inv_def word_le_nat_alt)
  then have "unat (port_at a ?k) = unat p" using unat_port_at [OF assms(1)] by simp
  then show ?thesis using k(1) by (metis word_unat_eq_iff)
qed

lemma port_at_cong: "port_at (a\<lparr>pa_track := t, pa_track_used := u\<rparr>) k = port_at a k"
  by (simp add: port_at_def)

lemma pos_update:
  assumes "length t = length t0" and "i < len" and "len \<le> length t0" and "\<forall>k < len. 0 < t ! k \<longleftrightarrow> 0 < t0 ! k"
  shows "{k. k < len \<and> 0 < t[i := v] ! k} =
    (if 0 < (v :: int) then insert i {k. k < len \<and> 0 < t0 ! k} else {k. k < len \<and> 0 < t0 ! k} - {i})"
  using assms by (auto simp: nth_list_update)

lemma request_effect:
  assumes "port_inv a" and "pa_track_used a < pa_track_len a"
  shows "\<exists>p a'. request_loop rnd n a = Some (Inr (SWITCH_STATUS_SUCCESS, p, a')) \<and> port_inv a' \<and>
     pa_start a' = pa_start a \<and> pa_end a' = pa_end a \<and>
     pa_start a \<le> p \<and> p \<le> pa_end a \<and> even (unat p) \<and> p \<notin> ports_used a \<and>
     ports_used a' = insert p (ports_used a) \<and>
     ((\<exists>k < pa_track_len a. pa_track a ! k = 0) \<longrightarrow> (\<exists>k < pa_track_len a. p = port_at a k \<and> pa_track a ! k = 0))"
proof -
  have ok: "track_ok a" using assms by (simp add: port_inv_def)
  obtain t i where r: "request_loop rnd n a = Some (Inr (SWITCH_STATUS_SUCCESS, port_at a i,
         a\<lparr>pa_track := t[i := 1], pa_track_used := pa_track_used a + 1\<rparr>))"
     and i: "i < pa_track_len a" "\<not> 0 < pa_track a ! i" and t: "length t = length (pa_track a)"
       "\<forall>k < pa_track_len a. 0 < t ! k \<longleftrightarrow> 0 < pa_track a ! k"
     and z: "(\<exists>k < pa_track_len a. pa_track a ! k = 0) \<longrightarrow> pa_track a ! i = 0"
    using request_loop_takes [OF ok assms(2), of rnd n] by blast
  let ?a' = "a\<lparr>pa_track := t[i := 1], pa_track_used := pa_track_used a + 1\<rparr>"
  have pos: "{k. k < pa_track_len a \<and> 0 < t[i := 1] ! k} = insert i {k. k < pa_track_len a \<and> 0 < pa_track a ! k}"
    using pos_update [OF t(1) i(1) _ t(2), of 1] ok by (simp add: track_ok_def)
  have "track_ok ?a'" using ok i(2) t(1) pos by (simp add: track_ok_def)
  then have "port_inv ?a'" using assms(1) t(1) by (simp add: port_inv_def)
  moreover have "ports_used ?a' = insert (port_at a i) (ports_used a)"
    by (simp add: ports_used_def pos port_at_cong)
  moreover have "port_at a i \<notin> ports_used a" using port_at_mem [OF assms(1) i(1)] i(2) by simp
  ultimately show ?thesis
    using r port_in_range [OF assms(1) i(1)] i(1) z by (intro exI [of _ "port_at a i"] exI [of _ ?a']) auto
qed

lemma request_refused:
  "\<not> pa_track_used a < pa_track_len a \<Longrightarrow> request_loop rnd n a = Some (Inr (SWITCH_STATUS_FALSE, 0, a))"
  by (subst request_loop.simps) simp

lemma free_index:
  assumes "port_inv a" and "k < pa_track_len a"
  shows "switch_core_port_allocator_free_port a (port_at a k) =
    (if 0 < pa_track a ! k then
       Inr (SWITCH_STATUS_SUCCESS, a\<lparr>pa_track := (pa_track a)[k := -4], pa_track_used := pa_track_used a - 1\<rparr>)
     else Inr (SWITCH_STATUS_FALSE, a))"
proof -
  have "uint (port_at a k) = uint (pa_start a) + 2 * int k"
    using arg_cong [OF unat_port_at [OF assms], of int] by simp
  then have i: "c_half (uint (port_at a k) - uint (pa_start a)) = int k" by (simp add: c_half_def)
  have len: "k < length (pa_track a)" using assms by (simp add: port_inv_def)
  have "pa_track_used a \<le> pa_track_len a"
    using assms(1) by (rule used_le_len)
  moreover have "pa_track_len a \<le> 2 ^ 16"
    using assms(1) unat_port_bound [of "pa_end a"] by (auto simp: port_inv_def)
  moreover have "0 < pa_track a ! k \<Longrightarrow> 0 < pa_track_used a"
    using assms by (auto simp: port_inv_def track_ok_def card_gt_0_iff)
  ultimately have "0 < pa_track a ! k \<Longrightarrow> (pa_track_used a + 2 ^ 32 - 1) mod 2 ^ 32 = pa_track_used a - 1"
    by (simp add: mod_if)
  then show ?thesis
    using assms(1) i len by (simp add: switch_core_port_allocator_free_port_def port_inv_def Let_def)
qed

lemma free_effect:
  assumes "port_inv a" and "p \<in> ports_used a"
  shows "\<exists>a'. switch_core_port_allocator_free_port a p = Inr (SWITCH_STATUS_SUCCESS, a') \<and> port_inv a' \<and>
     pa_start a' = pa_start a \<and> pa_end a' = pa_end a \<and> ports_used a' = ports_used a - {p} \<and>
     (\<exists>k < pa_track_len a. p = port_at a k \<and> pa_track a' = (pa_track a)[k := -4])"
proof -
  from assms(2) obtain k where k: "k < pa_track_len a" "0 < pa_track a ! k" "p = port_at a k"
    by (auto simp: ports_used_def)
  let ?a' = "a\<lparr>pa_track := (pa_track a)[k := -4], pa_track_used := pa_track_used a - 1\<rparr>"
  have ok: "track_ok a" using assms by (simp add: port_inv_def)
  have pos: "{j. j < pa_track_len a \<and> 0 < (pa_track a)[k := -4] ! j} =
      {j. j < pa_track_len a \<and> 0 < pa_track a ! j} - {k}"
    using pos_update [OF refl k(1), of "pa_track a" "-4"] ok by (simp add: track_ok_def)
  have "port_inv ?a'" using assms(1) ok k pos by (simp add: port_inv_def track_ok_def)
  moreover have "ports_used ?a' = ports_used a - {p}"
    using inj_on_image_set_diff [OF port_at_inj [OF assms(1)], of "{j. j < pa_track_len a \<and> 0 < pa_track a ! j}" "{k}"] k
    by (simp add: ports_used_def pos port_at_cong) auto
  ultimately show ?thesis
    using free_index [OF assms(1) k(1)] k by (intro exI [of _ ?a']) auto
qed

section \<open>Every reachable allocator\<close>

inductive port_init :: "switch_core_port_allocator \<Rightarrow> bool" where
  "s < e \<Longrightarrow> port_init (snd (switch_core_port_allocator_new s e True False))"

inductive port_step :: "switch_core_port_allocator \<Rightarrow> switch_core_port_allocator \<Rightarrow> bool" where
  request: "switch_core_port_allocator_request_port rnd a = Some (Inr (st, p, a')) \<Longrightarrow> port_step a a'"
| release: "even (unat p) \<Longrightarrow> pa_start a \<le> p \<Longrightarrow> p \<le> pa_end a \<Longrightarrow>
    switch_core_port_allocator_free_port a p = Inr (st, a') \<Longrightarrow> port_step a a'"

inductive_cases port_initE: "port_init a"
inductive_cases port_stepE: "port_step a a'"

lemma word_even_unat: "(w :: uint16) mod 2 = 0 \<longleftrightarrow> even (unat w)"
proof -
  have "unat (w mod 2) = unat w mod 2" by (simp add: unat_mod)
  moreover have "w mod 2 = 0 \<longleftrightarrow> unat (w mod 2) = 0" by (simp only: unsigned_eq_0_iff)
  ultimately show ?thesis by (simp only: even_iff_mod_2_eq_zero)
qed

lemma unat_plus_one: "(s :: uint16) < e \<Longrightarrow> unat (s + 1) = unat s + 1"
  using unat_port_bound [of e] by (simp add: unat_word_ariths word_less_nat_alt)

lemma unat_minus_one: "(s :: uint16) < e \<Longrightarrow> unat (e - 1) = unat e - 1"
  using unat_port_bound [of e] by (simp add: unat_sub_if_size word_less_nat_alt)

lemma round_even:
  assumes "s < e" and "round_range True False s e = (s', e')"
  shows "even (unat s') \<and> even (unat e') \<and> s' \<le> e'"
proof -
  have "s' = (if odd (unat s) then s + 1 else s)" "e' = (if odd (unat e) then e - 1 else e)"
    using assms(2) by (auto simp: round_range_def word_even_unat)
  then have "unat s' = (if odd (unat s) then unat s + 1 else unat s)"
      "unat e' = (if odd (unat e) then unat e - 1 else unat e)"
    using unat_plus_one [OF assms(1)] unat_minus_one [OF assms(1)] by simp_all
  moreover have "unat s < unat e" using assms(1) by (simp add: word_less_nat_alt)
  ultimately show ?thesis unfolding word_le_nat_alt by presburger
qed

lemma new_port_inv:
  assumes "s < e"
  shows "port_inv (snd (switch_core_port_allocator_new s e True False))"
proof -
  obtain s' e' where r: "round_range True False s e = (s', e')" by fastforce
  note ev = round_even [OF assms r]
  have le: "unat s' \<le> unat e'" using ev by (simp add: word_le_nat_alt)
  have b: "unat e' < 2 ^ 16" by (rule unat_port_bound)
  have "uint e' - uint s' + 2 = int (unat e' - unat s' + 2)" using le by (simp add: of_nat_diff)
  then have len: "nat ((uint e' - uint s' + 2) mod 2 ^ 32) div 2 = (unat e' - unat s') div 2 + 1"
    using b by (simp add: nat_mod_distrib)
  let ?L = "(unat e' - unat s') div 2 + 1"
  define R where "R = replicate ((?L + 2) mod 2 ^ 32) (0 :: int)"
  have "(?L + 2) mod 2 ^ 32 = ?L + 2" using b by simp
  then have R: "length R = ?L + 2" "\<forall>k < ?L. R ! k = 0" unfolding R_def by (simp_all del: replicate_Suc)
  have "snd (switch_core_port_allocator_new s e True False) =
      \<lparr>pa_start = s', pa_end = e', pa_next = s', pa_track = R,
       pa_track_len = ?L, pa_track_used = 0, pa_even = True, pa_odd = False\<rparr>"
    by (simp only: switch_core_port_allocator_new_def r Let_def prod.case simp_thms if_True len snd_conv R_def)
  then show ?thesis
    using ev R by (auto simp: port_inv_def track_ok_def)
qed

interpretation ports: step_system port_init port_step port_inv
proof
  fix a show "port_init a \<Longrightarrow> port_inv a" by (auto elim!: port_initE intro: new_port_inv)
next
  fix a a' assume inv: "port_inv a" and "port_step a a'"
  from \<open>port_step a a'\<close> show "port_inv a'"
  proof cases
    case (request rnd st p)
    then show ?thesis
      using request_effect [OF inv, of rnd 0] request_refused [of a rnd 0] inv
      by (cases "pa_track_used a < pa_track_len a")
        (auto simp: switch_core_port_allocator_request_port_def)
  next
    case (release p st)
    then obtain k where k: "k < pa_track_len a" "p = port_at a k"
      using port_at_index [OF inv] by blast
    show ?thesis
      using free_effect [OF inv, of p] free_index [OF inv k(1)] port_at_mem [OF inv k(1)] release k inv
      by (auto split: if_splits)
  qed
qed

section \<open>Properties\<close>

text \<open>
  C17. On every allocator of even ports reached from its creation by requests and releases, a
  request returns: it gives an even port of the range that nobody holds and marks just that port
  as used, unless all ports are in use, and then it says so.
\<close>

theorem port_request_fresh:
  assumes "port_init a0" and "port_step\<^sup>*\<^sup>* a0 a"
  shows "if card (ports_used a) < pa_track_len a
     then \<exists>p a'. switch_core_port_allocator_request_port rnd a = Some (Inr (SWITCH_STATUS_SUCCESS, p, a')) \<and>
       pa_start a \<le> p \<and> p \<le> pa_end a \<and> even (unat p) \<and> p \<notin> ports_used a \<and>
       ports_used a' = insert p (ports_used a)
     else switch_core_port_allocator_request_port rnd a = Some (Inr (SWITCH_STATUS_FALSE, 0, a))"
proof -
  have inv: "port_inv a" using assms by (rule ports.reachable_inv)
  show ?thesis
    using request_effect [OF inv, of rnd 0] request_refused [of a rnd 0]
    by (auto simp: card_ports_used [OF inv] switch_core_port_allocator_request_port_def)
qed

theorem port_request_fresh_witness:
  "\<exists>p a'. switch_core_port_allocator_request_port (\<lambda>_. 7)
      (snd (switch_core_port_allocator_new 16384 32768 True False)) = Some (Inr (SWITCH_STATUS_SUCCESS, p, a')) \<and>
     ports_used a' = {p}"
proof -
  let ?a = "snd (switch_core_port_allocator_new 16384 32768 True False)"
  have "card (ports_used ?a) = 0"
    using card_ports_used [OF new_port_inv, of 16384 32768] by (simp add: switch_core_port_allocator_new_def Let_def split_beta)
  then have u: "ports_used ?a = {}" by (simp add: ports_used_def)
  have "0 < pa_track_len ?a" by (simp add: switch_core_port_allocator_new_def round_range_def)
  note u = u this
  have "port_init ?a" by (rule port_init.intros) simp
  from port_request_fresh [OF this rtranclp.rtrancl_refl, of "\<lambda>_. 7"] u show ?thesis by simp blast
qed

text \<open>
  Releasing a port that is in use frees exactly that port, and the next request gives another
  one as long as some port of the range has not been in use recently.
\<close>

theorem port_release_rests:
  assumes "port_init a0" and "port_step\<^sup>*\<^sup>* a0 a" and "p \<in> ports_used a"
  shows "\<exists>a'. switch_core_port_allocator_free_port a p = Inr (SWITCH_STATUS_SUCCESS, a') \<and>
     ports_used a' = ports_used a - {p} \<and>
     (0 \<in> set (take (pa_track_len a) (pa_track a)) \<longrightarrow>
        (\<exists>q a''. switch_core_port_allocator_request_port rnd a' = Some (Inr (SWITCH_STATUS_SUCCESS, q, a'')) \<and> q \<noteq> p))"
proof -
  have inv: "port_inv a" using assms(1,2) by (rule ports.reachable_inv)
  obtain a' k where f: "switch_core_port_allocator_free_port a p = Inr (SWITCH_STATUS_SUCCESS, a')" "port_inv a'"
      "ports_used a' = ports_used a - {p}" "k < pa_track_len a" "p = port_at a k"
      "pa_track a' = (pa_track a)[k := -4]" "pa_start a' = pa_start a" "pa_end a' = pa_end a"
    using free_effect [OF inv assms(3)] by blast
  have same: "pa_track_len a' = pa_track_len a" "port_at a' = port_at a" and len: "pa_track_len a < length (pa_track a)"
    using inv f(2,7,8) by (auto simp: port_inv_def port_at_def)
  have "\<exists>q a''. request_loop rnd 0 a' = Some (Inr (SWITCH_STATUS_SUCCESS, q, a'')) \<and> q \<noteq> p"
    if "0 \<in> set (take (pa_track_len a) (pa_track a))"
  proof -
    from that len obtain j where j: "j < pa_track_len a" "pa_track a ! j = 0" by (auto simp: in_set_conv_nth)
    have pk: "0 < pa_track a ! k" using assms(3) port_at_mem [OF inv f(4)] f(5) by simp
    then have z: "pa_track a' ! j = 0" using j f(6) by (metis nth_list_update_neq less_irrefl)
    have "card (ports_used a') < card (ports_used a)"
      using card_Diff1_less [OF _ assms(3)] f(3) by (simp add: ports_used_def)
    then have "pa_track_used a' < pa_track_len a'"
      using card_ports_used [OF inv] card_ports_used [OF f(2)] same(1) used_le_len [OF inv] by simp
    with request_effect [OF f(2), of rnd 0] z j same obtain q a'' i where
        "request_loop rnd 0 a' = Some (Inr (SWITCH_STATUS_SUCCESS, q, a''))" "i < pa_track_len a"
        "q = port_at a i" "pa_track a' ! i = 0"
      by metis
    moreover from this have "i \<noteq> k" using f(4,6) len by auto
    ultimately show ?thesis
      using f(4,5) port_at_inj [OF inv] by (auto simp: inj_on_def)
  qed
  then show ?thesis
    using f(1,3) by (auto simp: switch_core_port_allocator_request_port_def)
qed

theorem port_release_rests_witness:
  "\<exists>a p a'. port_step (snd (switch_core_port_allocator_new 16384 32768 True False)) a \<and> p \<in> ports_used a \<and>
     switch_core_port_allocator_free_port a p = Inr (SWITCH_STATUS_SUCCESS, a') \<and> ports_used a' = ports_used a - {p}"
proof -
  let ?a = "snd (switch_core_port_allocator_new 16384 32768 True False)"
  have "pa_track_used ?a < pa_track_len ?a" by (simp add: switch_core_port_allocator_new_def round_range_def)
  moreover have "port_inv ?a" by (rule new_port_inv) simp
  ultimately obtain p a where r: "request_loop (\<lambda>_. 7) 0 ?a = Some (Inr (SWITCH_STATUS_SUCCESS, p, a))"
      "ports_used a = insert p (ports_used ?a)"
    using request_effect [of ?a "\<lambda>_. 7" 0] by blast
  then have step: "port_step ?a a"
    by (auto simp: switch_core_port_allocator_request_port_def intro: port_step.request)
  have init: "port_init ?a" by (rule port_init.intros) simp
  have "p \<in> ports_used a" using r(2) by simp
  with step port_release_rests [OF init r_into_rtranclp [of port_step, OF step] this] show ?thesis by blast
qed

text \<open>
  With both parity flags the table has one entry more than the range has ports, and a fresh
  allocator for 10000 to 10010 can give out port 10011; with \<open>SPF_ODD\<close> alone one for 10001 to
  10009 can give out the even port 10000 below its range.
\<close>

theorem port_allocator_other_modes:
  "(\<exists>a. switch_core_port_allocator_request_port (\<lambda>_. 11)
       (snd (switch_core_port_allocator_new 10000 10010 True True)) = Some (Inr (SWITCH_STATUS_SUCCESS, 10011, a))) \<and>
   (\<exists>a. switch_core_port_allocator_request_port (\<lambda>_. 0)
       (snd (switch_core_port_allocator_new 10001 10009 False True)) = Some (Inr (SWITCH_STATUS_SUCCESS, 10000, a)))"
  unfolding switch_core_port_allocator_request_port_def
  by (subst (1 2) request_loop.simps)
    (simp add: switch_core_port_allocator_new_def round_range_def walk.simps port_at_def)

end
