(* ===== verification/Event.thy ===== *)
theory Event
  imports Encoding
begin

text \<open>
  Events, after \<^verbatim>\<open>switch_event.c\<close>: a list of named headers, plain or arrays, with a
  body.  A header is found by a case-insensitive hash of its name first and the name itself
  second.  The list is the linked list from \<open>headers\<close> to \<open>last_header\<close>; a pointer to a header is
  the first header of the name.  Events are owned by one thread at a time, so no lock appears.
  Clocks, host names and other process-wide values that are copied into an event are the fields
  of an environment record.
\<close>

section \<open>Data\<close>

type_synonym switch_stack_t = uint32

definition SWITCH_STACK_BOTTOM :: switch_stack_t where "SWITCH_STACK_BOTTOM = 1"
definition SWITCH_STACK_TOP :: switch_stack_t where "SWITCH_STACK_TOP = 2"
definition SWITCH_STACK_NODUP :: switch_stack_t where "SWITCH_STACK_NODUP = 4"
definition SWITCH_STACK_UNSHIFT :: switch_stack_t where "SWITCH_STACK_UNSHIFT = 8"
definition SWITCH_STACK_PUSH :: switch_stack_t where "SWITCH_STACK_PUSH = 16"

lemmas stack_defs =
  SWITCH_STACK_BOTTOM_def SWITCH_STACK_TOP_def SWITCH_STACK_NODUP_def SWITCH_STACK_UNSHIFT_def
  SWITCH_STACK_PUSH_def

record switch_event_header =
  hd_name :: string
  hd_value :: "string option"
  hd_array :: "string list"
  hd_hash :: uint32

datatype switch_priority_t = SWITCH_PRIORITY_NORMAL | SWITCH_PRIORITY_LOW | SWITCH_PRIORITY_HIGH

text \<open>The field \<open>owner\<close> of an event is left out: nothing reads or writes it.\<close>

record switch_event =
  event_id :: nat
  ev_priority :: switch_priority_t
  subclass_name :: "string option"
  headers :: "switch_event_header list"
  ev_body :: "string option"
  bind_user_data :: nat
  event_user_data :: nat
  ev_key :: nat
  uniq_headers :: bool

text \<open>The event types, by their position in the enumeration.\<close>

definition SWITCH_EVENT_CUSTOM :: nat where "SWITCH_EVENT_CUSTOM = 0"
definition SWITCH_EVENT_CLONE :: nat where "SWITCH_EVENT_CLONE = 1"
definition SWITCH_EVENT_MESSAGE :: nat where "SWITCH_EVENT_MESSAGE = 37"
definition SWITCH_EVENT_PRESENCE_IN :: nat where "SWITCH_EVENT_PRESENCE_IN = 38"
definition SWITCH_EVENT_ADD_SCHEDULE :: nat where "SWITCH_EVENT_ADD_SCHEDULE = 52"
definition SWITCH_EVENT_DEL_SCHEDULE :: nat where "SWITCH_EVENT_DEL_SCHEDULE = 53"
definition SWITCH_EVENT_EXE_SCHEDULE :: nat where "SWITCH_EVENT_EXE_SCHEDULE = 54"
definition SWITCH_EVENT_RE_SCHEDULE :: nat where "SWITCH_EVENT_RE_SCHEDULE = 55"
definition SWITCH_EVENT_REQUEST_PARAMS :: nat where "SWITCH_EVENT_REQUEST_PARAMS = 60"
definition SWITCH_EVENT_CHANNEL_DATA :: nat where "SWITCH_EVENT_CHANNEL_DATA = 61"
definition SWITCH_EVENT_ALL :: nat where "SWITCH_EVENT_ALL = 81"

lemmas event_id_defs =
  SWITCH_EVENT_CUSTOM_def SWITCH_EVENT_CLONE_def SWITCH_EVENT_MESSAGE_def
  SWITCH_EVENT_PRESENCE_IN_def SWITCH_EVENT_ADD_SCHEDULE_def SWITCH_EVENT_DEL_SCHEDULE_def
  SWITCH_EVENT_EXE_SCHEDULE_def SWITCH_EVENT_RE_SCHEDULE_def SWITCH_EVENT_REQUEST_PARAMS_def
  SWITCH_EVENT_CHANNEL_DATA_def SWITCH_EVENT_ALL_def

section \<open>Looking up a header\<close>

definition switch_ci_hashfunc_default :: "string \<Rightarrow> uint32" where
  "switch_ci_hashfunc_default key = foldl (\<lambda>h c. h * 33 + of_nat (of_char (c_tolower c))) 0 key"

definition hdr_hit :: "string \<Rightarrow> switch_event_header \<Rightarrow> bool" where
  "hdr_hit name h \<longleftrightarrow>
     (hd_hash h = 0 \<or> switch_ci_hashfunc_default name = hd_hash h) \<and> strcasecmp_eq (hd_name h) name"

definition switch_event_get_header_ptr :: "switch_event \<Rightarrow> string option \<Rightarrow> switch_event_header option" where
  "switch_event_get_header_ptr ev name =
     (case name of None \<Rightarrow> None | Some n \<Rightarrow> find (hdr_hit n) (headers ev))"

definition switch_event_get_header_idx ::
    "switch_event \<Rightarrow> string option \<Rightarrow> int \<Rightarrow> string option outcome" where
  "switch_event_get_header_idx ev name idx =
     (case switch_event_get_header_ptr ev name of
        Some h \<Rightarrow>
          if idx > -1 then
            if idx < int (length (hd_array h)) then Inr (Some (hd_array h ! nat idx)) else Inr None
          else Inr (hd_value h)
      | None \<Rightarrow>
          (case name of None \<Rightarrow> Inl NullPointer
           | Some n \<Rightarrow> if n = ''_body'' then Inr (ev_body ev) else Inr None))"

definition switch_event_get_header :: "switch_event \<Rightarrow> string option \<Rightarrow> string option outcome" where
  "switch_event_get_header ev name = switch_event_get_header_idx ev name (-1)"

definition switch_event_get_body :: "switch_event option \<Rightarrow> string option" where
  "switch_event_get_body ev = (case ev of None \<Rightarrow> None | Some e \<Rightarrow> ev_body e)"

section \<open>Deleting and renaming\<close>

text \<open>The loop counts the headers it looks at and asserts fewer than a million.\<close>

definition del_hit :: "string \<Rightarrow> string option \<Rightarrow> switch_event_header \<Rightarrow> bool" where
  "del_hit name val h \<longleftrightarrow> hdr_hit name h \<and> (zstr val \<or> hd_value h = val)"

definition switch_event_del_header_val ::
    "switch_event \<Rightarrow> string \<Rightarrow> string option \<Rightarrow> (switch_status_t \<times> switch_event) outcome" where
  "switch_event_del_header_val ev name val =
     (if length (headers ev) \<ge> 1000000 then Inl AssertionFailed
      else Inr
        (if list_ex (del_hit name val) (headers ev) then SWITCH_STATUS_SUCCESS else SWITCH_STATUS_FALSE,
         ev\<lparr>headers := filter (\<lambda>h. \<not> del_hit name val h) (headers ev)\<rparr>))"

definition switch_event_del_header :: "switch_event \<Rightarrow> string \<Rightarrow> (switch_status_t \<times> switch_event) outcome" where
  "switch_event_del_header ev name = switch_event_del_header_val ev name None"

definition switch_event_rename_header ::
    "switch_event \<Rightarrow> string option \<Rightarrow> string \<Rightarrow> switch_status_t \<times> switch_event" where
  "switch_event_rename_header ev name new_name =
     (case name of
        None \<Rightarrow> (SWITCH_STATUS_FALSE, ev)
      | Some n \<Rightarrow>
          (if list_ex (hdr_hit n) (headers ev) then SWITCH_STATUS_SUCCESS else SWITCH_STATUS_FALSE,
           ev\<lparr>headers := map (\<lambda>h. if hdr_hit n h
                then h\<lparr>hd_name := new_name, hd_hash := switch_ci_hashfunc_default new_name\<rparr> else h)
                (headers ev)\<rparr>))"

section \<open>Adding a header\<close>

definition new_header :: "string \<Rightarrow> switch_event_header" where
  "new_header name = \<lparr>hd_name = name, hd_value = None, hd_array = [], hd_hash = 0\<rparr>"

definition switch_event_set_body :: "switch_event \<Rightarrow> string option \<Rightarrow> switch_event" where
  "switch_event_set_body ev body = ev\<lparr>ev_body := body\<rparr>"

fun upd_first :: "('a \<Rightarrow> bool) \<Rightarrow> ('a \<Rightarrow> 'a) \<Rightarrow> 'a list \<Rightarrow> 'a list" where
  "upd_first P f [] = []"
| "upd_first P f (x # xs) = (if P x then f x # xs else x # upd_first P f xs)"

text \<open>
  The label \<open>redraw\<close>: the value of an array header is printed again into a block of \<open>len\<close> bytes,
  piece by piece, each piece cut at what is left of the block.
\<close>

definition redraw :: "switch_event_header \<Rightarrow> switch_event_header" where
  "redraw h =
     (let len = sum_list (map (\<lambda>a. length a + 2) (hd_array h))
      in if len \<noteq> 0
         then h\<lparr>hd_value := Some (take (len + 8 - 1) (''ARRAY::'' @ join ''|:'' (hd_array h)))\<rparr>
         else h)"

definition stack_push :: "switch_stack_t \<Rightarrow> string \<Rightarrow> switch_event_header \<Rightarrow> switch_event_header" where
  "stack_push st data h =
     (let h = (case hd_value h of
                 Some v \<Rightarrow> if hd_array h = [] then h\<lparr>hd_value := None, hd_array := [v]\<rparr> else h
               | None \<Rightarrow> h)
      in redraw (h\<lparr>hd_array :=
           (if st AND SWITCH_STACK_PUSH \<noteq> 0 then hd_array h @ [data] else data # hd_array h)\<rparr>))"

definition index_set :: "nat \<Rightarrow> string \<Rightarrow> switch_event_header \<Rightarrow> switch_event_header" where
  "index_set i data h =
     (if i < length (hd_array h) then h\<lparr>hd_array := (hd_array h)[i := data]\<rparr>
      else redraw (h\<lparr>hd_array := hd_array h @ replicate (i - length (hd_array h)) [] @ [data]\<rparr>))"

definition is_stacked :: "switch_stack_t \<Rightarrow> bool" where
  "is_stacked st \<longleftrightarrow> st AND SWITCH_STACK_PUSH \<noteq> 0 \<or> st AND SWITCH_STACK_UNSHIFT \<noteq> 0"

definition split_index :: "string \<Rightarrow> string \<times> int option" where
  "split_index name =
     (case strchr name (CHR ''['') of
        None \<Rightarrow> (name, None)
      | Some i \<Rightarrow> (take i name, Some (atoi (drop (i + 1) name))))"

definition link_header :: "switch_stack_t \<Rightarrow> switch_event_header \<Rightarrow> switch_event \<Rightarrow> switch_event" where
  "link_header st h ev =
     (let h = h\<lparr>hd_hash := switch_ci_hashfunc_default (hd_name h)\<rparr>
      in ev\<lparr>headers := (if st AND SWITCH_STACK_TOP \<noteq> 0 then h # headers ev else headers ev @ [h])\<rparr>)"

function count_delims :: "string \<Rightarrow> nat" where
  "count_delims p =
     (case strstr p ''|:'' of None \<Rightarrow> 0 | Some i \<Rightarrow> Suc (count_delims (drop (i + 2) p)))"
  by pat_completeness auto
termination
  by (relation "measure length") (auto dest!: strstr_Some_prefix)

declare count_delims.simps [simp del]

lemma bindE_cong [fundef_cong]:
  "m = m' \<Longrightarrow> (\<And>x. m' = Inr x \<Longrightarrow> f x = f' x) \<Longrightarrow> bindE m f = bindE m' f'"
  by (cases m') auto

definition del_if :: "bool \<Rightarrow> switch_event \<Rightarrow> string \<Rightarrow> switch_event outcome" where
  "del_if b ev name =
     (if b then bindE (switch_event_del_header ev name) (\<lambda>r. Inr (snd r)) else Inr ev)"

lemma split_string_length:
  "sum_list (map length (split_string_loop d n b)) + length d * (length (split_string_loop d n b) - 1) \<le> length b"
proof (induction d n b rule: split_string_loop.induct)
  case (1 d n b)
  show ?case
  proof (cases "if n = 0 then None else strstr b d")
    case None
    then show ?thesis by (subst (1 2) split_string_loop.simps) simp
  next
    case (Some i)
    let ?r = "split_string_loop d (n - 1) (drop (i + length d) b)"
    have r: "split_string_loop d n b = take i b # ?r"
      using Some by (subst split_string_loop.simps) simp
    have i: "i + length d \<le> length b"
      using Some strstr_Some_prefix by (auto split: if_splits)
    have "?r \<noteq> []" by (subst split_string_loop.simps) (simp split: option.splits)
    then have "length d * length ?r = length d + length d * (length ?r - 1)"
      by (cases "length ?r") auto
    then show ?thesis using 1 [OF Some] i r by (simp, linarith)
  qed
qed

lemma split_string_weight:
  "sum_list (map (\<lambda>x. 2 * length x + 3) (split_string_loop ''|:'' n b)) \<le> 2 * length b + 3"
proof -
  let ?r = "split_string_loop ''|:'' n b"
  have "?r \<noteq> []" by (subst split_string_loop.simps) (simp split: option.splits)
  then have "length ?r \<ge> 1" by (cases ?r) auto
  moreover have "sum_list (map (\<lambda>x. 2 * length x + 3) ?r) = 2 * sum_list (map length ?r) + 3 * length ?r"
    by (induction ?r) (auto simp: sum_list_const_mult sum_list_triv sum_list_addf)
  ultimately show ?thesis using split_string_length [of "''|:''" n b] by simp
qed

function switch_event_base_add_header ::
    "switch_event \<Rightarrow> switch_stack_t \<Rightarrow> string \<Rightarrow> string \<Rightarrow> switch_event outcome"
  and switch_event_add_array :: "switch_event \<Rightarrow> string \<Rightarrow> string \<Rightarrow> (int \<times> switch_event) outcome"
  and add_each :: "switch_event \<Rightarrow> string \<Rightarrow> string list \<Rightarrow> switch_event outcome" where
  "switch_event_base_add_header ev st name data =
     (let ev = (if name = ''_body'' then switch_event_set_body ev (Some data) else ev);
          (hname, index) = split_index name;
          look = (index \<noteq> None \<or> is_stacked st);
          fly = (look \<and> switch_event_get_header_ptr ev (Some hname) = None \<and> index \<noteq> None)
      in bindE (del_if (fly \<and> uniq_headers ev) ev hname) (\<lambda>ev.
         case (if look then switch_event_get_header_ptr ev (Some hname) else None) of
           Some h \<Rightarrow>
             (case index of
                Some i \<Rightarrow>
                  if i > -1 \<and> i \<le> 4000
                  then Inr (ev\<lparr>headers := upd_first (hdr_hit hname) (index_set (nat i) data) (headers ev)\<rparr>)
                  else Inr ev
              | None \<Rightarrow>
                  Inr (ev\<lparr>headers := upd_first (hdr_hit hname) (stack_push st data) (headers ev)\<rparr>))
         | None \<Rightarrow>
             if data = [] then del_if True ev hname
             else
               bindE (del_if (uniq_headers ev) ev hname) (\<lambda>ev.
                 if strstr data ''ARRAY::'' \<noteq> None
                 then bindE (switch_event_add_array ev hname data) (\<lambda>r. Inr (snd r))
                 else
                   let h = new_header hname;
                       h = (if is_stacked st then stack_push st data h else h\<lparr>hd_value := Some data\<rparr>)
                   in Inr (link_header st h ev))))"
| "switch_event_add_array ev var val =
     (if length val < 8 then Inr (-1, ev)
      else
        bindE (add_each ev var
            (switch_separate_string_string (drop 7 val) ''|:'' (count_delims (drop 7 val) + 1)))
          (\<lambda>ev. Inr (0, ev)))"
| "add_each ev var [] = Inr ev"
| "add_each ev var (x # xs) =
     bindE (switch_event_base_add_header ev SWITCH_STACK_PUSH var x) (\<lambda>ev. add_each ev var xs)"
  by pat_completeness auto
termination
proof (relation "measure (\<lambda>x. case x of
      Inl (ev, st, name, data) \<Rightarrow> 2 * length data + 2
    | Inr (Inl (ev, var, val)) \<Rightarrow> 2 * length val + 1
    | Inr (Inr (ev, var, xs)) \<Rightarrow> sum_list (map (\<lambda>x. 2 * length x + 3) xs))", goal_cases)
  case (3 ev var val)
  have "sum_list (map (\<lambda>x. 2 * length x + 3)
      (switch_separate_string_string (drop 7 val) ''|:'' (count_delims (drop 7 val) + 1))) \<le>
      2 * length (drop 7 val) + 3"
    unfolding switch_separate_string_string_def by (rule split_string_weight)
  then show ?case using 3 by simp
qed auto

declare switch_event_base_add_header.simps [simp del] switch_event_add_array.simps [simp del]

definition switch_event_add_header_string ::
    "switch_event \<Rightarrow> switch_stack_t \<Rightarrow> string \<Rightarrow> string option \<Rightarrow> (switch_status_t \<times> switch_event) outcome" where
  "switch_event_add_header_string ev st name data =
     (case data of
        Some d \<Rightarrow> bindE (switch_event_base_add_header ev st name d) (\<lambda>ev. Inr (SWITCH_STATUS_SUCCESS, ev))
      | None \<Rightarrow> Inr (SWITCH_STATUS_GENERR, ev))"

text \<open>
  The formatting variants take the text that \<open>switch_vasprintf\<close> made, \<open>None\<close> if it failed.
\<close>

definition switch_event_add_header ::
    "switch_event \<Rightarrow> switch_stack_t \<Rightarrow> string \<Rightarrow> string option \<Rightarrow> (switch_status_t \<times> switch_event) outcome" where
  "switch_event_add_header ev st name formatted =
     (case formatted of
        None \<Rightarrow> Inr (SWITCH_STATUS_MEMERR, ev)
      | Some d \<Rightarrow> bindE (switch_event_base_add_header ev st name d) (\<lambda>ev. Inr (SWITCH_STATUS_SUCCESS, ev)))"

definition switch_event_add_body :: "switch_event \<Rightarrow> string option option \<Rightarrow> switch_status_t \<times> switch_event" where
  "switch_event_add_body ev fmt =
     (case fmt of
        None \<Rightarrow> (SWITCH_STATUS_GENERR, ev)
      | Some None \<Rightarrow> (SWITCH_STATUS_GENERR, ev)
      | Some (Some d) \<Rightarrow> (SWITCH_STATUS_SUCCESS, ev\<lparr>ev_body := Some d\<rparr>))"

definition switch_event_set_subclass_name ::
    "switch_event option \<Rightarrow> string option \<Rightarrow> (switch_status_t \<times> switch_event option) outcome" where
  "switch_event_set_subclass_name ev name =
     (case (ev, name) of
        (Some e, Some n) \<Rightarrow>
          bindE (switch_event_del_header (e\<lparr>subclass_name := Some n\<rparr>) ''Event-Subclass'') (\<lambda>r.
          bindE (switch_event_add_header_string (snd r) SWITCH_STACK_BOTTOM ''Event-Subclass'' (Some n)) (\<lambda>r.
            Inr (SWITCH_STATUS_SUCCESS, Some (snd r))))
      | _ \<Rightarrow> Inr (SWITCH_STATUS_GENERR, ev))"

fun switch_priority_name :: "switch_priority_t \<Rightarrow> string" where
  "switch_priority_name SWITCH_PRIORITY_NORMAL = ''NORMAL''"
| "switch_priority_name SWITCH_PRIORITY_LOW = ''LOW''"
| "switch_priority_name SWITCH_PRIORITY_HIGH = ''HIGH''"

definition switch_event_set_priority ::
    "switch_event \<Rightarrow> switch_priority_t \<Rightarrow> (switch_status_t \<times> switch_event) outcome" where
  "switch_event_set_priority ev p =
     bindE (switch_event_add_header_string (ev\<lparr>ev_priority := p\<rparr>) SWITCH_STACK_TOP ''priority''
         (Some (switch_priority_name p)))
       (\<lambda>r. Inr (SWITCH_STATUS_SUCCESS, snd r))"

section \<open>Creating events\<close>

definition EVENT_NAMES :: "string list" where
  "EVENT_NAMES =
     [''CUSTOM'', ''CLONE'', ''CHANNEL_CREATE'', ''CHANNEL_DESTROY'', ''CHANNEL_STATE'',
      ''CHANNEL_CALLSTATE'', ''CHANNEL_ANSWER'', ''CHANNEL_HANGUP'', ''CHANNEL_HANGUP_COMPLETE'',
      ''CHANNEL_EXECUTE'', ''CHANNEL_EXECUTE_COMPLETE'', ''CHANNEL_HOLD'', ''CHANNEL_UNHOLD'',
      ''CHANNEL_BRIDGE'', ''CHANNEL_UNBRIDGE'', ''CHANNEL_PROGRESS'', ''CHANNEL_PROGRESS_MEDIA'',
      ''CHANNEL_OUTGOING'', ''CHANNEL_PARK'', ''CHANNEL_UNPARK'', ''CHANNEL_APPLICATION'',
      ''CHANNEL_ORIGINATE'', ''CHANNEL_UUID'', ''API'', ''LOG'', ''INBOUND_CHAN'',
      ''OUTBOUND_CHAN'', ''STARTUP'', ''SHUTDOWN'', ''PUBLISH'', ''UNPUBLISH'', ''TALK'',
      ''NOTALK'', ''SESSION_CRASH'', ''MODULE_LOAD'', ''MODULE_UNLOAD'', ''DTMF'', ''MESSAGE'',
      ''PRESENCE_IN'', ''NOTIFY_IN'', ''PRESENCE_OUT'', ''PRESENCE_PROBE'', ''MESSAGE_WAITING'',
      ''MESSAGE_QUERY'', ''ROSTER'', ''CODEC'', ''BACKGROUND_JOB'', ''DETECTED_SPEECH'',
      ''DETECTED_TONE'', ''PRIVATE_COMMAND'', ''HEARTBEAT'', ''TRAP'', ''ADD_SCHEDULE'',
      ''DEL_SCHEDULE'', ''EXE_SCHEDULE'', ''RE_SCHEDULE'', ''RELOADXML'', ''NOTIFY'',
      ''SEND_MESSAGE'', ''RECV_MESSAGE'', ''REQUEST_PARAMS'', ''CHANNEL_DATA'', ''GENERAL'',
      ''COMMAND'', ''SESSION_HEARTBEAT'', ''CLIENT_DISCONNECTED'', ''SERVER_DISCONNECTED'',
      ''SEND_INFO'', ''RECV_INFO'', ''RECV_RTCP_MESSAGE'', ''CALL_SECURE'', ''NAT'',
      ''RECORD_START'', ''RECORD_STOP'', ''PLAYBACK_START'', ''PLAYBACK_STOP'', ''CALL_UPDATE'',
      ''FAILURE'', ''SOCKET_DATA'', ''MEDIA_BUG_START'', ''MEDIA_BUG_STOP'', ''ALL'']"

record event_env =
  env_ready :: bool
  core_uuid :: string
  core_hostname :: string
  core_switchname :: string
  guess_ip_v4 :: string
  guess_ip_v6 :: string
  date_local :: string
  date_gmt :: string
  micro_time :: nat

definition switch_event_name :: "event_env \<Rightarrow> nat \<Rightarrow> string outcome" where
  "switch_event_name env e =
     (if \<not> env_ready env then Inl AssertionFailed
      else if e < length EVENT_NAMES then Inr (EVENT_NAMES ! e) else Inl OutOfBounds)"

text \<open>Decimal output of \<open>printf\<close>.\<close>

fun show_nat :: "nat \<Rightarrow> string" where
  "show_nat n = (if n < 10 then [char_of (n + 48)] else show_nat (n div 10) @ [char_of (n mod 10 + 48)])"

declare show_nat.simps [simp del]

definition show_int :: "int \<Rightarrow> string" where
  "show_int i = (if i < 0 then CHR ''-'' # show_nat (nat (- i)) else show_nat (nat i))"

fun add_headers :: "switch_event \<Rightarrow> switch_stack_t \<Rightarrow> (string \<times> string option) list \<Rightarrow> switch_event outcome" where
  "add_headers ev st [] = Inr ev"
| "add_headers ev st ((n, v) # hs) =
     bindE (switch_event_add_header_string ev st n v) (\<lambda>r. add_headers (snd r) st hs)"

definition switch_event_prep_for_delivery_detailed ::
    "event_env \<Rightarrow> string \<Rightarrow> string \<Rightarrow> int \<Rightarrow> switch_event \<Rightarrow> switch_event outcome" where
  "switch_event_prep_for_delivery_detailed env file func line ev =
     bindE (switch_event_name env (event_id ev)) (\<lambda>name.
       add_headers ev SWITCH_STACK_BOTTOM
         [(''Event-Name'', Some name),
          (''Core-UUID'', Some (core_uuid env)),
          (''FreeSWITCH-Hostname'', Some (core_hostname env)),
          (''FreeSWITCH-Switchname'', Some (core_switchname env)),
          (''FreeSWITCH-IPv4'', Some (guess_ip_v4 env)),
          (''FreeSWITCH-IPv6'', Some (guess_ip_v6 env)),
          (''Event-Date-Local'', Some (date_local env)),
          (''Event-Date-GMT'', Some (date_gmt env)),
          (''Event-Date-Timestamp'', Some (show_nat (micro_time env))),
          (''Event-Calling-File'', switch_cut_path (Some file)),
          (''Event-Calling-Function'', Some func),
          (''Event-Calling-Line-Number'', Some (show_int line))])"

definition empty_event :: switch_event where
  "empty_event =
     \<lparr>event_id = 0, ev_priority = SWITCH_PRIORITY_NORMAL, subclass_name = None, headers = [],
      ev_body = None, bind_user_data = 0, event_user_data = 0, ev_key = 0, uniq_headers = False\<rparr>"

definition switch_event_create_subclass_detailed ::
    "event_env \<Rightarrow> string \<Rightarrow> string \<Rightarrow> int \<Rightarrow> nat \<Rightarrow> string option \<Rightarrow>
     (switch_status_t \<times> switch_event option) outcome" where
  "switch_event_create_subclass_detailed env file func line eid subclass =
     (if eid \<noteq> SWITCH_EVENT_CLONE \<and> eid \<noteq> SWITCH_EVENT_CUSTOM \<and> subclass \<noteq> None
      then Inr (SWITCH_STATUS_GENERR, None)
      else
        let ev = empty_event\<lparr>uniq_headers :=
              (eid = SWITCH_EVENT_REQUEST_PARAMS \<or> eid = SWITCH_EVENT_CHANNEL_DATA \<or>
               eid = SWITCH_EVENT_MESSAGE)\<rparr>
        in bindE (if eid \<noteq> SWITCH_EVENT_CLONE
                  then switch_event_prep_for_delivery_detailed env file func line (ev\<lparr>event_id := eid\<rparr>)
                  else Inr ev)
             (\<lambda>ev. case subclass of
                None \<Rightarrow> Inr (SWITCH_STATUS_SUCCESS, Some ev)
              | Some s \<Rightarrow>
                  bindE (switch_event_add_header_string (ev\<lparr>subclass_name := Some s\<rparr>)
                      SWITCH_STACK_BOTTOM ''Event-Subclass'' (Some s))
                    (\<lambda>r. Inr (SWITCH_STATUS_SUCCESS, Some (snd r)))))"

definition switch_event_destroy :: "switch_event option \<Rightarrow> switch_event option" where
  "switch_event_destroy ev = None"

section \<open>Copying\<close>

definition copy_header :: "switch_event \<Rightarrow> string \<Rightarrow> switch_event_header \<Rightarrow> switch_event outcome" where
  "copy_header ev name h =
     (if hd_array h \<noteq> [] then add_each ev name (hd_array h)
      else bindE (switch_event_add_header_string ev SWITCH_STACK_BOTTOM name (hd_value h)) (\<lambda>r. Inr (snd r)))"

fun merge_loop :: "switch_event \<Rightarrow> switch_event_header list \<Rightarrow> switch_event outcome" where
  "merge_loop ev [] = Inr ev"
| "merge_loop ev (h # hs) = bindE (copy_header ev (hd_name h) h) (\<lambda>ev. merge_loop ev hs)"

definition switch_event_merge :: "switch_event \<Rightarrow> switch_event \<Rightarrow> switch_event outcome" where
  "switch_event_merge ev tomerge = merge_loop ev (headers tomerge)"

fun dup_loop :: "(string \<Rightarrow> string) \<Rightarrow> bool \<Rightarrow> switch_event \<Rightarrow> switch_event_header list \<Rightarrow> switch_event outcome" where
  "dup_loop ren skip ev [] = Inr ev"
| "dup_loop ren skip ev (h # hs) =
     (if skip \<and> hd_name h = ''Event-Subclass'' then dup_loop ren skip ev hs
      else bindE (copy_header ev (ren (hd_name h)) h) (\<lambda>ev. dup_loop ren skip ev hs))"

definition dup_start :: "event_env \<Rightarrow> switch_event \<Rightarrow> (switch_status_t \<times> switch_event option) outcome" where
  "dup_start env todup =
     bindE (switch_event_create_subclass_detailed env [] [] 0 SWITCH_EVENT_CLONE (subclass_name todup))
       (\<lambda>(st, e).
          if st \<noteq> SWITCH_STATUS_SUCCESS then Inr (SWITCH_STATUS_GENERR, e)
          else
            case e of
              None \<Rightarrow> Inl NullPointer
            | Some e \<Rightarrow>
                Inr (SWITCH_STATUS_SUCCESS,
                  Some (e\<lparr>event_id := event_id todup, event_user_data := event_user_data todup,
                          bind_user_data := bind_user_data todup, uniq_headers := uniq_headers todup\<rparr>)))"

definition switch_event_dup :: "event_env \<Rightarrow> switch_event \<Rightarrow> (switch_status_t \<times> switch_event option) outcome" where
  "switch_event_dup env todup =
     bindE (dup_start env todup) (\<lambda>(st, e).
       case e of
         None \<Rightarrow> Inr (st, None)
       | Some e \<Rightarrow>
           bindE (dup_loop id (subclass_name todup \<noteq> None) e (headers todup)) (\<lambda>e.
             Inr (SWITCH_STATUS_SUCCESS,
               Some (e\<lparr>ev_body := (case ev_body todup of Some b \<Rightarrow> Some b | None \<Rightarrow> ev_body e),
                       ev_key := ev_key todup\<rparr>))))"

definition reply_name :: "string \<Rightarrow> string" where
  "reply_name name =
     (if strncasecmp_eq 5 name ''from_'' then take 1023 (''to_'' @ drop 5 name)
      else if strncasecmp_eq 3 name ''to_'' then take 1023 (''from_'' @ drop 3 name)
      else if strcasecmp_eq name ''to'' then ''from''
      else if strcasecmp_eq name ''from'' then ''to'' else name)"

definition switch_event_dup_reply :: "event_env \<Rightarrow> switch_event \<Rightarrow> (switch_status_t \<times> switch_event option) outcome" where
  "switch_event_dup_reply env todup =
     bindE (dup_start env todup) (\<lambda>(st, e).
       case e of
         None \<Rightarrow> Inr (st, None)
       | Some e \<Rightarrow>
           bindE (dup_loop reply_name (subclass_name todup \<noteq> None) e (headers todup)) (\<lambda>e.
           bindE (switch_event_add_header_string e SWITCH_STACK_BOTTOM ''replying'' (Some ''true'')) (\<lambda>r.
           bindE (case ev_body todup of
                    None \<Rightarrow> Inr r
                  | Some b \<Rightarrow> switch_event_add_header_string (snd r) SWITCH_STACK_BOTTOM ''orig_body'' (Some b))
             (\<lambda>r. Inr (SWITCH_STATUS_SUCCESS, Some ((snd r)\<lparr>ev_key := ev_key todup\<rparr>))))))"

section \<open>Serialising\<close>

text \<open>
  The text printed so far with the size of its block and of the encoding block.  \<open>snprintf\<close> cuts
  at one byte less than what is left of the block.
\<close>

definition snprintf_at :: "string \<Rightarrow> nat \<Rightarrow> string \<Rightarrow> string" where
  "snprintf_at buf dlen txt = buf @ take (dlen - length buf - 1) txt"

definition grow_block :: "nat \<Rightarrow> nat \<Rightarrow> nat \<Rightarrow> nat" where
  "grow_block dlen len llen = (if len + llen > dlen then dlen + (512 + (len + llen)) else dlen)"

definition header_room :: "switch_event_header \<Rightarrow> string \<Rightarrow> nat" where
  "header_room h v =
     (if hd_array h \<noteq> [] then sum_list (map (\<lambda>a. length a * 3 + 1) (hd_array h)) else length v * 3 + 1)"

definition encode_value :: "bool \<Rightarrow> string \<Rightarrow> nat \<Rightarrow> string" where
  "encode_value enc v encode_len =
     (if enc then url_encode_loop v 0 (size_sub encode_len 1)
      else take (encode_len - 1) (''['' @ v @ '']''))"

definition header_line :: "string \<Rightarrow> string \<Rightarrow> string" where
  "header_line name e = name @ '': '' @ (if e = [] then ''_undef_'' else e) @ [CHR 0x0A]"

fun serialize_loop ::
    "bool \<Rightarrow> switch_event_header list \<Rightarrow> string \<Rightarrow> nat \<Rightarrow> nat \<Rightarrow> (string \<times> nat) outcome" where
  "serialize_loop enc [] buf dlen encode_len = Inr (buf, dlen)"
| "serialize_loop enc (h # hs) buf dlen encode_len =
     (case hd_value h of
        None \<Rightarrow> Inl NullPointer
      | Some v \<Rightarrow>
          let encode_len = max encode_len (header_room h v);
              e = encode_value enc v encode_len;
              dlen = grow_block dlen (length buf) (length (hd_name h) + length e + 8)
          in serialize_loop enc hs (snprintf_at buf dlen (header_line (hd_name h) e)) dlen encode_len)"

definition switch_event_serialize :: "switch_event \<Rightarrow> bool \<Rightarrow> (switch_status_t \<times> string) outcome" where
  "switch_event_serialize ev enc =
     bindE (serialize_loop enc (headers ev) [] 1024 1536) (\<lambda>(buf, dlen).
       Inr (SWITCH_STATUS_SUCCESS,
         case ev_body ev of
           None \<Rightarrow> snprintf_at buf dlen [CHR 0x0A]
         | Some b \<Rightarrow>
             if b \<noteq> [] then
               snprintf_at buf (grow_block dlen (length buf) (length b + 25))
                 (''Content-Length: '' @ show_nat (length b) @ [CHR 0x0A, CHR 0x0A] @ b)
             else snprintf_at buf (grow_block dlen (length buf) 5) [CHR 0x0A]))"

section \<open>Names, hashes and hits\<close>

abbreviation lname :: "string \<Rightarrow> string" where "lname \<equiv> map c_tolower"

lemma ci_hash_lname: "switch_ci_hashfunc_default a = foldl (\<lambda>h c. h * 33 + of_nat (of_char c)) 0 (lname a)"
  by (simp add: switch_ci_hashfunc_default_def foldl_map)

lemma ci_hash_cong: "strcasecmp_eq a b \<Longrightarrow> switch_ci_hashfunc_default a = switch_ci_hashfunc_default b"
  by (simp only: ci_hash_lname strcasecmp_eq_def)

definition header_ok :: "switch_event_header \<Rightarrow> bool" where
  "header_ok h \<longleftrightarrow> hd_hash h = switch_ci_hashfunc_default (hd_name h) \<and> hd_value h \<noteq> None"

definition event_ok :: "switch_event \<Rightarrow> bool" where
  "event_ok ev \<longleftrightarrow> list_all header_ok (headers ev)"

definition names_distinct :: "switch_event \<Rightarrow> bool" where
  "names_distinct ev \<longleftrightarrow> distinct (map (lname \<circ> hd_name) (headers ev))"

lemma hdr_hit_iff: "header_ok h \<Longrightarrow> hdr_hit n h \<longleftrightarrow> lname (hd_name h) = lname n"
  using ci_hash_cong [of n "hd_name h"] by (auto simp: hdr_hit_def header_ok_def strcasecmp_eq_def)

lemma del_hit_None [simp]: "del_hit n None h \<longleftrightarrow> hdr_hit n h"
  by (simp add: del_hit_def zstr_def)

lemma find_cong: "(\<And>x. x \<in> set xs \<Longrightarrow> P x \<longleftrightarrow> Q x) \<Longrightarrow> find P xs = find Q xs"
  by (induction xs) auto

lemma find_filter: "find P (filter Q xs) = find (\<lambda>x. Q x \<and> P x) xs"
  by (induction xs) auto

definition lookup :: "string \<Rightarrow> switch_event_header list \<Rightarrow> switch_event_header option" where
  "lookup n hs = find (\<lambda>h. lname (hd_name h) = lname n) hs"

lemma get_header_ptr_lookup: "event_ok ev \<Longrightarrow> switch_event_get_header_ptr ev (Some n) = lookup n (headers ev)"
  unfolding switch_event_get_header_ptr_def lookup_def event_ok_def list_all_iff
  by (simp, rule find_cong) (simp add: hdr_hit_iff)

lemma lookup_None: "lookup n hs = None \<longleftrightarrow> lname n \<notin> (lname \<circ> hd_name) ` set hs"
  by (force simp: lookup_def find_None_iff)

section \<open>What changing one header leaves alone\<close>

text \<open>
  \<open>changes_only k ev ev'\<close>: the step from \<open>ev\<close> to \<open>ev'\<close> keeps the invariant, the uniqueness of
  names where the event asks for it, and every header whose name is not \<open>k\<close>.
\<close>

definition changes_only :: "string \<Rightarrow> switch_event \<Rightarrow> switch_event \<Rightarrow> bool" where
  "changes_only k ev ev' \<longleftrightarrow>
     uniq_headers ev' = uniq_headers ev \<and> event_id ev' = event_id ev \<and> subclass_name ev' = subclass_name ev \<and>
     (k \<noteq> ''_body'' \<longrightarrow> ev_body ev' = ev_body ev) \<and>
     (event_ok ev \<longrightarrow> event_ok ev' \<and>
        filter (\<lambda>h. lname (hd_name h) \<noteq> lname k) (headers ev') =
        filter (\<lambda>h. lname (hd_name h) \<noteq> lname k) (headers ev) \<and>
        (uniq_headers ev \<and> names_distinct ev \<longrightarrow> names_distinct ev'))"

lemma changes_only_refl [simp]: "changes_only k ev ev"
  by (simp add: changes_only_def)

lemma changes_only_trans: "changes_only k a b \<Longrightarrow> changes_only k b c \<Longrightarrow> changes_only k a c"
  by (auto simp: changes_only_def)

lemma changes_only_body: "changes_only ''_body'' ev (switch_event_set_body ev b)"
  by (simp add: changes_only_def switch_event_set_body_def event_ok_def names_distinct_def)

lemma del_if_effect:
  assumes "del_if b ev k = Inr ev'"
  shows "changes_only k ev ev' \<and> (b \<and> event_ok ev \<longrightarrow> lookup k (headers ev') = None)"
proof (cases b)
  case True
  then have ev': "ev' = ev\<lparr>headers := filter (\<lambda>h. \<not> hdr_hit k h) (headers ev)\<rparr>"
    using assms by (auto simp: del_if_def switch_event_del_header_def switch_event_del_header_val_def
        bindE_eq_Inr split: if_splits)
  have *: "filter (\<lambda>h. \<not> hdr_hit k h) (headers ev) = filter (\<lambda>h. lname (hd_name h) \<noteq> lname k) (headers ev)"
    if "event_ok ev"
    using that by (intro filter_cong) (auto simp: event_ok_def list_all_iff hdr_hit_iff)
  show ?thesis
    unfolding ev' changes_only_def
    by (auto simp: * lookup_None) (auto simp: event_ok_def list_all_iff names_distinct_def distinct_map inj_on_def)
next
  case False
  then show ?thesis using assms by (simp add: del_if_def)
qed

lemma del_if_subset: "del_if b ev k = Inr ev' \<Longrightarrow> set (headers ev') \<subseteq> set (headers ev)"
  by (auto simp: del_if_def switch_event_del_header_def switch_event_del_header_val_def bindE_eq_Inr split: if_splits)

lemma del_if_absent: "del_if b ev k = Inr ev' \<Longrightarrow> lookup n (headers ev) = None \<Longrightarrow> lookup n (headers ev') = None"
  using del_if_subset [of b ev k ev'] by (auto simp: lookup_None)

lemma map_upd_first: "(\<And>x. g (f x) = g x) \<Longrightarrow> map g (upd_first P f xs) = map g xs"
  by (induction xs) auto

lemma filter_upd_first:
  "(\<And>x. x \<in> set xs \<Longrightarrow> P x \<Longrightarrow> \<not> Q x \<and> \<not> Q (f x)) \<Longrightarrow> filter Q (upd_first P f xs) = filter Q xs"
  by (induction xs) auto

lemma list_all_upd_first: "list_all Q xs \<Longrightarrow> (\<And>x. Q x \<Longrightarrow> Q (f x)) \<Longrightarrow> list_all Q (upd_first P f xs)"
  by (induction xs) auto

lemma upd_first_effect:
  assumes "\<And>h. hd_name (f h) = hd_name h \<and> hd_hash (f h) = hd_hash h \<and> (hd_value h \<noteq> None \<longrightarrow> hd_value (f h) \<noteq> None)"
  shows "changes_only k ev (ev\<lparr>headers := upd_first (hdr_hit k) f (headers ev)\<rparr>)"
proof -
  have "event_ok ev \<Longrightarrow> list_all header_ok (upd_first (hdr_hit k) f (headers ev))"
    unfolding event_ok_def by (rule list_all_upd_first) (use assms in \<open>auto simp: header_ok_def\<close>)
  moreover have "event_ok ev \<Longrightarrow> filter (\<lambda>h. lname (hd_name h) \<noteq> lname k) (upd_first (hdr_hit k) f (headers ev)) =
      filter (\<lambda>h. lname (hd_name h) \<noteq> lname k) (headers ev)"
    unfolding event_ok_def list_all_iff by (rule filter_upd_first) (use assms in \<open>auto simp: hdr_hit_iff\<close>)
  moreover have "map (lname \<circ> hd_name) (upd_first (hdr_hit k) f (headers ev)) = map (lname \<circ> hd_name) (headers ev)"
    by (rule map_upd_first) (use assms in simp)
  ultimately show ?thesis by (simp add: changes_only_def event_ok_def names_distinct_def)
qed

lemma redraw_keeps:
  "hd_name (redraw h) = hd_name h" "hd_hash (redraw h) = hd_hash h" "hd_array (redraw h) = hd_array h"
  by (simp_all add: redraw_def Let_def)

lemma length_join: "length (join sep xs) = sum_list (map length xs) + length sep * (length xs - 1)"
  by (induction sep xs rule: join.induct) auto

lemma redraw_value:
  assumes "hd_array h \<noteq> []"
  shows "hd_value (redraw h) = Some (''ARRAY::'' @ join ''|:'' (hd_array h))"
proof -
  have s: "sum_list (map (\<lambda>a. length a + 2) xs) = sum_list (map length xs) + 2 * length xs" for xs :: "string list"
    by (induction xs) auto
  then show ?thesis using assms by (simp add: redraw_def Let_def s length_join)
qed

lemma stack_push_keeps:
  "hd_name (stack_push st d h) = hd_name h" "hd_hash (stack_push st d h) = hd_hash h"
  "hd_value (stack_push st d h) \<noteq> None"
  by (auto simp: stack_push_def Let_def redraw_keeps redraw_value split: option.splits)

lemma index_set_keeps:
  "hd_name (index_set i d h) = hd_name h" "hd_hash (index_set i d h) = hd_hash h"
  "hd_value h \<noteq> None \<Longrightarrow> hd_value (index_set i d h) \<noteq> None"
  by (auto simp: index_set_def redraw_keeps redraw_value)

lemma push_effect: "changes_only k ev (ev\<lparr>headers := upd_first (hdr_hit k) (stack_push st d) (headers ev)\<rparr>)"
  by (rule upd_first_effect) (use stack_push_keeps in blast)

lemma index_effect: "changes_only k ev (ev\<lparr>headers := upd_first (hdr_hit k) (index_set i d) (headers ev)\<rparr>)"
  by (rule upd_first_effect) (use index_set_keeps in blast)

lemma link_header_effect:
  assumes "lname (hd_name h) = lname k" and "hd_value h \<noteq> None"
    and "uniq_headers ev \<and> event_ok ev \<longrightarrow> lookup k (headers ev) = None"
  shows "changes_only k ev (link_header st h ev)"
  using assms by (auto simp: changes_only_def link_header_def Let_def event_ok_def header_ok_def names_distinct_def lookup_None)

lemma link_after_del:
  assumes "del_if (uniq_headers ev) ev k = Inr ev1" and "lname (hd_name h) = lname k" and "hd_value h \<noteq> None"
  shows "changes_only k ev (link_header st h ev1)"
proof (cases "event_ok ev")
  case True
  note d = del_if_effect [OF assms(1)]
  with True have "uniq_headers ev1 = uniq_headers ev" "uniq_headers ev \<longrightarrow> lookup k (headers ev1) = None"
    by (auto simp: changes_only_def)
  then show ?thesis
    using changes_only_trans [of k ev ev1] d link_header_effect [OF assms(2,3), of ev1 st] by auto
next
  case False
  then show ?thesis
    using del_if_effect [OF assms(1)] by (simp add: changes_only_def link_header_def Let_def)
qed

lemma strchr_take: "strchr s c = Some i \<Longrightarrow> strchr (take i s) c = None"
  using strchr_Some [of s c i] by (simp add: strchr_None)

lemma split_index_idem: "split_index name = (hname, ix) \<Longrightarrow> split_index hname = (hname, None)"
  by (auto simp: split_index_def strchr_take split: option.splits)

text \<open>The ways through \<open>switch_event_base_add_header\<close>, once the name is split.\<close>

lemma base_add_cases:
  assumes "switch_event_base_add_header ev st name data = Inr ev'" and "split_index name = (k, ix)"
    and "e0 = (if name = ''_body'' then switch_event_set_body ev (Some data) else ev)"
  obtains (found) e1 b h where "del_if b e0 k = Inr e1"
      "switch_event_get_header_ptr e1 (Some k) = Some h" "ix \<noteq> None \<or> is_stacked st"
      "ev' = (case ix of
          Some i \<Rightarrow> if i > -1 \<and> i \<le> 4000
            then e1\<lparr>headers := upd_first (hdr_hit k) (index_set (nat i) data) (headers e1)\<rparr> else e1
        | None \<Rightarrow> e1\<lparr>headers := upd_first (hdr_hit k) (stack_push st data) (headers e1)\<rparr>)"
  | (emptied) e1 b where "del_if b e0 k = Inr e1" "data = []" "del_if True e1 k = Inr ev'"
      "ix \<noteq> None \<or> is_stacked st \<longrightarrow> switch_event_get_header_ptr e1 (Some k) = None"
  | (array) e1 b e2 rc where "del_if b e0 k = Inr e1" "data \<noteq> []" "strstr data ''ARRAY::'' \<noteq> None"
      "del_if (uniq_headers e1) e1 k = Inr e2" "switch_event_add_array e2 k data = Inr (rc, ev')"
      "ix \<noteq> None \<or> is_stacked st \<longrightarrow> switch_event_get_header_ptr e1 (Some k) = None"
  | (fresh) e1 b e2 where "del_if b e0 k = Inr e1" "data \<noteq> []" "strstr data ''ARRAY::'' = None"
      "del_if (uniq_headers e1) e1 k = Inr e2"
      "ev' = link_header st (if is_stacked st then stack_push st data (new_header k)
         else (new_header k)\<lparr>hd_value := Some data\<rparr>) e2"
      "ix \<noteq> None \<or> is_stacked st \<longrightarrow> switch_event_get_header_ptr e1 (Some k) = None"
proof -
  let ?look = "ix \<noteq> None \<or> is_stacked st"
  let ?b = "(?look \<and> switch_event_get_header_ptr e0 (Some k) = None \<and> ix \<noteq> None) \<and> uniq_headers e0"
  obtain e1 where e1: "del_if ?b e0 k = Inr e1" and
    rest: "(case (if ?look then switch_event_get_header_ptr e1 (Some k) else None) of
           Some h \<Rightarrow>
             (case ix of
                Some i \<Rightarrow>
                  if i > -1 \<and> i \<le> 4000
                  then Inr (e1\<lparr>headers := upd_first (hdr_hit k) (index_set (nat i) data) (headers e1)\<rparr>)
                  else Inr e1
              | None \<Rightarrow>
                  Inr (e1\<lparr>headers := upd_first (hdr_hit k) (stack_push st data) (headers e1)\<rparr>))
         | None \<Rightarrow>
             if data = [] then del_if True e1 k
             else
               bindE (del_if (uniq_headers e1) e1 k) (\<lambda>ev.
                 if strstr data ''ARRAY::'' \<noteq> None
                 then bindE (switch_event_add_array ev k data) (\<lambda>r. Inr (snd r))
                 else
                   let h = new_header k;
                       h = (if is_stacked st then stack_push st data h else h\<lparr>hd_value := Some data\<rparr>)
                   in Inr (link_header st h ev))) = Inr ev'"
    using assms(1) unfolding assms(3)
    by (subst (asm) switch_event_base_add_header.simps) (auto simp: assms(2) Let_def bindE_eq_Inr)
  show thesis
  proof (cases "if ?look then switch_event_get_header_ptr e1 (Some k) else None")
    case (Some h)
    then show thesis using rest by (intro found [OF e1, of h]) (auto split: option.splits if_splits)
  next
    case None
    then have absent: "?look \<longrightarrow> switch_event_get_header_ptr e1 (Some k) = None" by (auto split: if_splits)
    show thesis
    proof (cases "data = []")
      case True
      then show thesis using rest None absent by (intro emptied [OF e1]) simp_all
    next
      case False
      then obtain e2 where e2: "del_if (uniq_headers e1) e1 k = Inr e2"
        using rest None by (auto simp: bindE_eq_Inr)
      show thesis
      proof (cases "strstr data ''ARRAY::''")
        case None2: None
        then show thesis
          using rest None False e2 absent by (intro fresh [OF e1 False None2 e2]) (auto simp: Let_def)
      next
        case (Some i)
        then obtain rc where "switch_event_add_array e2 k data = Inr (rc, ev')"
          using rest None False e2 by (auto simp: bindE_eq_Inr)
        with Some show thesis using absent by (intro array [OF e1 False _ e2]) auto
      qed
    qed
  qed
qed

lemma add_each_effect:
  assumes "\<And>x ev ev'. x \<in> set xs \<Longrightarrow> switch_event_base_add_header ev SWITCH_STACK_PUSH var x = Inr ev' \<Longrightarrow>
      changes_only k ev ev'"
    and "add_each ev var xs = Inr ev'"
  shows "changes_only k ev ev'"
  using assms
proof (induction xs arbitrary: ev)
  case Nil
  then show ?case by simp
next
  case (Cons x xs)
  from Cons.prems(2) obtain e where "switch_event_base_add_header ev SWITCH_STACK_PUSH var x = Inr e"
      "add_each e var xs = Inr ev'"
    by (auto simp: bindE_eq_Inr)
  with Cons show ?case by (meson changes_only_trans list.set_intros)
qed

lemma array_elements_shorter:
  assumes "x \<in> set (switch_separate_string_string (drop 7 val) d n)" and "8 \<le> length val"
  shows "length x < length val"
proof -
  have "length x \<le> sum_list (map length (split_string_loop d (n - 1) (drop 7 val)))"
    using assms(1) unfolding switch_separate_string_string_def by (intro member_le_sum_list) auto
  also have "\<dots> \<le> length (drop 7 val)" using split_string_length [of d "n - 1" "drop 7 val"] by simp
  finally show ?thesis using assms(2) by simp
qed

lemma base_add_header_effect:
  assumes "switch_event_base_add_header ev st name data = Inr ev'"
  shows "changes_only (fst (split_index name)) ev ev'"
  using assms
proof (induction "length data" arbitrary: ev st name data ev' rule: less_induct)
  case less
  obtain k ix where sp: "split_index name = (k, ix)" by fastforce
  define e0 where "e0 = (if name = ''_body'' then switch_event_set_body ev (Some data) else ev)"
  have "name = ''_body'' \<longrightarrow> k = ''_body''" using sp by (auto simp: split_index_def)
  then have e0: "changes_only k ev e0" by (auto simp: e0_def changes_only_body)
  have e1: "changes_only k ev e1" if "del_if b e0 k = Inr e1" for b e1
    using del_if_effect [OF that] changes_only_trans [OF e0] by blast
  from less.prems sp e0_def have "changes_only k ev ev'"
  proof (cases rule: base_add_cases)
    case (found e1 b h)
    have "changes_only k e1 ev'"
      unfolding found(4)
      by (simp add: push_effect index_effect split: option.splits)
    then show ?thesis using changes_only_trans [OF e1 [OF found(1)]] by blast
  next
    case (emptied e1 b)
    then show ?thesis using changes_only_trans [OF e1 [OF emptied(1)]] del_if_effect by blast
  next
    case (array e1 b e2 rc)
    have "changes_only k e2 ev'"
    proof (cases "length data < 8")
      case True
      then show ?thesis using array(5) by (simp add: switch_event_add_array.simps)
    next
      case False
      let ?xs = "switch_separate_string_string (drop 7 data) ''|:'' (count_delims (drop 7 data) + 1)"
      have "add_each e2 k ?xs = Inr ev'"
        using False array(5) by (auto simp: switch_event_add_array.simps bindE_eq_Inr)
      moreover have "changes_only k e e'" if "x \<in> set ?xs"
        "switch_event_base_add_header e SWITCH_STACK_PUSH k x = Inr e'" for x e e'
        using less.hyps [OF array_elements_shorter [OF that(1)] that(2)] False split_index_idem [OF sp] by simp
      ultimately show ?thesis using add_each_effect by blast
    qed
    then show ?thesis
      using changes_only_trans [OF e1 [OF array(1)]] changes_only_trans del_if_effect [OF array(4)] by blast
  next
    case (fresh e1 b e2)
    have "changes_only k e1 ev'"
      unfolding fresh(5) using fresh(4)
      by (rule link_after_del) (auto simp: stack_push_keeps new_header_def simp del: not_None_eq)
    then show ?thesis using changes_only_trans [OF e1 [OF fresh(1)]] by blast
  qed
  then show ?case by (simp add: sp)
qed


section \<open>Stores of values by name\<close>

fun puts :: "('s \<Rightarrow> 'k \<Rightarrow> 'v \<Rightarrow> 's outcome) \<Rightarrow> 's \<Rightarrow> ('k \<times> 'v) list \<Rightarrow> 's outcome" where
  "puts put s [] = Inr s"
| "puts put s ((k, v) # kvs) = bindE (put s k v) (\<lambda>s. puts put s kvs)"

locale keyed_store =
  fixes inv :: "'s \<Rightarrow> bool"
    and valid :: "'k \<Rightarrow> 'v \<Rightarrow> bool"
    and norm :: "'k \<Rightarrow> 'n"
    and get :: "'s \<Rightarrow> 'k \<Rightarrow> 'v option"
    and put :: "'s \<Rightarrow> 'k \<Rightarrow> 'v \<Rightarrow> 's outcome"
  assumes put_inv: "inv s \<Longrightarrow> valid k v \<Longrightarrow> put s k v = Inr s' \<Longrightarrow> inv s'"
    and get_put: "inv s \<Longrightarrow> valid k v \<Longrightarrow> put s k v = Inr s' \<Longrightarrow>
      get s' k' = (if norm k' = norm k then Some v else get s k')"
begin

lemma get_puts:
  assumes "inv s" and "list_all (\<lambda>(k, v). valid k v) kvs" and "puts put s kvs = Inr s'"
  shows "get s' k = (case map_of (rev (map (\<lambda>(k, v). (norm k, v)) kvs)) (norm k) of
           Some v \<Rightarrow> Some v | None \<Rightarrow> get s k)"
  using assms
proof (induction kvs arbitrary: s)
  case Nil
  then show ?case by simp
next
  case (Cons p kvs)
  obtain k0 v0 where p: "p = (k0, v0)" by fastforce
  obtain s1 where s1: "put s k0 v0 = Inr s1" "puts put s1 kvs = Inr s'"
    using Cons.prems(3) p by (auto simp: bindE_eq_Inr)
  have v: "valid k0 v0" using Cons.prems(2) p by simp
  have "get s' k = (case map_of (rev (map (\<lambda>(k, v). (norm k, v)) kvs)) (norm k) of
           Some v \<Rightarrow> Some v | None \<Rightarrow> get s1 k)"
    using Cons.IH [OF put_inv [OF Cons.prems(1) v s1(1)] _ s1(2)] Cons.prems(2) by simp
  then show ?case
    using get_put [OF Cons.prems(1) v s1(1), of k] p by (auto simp: map_of_append split: option.splits)
qed

end

definition store_inv :: "switch_event \<Rightarrow> bool" where
  "store_inv ev \<longleftrightarrow> event_ok ev \<and> uniq_headers ev \<and> names_distinct ev"

definition plain_setting :: "string \<Rightarrow> string \<Rightarrow> bool" where
  "plain_setting k v \<longleftrightarrow> CHR ''['' \<notin> set k \<and> k \<noteq> ''_body'' \<and> v \<noteq> [] \<and> strstr v ''ARRAY::'' = None"

definition header_value :: "switch_event \<Rightarrow> string \<Rightarrow> string option" where
  "header_value ev k = (case switch_event_get_header ev (Some k) of Inr v \<Rightarrow> v | Inl _ \<Rightarrow> None)"

definition set_header :: "switch_event \<Rightarrow> string \<Rightarrow> string \<Rightarrow> switch_event outcome" where
  "set_header ev k v = switch_event_base_add_header ev SWITCH_STACK_BOTTOM k v"

lemma lookup_filter:
  "lname k' \<noteq> lname k \<Longrightarrow> lookup k' (filter (\<lambda>h. lname (hd_name h) \<noteq> lname k) hs) = lookup k' hs"
  unfolding lookup_def find_filter by (rule find_cong) auto

lemma lookup_append: "lookup k (xs @ ys) = (case lookup k xs of None \<Rightarrow> lookup k ys | Some h \<Rightarrow> Some h)"
  by (induction xs) (auto simp: lookup_def)

lemma lookup_single [simp]: "lookup k [h] = (if lname (hd_name h) = lname k then Some h else None)"
  by (simp add: lookup_def)

lemma changes_only_lookup:
  assumes "changes_only k ev ev'" and "event_ok ev" and "lname k' \<noteq> lname k"
  shows "lookup k' (headers ev') = lookup k' (headers ev)"
  using assms(1,2) lookup_filter [OF assms(3), of "headers ev'"] lookup_filter [OF assms(3), of "headers ev"]
  by (simp add: changes_only_def)

lemma header_value_eq:
  "event_ok ev \<Longrightarrow> header_value ev k =
     (case lookup k (headers ev) of Some h \<Rightarrow> hd_value h | None \<Rightarrow> if k = ''_body'' then ev_body ev else None)"
  by (simp add: header_value_def switch_event_get_header_def switch_event_get_header_idx_def
      get_header_ptr_lookup split: option.splits)

lemma plain_split: "CHR ''['' \<notin> set k \<Longrightarrow> split_index k = (k, None)"
  by (simp add: split_index_def strchr_None split: option.splits)

lemma set_header_lookup:
  assumes "event_ok ev" and "plain_setting k v" and "set_header ev k v = Inr ev'"
    and "uniq_headers ev \<or> lookup k (headers ev) = None"
  shows "lookup k (headers ev') =
    Some \<lparr>hd_name = k, hd_value = Some v, hd_array = [], hd_hash = switch_ci_hashfunc_default k\<rparr>"
proof -
  have sp: "split_index k = (k, None)" and v: "v \<noteq> []" "strstr v ''ARRAY::'' = None" and b: "k \<noteq> ''_body''"
    using assms(2) by (auto simp: plain_setting_def plain_split)
  have e0: "ev = (if k = ''_body'' then switch_event_set_body ev (Some v) else ev)" using b by simp
  have ns: "\<not> is_stacked SWITCH_STACK_BOTTOM" by (simp add: is_stacked_def stack_defs)
  from assms(3) [unfolded set_header_def] sp e0 show ?thesis
  proof (cases rule: base_add_cases)
    case (fresh e1 b e2)
    have c1: "changes_only k ev e1" and c2: "changes_only k e1 e2"
      using del_if_effect [OF fresh(1)] del_if_effect [OF fresh(4)] by auto
    then have "uniq_headers e1 = uniq_headers ev" "event_ok e1" using assms(1) by (auto simp: changes_only_def)
    then have "lookup k (headers e2) = None"
      using assms(4) del_if_effect [OF fresh(4)] del_if_absent [OF fresh(1)] del_if_absent [OF fresh(4)] by blast
    then show ?thesis
      using fresh(5) ns by (simp add: link_header_def Let_def new_header_def lookup_append stack_defs)
  qed (use v ns in auto)
qed

interpretation event_store: keyed_store store_inv plain_setting lname header_value set_header
proof
  fix ev k v ev'
  assume inv: "store_inv ev" and v: "plain_setting k v" and s: "set_header ev k v = Inr ev'"
  have sp: "split_index k = (k, None)" using v by (simp add: plain_setting_def plain_split)
  have ch: "changes_only k ev ev'"
    using base_add_header_effect [OF s [unfolded set_header_def]] by (simp add: sp)
  then show inv': "store_inv ev'" using inv by (simp add: store_inv_def changes_only_def)
  fix k'
  show "header_value ev' k' = (if lname k' = lname k then Some v else header_value ev k')"
  proof (cases "lname k' = lname k")
    case True
    then have "lookup k' (headers ev') = lookup k (headers ev')" by (simp add: lookup_def)
    then show ?thesis
      using set_header_lookup [OF _ v s] inv inv' True by (simp add: store_inv_def header_value_eq)
  next
    case False
    then show ?thesis
      using changes_only_lookup [OF ch _ False] ch inv inv' v
      by (auto simp: store_inv_def header_value_eq changes_only_def plain_setting_def split: option.splits)
  qed
qed

lemma del_if_total:
  "b \<longrightarrow> length (headers ev) < 1000000 \<Longrightarrow>
     \<exists>ev'. del_if b ev k = Inr ev' \<and> length (headers ev') \<le> length (headers ev) \<and> uniq_headers ev' = uniq_headers ev"
  by (auto simp: del_if_def switch_event_del_header_def switch_event_del_header_val_def)

lemma set_header_total:
  assumes "plain_setting k v" and "length (headers ev) < 1000000"
  shows "\<exists>ev'. set_header ev k v = Inr ev' \<and> length (headers ev') \<le> length (headers ev) + 1"
proof -
  have s: "split_index k = (k, None)" "k \<noteq> ''_body''" "v \<noteq> []" "strstr v ''ARRAY::'' = None"
    using assms(1) by (auto simp: plain_setting_def plain_split)
  obtain e where "del_if (uniq_headers ev) ev k = Inr e" "length (headers e) \<le> length (headers ev)"
    using del_if_total [of "uniq_headers ev" ev k] assms(2) by auto
  moreover have "del_if False ev k = Inr ev" by (simp add: del_if_def)
  moreover have "\<not> is_stacked SWITCH_STACK_BOTTOM" by (simp add: is_stacked_def stack_defs)
  ultimately show ?thesis
    unfolding set_header_def
    by (subst switch_event_base_add_header.simps) (simp add: s Let_def link_header_def)
qed

lemma puts_set_header_total:
  "list_all (\<lambda>(k, v). plain_setting k v) kvs \<Longrightarrow> length (headers ev) + length kvs \<le> 1000000 \<Longrightarrow>
     \<exists>ev'. puts set_header ev kvs = Inr ev'"
proof (induction kvs arbitrary: ev)
  case Nil
  then show ?case by simp
next
  case (Cons p kvs)
  obtain k v where p: "p = (k, v)" by fastforce
  then obtain e where "set_header ev k v = Inr e" "length (headers e) \<le> length (headers ev) + 1"
    using set_header_total [of k v ev] Cons.prems by auto
  then show ?case using Cons.IH [of e] Cons.prems p by simp
qed

lemma no_hit: "event_ok ev \<Longrightarrow> lookup k (headers ev) = None \<Longrightarrow> h \<in> set (headers ev) \<Longrightarrow> \<not> hdr_hit k h"
  by (force simp: event_ok_def list_all_iff hdr_hit_iff lookup_None)

lemma del_if_none:
  assumes "event_ok ev" and "lookup k (headers ev) = None" and "b \<longrightarrow> length (headers ev) < 1000000"
  shows "del_if b ev k = Inr ev"
proof -
  have "filter (\<lambda>h. \<not> hdr_hit k h) (headers ev) = headers ev"
    using no_hit [OF assms(1,2)] by (simp add: filter_id_conv)
  then show ?thesis
    using assms(3) by (auto simp: del_if_def switch_event_del_header_def switch_event_del_header_val_def)
qed

lemma find_upd_first: "(\<And>x. P (f x) = P x) \<Longrightarrow> find P (upd_first P f xs) = map_option f (find P xs)"
  by (induction xs) auto

section \<open>Properties\<close>

text \<open>
  Adding a header, in any stacking mode, with an index or as array text, keeps the stored
  hashes right and the names unique where the event asks for that, and leaves the value and the
  array of every other name as they were.
\<close>

theorem add_header_frame:
  assumes "switch_event_base_add_header ev st name data = Inr ev'" and "event_ok ev"
    and "\<not> strcasecmp_eq k (fst (split_index name))"
  shows "event_ok ev' \<and> (uniq_headers ev \<and> names_distinct ev \<longrightarrow> names_distinct ev') \<and>
     switch_event_get_header_idx ev' (Some k) i = switch_event_get_header_idx ev (Some k) i"
proof -
  have ch: "changes_only (fst (split_index name)) ev ev'" using assms(1) by (rule base_add_header_effect)
  have ok: "event_ok ev'" using ch assms(2) by (simp add: changes_only_def)
  have ne: "lname k \<noteq> lname (fst (split_index name))" using assms(3) by (simp add: strcasecmp_eq_def)
  then have b: "k = ''_body'' \<Longrightarrow> ev_body ev' = ev_body ev" using ch by (auto simp: changes_only_def)
  have "switch_event_get_header_ptr ev' (Some k) = switch_event_get_header_ptr ev (Some k)"
    using changes_only_lookup [OF ch assms(2) ne] ok assms(2) by (simp add: get_header_ptr_lookup)
  then have "switch_event_get_header_idx ev' (Some k) i = switch_event_get_header_idx ev (Some k) i"
    using b by (auto simp: switch_event_get_header_idx_def split: option.splits)
  then show ?thesis using ok ch assms(2) by (simp add: changes_only_def)
qed

theorem add_header_frame_witness:
  "\<exists>ev1 ev2. switch_event_base_add_header empty_event SWITCH_STACK_BOTTOM ''to'' ''alice'' = Inr ev1 \<and>
     switch_event_base_add_header ev1 SWITCH_STACK_BOTTOM ''via'' ''x'' = Inr ev2 \<and>
     switch_event_get_header_idx ev2 (Some ''To'') (-1) = switch_event_get_header_idx ev1 (Some ''To'') (-1)"
proof -
  obtain ev1 where 1: "switch_event_base_add_header empty_event SWITCH_STACK_BOTTOM ''to'' ''alice'' = Inr ev1"
    using set_header_total [of "''to''" "''alice''" empty_event]
    by (auto simp: set_header_def plain_setting_def empty_event_def)
  have ok: "event_ok ev1"
    using base_add_header_effect [OF 1] by (simp add: changes_only_def event_ok_def empty_event_def)
  obtain ev2 where 2: "switch_event_base_add_header ev1 SWITCH_STACK_BOTTOM ''via'' ''x'' = Inr ev2"
    using set_header_total [of "''via''" "''x''" ev1] set_header_total [of "''to''" "''alice''" empty_event] 1
    by (auto simp: set_header_def plain_setting_def empty_event_def)
  show ?thesis
    using 1 2 add_header_frame [OF 2 ok, of "''To''" "-1"]
    by (auto simp: split_index_def strcasecmp_eq_def c_tolower_def char_of_def)
qed

text \<open>
  C16. On an event with unique headers, setting plain headers one after the other succeeds up to
  a million and behaves like a finite map from case-folded names: the last value set for a name
  is the one read, every other name keeps its value.
\<close>

theorem uniq_event_is_map:
  assumes "store_inv ev" and "list_all (\<lambda>(k, v). plain_setting k v) kvs"
    and "length (headers ev) + length kvs \<le> 1000000"
  shows "\<exists>ev'. puts set_header ev kvs = Inr ev' \<and>
     (\<forall>k. header_value ev' k =
        (case map_of (rev (map (\<lambda>(k, v). (map c_tolower k, v)) kvs)) (map c_tolower k) of
           Some v \<Rightarrow> Some v | None \<Rightarrow> header_value ev k))"
proof -
  obtain ev' where "puts set_header ev kvs = Inr ev'" using puts_set_header_total [OF assms(2,3)] by blast
  with event_store.get_puts [OF assms(1,2) this] show ?thesis by blast
qed

theorem uniq_event_is_map_witness:
  "\<exists>ev'. puts set_header (empty_event\<lparr>uniq_headers := True\<rparr>) [(''a'', ''1''), (''B'', ''2''), (''A'', ''3'')] = Inr ev' \<and>
     header_value ev' ''a'' = Some ''3'' \<and> header_value ev' ''b'' = Some ''2'' \<and> header_value ev' ''c'' = None"
proof -
  let ?ev = "empty_event\<lparr>uniq_headers := True\<rparr>" and ?kvs = "[(''a'', ''1''), (''B'', ''2''), (''A'', ''3'')]"
  have "store_inv ?ev" by (simp add: store_inv_def event_ok_def names_distinct_def empty_event_def)
  moreover have "list_all (\<lambda>(k, v). plain_setting k v) ?kvs" by (simp add: plain_setting_def)
  moreover have "length (headers ?ev) + length ?kvs \<le> 1000000" by (simp add: empty_event_def)
  ultimately obtain ev' where "puts set_header ?ev ?kvs = Inr ev'" "\<forall>k. header_value ev' k =
        (case map_of (rev (map (\<lambda>(k, v). (map c_tolower k, v)) ?kvs)) (map c_tolower k) of
           Some v \<Rightarrow> Some v | None \<Rightarrow> header_value ?ev k)"
    using uniq_event_is_map by blast
  moreover have "header_value ?ev ''c'' = None" by (simp add: header_value_eq event_ok_def empty_event_def lookup_def)
  ultimately show ?thesis by (simp add: c_tolower_def char_of_def bit_Suc_0_iff)
qed

text \<open>
  Setting an element of an existing array through \<open>name[i]\<close> changes the element but not the
  printed value: the header reads as before while the element reads as set.  On a name that does
  not exist yet the index is dropped and a plain header is made.
\<close>

theorem indexed_set_effect:
  assumes "event_ok ev" and "split_index name = (k, Some i)" and "0 \<le> i" and "plain_setting k data"
    and "length (headers ev) < 1000000"
  shows "(\<forall>h. switch_event_get_header_ptr ev (Some k) = Some h \<and> i < int (length (hd_array h)) \<and> i \<le> 4000 \<longrightarrow>
        (\<exists>ev'. switch_event_base_add_header ev st name data = Inr ev' \<and>
          switch_event_get_header_idx ev' (Some k) i = Inr (Some data) \<and>
          switch_event_get_header ev' (Some k) = switch_event_get_header ev (Some k))) \<and>
     (switch_event_get_header_ptr ev (Some k) = None \<longrightarrow>
        (\<exists>ev'. switch_event_base_add_header ev SWITCH_STACK_BOTTOM name data = Inr ev' \<and>
          switch_event_get_header_idx ev' (Some k) i = Inr None \<and>
          switch_event_get_header ev' (Some k) = Inr (Some data)))"
proof (intro conjI allI impI; (elim conjE)?)
  have nb: "name \<noteq> ''_body''" using assms(2) by (auto simp: split_index_def)
  have f: "del_if False e k = Inr e" for e by (simp add: del_if_def)
  {
    fix h
    assume h: "switch_event_get_header_ptr ev (Some k) = Some h" "i < int (length (hd_array h))" "i \<le> 4000"
    let ?ev = "ev\<lparr>headers := upd_first (hdr_hit k) (index_set (nat i) data) (headers ev)\<rparr>"
    have "switch_event_base_add_header ev st name data = Inr ?ev"
      using h assms(3) by (subst switch_event_base_add_header.simps) (simp add: assms(2) nb f Let_def)
    moreover have "switch_event_get_header_ptr ?ev (Some k) = Some (index_set (nat i) data h)"
      using h(1) find_upd_first [of "hdr_hit k" "index_set (nat i) data" "headers ev"]
      by (simp add: switch_event_get_header_ptr_def hdr_hit_def index_set_keeps)
    moreover have "index_set (nat i) data h = h\<lparr>hd_array := (hd_array h)[nat i := data]\<rparr>"
      using h(2) assms(3) by (simp add: index_set_def nat_less_iff)
    ultimately show "\<exists>ev'. switch_event_base_add_header ev st name data = Inr ev' \<and>
          switch_event_get_header_idx ev' (Some k) i = Inr (Some data) \<and>
          switch_event_get_header ev' (Some k) = switch_event_get_header ev (Some k)"
      using h assms(3) by (simp add: switch_event_get_header_def switch_event_get_header_idx_def nat_less_iff)
  }
  assume none: "switch_event_get_header_ptr ev (Some k) = None"
  have d: "del_if b ev k = Inr ev" for b
    using none assms(1,5) by (intro del_if_none) (auto simp: get_header_ptr_lookup)
  let ?ev = "link_header SWITCH_STACK_BOTTOM ((new_header k)\<lparr>hd_value := Some data\<rparr>) ev"
  have "\<not> is_stacked SWITCH_STACK_BOTTOM" by (simp add: is_stacked_def stack_defs)
  then have "switch_event_base_add_header ev SWITCH_STACK_BOTTOM name data = Inr ?ev"
    using none assms(4)
    by (subst switch_event_base_add_header.simps) (simp add: assms(2) nb d Let_def plain_setting_def)
  moreover have "event_ok ?ev"
    using assms(1) by (simp add: event_ok_def header_ok_def link_header_def Let_def new_header_def)
  moreover have "lookup k (headers ?ev) = Some \<lparr>hd_name = k, hd_value = Some data, hd_array = [],
      hd_hash = switch_ci_hashfunc_default k\<rparr>"
    using none assms(1)
    by (simp add: link_header_def Let_def new_header_def stack_defs lookup_append get_header_ptr_lookup)
  ultimately show "\<exists>ev'. switch_event_base_add_header ev SWITCH_STACK_BOTTOM name data = Inr ev' \<and>
          switch_event_get_header_idx ev' (Some k) i = Inr None \<and>
          switch_event_get_header ev' (Some k) = Inr (Some data)"
    using assms(3)
    by (intro exI [of _ ?ev]) (simp add: switch_event_get_header_def switch_event_get_header_idx_def get_header_ptr_lookup)
qed

theorem indexed_set_effect_witness:
  "\<exists>ev'. switch_event_base_add_header empty_event SWITCH_STACK_BOTTOM ''v[1]'' ''z'' = Inr ev' \<and>
     switch_event_get_header_idx ev' (Some ''v'') 1 = Inr None \<and>
     switch_event_get_header ev' (Some ''v'') = Inr (Some ''z'')"
proof -
  have "split_index ''v[1]'' = (''v'', Some 1)" by code_simp
  moreover have "event_ok empty_event" "length (headers empty_event) < 1000000"
      "switch_event_get_header_ptr empty_event (Some ''v'') = None"
    by (simp_all add: event_ok_def empty_event_def switch_event_get_header_ptr_def)
  moreover have "plain_setting ''v'' ''z''" by (simp add: plain_setting_def)
  ultimately show ?thesis using indexed_set_effect [of empty_event "''v[1]''" "''v''" 1 "''z''"] by simp
qed

end
