(* ===== verification/Event_Copy.thy ===== *)
theory Event_Copy
  imports Event
begin

text \<open>
  Copies of events: the textual form of array headers, which \<open>switch_event_base_add_header\<close>
  writes and reads back, the duplication of a whole event, and its serialised text.
\<close>

section \<open>Array headers\<close>

abbreviation has_delim :: "string \<Rightarrow> bool" where "has_delim x \<equiv> sublist ''|:'' x"

lemma strstr_at_delim: "\<not> has_delim x \<Longrightarrow> strstr (x @ ''|:'' @ r) ''|:'' = Some (length x)"
proof (induction x)
  case Nil
  then show ?case by simp
next
  case (Cons c x)
  then have "\<not> has_delim x" "\<not> prefix ''|:'' (c # x)" by (auto simp: sublist_Cons_right)
  moreover from this have "\<not> prefix ''|:'' (c # x @ ''|:'' @ r)" by (cases x) auto
  ultimately show ?case using Cons.IH by simp
qed

lemma count_delims_join:
  "list_all (\<lambda>x. \<not> has_delim x) (x # xs) \<Longrightarrow> count_delims (join ''|:'' (x # xs)) = length xs"
proof (induction xs arbitrary: x)
  case Nil
  then show ?case by (subst count_delims.simps) (simp add: strstr_None_iff [THEN iffD2])
next
  case (Cons y ys)
  then show ?case
    using strstr_at_delim [of x "join ''|:'' (y # ys)"] by (subst count_delims.simps) simp
qed

lemma split_delims_join:
  "list_all (\<lambda>x. \<not> has_delim x) (x # xs) \<Longrightarrow> length xs \<le> n \<Longrightarrow>
     split_string_loop ''|:'' n (join ''|:'' (x # xs)) = x # xs"
proof (induction xs arbitrary: x n)
  case Nil
  then show ?case by (subst split_string_loop.simps) (simp add: strstr_None_iff [THEN iffD2])
next
  case (Cons y ys)
  then show ?case
    using strstr_at_delim [of x "join ''|:'' (y # ys)"] by (subst split_string_loop.simps) simp
qed

definition plain_header :: "string \<Rightarrow> string \<Rightarrow> switch_event_header" where
  "plain_header k v = \<lparr>hd_name = k, hd_value = Some v, hd_array = [], hd_hash = switch_ci_hashfunc_default k\<rparr>"

definition array_header :: "string \<Rightarrow> string list \<Rightarrow> switch_event_header" where
  "array_header k xs =
     \<lparr>hd_name = k, hd_value = Some (''ARRAY::'' @ join ''|:'' xs), hd_array = xs,
      hd_hash = switch_ci_hashfunc_default k\<rparr>"

definition plain_name :: "string \<Rightarrow> bool" where
  "plain_name k \<longleftrightarrow> CHR ''['' \<notin> set k \<and> k \<noteq> ''_body''"

definition plain_value :: "string \<Rightarrow> bool" where
  "plain_value v \<longleftrightarrow> v \<noteq> [] \<and> strstr v ''ARRAY::'' = None"

definition roomy :: "switch_event \<Rightarrow> bool" where
  "roomy ev \<longleftrightarrow> uniq_headers ev \<longrightarrow> length (headers ev) < 1000000"

lemma header_eqI:
  "hd_name a = hd_name b \<Longrightarrow> hd_value a = hd_value b \<Longrightarrow> hd_array a = hd_array b \<Longrightarrow> hd_hash a = hd_hash b \<Longrightarrow>
     a = (b :: switch_event_header)"
  by simp

lemma stack_push_new: "stack_push SWITCH_STACK_PUSH x (new_header k) = (array_header k [x])\<lparr>hd_hash := 0\<rparr>"
  by (rule header_eqI) (simp_all add: stack_push_def new_header_def array_header_def Let_def redraw_keeps redraw_value stack_defs)

lemma stack_push_array:
  "ys \<noteq> [] \<Longrightarrow> stack_push SWITCH_STACK_PUSH x (array_header k ys) = array_header k (ys @ [x])"
  by (rule header_eqI) (simp_all add: stack_push_def array_header_def Let_def redraw_keeps redraw_value stack_defs)

lemma ok_headers [simp]: "header_ok (array_header k ys)" "header_ok (plain_header k v)"
  by (simp_all add: header_ok_def array_header_def plain_header_def)

lemma hdr_hit_self [simp]: "hdr_hit k (array_header k ys)" "hdr_hit k (plain_header k v)"
  by (simp_all add: hdr_hit_iff) (simp_all add: array_header_def plain_header_def)

lemma is_stacked_flags [simp]:
  "is_stacked SWITCH_STACK_PUSH" "\<not> is_stacked SWITCH_STACK_BOTTOM" "\<not> is_stacked SWITCH_STACK_TOP"
  by (simp_all add: is_stacked_def stack_defs)

lemma base_add_missing:
  assumes "event_ok ev" and "lookup k (headers ev) = None" and "roomy ev" and "plain_name k" and "plain_value v"
  shows "switch_event_base_add_header ev SWITCH_STACK_BOTTOM k v = Inr (ev\<lparr>headers := headers ev @ [plain_header k v]\<rparr>)"
    and "switch_event_base_add_header ev SWITCH_STACK_PUSH k v = Inr (ev\<lparr>headers := headers ev @ [array_header k [v]]\<rparr>)"
proof -
  have d: "del_if (uniq_headers ev) ev k = Inr ev"
    using assms(1-3) by (intro del_if_none) (auto simp: roomy_def)
  have f: "del_if False ev k = Inr ev" by (simp add: del_if_def)
  have g: "switch_event_get_header_ptr ev (Some k) = None" using assms(1,2) by (simp add: get_header_ptr_lookup)
  have s: "split_index k = (k, None)" "k \<noteq> ''_body''" using assms(4) by (auto simp: plain_name_def plain_split)
  show "switch_event_base_add_header ev SWITCH_STACK_BOTTOM k v = Inr (ev\<lparr>headers := headers ev @ [plain_header k v]\<rparr>)"
    using assms(5) d f
    by (subst switch_event_base_add_header.simps)
      (simp add: s plain_value_def link_header_def Let_def new_header_def plain_header_def, simp add: stack_defs)
  show "switch_event_base_add_header ev SWITCH_STACK_PUSH k v = Inr (ev\<lparr>headers := headers ev @ [array_header k [v]]\<rparr>)"
    using assms(5) d f g
    by (subst switch_event_base_add_header.simps)
      (simp add: s plain_value_def link_header_def Let_def stack_push_new, simp add: array_header_def stack_defs)
qed

lemma base_add_again:
  assumes "\<not> uniq_headers ev" and "plain_name k" and "plain_value v"
  shows "switch_event_base_add_header ev SWITCH_STACK_BOTTOM k v = Inr (ev\<lparr>headers := headers ev @ [plain_header k v]\<rparr>)"
proof -
  have f: "del_if False ev k = Inr ev" by (simp add: del_if_def)
  have s: "split_index k = (k, None)" "k \<noteq> ''_body''" using assms(2) by (auto simp: plain_name_def plain_split)
  show ?thesis
    using assms(1,3) f
    by (subst switch_event_base_add_header.simps)
      (simp add: s plain_value_def link_header_def Let_def new_header_def plain_header_def, simp add: stack_defs)
qed

lemma upd_first_last: "(\<And>x. x \<in> set xs \<Longrightarrow> \<not> P x) \<Longrightarrow> P y \<Longrightarrow> upd_first P f (xs @ [y]) = xs @ [f y]"
  by (induction xs) auto

lemma base_add_push_last:
  assumes "event_ok ev" and "lookup k (headers ev) = None" and "plain_name k" and "ys \<noteq> []"
  shows "switch_event_base_add_header (ev\<lparr>headers := headers ev @ [array_header k ys]\<rparr>) SWITCH_STACK_PUSH k x =
     Inr (ev\<lparr>headers := headers ev @ [array_header k (ys @ [x])]\<rparr>)"
proof -
  let ?ev = "ev\<lparr>headers := headers ev @ [array_header k ys]\<rparr>"
  have ok: "event_ok ?ev" using assms(1) by (simp add: event_ok_def)
  have "lookup k (headers ?ev) = Some (array_header k ys)"
    using assms(2) by (simp add: lookup_append) (simp add: array_header_def)
  then have g: "switch_event_get_header_ptr ?ev (Some k) = Some (array_header k ys)"
    using ok by (simp add: get_header_ptr_lookup)
  have s: "split_index k = (k, None)" "k \<noteq> ''_body''" using assms(3) by (auto simp: plain_name_def plain_split)
  have f: "del_if False e k = Inr e" for e by (simp add: del_if_def)
  have "upd_first (hdr_hit k) (stack_push SWITCH_STACK_PUSH x) (headers ev @ [array_header k ys]) =
      headers ev @ [array_header k (ys @ [x])]"
    using no_hit [OF assms(1,2)] assms(4) by (simp add: upd_first_last stack_push_array)
  then show ?thesis
    using g by (subst switch_event_base_add_header.simps) (simp add: s f Let_def)
qed

lemma add_each_more:
  assumes "event_ok ev" and "lookup k (headers ev) = None" and "plain_name k" and "ys \<noteq> []"
  shows "add_each (ev\<lparr>headers := headers ev @ [array_header k ys]\<rparr>) k xs =
     Inr (ev\<lparr>headers := headers ev @ [array_header k (ys @ xs)]\<rparr>)"
  using assms(4)
proof (induction xs arbitrary: ys)
  case Nil
  then show ?case by simp
next
  case (Cons x xs)
  then show ?case using base_add_push_last [OF assms(1-3) Cons.prems] by simp
qed

lemma add_each_new:
  assumes "event_ok ev" and "lookup k (headers ev) = None" and "roomy ev" and "plain_name k" and "plain_value x"
  shows "add_each ev k (x # xs) = Inr (ev\<lparr>headers := headers ev @ [array_header k (x # xs)]\<rparr>)"
  using base_add_missing(2) [OF assms] add_each_more [OF assms(1,2,4), of "[x]" xs] by simp

text \<open>The text of an array, added under a new name, makes the same array again.\<close>

lemma base_add_array_text:
  assumes "event_ok ev" and "lookup k (headers ev) = None" and "roomy ev" and "plain_name k" and "plain_value x"
    and "list_all (\<lambda>x. \<not> has_delim x) (x # xs)"
  shows "switch_event_base_add_header ev SWITCH_STACK_BOTTOM k (''ARRAY::'' @ join ''|:'' (x # xs)) =
     Inr (ev\<lparr>headers := headers ev @ [array_header k (x # xs)]\<rparr>)"
proof -
  let ?t = "join ''|:'' (x # xs)"
  have len: "?t \<noteq> []" using assms(5) by (simp add: plain_value_def join_Cons)
  have el: "switch_separate_string_string ?t ''|:'' (count_delims ?t + 1) = x # xs"
    using assms(6) by (simp add: switch_separate_string_string_def count_delims_join split_delims_join)
  have a: "switch_event_add_array ev k (''ARRAY::'' @ ?t) = Inr (0, ev\<lparr>headers := headers ev @ [array_header k (x # xs)]\<rparr>)"
    using len el add_each_new [OF assms(1-5), of xs]
    by (subst switch_event_add_array.simps) (simp add: neq_Nil_conv del: add_each.simps join.simps)
  have d: "del_if (uniq_headers ev) ev k = Inr ev"
    using assms(1-3) by (intro del_if_none) (auto simp: roomy_def)
  have f: "del_if False ev k = Inr ev" by (simp add: del_if_def)
  have s: "split_index k = (k, None)" "k \<noteq> ''_body''" using assms(4) by (auto simp: plain_name_def plain_split)
  have n: "strstr (''ARRAY::'' @ ?t) ''ARRAY::'' \<noteq> None" by (simp add: strstr_None_iff)
  show ?thesis
    using a d f n by (subst switch_event_base_add_header.simps) (simp add: s Let_def del: join.simps)
qed

section \<open>Copies of an event\<close>

text \<open>The headers that a copy reproduces exactly.\<close>

definition copyable :: "switch_event_header \<Rightarrow> bool" where
  "copyable h \<longleftrightarrow> plain_name (hd_name h) \<and>
     ((\<exists>v. plain_value v \<and> h = plain_header (hd_name h) v) \<or>
      (\<exists>x xs. plain_value x \<and> h = array_header (hd_name h) (x # xs)))"

lemma copyable_ok: "copyable h \<Longrightarrow> header_ok h"
  unfolding copyable_def by (metis ok_headers)

text \<open>
  The names a copy needs to tell apart: in an event with unique headers all of them, in another
  one that of an array from those before it, to which its elements would be added otherwise.
\<close>

fun told_apart :: "bool \<Rightarrow> switch_event_header list \<Rightarrow> switch_event_header list \<Rightarrow> bool" where
  "told_apart uniq before [] = True"
| "told_apart uniq before (h # hs) =
     ((uniq \<or> hd_array h \<noteq> [] \<longrightarrow> lookup (hd_name h) before = None) \<and> told_apart uniq (before @ [h]) hs)"

lemma copy_header_appends:
  assumes "event_ok ev" and "uniq_headers ev \<or> hd_array h \<noteq> [] \<longrightarrow> lookup (hd_name h) (headers ev) = None"
    and "roomy ev" and "copyable h"
  shows "copy_header ev (hd_name h) h = Inr (ev\<lparr>headers := headers ev @ [h]\<rparr>)"
proof -
  have n: "plain_name (hd_name h)" using assms(4) by (simp add: copyable_def)
  from assms(4) consider v where "plain_value v" "h = plain_header (hd_name h) v"
    | x xs where "plain_value x" "h = array_header (hd_name h) (x # xs)"
    unfolding copyable_def by blast
  then show ?thesis
  proof cases
    case 1
    have a: "hd_array h = []" "hd_value h = Some v" by (subst 1(2), simp add: plain_header_def)+
    have "switch_event_base_add_header ev SWITCH_STACK_BOTTOM (hd_name h) v = Inr (ev\<lparr>headers := headers ev @ [h]\<rparr>)"
      using base_add_missing(1) [OF assms(1) _ assms(3) n 1(1)] base_add_again [OF _ n 1(1), of ev] assms(2) 1(2)
      by (cases "uniq_headers ev") simp_all
    then show ?thesis by (simp add: copy_header_def a switch_event_add_header_string_def)
  next
    case 2
    have a: "hd_array h = x # xs" by (subst 2(2)) (simp add: array_header_def)
    have "add_each ev (hd_name h) (x # xs) = Inr (ev\<lparr>headers := headers ev @ [h]\<rparr>)"
      using add_each_new [OF assms(1) _ assms(3) n 2(1), of xs] assms(2) a 2(2) by simp
    then show ?thesis by (simp add: copy_header_def a del: add_each.simps)
  qed
qed

lemma dup_loop_appends:
  assumes "event_ok ev" and "list_all copyable hs" and "told_apart (uniq_headers ev) (headers ev) (filter (\<lambda>h. \<not> (skip \<and> hd_name h = ''Event-Subclass'')) hs)"
    and "uniq_headers ev \<longrightarrow> length (headers ev) + length hs \<le> 1000000"
  shows "dup_loop id skip ev hs = Inr (ev\<lparr>headers := headers ev @ filter (\<lambda>h. \<not> (skip \<and> hd_name h = ''Event-Subclass'')) hs\<rparr>)"
  using assms
proof (induction hs arbitrary: ev)
  case Nil
  then show ?case by simp
next
  case (Cons h hs)
  show ?case
  proof (cases "skip \<and> hd_name h = ''Event-Subclass''")
    case True
    with Cons.IH [of ev] Cons.prems show ?thesis by auto
  next
    case False
    let ?ev = "ev\<lparr>headers := headers ev @ [h]\<rparr>"
    have "copy_header ev (hd_name h) h = Inr ?ev"
      using Cons.prems False by (intro copy_header_appends) (auto simp: roomy_def)
    moreover have "dup_loop id skip ?ev hs = Inr (?ev\<lparr>headers := headers ?ev @ filter (\<lambda>h. \<not> (skip \<and> hd_name h = ''Event-Subclass'')) hs\<rparr>)"
      using Cons.prems False copyable_ok by (intro Cons.IH) (auto simp: event_ok_def)
    ultimately show ?thesis using False by (auto simp: id_def)
  qed
qed

text \<open>The headers of a copy: that of the subclass comes first.\<close>

definition subclass_first :: "switch_event \<Rightarrow> switch_event_header list" where
  "subclass_first ev =
     (case subclass_name ev of
        None \<Rightarrow> headers ev
      | Some s \<Rightarrow> plain_header ''Event-Subclass'' s # filter (\<lambda>h. hd_name h \<noteq> ''Event-Subclass'') (headers ev))"

lemma plain_subclass: "plain_name ''Event-Subclass''"
  by (simp add: plain_name_def)


definition sample_event :: switch_event where
  "sample_event = empty_event\<lparr>event_id := SWITCH_EVENT_CUSTOM, subclass_name := Some ''c::m'', ev_priority := SWITCH_PRIORITY_HIGH,
     headers := [plain_header ''to'' ''alice'', plain_header ''Event-Subclass'' ''c::m'', plain_header ''to'' ''bob'',
       array_header ''via'' [''a'', ''b'']], ev_body := Some ''hi''\<rparr>"

lemma sample_copyable: "list_all copyable (headers sample_event)"
proof -
  have "copyable (plain_header ''to'' ''alice'')" "copyable (plain_header ''Event-Subclass'' ''c::m'')"
    "copyable (plain_header ''to'' ''bob'')" "copyable (array_header ''via'' [''a'', ''b''])"
    unfolding copyable_def plain_name_def plain_value_def
    by (auto simp: plain_header_def array_header_def)
  then show ?thesis by (simp add: sample_event_def)
qed

definition sample_env :: event_env where
  "sample_env = \<lparr>env_ready = True, core_uuid = ''u'', core_hostname = ''h'', core_switchname = ''s'',
     guess_ip_v4 = ''127.0.0.1'', guess_ip_v6 = ''::1'', date_local = ''l'', date_gmt = ''g'', micro_time = 42\<rparr>"


section \<open>Serialised text\<close>

definition url_text :: "string \<Rightarrow> string" where
  "url_text s = concat (map (\<lambda>c. if url_must_encode c
     then [CHR ''%'', url_hex ! (of_char c div 16), url_hex ! (of_char c mod 16)] else [c]) s)"

lemma url_text_Cons: "url_text (c # cs) = (if url_must_encode c
     then [CHR ''%'', url_hex ! (of_char c div 16), url_hex ! (of_char c mod 16)] else [c]) @ url_text cs"
  by (simp add: url_text_def)

lemma url_text_empty [simp]: "url_text s = [] \<longleftrightarrow> s = []"
  by (cases s) (auto simp: url_text_Cons, simp add: url_text_def)

lemma url_encode_full: "x + 3 * length s \<le> len \<Longrightarrow> len < 2 ^ 64 \<Longrightarrow> url_encode_loop s x len = url_text s"
proof (induction s x len rule: url_encode_loop.induct)
  case (1 x len)
  then show ?case by (simp add: url_text_def)
next
  case (2 c cs x len)
  then show ?case by (simp add: url_text_Cons size_add_def)
qed

definition line_of :: "bool \<Rightarrow> switch_event_header \<Rightarrow> string" where
  "line_of enc h = (let v = the (hd_value h) in header_line (hd_name h) (if enc then url_text v else ''['' @ v @ '']''))"

definition plain_line :: "switch_event_header \<Rightarrow> bool" where
  "plain_line h \<longleftrightarrow> hd_array h = [] \<and> (\<exists>v. hd_value h = Some v \<and> v \<noteq> [] \<and> length v < 2 ^ 60)"

lemma encode_value_full:
  assumes "v \<noteq> []" and "length v < 2 ^ 60" and "length v * 3 + 1 \<le> L" and "L < 2 ^ 63"
  shows "encode_value enc v L = (if enc then url_text v else ''['' @ v @ '']'')"
proof -
  have "size_sub L 1 = L - 1" using assms(3,4) by (simp add: size_sub_exact)
  moreover have "url_encode_loop v 0 (L - 1) = url_text v" using assms(3,4) by (intro url_encode_full) auto
  moreover have "length v + 2 \<le> L - 1" using assms(1,3) by (cases v) auto
  ultimately show ?thesis by (simp add: encode_value_def)
qed

lemma serialize_loop_exact:
  "list_all plain_line hs \<Longrightarrow> length buf + 5 \<le> dlen \<Longrightarrow> L < 2 ^ 62 \<Longrightarrow>
     \<exists>dlen'. serialize_loop enc hs buf dlen L = Inr (buf @ concat (map (line_of enc) hs), dlen') \<and>
       length buf + length (concat (map (line_of enc) hs)) + 5 \<le> dlen'"
proof (induction hs arbitrary: buf dlen L)
  case Nil
  then show ?case by simp
next
  case (Cons h hs)
  then obtain v where h: "hd_array h = []" "hd_value h = Some v" "v \<noteq> []" "length v < 2 ^ 60"
    by (auto simp: plain_line_def)
  define M where "M = max L (header_room h v)"
  define e where "e = (if enc then url_text v else ''['' @ v @ '']'')"
  define d where "d = grow_block dlen (length buf) (length (hd_name h) + length e + 8)"
  have M: "length v * 3 + 1 \<le> M" "M < 2 ^ 62" using h Cons.prems(3) by (auto simp: M_def header_room_def)
  have e: "encode_value enc v M = e" unfolding e_def using h M by (intro encode_value_full) auto
  have ne: "e \<noteq> []" using h(3) by (simp add: e_def)
  have l: "line_of enc h = header_line (hd_name h) e" by (simp add: line_of_def h e_def)
  have fit: "length buf + length (line_of enc h) + 5 \<le> d"
    using ne by (simp add: l header_line_def grow_block_def d_def)
  then have "snprintf_at buf d (header_line (hd_name h) e) = buf @ line_of enc h" by (simp add: snprintf_at_def l)
  then have "serialize_loop enc (h # hs) buf dlen L = serialize_loop enc hs (buf @ line_of enc h) d M"
    by (simp add: h(2) Let_def e flip: M_def d_def)
  then show ?case using Cons.IH [of "buf @ line_of enc h" d M] Cons.prems(1) fit M(2) by (simp add: add.assoc del: serialize_loop.simps)
qed


lemma length_show_nat: "n < 10 ^ k \<Longrightarrow> 0 < k \<Longrightarrow> length (show_nat n) \<le> k"
proof (induction k arbitrary: n)
  case 0
  then show ?case by simp
next
  case (Suc k)
  show ?case
  proof (cases "n < 10")
    case True
    then show ?thesis by (simp add: show_nat.simps)
  next
    case False
    then have "0 < k" using Suc.prems by (cases k) auto
    moreover have "n div 10 < 10 ^ k" using Suc.prems by (simp add: less_mult_imp_div_less mult.commute)
    ultimately show ?thesis using Suc.IH [of "n div 10"] False by (simp add: show_nat.simps [of n])
  qed
qed

definition tail_of :: "string option \<Rightarrow> string" where
  "tail_of b = (case b of None \<Rightarrow> [CHR 0x0A]
     | Some t \<Rightarrow> if t = [] then [CHR 0x0A]
        else ''Content-Length: '' @ show_nat (length t) @ [CHR 0x0A, CHR 0x0A] @ t)"

lemma snprintf_fits: "length buf + length t < d \<Longrightarrow> snprintf_at buf d t = buf @ t"
  by (simp add: snprintf_at_def)

text \<open>
  C22. The serialised text of an event with plain, non-empty headers is exactly one line per
  header, in order, and then the body with its length: no block is too short and nothing is cut
  off, however long the headers are and for bodies below a million bytes.
\<close>

theorem serialize_exact:
  assumes "list_all plain_line (headers ev)" and "\<forall>b. ev_body ev = Some b \<longrightarrow> length b < 1000000"
  shows "switch_event_serialize ev enc =
     Inr (SWITCH_STATUS_SUCCESS, concat (map (line_of enc) (headers ev)) @ tail_of (ev_body ev))"
proof -
  let ?t = "concat (map (line_of enc) (headers ev))"
  obtain d where s: "serialize_loop enc (headers ev) [] 1024 1536 = Inr (?t, d)" "length ?t + 5 \<le> d"
    using serialize_loop_exact [OF assms(1), of "[]" 1024 1536 enc] by auto
  have g: "d \<le> grow_block d (length ?t) n" "length ?t + n \<le> grow_block d (length ?t) n" for n
    by (auto simp: grow_block_def)
  show ?thesis
  proof (cases "ev_body ev")
    case None
    then show ?thesis using s by (simp add: switch_event_serialize_def tail_of_def snprintf_fits)
  next
    case (Some b)
    have "length (show_nat (length b)) \<le> 6" using assms(2) Some by (intro length_show_nat) auto
    then show ?thesis
      using s g(1) [of 5] g(2) [of "length b + 25"] Some
      by (simp add: switch_event_serialize_def tail_of_def snprintf_fits)
  qed
qed

theorem serialize_exact_witness:
  "switch_event_serialize (empty_event\<lparr>headers := [plain_header ''to'' ''a b''], ev_body := Some ''hi''\<rparr>) True =
     Inr (SWITCH_STATUS_SUCCESS, line_of True (plain_header ''to'' ''a b'') @ tail_of (Some ''hi''))"
  using serialize_exact [of "empty_event\<lparr>headers := [plain_header ''to'' ''a b''], ev_body := Some ''hi''\<rparr>" True]
  by (simp add: plain_line_def plain_header_def)

lemma url_text_array: "length (url_text (join ''|:'' (replicate (Suc n) ''a''))) = 1 + 7 * n"
proof (induction n)
  case 0
  then show ?case by (simp add: url_text_def url_must_encode_def url_unsafe_def char_to_int_def)
next
  case (Suc n)
  then show ?case
    by (simp add: join_Cons url_text_Cons) (simp add: url_must_encode_def url_unsafe_def char_to_int_def)
qed

lemma serialize_single:
  "hd_value h = Some v \<Longrightarrow>
     \<exists>d. switch_event_serialize (empty_event\<lparr>headers := [h]\<rparr>) enc = Inr (SWITCH_STATUS_SUCCESS,
       snprintf_at (snprintf_at [] d (header_line (hd_name h) (encode_value enc v (max 1536 (header_room h v)))))
         d [CHR 0x0A])"
  by (simp add: switch_event_serialize_def empty_event_def Let_def) blast

lemma snprintf_single_length:
  "length (snprintf_at (snprintf_at [] d (header_line n e)) d [CHR 0x0A]) \<le> length n + length e + 11"
proof -
  have s: "length (snprintf_at buf d t) \<le> length buf + length t" for buf t by (simp add: snprintf_at_def)
  have "length (header_line n e) \<le> length n + length e + 10" by (simp add: header_line_def)
  then show ?thesis
    using s [of "[]" "header_line n e"] s [of "snprintf_at [] d (header_line n e)" "[CHR 0x0A]"] by simp
qed

text \<open>
  The block for encoding an array header is measured by its elements without the delimiters
  between them and can be too short: of an array of 300 one-letter elements only a part reaches
  the serialised text.
\<close>

theorem serialize_truncates_arrays:
  "case switch_event_serialize (empty_event\<lparr>headers := [array_header ''v'' (replicate 300 ''a'')]\<rparr>) True of
     Inl _ \<Rightarrow> False
   | Inr (st, t) \<Rightarrow> length t < length (url_text (''ARRAY::'' @ join ''|:'' (replicate 300 ''a'')))"
proof -
  define h where "h = array_header ''v'' (replicate 300 ''a'')"
  define v where "v = ''ARRAY::'' @ join ''|:'' (replicate 300 ''a'')"
  have h: "hd_value h = Some v" "hd_name h = ''v''" by (simp_all add: h_def v_def array_header_def)
  have room: "max 1536 (header_room h v) = 1536"
    by (simp add: header_room_def h_def array_header_def sum_list_replicate)
  have short: "length (encode_value True v 1536) \<le> 1535"
    using url_encode_length [of 1535 v 0] by (simp add: encode_value_def size_sub_exact)
  have long: "length (url_text v) \<ge> 2094"
    using url_text_array [of 299] by (simp add: url_text_def v_def)
  from serialize_single [OF h(1), of True] obtain d where
    "switch_event_serialize (empty_event\<lparr>headers := [h]\<rparr>) True = Inr (SWITCH_STATUS_SUCCESS,
       snprintf_at (snprintf_at [] d (header_line ''v'' (encode_value True v 1536))) d [CHR 0x0A])"
    unfolding room h(2) by blast
  then show ?thesis
    using short long snprintf_single_length [of d "''v''" "encode_value True v 1536"]
    unfolding h_def [symmetric] v_def [symmetric] by simp
qed

text \<open>
  Array headers survive their textual form: the value of an array header, added as a plain
  string under a fresh name, makes the same array again, if no element contains the delimiter
  and the first element is neither empty nor itself array text.
\<close>

theorem array_text_roundtrip:
  assumes "event_ok ev" and "switch_event_get_header_ptr ev (Some k) = None" and "length (headers ev) < 1000000"
    and "plain_setting k x" and "list_all (\<lambda>x. \<not> sublist ''|:'' x) (x # xs)"
    and "hd_value (array_header n (x # xs)) = Some text"
  shows "switch_event_base_add_header ev SWITCH_STACK_BOTTOM k text =
     Inr (ev\<lparr>headers := headers ev @ [array_header k (x # xs)]\<rparr>)"
proof -
  have "text = ''ARRAY::'' @ join ''|:'' (x # xs)" using assms(6) by (simp add: array_header_def)
  moreover have "plain_name k" "plain_value x"
    using assms(4) by (auto simp: plain_setting_def plain_name_def plain_value_def)
  ultimately show ?thesis
    using base_add_array_text [OF assms(1) _ _ _ _ assms(5)] assms(1-3)
    by (simp add: get_header_ptr_lookup roomy_def)
qed

theorem array_text_roundtrip_witness:
  "switch_event_base_add_header empty_event SWITCH_STACK_BOTTOM ''v'' ''ARRAY::a|:|:b'' =
     Inr (empty_event\<lparr>headers := [array_header ''v'' [''a'', [], ''b'']]\<rparr>)"
  using array_text_roundtrip [of empty_event "''v''" "''a''" "[[], ''b'']" "''w''" "''ARRAY::a|:|:b''"]
  by (simp add: event_ok_def empty_event_def switch_event_get_header_ptr_def plain_setting_def array_header_def
      sublist_Cons_right)

end
