(* ===== verification/Event_Dispatch.thy ===== *)
theory Event_Dispatch
  imports Event "HOL-Library.Multiset"
begin

text \<open>
  The event engine of \<^verbatim>\<open>switch_event.c\<close>: the bindings of callbacks to event types, the
  reserved subclasses, and the way of a fired event through one of three event queues and one of
  up to twenty dispatch queues to the callbacks.  The global variables of the file are the fields
  of one record.  A callback is known by a number; delivering an event yields the calls made.
  The locks of the file make each operation below atomic.
\<close>

section \<open>State\<close>

record switch_event_node =
  node_handle :: nat
  node_id :: string
  node_event_id :: nat
  node_subclass_name :: "string option"
  node_callback :: nat
  node_user_data :: nat

record switch_event_subclass =
  sub_owner :: string
  sub_name :: string
  sub_bind :: bool

definition MAX_DISPATCH :: nat where "MAX_DISPATCH = 20"
definition NUMBER_OF_QUEUES :: nat where "NUMBER_OF_QUEUES = 3"
definition DISPATCH_QUEUE_LEN :: nat where "DISPATCH_QUEUE_LEN = 10000"
definition EVENT_QUEUE_LEN :: nat where "EVENT_QUEUE_LEN = 100000 + 10"

record engine =
  SYSTEM_RUNNING :: int
  EVENT_NODES :: "switch_event_node list list"
  CUSTOM_HASH :: "string \<rightharpoonup> switch_event_subclass"
  EVENT_QUEUE :: "switch_event list list"
  EVENT_DISPATCH_QUEUE :: "switch_event list option list"
  EVENT_DISPATCH_QUEUE_RUNNING :: "bool list"
  SOFT_MAX_DISPATCH :: nat
  next_handle :: nat

section \<open>Matching and delivery\<close>

definition prefix_match :: "switch_event \<Rightarrow> string \<Rightarrow> string \<Rightarrow> nat \<Rightarrow> nat outcome" where
  "prefix_match ev hname pat match =
     bindE (switch_event_get_header ev (Some hname)) (\<lambda>h.
       case h of None \<Rightarrow> Inr match
       | Some v \<Rightarrow> Inr (if strstr (drop 5 pat) v \<noteq> None then 1 else 0))"

definition switch_events_match :: "switch_event \<Rightarrow> switch_event_node \<Rightarrow> nat outcome" where
  "switch_events_match ev node =
     (let match = (if node_event_id node = SWITCH_EVENT_ALL then 1 else 0)
      in if node_event_id node = SWITCH_EVENT_ALL \<and> node_subclass_name node = None then Inr match
         else if match \<noteq> 0 \<or> event_id ev = node_event_id node then
           (case (subclass_name ev, node_subclass_name node) of
              (Some es, Some ns) \<Rightarrow>
                if strncasecmp_eq 5 ns ''file:'' then prefix_match ev ''file'' ns match
                else if strncasecmp_eq 5 ns ''func:'' then prefix_match ev ''function'' ns match
                else Inr (if strstr es ns \<noteq> None then 1 else 0)
            | (_, None) \<Rightarrow> Inr 1
            | (None, Some _) \<Rightarrow> Inr 0)
         else Inr match)"

fun deliver_nodes :: "switch_event \<Rightarrow> switch_event_node list \<Rightarrow> (nat \<times> nat) list outcome" where
  "deliver_nodes ev [] = Inr []"
| "deliver_nodes ev (n # ns) =
     bindE (switch_events_match ev n) (\<lambda>m.
     bindE (deliver_nodes ev ns) (\<lambda>calls.
       Inr (if m \<noteq> 0 then (node_callback n, node_user_data n) # calls else calls)))"

text \<open>The calls a delivery makes, callback and user data, in order.\<close>

definition switch_event_deliver :: "engine \<Rightarrow> switch_event \<Rightarrow> (nat \<times> nat) list outcome" where
  "switch_event_deliver en ev =
     (if SYSTEM_RUNNING en \<noteq> 0 then
        if length (EVENT_NODES en) \<le> event_id ev then Inl OutOfBounds
        else
          bindE (deliver_nodes ev (EVENT_NODES en ! event_id ev)) (\<lambda>calls.
            if event_id ev = SWITCH_EVENT_ALL then Inr calls
            else bindE (deliver_nodes ev (EVENT_NODES en ! SWITCH_EVENT_ALL)) (\<lambda>more. Inr (calls @ more)))
      else Inr [])"

definition switch_event_running :: "engine \<Rightarrow> switch_status_t" where
  "switch_event_running en = (if SYSTEM_RUNNING en \<noteq> 0 then SWITCH_STATUS_SUCCESS else SWITCH_STATUS_FALSE)"

fun name_event_loop :: "string \<Rightarrow> string list \<Rightarrow> nat \<Rightarrow> nat option" where
  "name_event_loop name [] x = None"
| "name_event_loop name (n # ns) x =
     (if 13 < length name \<and> strcasecmp_eq (drop 13 name) n \<or> strcasecmp_eq name n then Some x
      else name_event_loop name ns (x + 1))"

definition switch_name_event :: "event_env \<Rightarrow> string \<Rightarrow> (switch_status_t \<times> nat option) outcome" where
  "switch_name_event env name =
     (if \<not> env_ready env then Inl AssertionFailed
      else case name_event_loop name EVENT_NAMES 0 of
             Some x \<Rightarrow> Inr (SWITCH_STATUS_SUCCESS, Some x) | None \<Rightarrow> Inr (SWITCH_STATUS_FALSE, None))"

section \<open>Subclasses\<close>

definition switch_event_reserve_subclass_detailed ::
    "engine \<Rightarrow> string \<Rightarrow> string \<Rightarrow> switch_status_t \<times> engine" where
  "switch_event_reserve_subclass_detailed en owner name =
     (case CUSTOM_HASH en name of
        Some s \<Rightarrow>
          if sub_bind s then (SWITCH_STATUS_SUCCESS, en\<lparr>CUSTOM_HASH := (CUSTOM_HASH en)(name \<mapsto> s\<lparr>sub_bind := False\<rparr>)\<rparr>)
          else (SWITCH_STATUS_INUSE, en)
      | None \<Rightarrow>
          (SWITCH_STATUS_SUCCESS,
           en\<lparr>CUSTOM_HASH := (CUSTOM_HASH en)(name \<mapsto> \<lparr>sub_owner = owner, sub_name = name, sub_bind = False\<rparr>)\<rparr>))"

definition switch_event_free_subclass_detailed ::
    "engine \<Rightarrow> string \<Rightarrow> string \<Rightarrow> switch_status_t \<times> engine" where
  "switch_event_free_subclass_detailed en owner name =
     (case CUSTOM_HASH en name of
        Some s \<Rightarrow>
          if owner = sub_owner s then (SWITCH_STATUS_SUCCESS, en\<lparr>CUSTOM_HASH := (CUSTOM_HASH en)(name := None)\<rparr>)
          else (SWITCH_STATUS_FALSE, en\<lparr>CUSTOM_HASH := (CUSTOM_HASH en)(name \<mapsto> s\<lparr>sub_bind := True\<rparr>)\<rparr>)
      | None \<Rightarrow> (SWITCH_STATUS_FALSE, en))"

section \<open>Bindings\<close>

definition bind_subclass :: "engine \<Rightarrow> string \<Rightarrow> string option \<Rightarrow> engine" where
  "bind_subclass en nid subclass =
     (case subclass of
        None \<Rightarrow> en
      | Some s \<Rightarrow>
          (case CUSTOM_HASH en s of
             Some _ \<Rightarrow> en
           | None \<Rightarrow>
               let en = snd (switch_event_reserve_subclass_detailed en nid s)
               in (case CUSTOM_HASH en s of
                     None \<Rightarrow> en
                   | Some sub \<Rightarrow> en\<lparr>CUSTOM_HASH := (CUSTOM_HASH en)(s \<mapsto> sub\<lparr>sub_bind := True\<rparr>)\<rparr>)))"

definition switch_event_bind_removable ::
    "engine \<Rightarrow> string \<Rightarrow> nat \<Rightarrow> string option \<Rightarrow> nat \<Rightarrow> nat \<Rightarrow>
     switch_status_t \<times> switch_event_node option \<times> engine" where
  "switch_event_bind_removable en nid event subclass callback user_data =
     (let en = bind_subclass en nid subclass
      in if event \<le> SWITCH_EVENT_ALL then
           let node = \<lparr>node_handle = next_handle en, node_id = nid, node_event_id = event,
                       node_subclass_name = subclass, node_callback = callback,
                       node_user_data = user_data\<rparr>
           in (SWITCH_STATUS_SUCCESS, Some node,
               en\<lparr>EVENT_NODES := (EVENT_NODES en)[event := node # EVENT_NODES en ! event],
                  next_handle := next_handle en + 1\<rparr>)
         else (SWITCH_STATUS_MEMERR, None, en))"

definition switch_event_bind ::
    "engine \<Rightarrow> string \<Rightarrow> nat \<Rightarrow> string option \<Rightarrow> nat \<Rightarrow> nat \<Rightarrow> switch_status_t \<times> engine" where
  "switch_event_bind en nid event subclass callback user_data =
     (case switch_event_bind_removable en nid event subclass callback user_data of (st, _, en') \<Rightarrow> (st, en'))"

definition switch_event_unbind_callback :: "engine \<Rightarrow> nat \<Rightarrow> switch_status_t \<times> engine" where
  "switch_event_unbind_callback en callback =
     (if list_ex (list_ex (\<lambda>n. node_callback n = callback)) (EVENT_NODES en)
      then SWITCH_STATUS_SUCCESS else SWITCH_STATUS_FALSE,
      en\<lparr>EVENT_NODES := map (filter (\<lambda>n. node_callback n \<noteq> callback)) (EVENT_NODES en)\<rparr>)"

fun remove_node :: "nat \<Rightarrow> switch_event_node list \<Rightarrow> switch_event_node list option" where
  "remove_node h [] = None"
| "remove_node h (n # ns) =
     (if node_handle n = h then Some ns else map_option ((#) n) (remove_node h ns))"

definition switch_event_unbind ::
    "engine \<Rightarrow> switch_event_node option \<Rightarrow> switch_status_t \<times> switch_event_node option \<times> engine" where
  "switch_event_unbind en node =
     (case node of
        None \<Rightarrow> (SWITCH_STATUS_FALSE, None, en)
      | Some n \<Rightarrow>
          (case remove_node (node_handle n) (EVENT_NODES en ! node_event_id n) of
             Some ns \<Rightarrow> (SWITCH_STATUS_SUCCESS, None, en\<lparr>EVENT_NODES := (EVENT_NODES en)[node_event_id n := ns]\<rparr>)
           | None \<Rightarrow> (SWITCH_STATUS_FALSE, Some n, en)))"

section \<open>Queues and threads\<close>

text \<open>
  The search for a queue with room, of \<open>switch_event_fire_detailed\<close> among the event queues from
  the priority on and of the event threads among the dispatch queues in use.
\<close>

fun first_room :: "nat \<Rightarrow> 'e list list \<Rightarrow> nat \<Rightarrow> nat option" where
  "first_room cap [] i = None"
| "first_room cap (q # qs) i = (if length q < cap then Some i else first_room cap qs (i + 1))"

fun priority_index :: "switch_priority_t \<Rightarrow> nat" where
  "priority_index SWITCH_PRIORITY_NORMAL = 0"
| "priority_index SWITCH_PRIORITY_LOW = 1"
| "priority_index SWITCH_PRIORITY_HIGH = 2"

text \<open>
  One round of the loop of \<open>switch_event_fire_detailed\<close>; \<open>None\<close> when every queue is full and the
  caller sleeps before the next round.
\<close>

definition switch_event_fire_detailed ::
    "engine \<Rightarrow> event_env \<Rightarrow> switch_event \<Rightarrow> nat \<Rightarrow> (switch_status_t \<times> engine) option outcome" where
  "switch_event_fire_detailed en env ev user_data =
     (if \<not> env_ready env then Inl AssertionFailed
      else if SYSTEM_RUNNING en \<le> 0 then Inr (Some (SWITCH_STATUS_SUCCESS, en))
      else
        let ev = (if user_data \<noteq> 0 then ev\<lparr>event_user_data := user_data\<rparr> else ev);
            p = priority_index (ev_priority ev)
        in case first_room EVENT_QUEUE_LEN (drop p (EVENT_QUEUE en)) p of
             Some i \<Rightarrow> Inr (Some (SWITCH_STATUS_SUCCESS,
                en\<lparr>EVENT_QUEUE := (EVENT_QUEUE en)[i := EVENT_QUEUE en ! i @ [ev]]\<rparr>))
           | None \<Rightarrow> Inr None)"

text \<open>
  The start of a dispatch thread: it looks for its own number among the first
  \<open>NUMBER_OF_QUEUES\<close> queues only.
\<close>

definition dispatch_thread_id :: "nat \<Rightarrow> nat" where
  "dispatch_thread_id queue = (if queue < NUMBER_OF_QUEUES then queue else NUMBER_OF_QUEUES)"

fun launch_loop :: "nat \<Rightarrow> nat \<Rightarrow> nat \<Rightarrow> engine \<Rightarrow> nat \<times> engine" where
  "launch_loop 0 index mx en = (index, en)"
| "launch_loop (Suc n) index mx en =
     (if index < mx \<and> index < MAX_DISPATCH then
        if EVENT_DISPATCH_QUEUE en ! index \<noteq> None then launch_loop n (index + 1) mx en
        else
          (index,
           en\<lparr>EVENT_DISPATCH_QUEUE := (EVENT_DISPATCH_QUEUE en)[index := Some []],
              EVENT_DISPATCH_QUEUE_RUNNING :=
                (EVENT_DISPATCH_QUEUE_RUNNING en)[dispatch_thread_id index := True]\<rparr>)
      else (index, en))"

definition launch_dispatch_threads :: "engine \<Rightarrow> nat \<Rightarrow> engine" where
  "launch_dispatch_threads en mx =
     (if mx > MAX_DISPATCH then en
      else if mx < SOFT_MAX_DISPATCH en then en
      else
        let (index, en) = launch_loop (MAX_DISPATCH + 1) (SOFT_MAX_DISPATCH en) mx en
        in en\<lparr>SOFT_MAX_DISPATCH := index\<rparr>)"

text \<open>
  One round of the inner loop of \<open>switch_event_thread\<close> for the event it holds: the new state,
  whether the event was passed on, and the counters \<open>loops\<close> and \<open>auto_pause\<close>.
\<close>

definition event_thread_round ::
    "engine \<Rightarrow> switch_event \<Rightarrow> nat \<Rightarrow> nat \<Rightarrow> engine \<times> bool \<times> nat \<times> nat" where
  "event_thread_round en ev loops auto_pause =
     (let loops = loops + 1;
          auto_pause = (if loops > 2 \<and> auto_pause = 0 then 10 else auto_pause)
      in case first_room DISPATCH_QUEUE_LEN
                (map the (take (SOFT_MAX_DISPATCH en) (EVENT_DISPATCH_QUEUE en))) 0 of
           Some i \<Rightarrow>
             (en\<lparr>EVENT_DISPATCH_QUEUE := (EVENT_DISPATCH_QUEUE en)
                   [i := Some (the (EVENT_DISPATCH_QUEUE en ! i) @ [ev])]\<rparr>, True, loops, auto_pause)
         | None \<Rightarrow>
             (if SOFT_MAX_DISPATCH en + 1 < MAX_DISPATCH
              then launch_dispatch_threads en (SOFT_MAX_DISPATCH en + 1) else en,
              False, loops, auto_pause))"

definition switch_event_init :: engine where
  "switch_event_init =
     (launch_dispatch_threads
       \<lparr>SYSTEM_RUNNING = -1, EVENT_NODES = replicate (SWITCH_EVENT_ALL + 1) [], CUSTOM_HASH = Map.empty,
        EVENT_QUEUE = replicate NUMBER_OF_QUEUES [], EVENT_DISPATCH_QUEUE = replicate MAX_DISPATCH None,
        EVENT_DISPATCH_QUEUE_RUNNING = replicate MAX_DISPATCH False, SOFT_MAX_DISPATCH = 0,
        next_handle = 0\<rparr> 1)\<lparr>SYSTEM_RUNNING := 1\<rparr>"

section \<open>Presence events\<close>

definition switch_event_create_pres_in_detailed ::
    "event_env \<Rightarrow> engine \<Rightarrow> string \<Rightarrow> string \<Rightarrow> int \<Rightarrow> string option \<Rightarrow> string option \<Rightarrow> string \<Rightarrow> string \<Rightarrow>
     string option \<Rightarrow> string option \<Rightarrow> string option \<Rightarrow> int \<Rightarrow> string option \<Rightarrow> string option \<Rightarrow>
     string option \<Rightarrow> string option \<Rightarrow> (switch_status_t \<times> engine) option outcome" where
  "switch_event_create_pres_in_detailed env en file func line proto login from from_domain status
       event_type alt_event_type event_count unique_id channel_state answer_state call_direction =
     bindE (switch_event_create_subclass_detailed env file func line SWITCH_EVENT_PRESENCE_IN None)
       (\<lambda>(st, e). case e of
          None \<Rightarrow> Inr (Some (SWITCH_STATUS_MEMERR, en))
        | Some e \<Rightarrow>
            bindE (add_headers e SWITCH_STACK_TOP
              [(''proto'', proto), (''login'', login), (''from'', Some (from @ ''@'' @ from_domain)),
               (''status'', status), (''event_type'', event_type), (''alt_event_type'', alt_event_type),
               (''event_count'', Some (show_int event_count)), (''unique-id'', alt_event_type),
               (''channel-state'', channel_state), (''answer-state'', answer_state),
               (''presence-call-direction'', call_direction)])
              (\<lambda>e. switch_event_fire_detailed en env e 0))"

section \<open>Runs of the engine\<close>

text \<open>
  A run between start and shutdown: the engine, the three event threads (the event each holds,
  its counters \<open>loops\<close> and \<open>auto_pause\<close>) and two ghost logs, the events accepted
  by \<open>switch_event_fire_detailed\<close> and the events handed to \<open>switch_event_deliver\<close> with
  the calls made for them.
\<close>

record event_run =
  eng :: engine
  threads :: "(switch_event option \<times> nat \<times> nat) list"
  fired :: "switch_event list"
  delivered :: "(switch_event \<times> (nat \<times> nat) list) list"

definition fired_event :: "switch_event \<Rightarrow> nat \<Rightarrow> switch_event" where
  "fired_event ev user_data = (if user_data \<noteq> 0 then ev\<lparr>event_user_data := user_data\<rparr> else ev)"

definition run_init :: "event_run \<Rightarrow> bool" where
  "run_init r \<longleftrightarrow> r = \<lparr>eng = switch_event_init, threads = replicate NUMBER_OF_QUEUES (None, 0, 0),
                     fired = [], delivered = []\<rparr>"

inductive run_step :: "event_run \<Rightarrow> event_run \<Rightarrow> bool" where
  bind: "switch_event_bind_removable (eng r) nid e sub cb ud = (st, node, en) \<Longrightarrow> run_step r (r\<lparr>eng := en\<rparr>)"
| unbind: "node_event_id n \<le> SWITCH_EVENT_ALL \<Longrightarrow>
    switch_event_unbind (eng r) (Some n) = (st, node, en) \<Longrightarrow> run_step r (r\<lparr>eng := en\<rparr>)"
| unbind_callback: "switch_event_unbind_callback (eng r) cb = (st, en) \<Longrightarrow> run_step r (r\<lparr>eng := en\<rparr>)"
| reserve: "switch_event_reserve_subclass_detailed (eng r) owner name = (st, en) \<Longrightarrow> run_step r (r\<lparr>eng := en\<rparr>)"
| free: "switch_event_free_subclass_detailed (eng r) owner name = (st, en) \<Longrightarrow> run_step r (r\<lparr>eng := en\<rparr>)"
| fire: "switch_event_fire_detailed (eng r) env ev ud = Inr (Some (st, en)) \<Longrightarrow>
    run_step r (r\<lparr>eng := en, fired := fired r @ [fired_event ev ud]\<rparr>)"
| take: "i < NUMBER_OF_QUEUES \<Longrightarrow> threads r ! i = (None, loops, pause) \<Longrightarrow>
    EVENT_QUEUE (eng r) ! i = ev # q \<Longrightarrow>
    run_step r (r\<lparr>eng := (eng r)\<lparr>EVENT_QUEUE := (EVENT_QUEUE (eng r))[i := q]\<rparr>,
                   threads := (threads r)[i := (Some ev, 0, pause - 1)]\<rparr>)"
| route: "i < NUMBER_OF_QUEUES \<Longrightarrow> threads r ! i = (Some ev, loops, pause) \<Longrightarrow>
    event_thread_round (eng r) ev loops pause = (en, done, loops', pause') \<Longrightarrow>
    run_step r (r\<lparr>eng := en,
                   threads := (threads r)[i := (if done then None else Some ev, loops', pause')]\<rparr>)"
| dispatch: "j < MAX_DISPATCH \<Longrightarrow> EVENT_DISPATCH_QUEUE (eng r) ! j = Some (ev # q) \<Longrightarrow>
    switch_event_deliver (eng r) ev = Inr calls \<Longrightarrow>
    run_step r (r\<lparr>eng := (eng r)\<lparr>EVENT_DISPATCH_QUEUE := (EVENT_DISPATCH_QUEUE (eng r))[j := Some q]\<rparr>,
                   delivered := delivered r @ [(ev, calls)]\<rparr>)"

section \<open>Invariants\<close>

definition queued :: "'e list option \<Rightarrow> 'e list" where
  "queued q = (case q of None \<Rightarrow> [] | Some es \<Rightarrow> es)"

lemma queued_simps [simp]: "queued None = []" "queued (Some es) = es"
  by (simp_all add: queued_def)

text \<open>The tables of bindings: every node sits in the list of its event and has a handle of its own.\<close>

definition nodes_ok :: "switch_event_node list list \<Rightarrow> nat \<Rightarrow> bool" where
  "nodes_ok nodes nh \<longleftrightarrow>
     length nodes = SWITCH_EVENT_ALL + 1 \<and>
     (\<forall>i < length nodes. \<forall>n \<in> set (nodes ! i). node_event_id n = i \<and> node_handle n < nh) \<and>
     (\<forall>ns \<in> set nodes. distinct (map node_handle ns))"

text \<open>The queues: none is over its length and those below \<open>SOFT_MAX_DISPATCH\<close> exist.\<close>

definition queues_ok :: "engine \<Rightarrow> bool" where
  "queues_ok en \<longleftrightarrow>
     length (EVENT_QUEUE en) = NUMBER_OF_QUEUES \<and>
     length (EVENT_DISPATCH_QUEUE en) = MAX_DISPATCH \<and>
     (\<forall>q \<in> set (EVENT_QUEUE en). length q \<le> EVENT_QUEUE_LEN) \<and>
     (\<forall>q \<in> set (EVENT_DISPATCH_QUEUE en). length (queued q) \<le> DISPATCH_QUEUE_LEN) \<and>
     SOFT_MAX_DISPATCH en \<le> MAX_DISPATCH \<and>
     (\<forall>i < SOFT_MAX_DISPATCH en. EVENT_DISPATCH_QUEUE en ! i \<noteq> None)"

definition in_flight :: "event_run \<Rightarrow> switch_event multiset" where
  "in_flight r =
     (\<Sum>q \<leftarrow> EVENT_QUEUE (eng r). mset q) +
     (\<Sum>t \<leftarrow> threads r. mset (queued (map_option (\<lambda>e. [e]) (fst t)))) +
     (\<Sum>q \<leftarrow> EVENT_DISPATCH_QUEUE (eng r). mset (queued q))"

definition run_inv :: "event_run \<Rightarrow> bool" where
  "run_inv r \<longleftrightarrow>
     SYSTEM_RUNNING (eng r) = 1 \<and> nodes_ok (EVENT_NODES (eng r)) (next_handle (eng r)) \<and>
     queues_ok (eng r) \<and> length (threads r) = NUMBER_OF_QUEUES \<and>
     mset (fired r) = in_flight r + mset (map fst (delivered r))"

subsection \<open>Bindings\<close>

lemma bind_subclass_frame [simp]:
  "EVENT_NODES (bind_subclass en nid sub) = EVENT_NODES en"
  "next_handle (bind_subclass en nid sub) = next_handle en"
  "EVENT_QUEUE (bind_subclass en nid sub) = EVENT_QUEUE en"
  "EVENT_DISPATCH_QUEUE (bind_subclass en nid sub) = EVENT_DISPATCH_QUEUE en"
  "SOFT_MAX_DISPATCH (bind_subclass en nid sub) = SOFT_MAX_DISPATCH en"
  "SYSTEM_RUNNING (bind_subclass en nid sub) = SYSTEM_RUNNING en"
  by (auto simp: bind_subclass_def switch_event_reserve_subclass_detailed_def Let_def split: option.splits)

lemma nodes_ok_cons:
  assumes "nodes_ok nodes nh" "e \<le> SWITCH_EVENT_ALL" "node_event_id n = e" "node_handle n = nh"
  shows "nodes_ok (nodes[e := n # nodes ! e]) (nh + 1)"
proof -
  have l: "length nodes = SWITCH_EVENT_ALL + 1" and
    own: "\<And>i m. i < length nodes \<Longrightarrow> m \<in> set (nodes ! i) \<Longrightarrow> node_event_id m = i \<and> node_handle m < nh" and
    d: "\<And>ns. ns \<in> set nodes \<Longrightarrow> distinct (map node_handle ns)"
    using assms(1) by (auto simp: nodes_ok_def)
  have e: "e < length nodes" using l assms(2) by simp
  have new: "distinct (map node_handle (n # nodes ! e))"
    using d [of "nodes ! e"] own [OF e] e assms(4) by force
  have "\<And>i m. i < length nodes \<Longrightarrow> m \<in> set ((nodes[e := n # nodes ! e]) ! i)
      \<Longrightarrow> node_event_id m = i \<and> node_handle m < nh + 1"
    using own e assms(3,4) by (fastforce simp: nth_list_update split: if_splits)
  then show ?thesis
    using l new d set_update_subset_insert [of nodes e "n # nodes ! e"]
    by (auto simp: nodes_ok_def simp del: distinct.simps(2) list.map(2))
qed

lemma nodes_ok_shrink:
  assumes ok: "nodes_ok nodes nh" and len: "length nodes' = length nodes"
    and sub: "\<And>i. i < length nodes \<Longrightarrow> \<exists>P. nodes' ! i = filter P (nodes ! i)"
  shows "nodes_ok nodes' nh"
proof -
  have "distinct (map node_handle ns)" if ns: "ns \<in> set nodes'" for ns
  proof -
    obtain i where i: "i < length nodes" "ns = nodes' ! i" using ns len by (metis in_set_conv_nth)
    then obtain P where "ns = filter P (nodes ! i)" using sub by blast
    then show ?thesis using ok i(1) by (auto simp: nodes_ok_def intro: distinct_map_filter)
  qed
  moreover have "node_event_id n = i \<and> node_handle n < nh" if "i < length nodes" "n \<in> set (nodes' ! i)" for i n
    using ok sub [OF that(1)] that by (auto simp: nodes_ok_def)
  ultimately show ?thesis using ok len by (simp add: nodes_ok_def)
qed

lemma remove_node_filter:
  "distinct (map node_handle ns) \<Longrightarrow>
   remove_node h ns = (if h \<in> node_handle ` set ns then Some (filter (\<lambda>n. node_handle n \<noteq> h) ns) else None)"
proof (induction ns)
  case Nil
  then show ?case by simp
next
  case (Cons a ns)
  have "filter (\<lambda>n. node_handle n \<noteq> node_handle a) ns = ns" using Cons.prems by (intro filter_True) (auto simp: image_iff)
  then show ?case using Cons by auto
qed

lemma bind_removable_frame:
  "switch_event_bind_removable en nid e sub cb ud = (st, node, en') \<Longrightarrow>
     EVENT_QUEUE en' = EVENT_QUEUE en \<and> EVENT_DISPATCH_QUEUE en' = EVENT_DISPATCH_QUEUE en \<and>
     SOFT_MAX_DISPATCH en' = SOFT_MAX_DISPATCH en \<and> SYSTEM_RUNNING en' = SYSTEM_RUNNING en"
  by (auto simp: switch_event_bind_removable_def Let_def split: if_splits)

lemma bind_removable_nodes_ok:
  "nodes_ok (EVENT_NODES en) (next_handle en) \<Longrightarrow>
   switch_event_bind_removable en nid e sub cb ud = (st, node, en') \<Longrightarrow>
     nodes_ok (EVENT_NODES en') (next_handle en')"
  by (auto simp: switch_event_bind_removable_def Let_def nodes_ok_cons [unfolded Suc_eq_plus1 [symmetric]] split: if_splits)

lemma unbind_nodes_ok:
  assumes "nodes_ok (EVENT_NODES en) nh" "node_event_id n \<le> SWITCH_EVENT_ALL"
    "switch_event_unbind en (Some n) = (st, node, en')"
  shows "nodes_ok (EVENT_NODES en') nh"
proof -
  have e: "node_event_id n < length (EVENT_NODES en)" using assms(1,2) by (simp add: nodes_ok_def)
  have d: "distinct (map node_handle (EVENT_NODES en ! node_event_id n))"
    using assms(1) e by (simp add: nodes_ok_def)
  have "nodes_ok ((EVENT_NODES en)[node_event_id n :=
          filter (\<lambda>m. node_handle m \<noteq> node_handle n) (EVENT_NODES en ! node_event_id n)]) nh"
  proof (rule nodes_ok_shrink [OF assms(1)])
    fix i assume "i < length (EVENT_NODES en)"
    then show "\<exists>P. (EVENT_NODES en)[node_event_id n :=
          filter (\<lambda>m. node_handle m \<noteq> node_handle n) (EVENT_NODES en ! node_event_id n)] ! i =
        filter P (EVENT_NODES en ! i)"
      by (cases "i = node_event_id n") (auto intro: exI [of _ "\<lambda>_. True"])
  qed simp
  then show ?thesis
    using assms(1,3) by (auto simp: switch_event_unbind_def remove_node_filter [OF d] split: if_splits)
qed


lemma unbind_callback_nodes_ok:
  assumes "nodes_ok (EVENT_NODES en) nh"
  shows "nodes_ok (EVENT_NODES (snd (switch_event_unbind_callback en cb))) nh"
  by (rule nodes_ok_shrink [OF assms]) (auto simp: switch_event_unbind_callback_def)

lemma unbind_frame:
  "switch_event_unbind en n = (st, node, en') \<Longrightarrow>
     EVENT_QUEUE en' = EVENT_QUEUE en \<and> EVENT_DISPATCH_QUEUE en' = EVENT_DISPATCH_QUEUE en \<and>
     SOFT_MAX_DISPATCH en' = SOFT_MAX_DISPATCH en \<and> SYSTEM_RUNNING en' = SYSTEM_RUNNING en \<and>
     next_handle en' = next_handle en"
  by (auto simp: switch_event_unbind_def split: option.splits)

subsection \<open>Queues\<close>

lemma first_room_Some:
  assumes "first_room cap qs i = Some k"
  shows "i \<le> k \<and> k < i + length qs \<and> length (qs ! (k - i)) < cap"
  using assms
proof (induction qs arbitrary: i)
  case Nil
  then show ?case by simp
next
  case (Cons q qs)
  show ?case
  proof (cases "length q < cap")
    case True
    then show ?thesis using Cons.prems by auto
  next
    case False
    then have "Suc i \<le> k \<and> k < Suc i + length qs \<and> length (qs ! (k - Suc i)) < cap"
      using Cons.IH [of "Suc i"] Cons.prems by simp
    then show ?thesis by (auto simp: nth_Cons' Suc_diff_Suc)
  qed
qed

lemma first_room_full: "(\<And>q. q \<in> set qs \<Longrightarrow> length q = cap) \<Longrightarrow> first_room cap qs i = None"
  by (induction qs arbitrary: i) auto

lemma first_room_last:
  "(\<And>q. q \<in> set qs \<Longrightarrow> length q = cap) \<Longrightarrow> length q < cap \<Longrightarrow> first_room cap (qs @ [q]) i = Some (i + length qs)"
  by (induction qs arbitrary: i) auto

lemma launch_create:
  "SOFT_MAX_DISPATCH en + 1 < MAX_DISPATCH \<Longrightarrow> EVENT_DISPATCH_QUEUE en ! SOFT_MAX_DISPATCH en = None \<Longrightarrow>
   launch_dispatch_threads en (Suc (SOFT_MAX_DISPATCH en)) =
     en\<lparr>EVENT_DISPATCH_QUEUE := (EVENT_DISPATCH_QUEUE en)[SOFT_MAX_DISPATCH en := Some []],
        EVENT_DISPATCH_QUEUE_RUNNING :=
          (EVENT_DISPATCH_QUEUE_RUNNING en)[dispatch_thread_id (SOFT_MAX_DISPATCH en) := True]\<rparr>"
  by (simp add: launch_dispatch_threads_def)

lemma launch_loop_end: "launch_loop n mx mx en = (mx, en)"
  by (cases n) auto

lemma launch_raise:
  "SOFT_MAX_DISPATCH en = k \<Longrightarrow> k + 1 < MAX_DISPATCH \<Longrightarrow> EVENT_DISPATCH_QUEUE en ! k \<noteq> None \<Longrightarrow>
   launch_dispatch_threads en (Suc k) = en\<lparr>SOFT_MAX_DISPATCH := Suc k\<rparr>"
  by (auto simp: launch_dispatch_threads_def launch_loop_end)

lemma sum_mset_update:
  fixes f :: "'a \<Rightarrow> 'e multiset"
  assumes "i < length xs" "f y + a = f (xs ! i) + b"
  shows "(\<Sum>x \<leftarrow> xs[i := y]. f x) + a = (\<Sum>x \<leftarrow> xs. f x) + b"
proof -
  have split: "(\<Sum>x \<leftarrow> xs. f x) = (\<Sum>x \<leftarrow> take i xs. f x) + f (xs ! i) + (\<Sum>x \<leftarrow> drop (Suc i) xs. f x)"
    using id_take_nth_drop [OF assms(1)] by (metis append.assoc map_append sum_list.append sum_list.Cons list.map(2) add.assoc)
  show ?thesis
    using assms by (simp add: upd_conv_take_nth_drop split ac_simps)
qed

lemma launch_loop_None:
  "launch_loop n i mx en = (k, en') \<Longrightarrow> length (EVENT_DISPATCH_QUEUE en) = MAX_DISPATCH \<Longrightarrow>
   mx < i + n \<Longrightarrow> i \<le> mx \<Longrightarrow>  mx \<le> MAX_DISPATCH \<Longrightarrow>
     (\<exists>R. en' = en\<lparr>EVENT_DISPATCH_QUEUE_RUNNING := R\<rparr> \<and> k = mx \<or>
       k < mx \<and> EVENT_DISPATCH_QUEUE en ! k = None \<and>
       en' = en\<lparr>EVENT_DISPATCH_QUEUE := (EVENT_DISPATCH_QUEUE en)[k := Some []], EVENT_DISPATCH_QUEUE_RUNNING := R\<rparr>)
     \<and> i \<le> k \<and> (\<forall>j. i \<le> j \<and> j < k \<longrightarrow> EVENT_DISPATCH_QUEUE en ! j \<noteq> None)"
proof (induction n arbitrary: i)
  case 0
  then show ?case by simp
next
  case (Suc n)
  show ?case
  proof (cases "i < mx")
    case False
    then have "k = mx" "en' = en\<lparr>EVENT_DISPATCH_QUEUE_RUNNING := EVENT_DISPATCH_QUEUE_RUNNING en\<rparr>" "i = mx"
      using Suc.prems by auto
    then show ?thesis by (metis leD le_refl)
  next
    case lt: True
    show ?thesis
    proof (cases "EVENT_DISPATCH_QUEUE en ! i = None")
      case True
      then show ?thesis using lt Suc.prems by auto
    next
      case False
      have "launch_loop n (i + 1) mx en = (k, en')" using lt Suc.prems False by (auto split: if_splits)
      from Suc.IH [OF this] lt Suc.prems False show ?thesis
        by (auto simp: Suc_le_eq) (metis le_neq_implies_less option.distinct(1))+
    qed
  qed
qed


text \<open>What the three operations on queues change, in the form the invariant is proved from.\<close>

lemma launch_effect:
  assumes q: "queues_ok en" and mx: "mx \<le> MAX_DISPATCH" "SOFT_MAX_DISPATCH en \<le> mx"
  shows "queues_ok (launch_dispatch_threads en mx) \<and>
    (\<Sum>q \<leftarrow> EVENT_DISPATCH_QUEUE (launch_dispatch_threads en mx). mset (queued q)) =
      (\<Sum>q \<leftarrow> EVENT_DISPATCH_QUEUE en. mset (queued q)) \<and>
    EVENT_QUEUE (launch_dispatch_threads en mx) = EVENT_QUEUE en \<and>
    EVENT_NODES (launch_dispatch_threads en mx) = EVENT_NODES en \<and>
    next_handle (launch_dispatch_threads en mx) = next_handle en \<and>
    SYSTEM_RUNNING (launch_dispatch_threads en mx) = SYSTEM_RUNNING en"
proof -
  obtain k en' where l: "launch_loop (MAX_DISPATCH + 1) (SOFT_MAX_DISPATCH en) mx en = (k, en')" by fastforce
  have eq: "launch_dispatch_threads en mx = en'\<lparr>SOFT_MAX_DISPATCH := k\<rparr>"
    using mx l by (simp add: launch_dispatch_threads_def del: launch_loop.simps)
  have len: "length (EVENT_DISPATCH_QUEUE en) = MAX_DISPATCH" using q by (simp add: queues_ok_def)
  from launch_loop_None [OF l len] mx
  obtain R where R: "en' = en\<lparr>EVENT_DISPATCH_QUEUE_RUNNING := R\<rparr> \<and> k = mx \<or>
       k < mx \<and> EVENT_DISPATCH_QUEUE en ! k = None \<and>
       en' = en\<lparr>EVENT_DISPATCH_QUEUE := (EVENT_DISPATCH_QUEUE en)[k := Some []], EVENT_DISPATCH_QUEUE_RUNNING := R\<rparr>"
    and k: "SOFT_MAX_DISPATCH en \<le> k"
    and ex: "\<And>j. SOFT_MAX_DISPATCH en \<le> j \<Longrightarrow> j < k \<Longrightarrow> EVENT_DISPATCH_QUEUE en ! j \<noteq> None"
    by auto
  have below: "EVENT_DISPATCH_QUEUE en ! j \<noteq> None" if "j < k" for j
    using ex [of j] that q by (cases "j < SOFT_MAX_DISPATCH en") (simp_all add: queues_ok_def)
  from R show ?thesis
  proof
    assume "en' = en\<lparr>EVENT_DISPATCH_QUEUE_RUNNING := R\<rparr> \<and> k = mx"
    then show ?thesis using q below mx by (simp add: eq queues_ok_def)
  next
    assume a: "k < mx \<and> EVENT_DISPATCH_QUEUE en ! k = None \<and>
       en' = en\<lparr>EVENT_DISPATCH_QUEUE := (EVENT_DISPATCH_QUEUE en)[k := Some []], EVENT_DISPATCH_QUEUE_RUNNING := R\<rparr>"
    then have kl: "k < length (EVENT_DISPATCH_QUEUE en)" using mx len by simp
    have "(\<Sum>q \<leftarrow> (EVENT_DISPATCH_QUEUE en)[k := Some []]. mset (queued q)) =
      (\<Sum>q \<leftarrow> EVENT_DISPATCH_QUEUE en. mset (queued q))"
      using sum_mset_update [OF kl, of "\<lambda>q. mset (queued q)" "Some []" "{#}" "{#}"] a by simp
    moreover have "\<forall>q \<in> set ((EVENT_DISPATCH_QUEUE en)[k := Some []]). length (queued q) \<le> DISPATCH_QUEUE_LEN"
      using q set_update_subset_insert [of "EVENT_DISPATCH_QUEUE en" k "Some []"] by (auto simp: queues_ok_def)
    ultimately show ?thesis
      using a q below mx len by (auto simp: eq queues_ok_def nth_list_update)
  qed
qed

lemma round_effect:
  assumes q: "queues_ok en" and r: "event_thread_round en ev loops pause = (en', pushed, loops', pause')"
  shows "queues_ok en' \<and> EVENT_QUEUE en' = EVENT_QUEUE en \<and> EVENT_NODES en' = EVENT_NODES en \<and>
    next_handle en' = next_handle en \<and> SYSTEM_RUNNING en' = SYSTEM_RUNNING en \<and>
    (\<Sum>q \<leftarrow> EVENT_DISPATCH_QUEUE en'. mset (queued q)) =
      (\<Sum>q \<leftarrow> EVENT_DISPATCH_QUEUE en. mset (queued q)) + (if pushed then {#ev#} else {#})"
proof (cases "first_room DISPATCH_QUEUE_LEN (map the (take (SOFT_MAX_DISPATCH en) (EVENT_DISPATCH_QUEUE en))) 0")
  case None
  then show ?thesis
    using r q launch_effect [OF q, of "SOFT_MAX_DISPATCH en + 1"]
    by (auto simp: event_thread_round_def Let_def split: if_splits)
next
  case (Some i)
  have len: "length (EVENT_DISPATCH_QUEUE en) = MAX_DISPATCH" "SOFT_MAX_DISPATCH en \<le> MAX_DISPATCH"
    using q by (simp_all add: queues_ok_def)
  from first_room_Some [OF Some] len have i: "i < SOFT_MAX_DISPATCH en" "i < length (EVENT_DISPATCH_QUEUE en)"
    and room: "length (the (EVENT_DISPATCH_QUEUE en ! i)) < DISPATCH_QUEUE_LEN" by auto
  obtain es where es: "EVENT_DISPATCH_QUEUE en ! i = Some es" using q i by (auto simp: queues_ok_def)
  let ?Q = "(EVENT_DISPATCH_QUEUE en)[i := Some (es @ [ev])]"
  have en': "en' = en\<lparr>EVENT_DISPATCH_QUEUE := ?Q\<rparr>" "pushed"
    using r Some es by (auto simp: event_thread_round_def Let_def)
  have "(\<Sum>q \<leftarrow> ?Q. mset (queued q)) = (\<Sum>q \<leftarrow> EVENT_DISPATCH_QUEUE en. mset (queued q)) + {#ev#}"
    using sum_mset_update [OF i(2), of "\<lambda>q. mset (queued q)" "Some (es @ [ev])" "{#}" "{#ev#}"] es by simp
  moreover have "\<forall>q \<in> set ?Q. length (queued q) \<le> DISPATCH_QUEUE_LEN"
    using q room es set_update_subset_insert [of "EVENT_DISPATCH_QUEUE en" i] by (fastforce simp: queues_ok_def)
  ultimately show ?thesis using q i es by (auto simp: en' queues_ok_def nth_list_update)
qed

lemma fire_effect:
  assumes q: "queues_ok en" and run: "SYSTEM_RUNNING en = 1"
    and f: "switch_event_fire_detailed en env ev ud = Inr (Some (st, en'))"
  shows "queues_ok en' \<and> EVENT_DISPATCH_QUEUE en' = EVENT_DISPATCH_QUEUE en \<and> EVENT_NODES en' = EVENT_NODES en \<and>
    next_handle en' = next_handle en \<and> SYSTEM_RUNNING en' = SYSTEM_RUNNING en \<and>
    (\<Sum>q \<leftarrow> EVENT_QUEUE en'. mset q) = (\<Sum>q \<leftarrow> EVENT_QUEUE en. mset q) + {#fired_event ev ud#}"
proof -
  let ?e = "fired_event ev ud"
  obtain i where i: "first_room EVENT_QUEUE_LEN (drop (priority_index (ev_priority ?e)) (EVENT_QUEUE en))
        (priority_index (ev_priority ?e)) = Some i"
    and en': "en' = en\<lparr>EVENT_QUEUE := (EVENT_QUEUE en)[i := EVENT_QUEUE en ! i @ [?e]]\<rparr>"
    using f run by (auto simp: switch_event_fire_detailed_def fired_event_def Let_def split: if_splits option.splits)
  have l: "i < length (EVENT_QUEUE en)" "length (EVENT_QUEUE en ! i) < EVENT_QUEUE_LEN"
    using first_room_Some [OF i] by auto
  have "\<forall>q \<in> set ((EVENT_QUEUE en)[i := EVENT_QUEUE en ! i @ [?e]]). length q \<le> EVENT_QUEUE_LEN"
    using q l set_update_subset_insert [of "EVENT_QUEUE en" i] by (fastforce simp: queues_ok_def)
  moreover have "(\<Sum>q \<leftarrow> (EVENT_QUEUE en)[i := EVENT_QUEUE en ! i @ [?e]]. mset q) = (\<Sum>q \<leftarrow> EVENT_QUEUE en. mset q) + {#?e#}"
    using sum_mset_update [OF l(1), of mset "EVENT_QUEUE en ! i @ [?e]" "{#}" "{#?e#}"] by simp
  ultimately show ?thesis using q by (simp add: en' queues_ok_def)
qed


subsection \<open>Every step keeps the invariant\<close>

lemma run_inv_frame:
  assumes "run_inv r" "nodes_ok (EVENT_NODES en) (next_handle en)"
    "EVENT_QUEUE en = EVENT_QUEUE (eng r) \<and> EVENT_DISPATCH_QUEUE en = EVENT_DISPATCH_QUEUE (eng r) \<and>
     SOFT_MAX_DISPATCH en = SOFT_MAX_DISPATCH (eng r) \<and> SYSTEM_RUNNING en = SYSTEM_RUNNING (eng r)"
  shows "run_inv (r\<lparr>eng := en\<rparr>)"
  using assms by (simp add: run_inv_def queues_ok_def in_flight_def)

lemma run_step_inv:
  assumes "run_inv r" "run_step r s"
  shows "run_inv s"
  using assms(2) assms(1)
proof (cases rule: run_step.cases)
  case (bind nid e sub cb ud st node en)
  then show ?thesis
    using assms(1) run_inv_frame bind_removable_frame [OF bind(2)] bind_removable_nodes_ok [OF _ bind(2)]
    by (auto simp: run_inv_def [of r])
next
  case (unbind n st node en)
  then show ?thesis
    using assms(1) run_inv_frame [of r en] unbind_frame [OF unbind(3)] unbind_nodes_ok [OF _ unbind(2,3)]
    by (auto simp: run_inv_def [of r])
next
  case (unbind_callback cb st en)
  then have "en = snd (switch_event_unbind_callback (eng r) cb)" by simp
  then show ?thesis
    using unbind_callback(1) run_inv_frame [OF assms(1), of en] unbind_callback_nodes_ok [of "eng r" "next_handle (eng r)" cb] assms(1)
    by (auto simp: run_inv_def [of r] switch_event_unbind_callback_def)
next
  case (reserve owner name st en)
  then show ?thesis
    using run_inv_frame [OF assms(1), of en] assms(1)
    by (auto simp: run_inv_def [of r] switch_event_reserve_subclass_detailed_def split: option.splits if_splits)
next
  case (free owner name st en)
  then show ?thesis
    using run_inv_frame [OF assms(1), of en] assms(1)
    by (auto simp: run_inv_def [of r] switch_event_free_subclass_detailed_def split: option.splits if_splits)
next
  case (fire env ev ud st en)
  then show ?thesis
    using assms(1) fire_effect [OF _ _ fire(2)] by (auto simp: run_inv_def in_flight_def)
next
  case (take i loops pause ev q)
  have i: "i < length (EVENT_QUEUE (eng r))" "i < length (threads r)"
    using assms(1) take(2) by (auto simp: run_inv_def queues_ok_def)
  have "(\<Sum>q \<leftarrow> (EVENT_QUEUE (eng r))[i := q]. mset q) + {#ev#} = (\<Sum>q \<leftarrow> EVENT_QUEUE (eng r). mset q)"
    using sum_mset_update [OF i(1), of mset q "{#ev#}" "{#}"] take(4) by simp
  moreover have "(\<Sum>t \<leftarrow> (threads r)[i := (Some ev, 0, pause - 1)]. mset (queued (map_option (\<lambda>e. [e]) (fst t)))) =
      (\<Sum>t \<leftarrow> threads r. mset (queued (map_option (\<lambda>e. [e]) (fst t)))) + {#ev#}"
    using sum_mset_update [OF i(2), of "\<lambda>t. mset (queued (map_option (\<lambda>e. [e]) (fst t)))" "(Some ev, 0, pause - 1)" "{#}" "{#ev#}"]
      take(3) by simp
  moreover have "\<forall>q' \<in> set ((EVENT_QUEUE (eng r))[i := q]). length q' \<le> EVENT_QUEUE_LEN"
    using assms(1) i(1) take(4) set_update_subset_insert [of "EVENT_QUEUE (eng r)" i q] nth_mem [OF i(1)]
    by (fastforce simp: run_inv_def queues_ok_def)
  ultimately show ?thesis
    using assms(1) by (simp add: take(1) run_inv_def in_flight_def queues_ok_def)
next
  case (route i ev loops pause en pushed loops' pause')
  have i: "i < length (threads r)" using assms(1) route(2) by (auto simp: run_inv_def)
  let ?t = "(if pushed then None else Some ev, loops', pause')"
  have "(\<Sum>t \<leftarrow> (threads r)[i := ?t]. mset (queued (map_option (\<lambda>e. [e]) (fst t)))) + (if pushed then {#ev#} else {#}) =
      (\<Sum>t \<leftarrow> threads r. mset (queued (map_option (\<lambda>e. [e]) (fst t))))"
    using sum_mset_update [OF i, of "\<lambda>t. mset (queued (map_option (\<lambda>e. [e]) (fst t)))" ?t "if pushed then {#ev#} else {#}" "{#}"]
      route(3) by simp
  then show ?thesis
    using assms(1) round_effect [OF _ route(4)]
    by (simp add: route(1) run_inv_def in_flight_def)
next
  case (dispatch j ev q calls)
  have j: "j < length (EVENT_DISPATCH_QUEUE (eng r))"
    using assms(1) dispatch(2) by (auto simp: run_inv_def queues_ok_def)
  have "(\<Sum>q \<leftarrow> (EVENT_DISPATCH_QUEUE (eng r))[j := Some q]. mset (queued q)) + {#ev#} =
      (\<Sum>q \<leftarrow> EVENT_DISPATCH_QUEUE (eng r). mset (queued q))"
    using sum_mset_update [OF j, of "\<lambda>q. mset (queued q)" "Some q" "{#ev#}" "{#}"] dispatch(3) by simp
  moreover have "\<forall>q' \<in> set ((EVENT_DISPATCH_QUEUE (eng r))[j := Some q]). length (queued q') \<le> DISPATCH_QUEUE_LEN"
    using assms(1) dispatch(3) set_update_subset_insert [of "EVENT_DISPATCH_QUEUE (eng r)" j "Some q"] nth_mem [OF j]
    by (fastforce simp: run_inv_def queues_ok_def)
  ultimately show ?thesis
    using assms(1) j
    by (auto simp: dispatch(1) run_inv_def in_flight_def queues_ok_def nth_list_update ac_simps)
qed

lemma sum_list_empty: "sum_list (replicate n ({#} :: 'e multiset)) = {#}"
  by (induction n) auto

lemma init_engine:
  "queues_ok switch_event_init" "SYSTEM_RUNNING switch_event_init = 1"
  "EVENT_NODES switch_event_init = replicate (SWITCH_EVENT_ALL + 1) []"
  "EVENT_QUEUE switch_event_init = replicate NUMBER_OF_QUEUES []" "next_handle switch_event_init = 0"
  "(\<Sum>q \<leftarrow> EVENT_DISPATCH_QUEUE switch_event_init. mset (queued q)) = {#}"
proof -
  let ?en = "\<lparr>SYSTEM_RUNNING = -1, EVENT_NODES = replicate (SWITCH_EVENT_ALL + 1) [], CUSTOM_HASH = Map.empty,
      EVENT_QUEUE = replicate NUMBER_OF_QUEUES [], EVENT_DISPATCH_QUEUE = replicate MAX_DISPATCH None,
      EVENT_DISPATCH_QUEUE_RUNNING = replicate MAX_DISPATCH False, SOFT_MAX_DISPATCH = 0, next_handle = 0\<rparr>"
  have q: "queues_ok ?en" by (auto simp: queues_ok_def)
  have "SOFT_MAX_DISPATCH ?en \<le> 1" "1 \<le> MAX_DISPATCH" by (simp_all add: MAX_DISPATCH_def)
  note eff = launch_effect [OF q this(2,1)]
  have ok: "queues_ok (en\<lparr>SYSTEM_RUNNING := x\<rparr>) = queues_ok en" for en x by (simp add: queues_ok_def)
  have init: "switch_event_init = (launch_dispatch_threads ?en 1)\<lparr>SYSTEM_RUNNING := 1\<rparr>"
    by (simp only: switch_event_init_def)
  show "queues_ok switch_event_init" "SYSTEM_RUNNING switch_event_init = 1"
    "EVENT_NODES switch_event_init = replicate (SWITCH_EVENT_ALL + 1) []"
    "EVENT_QUEUE switch_event_init = replicate NUMBER_OF_QUEUES []" "next_handle switch_event_init = 0"
    "(\<Sum>q \<leftarrow> EVENT_DISPATCH_QUEUE switch_event_init. mset (queued q)) = {#}"
    unfolding init using eff by (simp_all add: ok sum_list_empty)
qed

lemma run_init_inv: "run_init r \<Longrightarrow> run_inv r"
  using nth_replicate [of _ "SWITCH_EVENT_ALL + 1" "[] :: switch_event_node list"]
  by (auto simp: run_init_def run_inv_def in_flight_def init_engine nodes_ok_def sum_list_empty
      simp del: replicate_Suc replicate.simps)

interpretation run: step_system run_init run_step run_inv
  by unfold_locales (fact run_init_inv, fact run_step_inv)


section \<open>Properties\<close>

text \<open>
  C14. No event is lost or duplicated: in every run from the start of the engine, whatever is
  bound, fired, routed and dispatched in whatever order, the events accepted so far are exactly
  those waiting in the event queues, held by the event threads, waiting in the dispatch queues
  and handed to the callbacks; no queue exceeds its length; and every dispatch queue the event
  threads may push to exists.
\<close>

theorem events_conserved:
  assumes "run_init r0" "run_step\<^sup>*\<^sup>* r0 r"
  shows "mset (fired r) = in_flight r + mset (map fst (delivered r)) \<and>
    (\<forall>q \<in> set (EVENT_QUEUE (eng r)). length q \<le> EVENT_QUEUE_LEN) \<and>
    (\<forall>q \<in> set (EVENT_DISPATCH_QUEUE (eng r)). length (queued q) \<le> DISPATCH_QUEUE_LEN) \<and>
    (\<forall>i < SOFT_MAX_DISPATCH (eng r). EVENT_DISPATCH_QUEUE (eng r) ! i \<noteq> None)"
  using run.reachable_inv [OF assms] by (simp add: run_inv_def queues_ok_def)

definition start_run :: event_run where
  "start_run = \<lparr>eng = switch_event_init, threads = replicate NUMBER_OF_QUEUES (None, 0, 0),
                fired = [], delivered = []\<rparr>"

lemma events_conserved_witness:
  "let en = (eng start_run)\<lparr>EVENT_QUEUE := [[empty_event], [], []]\<rparr>;
       r = start_run\<lparr>eng := en, fired := [empty_event]\<rparr>
   in run_step\<^sup>*\<^sup>* start_run r \<and> in_flight r = {#empty_event#}"
proof -
  let ?en = "(eng start_run)\<lparr>EVENT_QUEUE := [[empty_event], [], []]\<rparr>"
  let ?r = "start_run\<lparr>eng := ?en, fired := [empty_event]\<rparr>"
  obtain env :: event_env where env: "env_ready env" by (metis event_env.select_convs(1))
  have "switch_event_fire_detailed (eng start_run) env empty_event 0 = Inr (Some (SWITCH_STATUS_SUCCESS, ?en))"
    using env by (simp add: start_run_def init_engine switch_event_fire_detailed_def Let_def empty_event_def
        NUMBER_OF_QUEUES_def EVENT_QUEUE_LEN_def numeral_3_eq_3)
  from run_step.fire [OF this] have step: "run_step start_run ?r"
    by (simp add: fired_event_def start_run_def)
  have init: "run_init start_run" by (simp add: run_init_def start_run_def)
  from events_conserved [OF init r_into_rtranclp, OF step] step show ?thesis
    by (auto simp: Let_def start_run_def)
qed

lemma unbind_bound:
  assumes ok: "nodes_ok (EVENT_NODES en) nh" and e: "e \<le> SWITCH_EVENT_ALL"
    and n: "n \<in> set (EVENT_NODES en ! e)"
  shows "switch_event_unbind en (Some n) =
    (SWITCH_STATUS_SUCCESS, None, en\<lparr>EVENT_NODES := map (filter (\<lambda>m. m \<noteq> n)) (EVENT_NODES en)\<rparr>)"
proof -
  have el: "e < length (EVENT_NODES en)" using ok e by (simp add: nodes_ok_def)
  have id: "node_event_id n = e" using ok el n by (auto simp: nodes_ok_def)
  have d: "distinct (map node_handle (EVENT_NODES en ! e))" using ok el by (simp add: nodes_ok_def)
  have same: "filter (\<lambda>m. node_handle m \<noteq> node_handle n) (EVENT_NODES en ! e) = filter (\<lambda>m. m \<noteq> n) (EVENT_NODES en ! e)"
    using d n by (intro filter_cong refl) (metis distinct_map inj_onD)
  have "(EVENT_NODES en)[e := filter (\<lambda>m. m \<noteq> n) (EVENT_NODES en ! e)] ! i = filter (\<lambda>m. m \<noteq> n) (EVENT_NODES en ! i)"
    if "i < length (EVENT_NODES en)" for i
  proof (cases "i = e")
    case False
    then have "n \<notin> set (EVENT_NODES en ! i)" using ok that id by (auto simp: nodes_ok_def)
    then have "filter (\<lambda>m. m \<noteq> n) (EVENT_NODES en ! i) = EVENT_NODES en ! i" by (intro filter_True) auto
    then show ?thesis using False by simp
  qed (simp add: el)
  then have "(EVENT_NODES en)[e := filter (\<lambda>m. m \<noteq> n) (EVENT_NODES en ! e)] = map (filter (\<lambda>m. m \<noteq> n)) (EVENT_NODES en)"
    by (intro nth_equalityI) auto
  then show ?thesis using n by (simp add: switch_event_unbind_def id remove_node_filter [OF d] same)
qed

text \<open>
  A binding takes effect and can be undone.  In every reachable state, binding a callback to
  an event type puts it in front: an event of that type is delivered to it first when it matches,
  and to the same callbacks as before.  And at any later moment at which the binding is still
  there, whatever was bound and unbound in between, unbinding it succeeds and removes it and
  nothing else.
\<close>

theorem bind_then_unbind:
  assumes "run_init r0" "run_step\<^sup>*\<^sup>* r0 r"
    and "switch_event_bind_removable (eng r) nid e sub cb ud = (st, Some n, en)"
    and "run_step\<^sup>*\<^sup>* (r\<lparr>eng := en\<rparr>) r'" and "n \<in> set (EVENT_NODES (eng r') ! e)"
  shows "st = SWITCH_STATUS_SUCCESS \<and>
    (event_id ev = e \<and> switch_events_match ev n = Inr m \<and> switch_event_deliver (eng r) ev = Inr calls \<and>
       e \<noteq> SWITCH_EVENT_ALL \<longrightarrow>
     switch_event_deliver en ev = Inr (if m \<noteq> 0 then (cb, ud) # calls else calls)) \<and>
    switch_event_unbind (eng r') (Some n) =
      (SWITCH_STATUS_SUCCESS, None,
       (eng r')\<lparr>EVENT_NODES := map (filter (\<lambda>m. m \<noteq> n)) (EVENT_NODES (eng r'))\<rparr>)"
proof -
  have inv: "run_inv r" using run.reachable_inv [OF assms(1,2)] .
  have inv': "run_inv r'"
    using run.star_inv [OF assms(4) run_step_inv [OF inv run_step.bind [OF assms(3)]]] .
  have n: "st = SWITCH_STATUS_SUCCESS" "e \<le> SWITCH_EVENT_ALL" "node_event_id n = e"
      "node_callback n = cb" "node_user_data n = ud"
      "en = (bind_subclass (eng r) nid sub)\<lparr>EVENT_NODES := (EVENT_NODES (eng r))[e := n # EVENT_NODES (eng r) ! e],
                  next_handle := next_handle (eng r) + 1\<rparr>"
    using assms(3) by (auto simp: switch_event_bind_removable_def Let_def split: if_splits)
  have e: "e < length (EVENT_NODES (eng r))" and run: "SYSTEM_RUNNING (eng r) = 1"
    using inv n(2) by (simp_all add: run_inv_def nodes_ok_def)
  have "switch_event_deliver en ev = Inr (if m \<noteq> 0 then (cb, ud) # calls else calls)"
    if "event_id ev = e" "switch_events_match ev n = Inr m" "switch_event_deliver (eng r) ev = Inr calls"
      "e \<noteq> SWITCH_EVENT_ALL"
    using that e run n by (auto simp: switch_event_deliver_def n(6) bindE_def split: sum.splits if_splits)
  moreover have "nodes_ok (EVENT_NODES (eng r')) (next_handle (eng r'))" using inv' by (simp add: run_inv_def)
  ultimately show ?thesis using n(1) unbind_bound [OF _ n(2) assms(5)] by blast
qed

lemma bind_then_unbind_witness:
  "\<exists>n en. switch_event_bind_removable (eng start_run) ''mod'' 5 None 7 0 = (SWITCH_STATUS_SUCCESS, Some n, en) \<and>
     switch_event_unbind en (Some n) =
      (SWITCH_STATUS_SUCCESS, None, en\<lparr>EVENT_NODES := map (filter (\<lambda>m. m \<noteq> n)) (EVENT_NODES en)\<rparr>)"
proof -
  have init: "run_init start_run" by (simp add: run_init_def start_run_def)
  obtain n en where b: "switch_event_bind_removable (eng start_run) ''mod'' 5 None 7 0 = (SWITCH_STATUS_SUCCESS, Some n, en)"
      and n: "n \<in> set (EVENT_NODES en ! 5)"
    by (simp add: switch_event_bind_removable_def SWITCH_EVENT_ALL_def start_run_def init_engine Let_def)
  from bind_then_unbind [OF init rtranclp.rtrancl_refl b rtranclp.rtrancl_refl] n b show ?thesis by auto
qed

text \<open>
  Growing the pool of dispatch queues always looks like an overload.  When every dispatch
  queue in use is full and the next one does not exist yet, an event thread needs three rounds to
  pass its event on: the first creates the queue and leaves \<open>SOFT_MAX_DISPATCH\<close> as it is
  (the loop of \<open>launch_dispatch_threads\<close> is left by \<open>break\<close> before the index
  advances), the second only raises \<open>SOFT_MAX_DISPATCH\<close>, and the third, which finds the new
  queue empty, has already exceeded the limit of two rounds and pauses inbound calls.
\<close>

theorem pool_growth_pauses:
  assumes "queues_ok en" "SOFT_MAX_DISPATCH en + 1 < MAX_DISPATCH"
    and "\<forall>i < SOFT_MAX_DISPATCH en. length (queued (EVENT_DISPATCH_QUEUE en ! i)) = DISPATCH_QUEUE_LEN"
    and "EVENT_DISPATCH_QUEUE en ! SOFT_MAX_DISPATCH en = None"
  shows "\<exists>en1 en2 en3.
    event_thread_round en ev 0 0 = (en1, False, 1, 0) \<and>
    SOFT_MAX_DISPATCH en1 = SOFT_MAX_DISPATCH en \<and>
    EVENT_DISPATCH_QUEUE en1 ! SOFT_MAX_DISPATCH en = Some [] \<and>
    event_thread_round en1 ev 1 0 = (en2, False, 2, 0) \<and>
    SOFT_MAX_DISPATCH en2 = SOFT_MAX_DISPATCH en + 1 \<and>
    event_thread_round en2 ev 2 0 = (en3, True, 3, 10) \<and>
    EVENT_DISPATCH_QUEUE en3 ! SOFT_MAX_DISPATCH en = Some [ev]"
proof -
  let ?s = "SOFT_MAX_DISPATCH en" and ?Q = "EVENT_DISPATCH_QUEUE en"
  have len: "length ?Q = MAX_DISPATCH" and ex: "\<And>i. i < ?s \<Longrightarrow> ?Q ! i \<noteq> None"
    using assms(1) by (auto simp: queues_ok_def)
  have sl: "?s < length ?Q" using len assms(2) by simp
  have full: "length (the (?Q ! i)) = DISPATCH_QUEUE_LEN" if "i < ?s" for i
    using assms(3) ex [OF that] that by (auto simp: queued_def)
  have none: "first_room DISPATCH_QUEUE_LEN (map the (take ?s Q)) 0 = None"
    if "length Q = MAX_DISPATCH" "\<And>i. i < ?s \<Longrightarrow> Q ! i = ?Q ! i" for Q
    using that full assms(2) by (intro first_room_full) (auto simp: in_set_conv_nth)
  let ?en1 = "en\<lparr>EVENT_DISPATCH_QUEUE := ?Q[?s := Some []], EVENT_DISPATCH_QUEUE_RUNNING :=
      (EVENT_DISPATCH_QUEUE_RUNNING en)[dispatch_thread_id ?s := True]\<rparr>"
  let ?en2 = "?en1\<lparr>SOFT_MAX_DISPATCH := ?s + 1\<rparr>"
  have "event_thread_round en ev 0 0 = (?en1, False, 1, 0)"
    using none [of ?Q] len assms(2,4) by (simp add: event_thread_round_def launch_create)
  moreover have "event_thread_round ?en1 ev 1 0 = (?en2, False, 2, 0)"
    using none [of "?Q[?s := Some []]"] len assms(2) sl
    by (simp add: event_thread_round_def launch_raise [where k = ?s])
  moreover have "event_thread_round ?en2 ev 2 0 = (?en2\<lparr>EVENT_DISPATCH_QUEUE := ?Q[?s := Some [ev]]\<rparr>, True, 3, 10)"
  proof -
    have "first_room DISPATCH_QUEUE_LEN (map the (take ?s ?Q) @ [[]]) 0 = Some ?s"
      by (subst first_room_last) (use sl full in \<open>auto simp: in_set_conv_nth DISPATCH_QUEUE_LEN_def\<close>)
    moreover have "map the (take (?s + 1) (?Q[?s := Some []])) = map the (take ?s ?Q) @ [[]]"
      using sl by (simp add: take_Suc_conv_app_nth)
    ultimately show ?thesis using sl by (simp add: event_thread_round_def)
  qed
  ultimately show ?thesis using sl by auto
qed

definition full_engine :: engine where
  "full_engine = switch_event_init\<lparr>SOFT_MAX_DISPATCH := 1, EVENT_DISPATCH_QUEUE :=
     (replicate MAX_DISPATCH None)[0 := Some (replicate DISPATCH_QUEUE_LEN empty_event)]\<rparr>"

lemma pool_growth_pauses_witness:
  "\<exists>en1 en2 en3.
    event_thread_round full_engine empty_event 0 0 = (en1, False, 1, 0) \<and>
    event_thread_round en1 empty_event 1 0 = (en2, False, 2, 0) \<and>
    event_thread_round en2 empty_event 2 0 = (en3, True, 3, 10)"
proof -
  have "queues_ok full_engine"
    using init_engine(1) set_update_subset_insert [of "replicate MAX_DISPATCH None" 0 "Some (replicate DISPATCH_QUEUE_LEN empty_event)"]
    by (auto simp: full_engine_def queues_ok_def MAX_DISPATCH_def subset_iff)
  from pool_growth_pauses [OF this, of empty_event] show ?thesis
    by (force simp: full_engine_def MAX_DISPATCH_def)
qed

end
