(* ===== verification/Scheduler.thy ===== *)
theory Scheduler
  imports Event
begin

text \<open>
  The task scheduler, \<^verbatim>\<open>switch_scheduler.c\<close>: tasks with a run time in epoch seconds in a list,
  a thread that executes the ones that are due and frees the ones that are done, and the two ways
  of deleting tasks.  The callback of a task is a parameter \<open>run\<close>: it gets the number of the
  function and the task and gives the task back as the callback leaves it (a callback that wants
  to run again raises \<open>runtime\<close>).  The clock is a parameter too, read once per visited task.
  Every operation holds \<open>task_mutex\<close> and is one atomic step; a task with a thread of its own is
  executed by a step of its own.
\<close>

section \<open>State\<close>

record switch_scheduler_task =
  created :: int
  runtime :: int
  cmd_id :: uint32
  group :: string
  cmd_arg :: nat
  task_id :: uint32

record switch_scheduler_task_container =
  task :: switch_scheduler_task
  executed :: int
  in_thread :: bool
  destroyed :: nat
  func :: nat
  sched_flags :: uint32
  desc :: string

record sched_globals =
  task_list :: "switch_scheduler_task_container list"
  last_task_id :: uint32
  task_thread_running :: int

definition SSHF_OWN_THREAD :: uint32 where "SSHF_OWN_THREAD = 1"
definition SSHF_FREE_ARG :: uint32 where "SSHF_FREE_ARG = 2"
definition SSHF_NO_DEL :: uint32 where "SSHF_NO_DEL = 4"

definition test_sched_flag :: "switch_scheduler_task_container \<Rightarrow> uint32 \<Rightarrow> bool" where
  "test_sched_flag tp f \<longleftrightarrow> sched_flags tp AND f \<noteq> 0"

text \<open>
  What an operation does outside the scheduler, in order: callbacks called, events created and
  fired, threads started, arguments freed.
\<close>

datatype sched_action =
    Call nat switch_scheduler_task
  | Fire nat switch_scheduler_task_container
  | Spawn uint32
  | FreeArg nat

text \<open>The event fired for a task.\<close>

definition task_event ::
    "event_env \<Rightarrow> string \<Rightarrow> string \<Rightarrow> int \<Rightarrow> nat \<Rightarrow> switch_scheduler_task_container \<Rightarrow>
     switch_event option outcome" where
  "task_event env file fn line eid tp =
     bindE (switch_event_create_subclass_detailed env file fn line eid None) (\<lambda>(st, e).
       case e of None \<Rightarrow> Inr None
       | Some e \<Rightarrow>
           bindE (add_headers e SWITCH_STACK_BOTTOM
             [(''Task-ID'', Some (show_nat (unat (task_id (task tp))))), (''Task-Desc'', Some (desc tp)),
              (''Task-Group'', Some (group (task tp))), (''Task-Runtime'', Some (show_int (runtime (task tp))))])
             (\<lambda>e. Inr (Some e)))"

section \<open>Executing tasks\<close>

type_synonym callbacks = "nat \<Rightarrow> switch_scheduler_task \<Rightarrow> switch_scheduler_task"

definition switch_scheduler_execute ::
    "callbacks \<Rightarrow> switch_scheduler_task_container \<Rightarrow> switch_scheduler_task_container \<times> sched_action list" where
  "switch_scheduler_execute run tp =
     (let call = Call (func tp) (task tp);
          tp = tp\<lparr>task := run (func tp) (task tp)\<rparr>
      in if runtime (task tp) > executed tp
         then let tp = tp\<lparr>executed := 0\<rparr> in (tp, [call, Fire SWITCH_EVENT_RE_SCHEDULE tp])
         else (tp\<lparr>destroyed := 1\<rparr>, [call, Fire SWITCH_EVENT_DEL_SCHEDULE tp]))"

definition task_own_thread ::
    "callbacks \<Rightarrow> switch_scheduler_task_container \<Rightarrow> switch_scheduler_task_container \<times> sched_action list" where
  "task_own_thread run tp =
     (let (tp, acts) = switch_scheduler_execute run tp in (tp\<lparr>in_thread := False\<rparr>, acts))"

text \<open>One task in the first pass of \<open>task_thread_loop\<close>.\<close>

definition task_visit ::
    "callbacks \<Rightarrow> bool \<Rightarrow> int \<Rightarrow> switch_scheduler_task_container \<Rightarrow>
     switch_scheduler_task_container \<times> sched_action list" where
  "task_visit run done now tp =
     (if done then (tp\<lparr>destroyed := 1\<rparr>, [])
      else if now \<ge> runtime (task tp) \<and> \<not> in_thread tp then
        let tp = tp\<lparr>executed := now\<rparr>
        in if test_sched_flag tp SSHF_OWN_THREAD then (tp\<lparr>in_thread := True\<rparr>, [Spawn (task_id (task tp))])
           else switch_scheduler_execute run tp
      else (tp, []))"

fun visit_tasks ::
    "callbacks \<Rightarrow> bool \<Rightarrow> (nat \<Rightarrow> int) \<Rightarrow> nat \<Rightarrow> switch_scheduler_task_container list \<Rightarrow>
     switch_scheduler_task_container list \<times> sched_action list" where
  "visit_tasks run done clock i [] = ([], [])"
| "visit_tasks run done clock i (tp # tps) =
     (let (tp', acts) = task_visit run done (clock i) tp;
          (tps', acts') = visit_tasks run done clock (i + 1) tps
      in (tp' # tps', acts @ acts'))"

fun free_tasks ::
    "switch_scheduler_task_container list \<Rightarrow> switch_scheduler_task_container list \<times> sched_action list" where
  "free_tasks [] = ([], [])"
| "free_tasks (tp # tps) =
     (let (rest, acts) = free_tasks tps
      in if destroyed tp \<noteq> 0 \<and> \<not> in_thread tp
         then (rest, (if cmd_arg (task tp) \<noteq> 0 \<and> test_sched_flag tp SSHF_FREE_ARG
                      then [FreeArg (cmd_arg (task tp))] else []) @ acts)
         else (tp # rest, acts))"

definition task_thread_loop ::
    "callbacks \<Rightarrow> (nat \<Rightarrow> int) \<Rightarrow> bool \<Rightarrow> sched_globals \<Rightarrow> bool \<times> sched_globals \<times> sched_action list" where
  "task_thread_loop run clock done s =
     (let (tps, acts) = visit_tasks run done clock 0 (task_list s);
          (tps, acts') = free_tasks tps
      in (done, s\<lparr>task_list := tps\<rparr>, acts @ acts'))"

section \<open>Adding and deleting tasks\<close>

text \<open>The next number, skipping zero when the counter wraps around.\<close>

definition next_task_id :: "uint32 \<Rightarrow> uint32" where
  "next_task_id prev = (let n = prev + 1 in if n = 0 then n + 1 else n)"

definition switch_scheduler_add_task ::
    "sched_globals \<Rightarrow> int \<Rightarrow> int \<Rightarrow> nat \<Rightarrow> string option \<Rightarrow> string option \<Rightarrow> uint32 \<Rightarrow> nat \<Rightarrow> uint32 \<Rightarrow>
     (uint32 \<times> sched_globals \<times> sched_action list) outcome" where
  "switch_scheduler_add_task s now task_runtime f dsc grp cid arg flags =
     (if f = 0 then Inl AssertionFailed
      else
        let tid = next_task_id (last_task_id s);
            container = \<lparr>task = \<lparr>created = now, runtime = task_runtime, cmd_id = cid,
                                 group = (case grp of Some g \<Rightarrow> g | None \<Rightarrow> ''none''),
                                 cmd_arg = arg, task_id = tid\<rparr>,
                         executed = 0, in_thread = False, destroyed = 0, func = f, sched_flags = flags,
                         desc = (case dsc of Some d \<Rightarrow> d | None \<Rightarrow> ''none'')\<rparr>
        in Inr (tid, s\<lparr>task_list := task_list s @ [container], last_task_id := tid\<rparr>,
                [Fire SWITCH_EVENT_ADD_SCHEDULE container]))"

fun del_first ::
    "uint32 \<Rightarrow> switch_scheduler_task_container list \<Rightarrow>
     nat \<times> switch_scheduler_task_container list \<times> sched_action list" where
  "del_first tid [] = (0, [], [])"
| "del_first tid (tp # tps) =
     (if task_id (task tp) = tid then
        if test_sched_flag tp SSHF_NO_DEL then (0, tp # tps, [])
        else let tp = tp\<lparr>destroyed := destroyed tp + 1\<rparr> in (1, tp # tps, [Fire SWITCH_EVENT_DEL_SCHEDULE tp])
      else let (n, tps', acts) = del_first tid tps in (n, tp # tps', acts))"

definition switch_scheduler_del_task_id ::
    "sched_globals \<Rightarrow> uint32 \<Rightarrow> nat \<times> sched_globals \<times> sched_action list" where
  "switch_scheduler_del_task_id s tid =
     (let (n, tps, acts) = del_first tid (task_list s) in (n, s\<lparr>task_list := tps\<rparr>, acts))"

fun del_all ::
    "string option \<Rightarrow> switch_scheduler_task_container list \<Rightarrow>
     nat \<times> switch_scheduler_task_container list \<times> sched_action list" where
  "del_all grp [] = (0, [], [])"
| "del_all grp (tp # tps) =
     (let (n, tps', acts) = del_all grp tps
      in if grp \<noteq> None \<and> grp \<noteq> Some [] \<and> grp = Some (group (task tp)) \<and> \<not> test_sched_flag tp SSHF_NO_DEL
         then (n + 1, tp\<lparr>destroyed := destroyed tp + 1\<rparr> # tps', Fire SWITCH_EVENT_DEL_SCHEDULE tp # acts)
         else (n, tp # tps', acts))"

definition switch_scheduler_del_task_group ::
    "sched_globals \<Rightarrow> string option \<Rightarrow> nat \<times> sched_globals \<times> sched_action list" where
  "switch_scheduler_del_task_group s grp =
     (let (n, tps, acts) = del_all grp (task_list s) in (n, s\<lparr>task_list := tps\<rparr>, acts))"

text \<open>
  The task thread: rounds while \<open>task_thread_running\<close> is 1 (given here as the clocks of the
  rounds it runs), then a last round that destroys every task.
\<close>

fun switch_scheduler_task_thread ::
    "callbacks \<Rightarrow> (nat \<Rightarrow> int) list \<Rightarrow> sched_globals \<Rightarrow> sched_globals \<times> sched_action list" where
  "switch_scheduler_task_thread run [] s =
     (let (_, s, acts) = task_thread_loop run (\<lambda>_. 0) True s in (s\<lparr>task_thread_running := 0\<rparr>, acts))"
| "switch_scheduler_task_thread run (c # cs) s =
     (let (_, s, acts) = task_thread_loop run c False (s\<lparr>task_thread_running := 1\<rparr>);
          (s, acts') = switch_scheduler_task_thread run cs s
      in (s, acts @ acts'))"

section \<open>Runs\<close>

record sched_run =
  sched :: sched_globals
  adds :: nat

definition sched_init :: "sched_run \<Rightarrow> bool" where
  "sched_init r \<longleftrightarrow> r = \<lparr>sched = \<lparr>task_list = [], last_task_id = 0, task_thread_running = 1\<rparr>, adds = 0\<rparr>"

text \<open>A callback may change its task but for the number.\<close>

definition keeps_id :: "callbacks \<Rightarrow> bool" where
  "keeps_id run \<longleftrightarrow> (\<forall>f t. task_id (run f t) = task_id t)"

inductive sched_step :: "sched_run \<Rightarrow> sched_run \<Rightarrow> bool" where
  add: "switch_scheduler_add_task (sched r) now rt f dsc grp cid arg flags = Inr (tid, s, acts) \<Longrightarrow>
     sched_step r (r\<lparr>sched := s, adds := adds r + 1\<rparr>)"
| del_id: "switch_scheduler_del_task_id (sched r) tid = (n, s, acts) \<Longrightarrow> sched_step r (r\<lparr>sched := s\<rparr>)"
| del_group: "switch_scheduler_del_task_group (sched r) grp = (n, s, acts) \<Longrightarrow> sched_step r (r\<lparr>sched := s\<rparr>)"
| round: "keeps_id run \<Longrightarrow> task_thread_loop run clock done (sched r) = (d, s, acts) \<Longrightarrow>
     sched_step r (r\<lparr>sched := s\<rparr>)"
| own_thread: "keeps_id run \<Longrightarrow> i < length (task_list (sched r)) \<Longrightarrow> in_thread (task_list (sched r) ! i) \<Longrightarrow>
     task_own_thread run (task_list (sched r) ! i) = (tp, acts) \<Longrightarrow>
     sched_step r (r\<lparr>sched := (sched r)\<lparr>task_list := (task_list (sched r))[i := tp]\<rparr>\<rparr>)"

section \<open>Numbers of tasks\<close>

abbreviation ids :: "switch_scheduler_task_container list \<Rightarrow> uint32 list" where
  "ids tps \<equiv> map (\<lambda>tp. task_id (task tp)) tps"

definition sched_inv :: "sched_run \<Rightarrow> bool" where
  "sched_inv r \<longleftrightarrow>
     (adds r < 2 ^ 32 \<longrightarrow>
        unat (last_task_id (sched r)) = adds r \<and>
        sorted_wrt (<) (ids (task_list (sched r))) \<and>
        (\<forall>i \<in> set (ids (task_list (sched r))). 0 < i \<and> i \<le> last_task_id (sched r)))"

lemma execute_id: "keeps_id run \<Longrightarrow> task_id (task (fst (switch_scheduler_execute run tp))) = task_id (task tp)"
  by (simp add: switch_scheduler_execute_def keeps_id_def Let_def)

lemma visit_id: "keeps_id run \<Longrightarrow> task_id (task (fst (task_visit run done now tp))) = task_id (task tp)"
  by (auto simp: task_visit_def Let_def execute_id)

lemma visit_tasks_ids: "keeps_id run \<Longrightarrow> ids (fst (visit_tasks run done clock i tps)) = ids tps"
  by (induction tps arbitrary: i) (auto simp: case_prod_unfold Let_def visit_id)

lemma free_tasks_filter: "fst (free_tasks tps) = filter (\<lambda>tp. \<not> (destroyed tp \<noteq> 0 \<and> \<not> in_thread tp)) tps"
  by (induction tps) (auto simp: case_prod_unfold Let_def)

lemma del_first_ids: "ids (fst (snd (del_first tid tps))) = ids tps"
  by (induction tps) (auto simp: case_prod_unfold Let_def)

lemma del_all_ids: "ids (fst (snd (del_all grp tps))) = ids tps"
  by (induction tps) (auto simp: case_prod_unfold Let_def)

lemma own_thread_id: "keeps_id run \<Longrightarrow> task_id (task (fst (task_own_thread run tp))) = task_id (task tp)"
  by (simp add: task_own_thread_def case_prod_unfold Let_def execute_id)

lemma ids_filter_sorted:
  "sorted_wrt (<) (ids tps) \<Longrightarrow> sorted_wrt (<) (ids (filter P tps))"
  by (induction tps) auto

lemma ids_filter_subset: "set (ids (filter P tps)) \<subseteq> set (ids tps)"
  by auto

lemma next_id_counts:
  fixes l :: uint32
  assumes "unat l + 1 < 2 ^ 32"
  shows "next_task_id l = l + 1" "unat (l + 1) = unat l + 1" "l < l + 1"
proof -
  show u: "unat (l + 1) = unat l + 1" using assms by (simp add: unat_plus_if_size word_size)
  then show "next_task_id l = l + 1" by (auto simp: next_task_id_def Let_def)
  show "l < l + 1" using u by (simp add: word_less_nat_alt)
qed

lemma add_task_inv:
  assumes inv: "sched_inv r"
    and a: "switch_scheduler_add_task (sched r) now rt f dsc grp cid arg flags = Inr (tid, s, acts)"
  shows "sched_inv (r\<lparr>sched := s, adds := adds r + 1\<rparr>)"
proof (cases "adds r + 1 < 2 ^ 32")
  case False
  then show ?thesis by (simp add: sched_inv_def)
next
  case True
  let ?l = "last_task_id (sched r)"
  have old: "unat ?l = adds r" "sorted_wrt (<) (ids (task_list (sched r)))"
      "\<And>i. i \<in> set (ids (task_list (sched r))) \<Longrightarrow> 0 < i \<and> i \<le> ?l"
    using inv True by (auto simp: sched_inv_def)
  note n = next_id_counts [of ?l, unfolded old(1), OF True]
  have s: "ids (task_list s) = ids (task_list (sched r)) @ [?l + 1]" "last_task_id s = ?l + 1"
    using a n(1) by (auto simp: switch_scheduler_add_task_def Let_def split: if_splits)
  have "\<forall>i \<in> set (ids (task_list (sched r))). 0 < i \<and> i < ?l + 1 \<and> i \<le> ?l + 1"
    using old(3) n(3) by (meson order.strict_trans1 order.strict_implies_order)
  moreover have "0 < ?l + 1" using n(3) by (metis word_neq_0_conv word_not_simps(1))
  ultimately show ?thesis
    using n(2) old(1,2) s by (simp add: sched_inv_def sorted_wrt_append)
qed

lemma sched_inv_same_ids:
  "sched_inv r \<Longrightarrow> ids (task_list s) = ids (filter P tps) \<Longrightarrow> ids tps = ids (task_list (sched r)) \<Longrightarrow>
   last_task_id s = last_task_id (sched r) \<Longrightarrow> sched_inv (r\<lparr>sched := s\<rparr>)"
  using ids_filter_sorted [of tps P] ids_filter_subset [of P tps]
  unfolding sched_inv_def by (simp del: set_map) blast

lemma sched_step_inv:
  assumes "sched_inv r" "sched_step r r'"
  shows "sched_inv r'"
  using assms(2)
proof cases
  case (add now rt f dsc grp cid arg flags tid s acts)
  then show ?thesis using add_task_inv [OF assms(1)] by simp
next
  case (del_id tid n s acts)
  then show ?thesis
    using sched_inv_same_ids [OF assms(1), of s "\<lambda>_. True" "task_list (sched r)"]
      del_first_ids [of tid "task_list (sched r)"]
    by (auto simp: switch_scheduler_del_task_id_def split: prod.splits)
next
  case (del_group grp n s acts)
  then show ?thesis
    using sched_inv_same_ids [OF assms(1), of s "\<lambda>_. True" "task_list (sched r)"]
      del_all_ids [of grp "task_list (sched r)"]
    by (auto simp: switch_scheduler_del_task_group_def split: prod.splits)
next
  case (round run clock don d s acts)
  let ?v = "fst (visit_tasks run don clock 0 (task_list (sched r)))"
  have "s = (sched r)\<lparr>task_list := fst (free_tasks ?v)\<rparr>"
    using round(3) by (auto simp: task_thread_loop_def case_prod_unfold Let_def)
  then show ?thesis
    using sched_inv_same_ids [OF assms(1), of s _ ?v] visit_tasks_ids [OF round(2)] round(1)
    by (simp add: free_tasks_filter)
next
  case (own_thread run i tp acts)
  have "task_id (task tp) = task_id (task (task_list (sched r) ! i))"
    using own_thread_id [OF own_thread(2), of "task_list (sched r) ! i"] own_thread(5) by simp
  then have "ids ((task_list (sched r))[i := tp]) = ids (task_list (sched r))"
    using own_thread(3) by (simp add: map_update list_update_same_conv)
  then show ?thesis
    using sched_inv_same_ids [OF assms(1), of "(sched r)\<lparr>task_list := (task_list (sched r))[i := tp]\<rparr>" "\<lambda>_. True" "task_list (sched r)"]
      own_thread(1) by simp
qed

interpretation sched: step_system sched_init sched_step sched_inv
proof
  show "sched_inv r" if "sched_init r" for r
    using that by (simp add: sched_init_def sched_inv_def)
qed (fact sched_step_inv)

section \<open>Deleting\<close>

definition mark_deleted :: "uint32 \<Rightarrow> switch_scheduler_task_container \<Rightarrow> switch_scheduler_task_container" where
  "mark_deleted tid tp =
     (if task_id (task tp) = tid \<and> \<not> test_sched_flag tp SSHF_NO_DEL
      then tp\<lparr>destroyed := destroyed tp + 1\<rparr> else tp)"

lemma del_first_absent: "tid \<notin> set (ids tps) \<Longrightarrow> del_first tid tps = (0, tps, [])"
  by (induction tps) auto

lemma mark_absent: "tid \<notin> set (ids tps) \<Longrightarrow> map (mark_deleted tid) tps = tps"
  by (induction tps) (auto simp: mark_deleted_def)

lemma del_first_marks:
  "distinct (ids tps) \<Longrightarrow>
   fst (snd (del_first tid tps)) = map (mark_deleted tid) tps \<and>
   fst (del_first tid tps) =
     (if \<exists>tp \<in> set tps. task_id (task tp) = tid \<and> \<not> test_sched_flag tp SSHF_NO_DEL then 1 else 0)"
proof (induction tps)
  case Nil
  then show ?case by simp
next
  case (Cons tp tps)
  show ?case
  proof (cases "task_id (task tp) = tid")
    case True
    then have "tid \<notin> set (ids tps)" using Cons.prems by auto
    moreover from this have "\<forall>x \<in> set tps. task_id (task x) \<noteq> tid" by auto
    ultimately show ?thesis using True mark_absent [of tid tps] by (simp add: Let_def mark_deleted_def [of _ tp])
  next
    case False
    then show ?thesis using Cons by (auto simp: mark_deleted_def case_prod_unfold Let_def)
  qed
qed

text \<open>
  C19. In every run with fewer than 2^32 additions, with callbacks that leave the number of their
  task alone, the tasks in the list have different non-zero numbers, so deleting by number marks
  exactly the task of that number, unless it is undeletable, and reports one or no task.
\<close>

theorem task_ids_unique:
  assumes "sched_init r0" "sched_step\<^sup>*\<^sup>* r0 r" "adds r < 2 ^ 32"
  shows "distinct (ids (task_list (sched r))) \<and> 0 \<notin> set (ids (task_list (sched r))) \<and>
    (\<exists>acts. switch_scheduler_del_task_id (sched r) tid =
       (if \<exists>tp \<in> set (task_list (sched r)). task_id (task tp) = tid \<and> \<not> test_sched_flag tp SSHF_NO_DEL then 1 else 0,
        (sched r)\<lparr>task_list := map (mark_deleted tid) (task_list (sched r))\<rparr>, acts))"
proof -
  have "sched_inv r" by (rule sched.reachable_inv [OF assms(1,2)])
  then have s: "sorted_wrt (<) (ids (task_list (sched r)))" and z: "0 \<notin> set (ids (task_list (sched r)))"
    using assms(3) by (auto simp: sched_inv_def)
  have d: "distinct (ids (task_list (sched r)))" using s strict_sorted_iff by blast
  obtain n tps acts where del: "del_first tid (task_list (sched r)) = (n, tps, acts)" by (metis prod_cases3)
  show ?thesis using d z del_first_marks [OF d, of tid] by (simp add: switch_scheduler_del_task_id_def del)
qed

lemma visit_tasks_nth:
  "j < length tps \<Longrightarrow>
   fst (visit_tasks run don clock i tps) ! j = fst (task_visit run don (clock (i + j)) (tps ! j)) \<and>
   set (snd (task_visit run don (clock (i + j)) (tps ! j))) \<subseteq> set (snd (visit_tasks run don clock i tps))"
proof (induction tps arbitrary: i j)
  case Nil
  then show ?case by simp
next
  case (Cons tp tps)
  then show ?case
  proof (cases j)
    case 0
    then show ?thesis by (simp add: case_prod_unfold Let_def)
  next
    case (Suc k)
    then show ?thesis using Cons.IH [of k "i + 1"] Cons.prems by (auto simp: case_prod_unfold Let_def)
  qed
qed

text \<open>
  A deleted task that is due still runs.  Deleting only marks the task, and the round that
  frees it executes it first when its time has come: for a due task without a thread of its own,
  among tasks with different numbers, \<open>switch_scheduler_del_task_id\<close> reports one deletion, and
  the next round of the task thread calls its callback once more before the task is gone.
\<close>

theorem deleted_task_still_runs:
  assumes "distinct (ids (task_list s))" "i < length (task_list s)" "task_list s ! i = tp"
    and "runtime (task tp) \<le> clock i" "\<not> in_thread tp"
    and "\<not> test_sched_flag tp SSHF_NO_DEL" "\<not> test_sched_flag tp SSHF_OWN_THREAD" "keeps_id run"
  shows "\<exists>s1 s2 acts1 acts2.
    switch_scheduler_del_task_id s (task_id (task tp)) = (1, s1, acts1) \<and>
    task_thread_loop run clock False s1 = (False, s2, acts2) \<and>
    Call (func tp) (task tp) \<in> set acts2 \<and> task_id (task tp) \<notin> set (ids (task_list s2))"
proof -
  let ?tid = "task_id (task tp)" and ?tps = "map (mark_deleted (task_id (task tp))) (task_list s)"
  let ?tp = "tp\<lparr>destroyed := destroyed tp + 1\<rparr>"
  obtain n tps acts1 where del: "del_first ?tid (task_list s) = (n, tps, acts1)" by (metis prod_cases3)
  have "tp \<in> set (task_list s)" using assms(2,3) by auto
  then have n: "n = 1" "tps = ?tps" using del_first_marks [OF assms(1), of ?tid] del assms(6) by auto
  have tp: "?tps ! i = ?tp" "i < length ?tps" using assms by (simp_all add: mark_deleted_def)
  have d: "distinct (ids ?tps)" using assms(1) by (simp add: comp_def mark_deleted_def if_distrib cong: if_cong)
  define v where "v = visit_tasks run False clock 0 ?tps"
  have vi: "fst v ! i = fst (task_visit run False (clock i) ?tp)"
      "set (snd (task_visit run False (clock i) ?tp)) \<subseteq> set (snd v)"
    using visit_tasks_nth [OF tp(2), of run False clock 0] tp(1) by (simp_all add: v_def)
  have visit: "destroyed (fst (task_visit run False (clock i) ?tp)) \<noteq> 0"
      "\<not> in_thread (fst (task_visit run False (clock i) ?tp))"
      "Call (func tp) (task tp) \<in> set (snd (task_visit run False (clock i) ?tp))"
    using assms(4,5,7)
    by (auto simp: task_visit_def switch_scheduler_execute_def test_sched_flag_def Let_def)
  have "?tid \<notin> set (ids (fst (free_tasks (fst v))))"
  proof
    assume "?tid \<in> set (ids (fst (free_tasks (fst v))))"
    then obtain x where x: "x \<in> set (fst v)" "task_id (task x) = ?tid" "\<not> (destroyed x \<noteq> 0 \<and> \<not> in_thread x)"
      by (auto simp: free_tasks_filter)
    then obtain j where j: "j < length (fst v)" "x = fst v ! j" by (metis in_set_conv_nth)
    have ids_v: "ids (fst v) = ids ?tps" using visit_tasks_ids [OF assms(8)] by (simp add: v_def)
    have lv: "length (fst v) = length ?tps" using ids_v by (metis length_map)
    have "ids (fst v) ! j = ids (fst v) ! i"
      using j x(2) tp(2) lv by (simp add: visit_id [OF assms(8)] vi(1))
    then have "j = i" using nth_eq_iff_index_eq [of "ids (fst v)" j i] d [folded ids_v] j(1) tp(2) lv by (metis length_map)
    then show False using x(3) j(2) vi(1) visit by simp
  qed
  then show ?thesis
    using vi(2) visit(3)
    by (auto simp: switch_scheduler_del_task_id_def del n task_thread_loop_def case_prod_unfold Let_def v_def)
qed


definition sample_callbacks :: callbacks where
  "sample_callbacks f t = t"

definition sample_sched :: sched_globals where
  "sample_sched = \<lparr>task_list = [\<lparr>task = \<lparr>created = 0, runtime = 10, cmd_id = 0, group = ''none'', cmd_arg = 0, task_id = 1\<rparr>,
      executed = 0, in_thread = False, destroyed = 0, func = 7, sched_flags = 0, desc = ''none''\<rparr>],
      last_task_id = 1, task_thread_running = 1\<rparr>"

lemma task_ids_unique_witness:
  "\<exists>(r :: sched_run) acts. adds r = 1 \<and> sched r = sample_sched \<and>
     switch_scheduler_del_task_id (sched r) 1 =
       (1, (sched r)\<lparr>task_list := map (mark_deleted 1) (task_list (sched r))\<rparr>, acts)"
proof -
  let ?start = "\<lparr>sched = \<lparr>task_list = [], last_task_id = 0, task_thread_running = 1\<rparr>, adds = 0\<rparr>"
  let ?r = "\<lparr>sched = sample_sched, adds = 1\<rparr>"
  have "\<exists>acts. switch_scheduler_add_task (sched ?start) 0 10 7 None None 0 0 0 = Inr (1, sample_sched, acts)"
    by (simp add: switch_scheduler_add_task_def next_task_id_def sample_sched_def Let_def)
  then have "sched_step\<^sup>*\<^sup>* ?start ?r" using sched_step.add [of ?start] by fastforce
  moreover have "sched_init ?start" by (simp add: sched_init_def)
  moreover have "\<exists>tp \<in> set (task_list sample_sched). task_id (task tp) = 1 \<and> \<not> test_sched_flag tp SSHF_NO_DEL"
    by (simp add: sample_sched_def test_sched_flag_def)
  ultimately obtain acts where "switch_scheduler_del_task_id sample_sched 1 =
      (1, sample_sched\<lparr>task_list := map (mark_deleted 1) (task_list sample_sched)\<rparr>, acts)"
    using task_ids_unique [of ?start ?r 1] by auto
  then show ?thesis by (intro exI [of _ ?r] exI [of _ acts]) simp
qed

lemma deleted_task_still_runs_witness:
  "\<exists>s1 s2 acts1 acts2.
    switch_scheduler_del_task_id sample_sched 1 = (1, s1, acts1) \<and>
    task_thread_loop sample_callbacks (\<lambda>_. 12) False s1 = (False, s2, acts2) \<and>
    Call 7 (task (hd (task_list sample_sched))) \<in> set acts2 \<and> 1 \<notin> set (ids (task_list s2))"
  using deleted_task_still_runs [of sample_sched 0 "hd (task_list sample_sched)" "\<lambda>_. 12" sample_callbacks]
  by (simp add: sample_sched_def test_sched_flag_def keeps_id_def sample_callbacks_def)

end
