(* ===== verification/Channel.thy ===== *)
theory Channel
  imports Event
begin

text \<open>
  The channel of a call leg, \<^verbatim>\<open>switch_channel.c\<close>: its state machine from \<open>CS_NEW\<close> to
  \<open>CS_DESTROY\<close> with the hangup, the call state shown to the outside, flags, capabilities and
  variables, the state handler table, and the queue of DTMF digits with the limits on their
  duration (\<^verbatim>\<open>switch_core.c\<close>).  A channel is a record of the fields of
  \<open>struct switch_channel\<close> these operations use; the mutexes make each operation one atomic
  step.  Events fired, presence updates and signals to the session are collected as actions.
\<close>

section \<open>States and causes\<close>

datatype switch_channel_state_t =
    CS_NEW | CS_INIT | CS_ROUTING | CS_SOFT_EXECUTE | CS_EXECUTE | CS_EXCHANGE_MEDIA | CS_PARK
  | CS_CONSUME_MEDIA | CS_HIBERNATE | CS_RESET | CS_HANGUP | CS_REPORTING | CS_DESTROY | CS_NONE

fun state_number :: "switch_channel_state_t \<Rightarrow> nat" where
  "state_number CS_NEW = 0" | "state_number CS_INIT = 1" | "state_number CS_ROUTING = 2"
| "state_number CS_SOFT_EXECUTE = 3" | "state_number CS_EXECUTE = 4" | "state_number CS_EXCHANGE_MEDIA = 5"
| "state_number CS_PARK = 6" | "state_number CS_CONSUME_MEDIA = 7" | "state_number CS_HIBERNATE = 8"
| "state_number CS_RESET = 9" | "state_number CS_HANGUP = 10" | "state_number CS_REPORTING = 11"
| "state_number CS_DESTROY = 12" | "state_number CS_NONE = 13"

lemma state_number_inj: "state_number s = state_number t \<Longrightarrow> s = t"
  by (cases s; cases t) simp_all

text \<open>The comparisons of the C enumeration.\<close>

instantiation switch_channel_state_t :: linorder
begin

definition less_eq_switch_channel_state_t :: "switch_channel_state_t \<Rightarrow> switch_channel_state_t \<Rightarrow> bool" where
  "less_eq_switch_channel_state_t s t \<longleftrightarrow> state_number s \<le> state_number t"

definition less_switch_channel_state_t :: "switch_channel_state_t \<Rightarrow> switch_channel_state_t \<Rightarrow> bool" where
  "less_switch_channel_state_t s t \<longleftrightarrow> state_number s < state_number t"

instance
  by standard
    (auto simp: less_eq_switch_channel_state_t_def less_switch_channel_state_t_def intro: state_number_inj)

end

lemmas state_order = less_eq_switch_channel_state_t_def less_switch_channel_state_t_def

datatype switch_channel_callstate_t =
  CCS_DOWN | CCS_DIALING | CCS_RINGING | CCS_EARLY | CCS_ACTIVE | CCS_HELD | CCS_HANGUP

type_synonym switch_call_cause_t = nat

definition SWITCH_CAUSE_NONE :: nat where "SWITCH_CAUSE_NONE = 0"
definition SWITCH_CAUSE_NORMAL_CLEARING :: nat where "SWITCH_CAUSE_NORMAL_CLEARING = 16"
definition SWITCH_CAUSE_INTERWORKING :: nat where "SWITCH_CAUSE_INTERWORKING = 127"
definition SWITCH_CAUSE_LOSE_RACE :: nat where "SWITCH_CAUSE_LOSE_RACE = 502"

definition CAUSE_CHART :: "(string \<times> switch_call_cause_t) list" where
  "CAUSE_CHART =
   [(''NONE'', 0), (''UNALLOCATED_NUMBER'', 1), (''NO_ROUTE_TRANSIT_NET'', 2),
    (''NO_ROUTE_DESTINATION'', 3), (''CHANNEL_UNACCEPTABLE'', 6), (''CALL_AWARDED_DELIVERED'', 7),
    (''NORMAL_CLEARING'', 16), (''USER_BUSY'', 17), (''NO_USER_RESPONSE'', 18),
    (''NO_ANSWER'', 19), (''SUBSCRIBER_ABSENT'', 20), (''CALL_REJECTED'', 21),
    (''NUMBER_CHANGED'', 22), (''REDIRECTION_TO_NEW_DESTINATION'', 23),
    (''EXCHANGE_ROUTING_ERROR'', 25), (''DESTINATION_OUT_OF_ORDER'', 27),
    (''INVALID_NUMBER_FORMAT'', 28), (''FACILITY_REJECTED'', 29),
    (''RESPONSE_TO_STATUS_ENQUIRY'', 30), (''NORMAL_UNSPECIFIED'', 31),
    (''NORMAL_CIRCUIT_CONGESTION'', 34), (''NETWORK_OUT_OF_ORDER'', 38),
    (''NORMAL_TEMPORARY_FAILURE'', 41), (''SWITCH_CONGESTION'', 42),
    (''ACCESS_INFO_DISCARDED'', 43), (''REQUESTED_CHAN_UNAVAIL'', 44), (''PRE_EMPTED'', 45),
    (''FACILITY_NOT_SUBSCRIBED'', 50), (''OUTGOING_CALL_BARRED'', 52),
    (''INCOMING_CALL_BARRED'', 54), (''BEARERCAPABILITY_NOTAUTH'', 57),
    (''BEARERCAPABILITY_NOTAVAIL'', 58), (''SERVICE_UNAVAILABLE'', 63),
    (''CHAN_NOT_IMPLEMENTED'', 66), (''FACILITY_NOT_IMPLEMENTED'', 69),
    (''SERVICE_NOT_IMPLEMENTED'', 79), (''INVALID_CALL_REFERENCE'', 81),
    (''INCOMPATIBLE_DESTINATION'', 88), (''INVALID_MSG_UNSPECIFIED'', 95),
    (''MANDATORY_IE_MISSING'', 96), (''MESSAGE_TYPE_NONEXIST'', 97), (''WRONG_MESSAGE'', 98),
    (''IE_NONEXIST'', 99), (''INVALID_IE_CONTENTS'', 100), (''WRONG_CALL_STATE'', 101),
    (''RECOVERY_ON_TIMER_EXPIRE'', 102), (''MANDATORY_IE_LENGTH_ERROR'', 103),
    (''PROTOCOL_ERROR'', 111), (''INTERWORKING'', 127), (''SUCCESS'', 142),
    (''ORIGINATOR_CANCEL'', 487), (''CRASH'', 500), (''SYSTEM_SHUTDOWN'', 501),
    (''LOSE_RACE'', 502), (''MANAGER_REQUEST'', 503), (''BLIND_TRANSFER'', 600),
    (''ATTENDED_TRANSFER'', 601), (''ALLOTTED_TIMEOUT'', 602), (''USER_CHALLENGE'', 603),
    (''MEDIA_TIMEOUT'', 604), (''PICKED_OFF'', 605), (''USER_NOT_REGISTERED'', 606),
    (''PROGRESS_TIMEOUT'', 607)]"

fun chart_name :: "(string \<times> 'v) list \<Rightarrow> 'v \<Rightarrow> string" where
  "chart_name [] v = ''UNKNOWN''"
| "chart_name ((n, c) # rest) v = (if c = v then n else chart_name rest v)"

fun chart_value :: "(string \<times> 'v) list \<Rightarrow> string \<Rightarrow> 'v option" where
  "chart_value [] s = None"
| "chart_value ((n, c) # rest) s = (if strcasecmp_eq n s then Some c else chart_value rest s)"

definition starts_with_digit :: "string \<Rightarrow> bool" where
  "starts_with_digit s = (case s of [] \<Rightarrow> False | c # _ \<Rightarrow> 47 < (of_char c :: nat) \<and> (of_char c :: nat) < 58)"

definition switch_channel_cause2str :: "switch_call_cause_t \<Rightarrow> string" where
  "switch_channel_cause2str cause = chart_name CAUSE_CHART cause"

definition switch_channel_str2cause :: "string \<Rightarrow> int" where
  "switch_channel_str2cause str =
     (if starts_with_digit str then atoi str
      else case chart_value CAUSE_CHART str of Some c \<Rightarrow> int c | None \<Rightarrow> int SWITCH_CAUSE_NONE)"

definition CALLSTATE_CHART :: "(string \<times> switch_channel_callstate_t) list" where
  "CALLSTATE_CHART =
   [(''DOWN'', CCS_DOWN), (''DIALING'', CCS_DIALING), (''RINGING'', CCS_RINGING), (''EARLY'', CCS_EARLY),
    (''ACTIVE'', CCS_ACTIVE), (''HELD'', CCS_HELD), (''HANGUP'', CCS_HANGUP)]"

fun callstate_number :: "switch_channel_callstate_t \<Rightarrow> nat" where
  "callstate_number CCS_DOWN = 0" | "callstate_number CCS_DIALING = 1" | "callstate_number CCS_RINGING = 2"
| "callstate_number CCS_EARLY = 3" | "callstate_number CCS_ACTIVE = 4" | "callstate_number CCS_HELD = 5"
| "callstate_number CCS_HANGUP = 6"

definition switch_channel_callstate2str :: "switch_channel_callstate_t \<Rightarrow> string" where
  "switch_channel_callstate2str s = chart_name CALLSTATE_CHART s"

definition switch_channel_str2callstate :: "string \<Rightarrow> int" where
  "switch_channel_str2callstate str =
     (if starts_with_digit str then atoi str
      else case chart_value CALLSTATE_CHART str of
             Some c \<Rightarrow> int (callstate_number c) | None \<Rightarrow> int SWITCH_CAUSE_NONE)"

definition switch_channel_cause_q850 :: "switch_call_cause_t \<Rightarrow> switch_call_cause_t" where
  "switch_channel_cause_q850 cause =
     (if cause \<le> SWITCH_CAUSE_INTERWORKING then cause else SWITCH_CAUSE_NORMAL_CLEARING)"

definition state_names :: "string list" where
  "state_names =
   [''CS_NEW'', ''CS_INIT'', ''CS_ROUTING'', ''CS_SOFT_EXECUTE'', ''CS_EXECUTE'', ''CS_EXCHANGE_MEDIA'',
    ''CS_PARK'', ''CS_CONSUME_MEDIA'', ''CS_HIBERNATE'', ''CS_RESET'', ''CS_HANGUP'', ''CS_REPORTING'',
    ''CS_DESTROY'', ''CS_NONE'']"

definition all_states :: "switch_channel_state_t list" where
  "all_states =
   [CS_NEW, CS_INIT, CS_ROUTING, CS_SOFT_EXECUTE, CS_EXECUTE, CS_EXCHANGE_MEDIA, CS_PARK, CS_CONSUME_MEDIA,
    CS_HIBERNATE, CS_RESET, CS_HANGUP, CS_REPORTING, CS_DESTROY, CS_NONE]"

definition switch_channel_state_name :: "switch_channel_state_t \<Rightarrow> string" where
  "switch_channel_state_name s = state_names ! state_number s"

definition switch_channel_name_state :: "string \<Rightarrow> switch_channel_state_t" where
  "switch_channel_name_state name =
     (case chart_value (zip state_names all_states) name of Some s \<Rightarrow> s | None \<Rightarrow> CS_DESTROY)"

section \<open>The channel\<close>

record switch_dtmf =
  digit :: char
  duration :: uint32
  dtmf_flags :: int
  dtmf_source :: nat

definition SWITCH_DTMF_APP :: nat where "SWITCH_DTMF_APP = 4"
definition DTMF_FLAG_SKIP_PROCESS :: int where "DTMF_FLAG_SKIP_PROCESS = 1"
definition SWITCH_DTMF_LOG_LEN :: nat where "SWITCH_DTMF_LOG_LEN = 1000"
definition SWITCH_MAX_STATE_HANDLERS :: nat where "SWITCH_MAX_STATE_HANDLERS = 30"

type_synonym switch_channel_flag_t = nat

definition CF_ANSWERED :: nat where "CF_ANSWERED = 1"
definition CF_OUTBOUND :: nat where "CF_OUTBOUND = 2"
definition CF_EARLY_MEDIA :: nat where "CF_EARLY_MEDIA = 3"
definition CF_TRANSFER :: nat where "CF_TRANSFER = 5"
definition CF_TAGGED :: nat where "CF_TAGGED = 11"
definition CF_PROXY_MODE :: nat where "CF_PROXY_MODE = 14"
definition CF_DIVERT_EVENTS :: nat where "CF_DIVERT_EVENTS = 33"
definition CF_BLOCK_STATE :: nat where "CF_BLOCK_STATE = 34"
definition CF_NOT_READY :: nat where "CF_NOT_READY = 44"
definition CF_LEG_HOLDING :: nat where "CF_LEG_HOLDING = 48"
definition CF_RECOVERED :: nat where "CF_RECOVERED = 55"
definition CF_FLAG_MAX :: nat where "CF_FLAG_MAX = 65"

lemmas CF_defs = CF_ANSWERED_def CF_OUTBOUND_def CF_EARLY_MEDIA_def CF_TRANSFER_def CF_TAGGED_def
  CF_PROXY_MODE_def CF_DIVERT_EVENTS_def CF_BLOCK_STATE_def CF_NOT_READY_def CF_LEG_HOLDING_def
  CF_RECOVERED_def CF_FLAG_MAX_def

datatype switch_call_direction_t = SWITCH_CALL_DIRECTION_INBOUND | SWITCH_CALL_DIRECTION_OUTBOUND

text \<open>
  A state handler table is known by its address, zero for NULL; the two times of the caller
  profile are absent while the channel has no profile.
\<close>

record switch_channel =
  ch_name :: string
  direction :: switch_call_direction_t
  dtmf_queue :: "switch_dtmf list"
  dtmf_log_queue :: "switch_dtmf list"
  ch_state :: switch_channel_state_t
  running_state :: switch_channel_state_t
  callstate :: switch_channel_callstate_t
  flags :: "switch_channel_flag_t \<Rightarrow> uint32"
  caps :: "nat \<Rightarrow> uint32"
  state_flags :: "nat \<Rightarrow> bool"
  private_flags :: uint32
  state_handlers :: "nat list"
  state_handler_index :: nat
  variables :: "switch_event option"
  app_flag_hash :: "string \<rightharpoonup> uint32"
  hangup_cause :: switch_call_cause_t
  ocf_hangup :: bool
  hold_times :: "(int \<times> int) option"

datatype chan_action =
    CallstateEvent switch_channel_callstate_t switch_channel_callstate_t
  | StateEvent switch_channel_state_t switch_channel_callstate_t string
  | Presence string string
  | SignalStateChange
  | LaunchThread
  | HangupEvent string
  | KillChannel
  | HangupState
  | DtmfEvent switch_dtmf bool

text \<open>What the operations read of the session, and the clock.\<close>

record session_view =
  in_session_thread :: bool
  session_running :: bool
  session_started :: bool
  codecs_set :: bool
  time_now :: int

type_synonym chan_result = "(switch_channel \<times> chan_action list) outcome"

section \<open>Variables\<close>

fun var_check_loop :: "bool \<Rightarrow> string \<Rightarrow> bool" where
  "var_check_loop dol [] = False"
| "var_check_loop dol (c # cs) =
     (if c = CHR ''$'' then var_check_loop True cs
      else if dol then
        if c = CHR ''{'' then True else var_check_loop (c = CHR 0x5C) cs
      else var_check_loop dol cs)"

definition switch_string_var_check_const :: "string \<Rightarrow> bool" where
  "switch_string_var_check_const s = var_check_loop False s"

definition switch_channel_add_variable_var_check ::
    "switch_channel \<Rightarrow> string option \<Rightarrow> string option \<Rightarrow> bool \<Rightarrow> switch_stack_t \<Rightarrow>
     (switch_status_t \<times> switch_channel) outcome" where
  "switch_channel_add_variable_var_check c varname val var_check st =
     (case (variables c, varname) of
        (Some ev, Some (n # ns)) \<Rightarrow>
          (case val of
             Some (v # vs) \<Rightarrow>
               if var_check \<and> switch_string_var_check_const (v # vs) then Inr (SWITCH_STATUS_SUCCESS, c)
               else bindE (switch_event_add_header_string ev st (n # ns) (Some (v # vs)))
                      (\<lambda>(_, ev). Inr (SWITCH_STATUS_SUCCESS, c\<lparr>variables := Some ev\<rparr>))
           | _ \<Rightarrow> bindE (switch_event_del_header ev (n # ns))
                    (\<lambda>(_, ev). Inr (SWITCH_STATUS_SUCCESS, c\<lparr>variables := Some ev\<rparr>)))
      | _ \<Rightarrow> Inr (SWITCH_STATUS_FALSE, c))"

definition switch_channel_set_variable_var_check ::
    "switch_channel \<Rightarrow> string option \<Rightarrow> string option \<Rightarrow> bool \<Rightarrow> (switch_status_t \<times> switch_channel) outcome" where
  "switch_channel_set_variable_var_check c varname val var_check =
     switch_channel_add_variable_var_check c varname val var_check SWITCH_STACK_BOTTOM"

text \<open>\<open>switch_channel_set_variable\<close> is the call with \<open>var_check\<close> on.\<close>

definition set_variable :: "switch_channel \<Rightarrow> string \<Rightarrow> string option \<Rightarrow> switch_channel outcome" where
  "set_variable c name val =
     bindE (switch_channel_set_variable_var_check c (Some name) val True) (\<lambda>(_, c). Inr c)"

section \<open>Call state, flags and capabilities\<close>

definition switch_channel_perform_set_callstate ::
    "switch_channel \<Rightarrow> switch_channel_callstate_t \<Rightarrow> switch_channel \<times> chan_action list" where
  "switch_channel_perform_set_callstate c cs =
     (if callstate c = cs then (c, []) else (c\<lparr>callstate := cs\<rparr>, [CallstateEvent (callstate c) cs]))"

definition switch_channel_test_flag :: "switch_channel \<Rightarrow> switch_channel_flag_t \<Rightarrow> uint32" where
  "switch_channel_test_flag c flag = flags c flag"

definition flag_variables :: "switch_channel \<Rightarrow> (nat \<times> string) list \<Rightarrow> nat \<Rightarrow> string option \<Rightarrow> switch_channel outcome" where
  "flag_variables c table flag val =
     (case map_of table flag of Some name \<Rightarrow> set_variable c name val | None \<Rightarrow> Inr c)"

definition switch_channel_set_flag_value ::
    "session_view \<Rightarrow> switch_channel \<Rightarrow> switch_channel_flag_t \<Rightarrow> uint32 \<Rightarrow> chan_result" where
  "switch_channel_set_flag_value sv c flag val =
     (let HELD = (flag = CF_LEG_HOLDING \<and> flags c flag = 0 \<and> flags c CF_ANSWERED \<noteq> 0);
          c = c\<lparr>flags := (flags c)(flag := val)\<rparr>;
          (c, acts) = (if HELD then switch_channel_perform_set_callstate c CCS_HELD else (c, []))
      in bindE
           (if HELD then
              case hold_times c of None \<Rightarrow> Inl NullPointer
              | Some (_, accum) \<Rightarrow> Inr (c\<lparr>hold_times := Some (time_now sv, accum)\<rparr>)
            else Inr c)
           (\<lambda>c. bindE (flag_variables c [(CF_OUTBOUND, ''is_outbound''), (CF_RECOVERED, ''recovered'')] flag (Some ''true''))
              (\<lambda>c. Inr (c, acts))))"

definition switch_channel_set_flag_recursive ::
    "switch_channel \<Rightarrow> switch_channel_flag_t \<Rightarrow> switch_channel outcome" where
  "switch_channel_set_flag_recursive c flag =
     flag_variables (c\<lparr>flags := (flags c)(flag := flags c flag + 1)\<rparr>)
       [(CF_OUTBOUND, ''is_outbound''), (CF_RECOVERED, ''recovered'')] flag (Some ''true'')"

definition switch_channel_clear_flag :: "session_view \<Rightarrow> switch_channel \<Rightarrow> switch_channel_flag_t \<Rightarrow> chan_result" where
  "switch_channel_clear_flag sv c flag =
     (let ACTIVE = (flag = CF_LEG_HOLDING \<and> flags c flag \<noteq> 0 \<and> flags c CF_ANSWERED \<noteq> 0);
          c = c\<lparr>flags := (flags c)(flag := 0)\<rparr>;
          (c, acts) = (if ACTIVE then switch_channel_perform_set_callstate c CCS_ACTIVE else (c, []))
      in bindE
           (if ACTIVE then
              case hold_times c of None \<Rightarrow> Inl NullPointer
              | Some (last_hold, accum) \<Rightarrow>
                  Inr (c\<lparr>hold_times := Some (last_hold, if last_hold \<noteq> 0 then accum + (time_now sv - last_hold) else accum)\<rparr>)
            else Inr c)
           (\<lambda>c. bindE (flag_variables c [(CF_OUTBOUND, ''is_outbound''), (CF_RECOVERED, ''recovered'')] flag None)
              (\<lambda>c. Inr (c, acts))))"

definition switch_channel_clear_flag_recursive ::
    "switch_channel \<Rightarrow> switch_channel_flag_t \<Rightarrow> switch_channel outcome" where
  "switch_channel_clear_flag_recursive c flag =
     flag_variables (if flags c flag \<noteq> 0 then c\<lparr>flags := (flags c)(flag := flags c flag - 1)\<rparr> else c)
       [(CF_OUTBOUND, ''is_outbound'')] flag None"

definition switch_channel_set_state_flag :: "switch_channel \<Rightarrow> switch_channel_flag_t \<Rightarrow> switch_channel" where
  "switch_channel_set_state_flag c flag = c\<lparr>state_flags := (state_flags c)(0 := True, flag := True)\<rparr>"

definition switch_channel_set_cap_value :: "switch_channel \<Rightarrow> nat \<Rightarrow> uint32 \<Rightarrow> switch_channel" where
  "switch_channel_set_cap_value c cap val = c\<lparr>caps := (caps c)(cap := val)\<rparr>"

definition switch_channel_clear_cap :: "switch_channel \<Rightarrow> nat \<Rightarrow> switch_channel" where
  "switch_channel_clear_cap c cap = c\<lparr>caps := (caps c)(cap := 0)\<rparr>"

definition switch_channel_test_cap :: "switch_channel \<Rightarrow> nat \<Rightarrow> nat" where
  "switch_channel_test_cap c cap = (if caps c cap \<noteq> 0 then 1 else 0)"

definition switch_channel_set_private_flag :: "switch_channel \<Rightarrow> uint32 \<Rightarrow> switch_channel" where
  "switch_channel_set_private_flag c f = c\<lparr>private_flags := private_flags c OR f\<rparr>"

definition switch_channel_clear_private_flag :: "switch_channel \<Rightarrow> uint32 \<Rightarrow> switch_channel" where
  "switch_channel_clear_private_flag c f = c\<lparr>private_flags := private_flags c AND NOT f\<rparr>"

definition switch_channel_test_private_flag :: "switch_channel \<Rightarrow> uint32 \<Rightarrow> uint32" where
  "switch_channel_test_private_flag c f = private_flags c AND f"

definition switch_channel_set_app_flag_key :: "string \<Rightarrow> switch_channel \<Rightarrow> uint32 \<Rightarrow> switch_channel" where
  "switch_channel_set_app_flag_key key c f =
     (let old = (case app_flag_hash c key of Some v \<Rightarrow> v | None \<Rightarrow> 0)
      in c\<lparr>app_flag_hash := (app_flag_hash c)(key \<mapsto> old OR f)\<rparr>)"

definition switch_channel_clear_app_flag_key :: "string \<Rightarrow> switch_channel \<Rightarrow> uint32 \<Rightarrow> switch_channel" where
  "switch_channel_clear_app_flag_key key c f =
     (case app_flag_hash c key of
        None \<Rightarrow> c
      | Some v \<Rightarrow> c\<lparr>app_flag_hash := (app_flag_hash c)(key \<mapsto> (if f = 0 then 0 else v AND NOT f))\<rparr>)"

definition switch_channel_test_app_flag_key :: "string \<Rightarrow> switch_channel \<Rightarrow> uint32 \<Rightarrow> uint32" where
  "switch_channel_test_app_flag_key key c f = (case app_flag_hash c key of None \<Rightarrow> 0 | Some v \<Rightarrow> v AND f)"

section \<open>Creation\<close>

definition blank_channel :: switch_channel where
  "blank_channel =
     \<lparr>ch_name = [], direction = SWITCH_CALL_DIRECTION_INBOUND, dtmf_queue = [], dtmf_log_queue = [],
      ch_state = CS_NEW, running_state = CS_NEW, callstate = CCS_DOWN, flags = (\<lambda>_. 0), caps = (\<lambda>_. 0),
      state_flags = (\<lambda>_. False), private_flags = 0, state_handlers = replicate SWITCH_MAX_STATE_HANDLERS 0,
      state_handler_index = 0, variables = None, app_flag_hash = Map.empty, hangup_cause = SWITCH_CAUSE_NONE,
      ocf_hangup = False, hold_times = None\<rparr>"

definition switch_event_create_plain :: "nat \<Rightarrow> switch_event" where
  "switch_event_create_plain eid =
     empty_event\<lparr>event_id := eid,
                 uniq_headers := (eid = SWITCH_EVENT_REQUEST_PARAMS \<or> eid = SWITCH_EVENT_CHANNEL_DATA)\<rparr>"

definition switch_channel_alloc :: "switch_call_direction_t \<Rightarrow> switch_channel outcome" where
  "switch_channel_alloc dir =
     set_variable
       (blank_channel\<lparr>variables := Some (switch_event_create_plain SWITCH_EVENT_CHANNEL_DATA), direction := dir\<rparr>)
       ''direction'' (Some (if dir = SWITCH_CALL_DIRECTION_OUTBOUND then ''outbound'' else ''inbound''))"

definition switch_channel_init ::
    "session_view \<Rightarrow> switch_channel \<Rightarrow> switch_channel_state_t \<Rightarrow> switch_channel_flag_t \<Rightarrow> chan_result" where
  "switch_channel_init sv c st flag =
     bindE (switch_channel_set_flag_value sv (c\<lparr>ch_state := st\<rparr>) flag 1)
       (\<lambda>(c, acts). Inr (c\<lparr>running_state := CS_NONE\<rparr>, acts))"

section \<open>DTMF\<close>

text \<open>The limits on durations kept by \<^verbatim>\<open>switch_core.c\<close>; an argument of zero only reads.\<close>

record dtmf_limits =
  max_dtmf_duration :: uint32
  min_dtmf_duration :: uint32
  default_dtmf_duration :: uint32

definition SWITCH_MIN_DTMF_DURATION :: uint32 where "SWITCH_MIN_DTMF_DURATION = 400"
definition SWITCH_MAX_DTMF_DURATION :: uint32 where "SWITCH_MAX_DTMF_DURATION = 192000"

definition clamp_setting :: "uint32 \<Rightarrow> uint32" where
  "clamp_setting d =
     (if d > SWITCH_MAX_DTMF_DURATION then SWITCH_MAX_DTMF_DURATION
      else if d < SWITCH_MIN_DTMF_DURATION then SWITCH_MIN_DTMF_DURATION else d)"

definition switch_core_max_dtmf_duration :: "dtmf_limits \<Rightarrow> uint32 \<Rightarrow> uint32 \<times> dtmf_limits" where
  "switch_core_max_dtmf_duration l d =
     (let l = (if d \<noteq> 0 then
                 let d = clamp_setting d; l = l\<lparr>max_dtmf_duration := d\<rparr>
                 in if d < min_dtmf_duration l then l\<lparr>min_dtmf_duration := d\<rparr> else l
               else l)
      in (max_dtmf_duration l, l))"

definition switch_core_default_dtmf_duration :: "dtmf_limits \<Rightarrow> uint32 \<Rightarrow> uint32 \<times> dtmf_limits" where
  "switch_core_default_dtmf_duration l d =
     (let l = (if d \<noteq> 0 then
                 let d = clamp_setting d; l = l\<lparr>default_dtmf_duration := d\<rparr>;
                     l = (if d < min_dtmf_duration l then l\<lparr>min_dtmf_duration := d\<rparr> else l)
                 in if d > max_dtmf_duration l then l\<lparr>max_dtmf_duration := d\<rparr> else l
               else l)
      in (default_dtmf_duration l, l))"

definition switch_core_min_dtmf_duration :: "dtmf_limits \<Rightarrow> uint32 \<Rightarrow> uint32 \<times> dtmf_limits" where
  "switch_core_min_dtmf_duration l d =
     (let l = (if d \<noteq> 0 then
                 let d = clamp_setting d; l = l\<lparr>min_dtmf_duration := d\<rparr>
                 in if d > max_dtmf_duration l then l\<lparr>max_dtmf_duration := d\<rparr> else l
               else l)
      in (min_dtmf_duration l, l))"

definition is_dtmf :: "char \<Rightarrow> bool" where
  "is_dtmf key =
     (let k = of_char key :: nat
      in 47 < k \<and> k < 58 \<or> 64 < k \<and> k < 69 \<or> 96 < k \<and> k < 101 \<or> k = 35 \<or> k = 42 \<or> k = 87 \<or> k = 119 \<or>
         k = 70 \<or> k = 102)"

text \<open>The adjustment of a duration made when a digit is queued and again when it is taken.\<close>

definition limit_duration :: "dtmf_limits \<Rightarrow> switch_dtmf \<Rightarrow> switch_dtmf" where
  "limit_duration l d =
     (if duration d > max_dtmf_duration l then d\<lparr>duration := max_dtmf_duration l\<rparr>
      else if duration d < min_dtmf_duration l then d\<lparr>duration := min_dtmf_duration l\<rparr>
      else if duration d = 0 then d\<lparr>duration := default_dtmf_duration l\<rparr>
      else d)"

definition switch_channel_has_dtmf :: "switch_channel \<Rightarrow> nat" where
  "switch_channel_has_dtmf c = length (dtmf_queue c)"

function push_digit :: "nat \<Rightarrow> switch_dtmf list \<Rightarrow> switch_dtmf \<Rightarrow> switch_status_t \<times> switch_dtmf list" where
  "push_digit x q dt =
     (if length q < SWITCH_DTMF_LOG_LEN then (SWITCH_STATUS_SUCCESS, q @ [dt])
      else if x + 1 > 100 then (SWITCH_STATUS_FALSE, tl q)
      else push_digit (x + 1) (tl q) dt)"
  by auto
termination by (relation "measure (\<lambda>(x, q, dt). 101 - x)") auto

declare push_digit.simps [simp del]

text \<open>
  \<open>accept\<close> stands for \<open>switch_core_session_recv_dtmf\<close>, which runs the hooks of the session.
\<close>

definition switch_channel_queue_dtmf ::
    "dtmf_limits \<Rightarrow> (switch_dtmf \<Rightarrow> bool) \<Rightarrow> switch_channel \<Rightarrow> switch_dtmf \<Rightarrow> switch_status_t \<times> switch_channel" where
  "switch_channel_queue_dtmf l accept c dtmf =
     (if \<not> accept dtmf then (SWITCH_STATUS_FALSE, c)
      else if is_dtmf (digit dtmf) then
        let (st, q) = push_digit 0 (dtmf_queue c) (limit_duration l dtmf) in (st, c\<lparr>dtmf_queue := q\<rparr>)
      else (SWITCH_STATUS_SUCCESS, c))"

definition switch_channel_dequeue_dtmf ::
    "dtmf_limits \<Rightarrow> switch_channel \<Rightarrow> switch_status_t \<times> switch_dtmf option \<times> switch_channel \<times> chan_action list" where
  "switch_channel_dequeue_dtmf l c =
     (case dtmf_queue c of
        [] \<Rightarrow> (SWITCH_STATUS_FALSE, None, c, [])
      | dt # q \<Rightarrow>
          let c = c\<lparr>dtmf_queue := q\<rparr>;
              c = (if length (dtmf_log_queue c) < SWITCH_DTMF_LOG_LEN
                   then c\<lparr>dtmf_log_queue := dtmf_log_queue c @ [dt]\<rparr> else c);
              dtmf = limit_duration l dt
          in (SWITCH_STATUS_SUCCESS, Some dtmf, c, [DtmfEvent dtmf (switch_channel_test_flag c CF_DIVERT_EVENTS \<noteq> 0)]))"

text \<open>\<open>n\<close> is the room left in the buffer, one byte being kept for the NUL.\<close>

fun dequeue_string_loop :: "dtmf_limits \<Rightarrow> switch_channel \<Rightarrow> nat \<Rightarrow> string \<times> switch_channel" where
  "dequeue_string_loop l c 0 = ([], c)"
| "dequeue_string_loop l c (Suc n) =
     (case switch_channel_dequeue_dtmf l c of
        (_, None, c, _) \<Rightarrow> ([], c)
      | (_, Some d, c, _) \<Rightarrow> let (s, c) = dequeue_string_loop l c n in (digit d # s, c))"

definition switch_channel_dequeue_dtmf_string ::
    "dtmf_limits \<Rightarrow> switch_channel \<Rightarrow> nat \<Rightarrow> (nat \<times> string \<times> switch_channel) outcome" where
  "switch_channel_dequeue_dtmf_string l c len =
     (if len = 0 then
        let (s, c') = dequeue_string_loop l c (2 ^ 64 - 1)
        in if s = [] then Inr (0, [], c') else Inl OutOfBounds
      else let (s, c') = dequeue_string_loop l c (len - 1) in Inr (length s, s, c'))"

fun flush_loop :: "bool \<Rightarrow> switch_dtmf list \<Rightarrow> switch_dtmf list \<Rightarrow> switch_dtmf list" where
  "flush_loop hung [] log = log"
| "flush_loop hung (dt # q) log =
     flush_loop hung q (if hung \<or> \<not> length log < SWITCH_DTMF_LOG_LEN then log else log @ [dt])"

definition switch_channel_flush_dtmf :: "switch_channel \<Rightarrow> switch_channel" where
  "switch_channel_flush_dtmf c =
     c\<lparr>dtmf_log_queue := flush_loop (ch_state c \<ge> CS_HANGUP) (dtmf_queue c) (dtmf_log_queue c), dtmf_queue := []\<rparr>"

definition switch_channel_uninit :: "switch_channel \<Rightarrow> switch_channel" where
  "switch_channel_uninit c =
     (switch_channel_flush_dtmf c)\<lparr>dtmf_log_queue := [], app_flag_hash := Map.empty, variables := None\<rparr>"

text \<open>
  The digits of one argument of \<open>switch_channel_queue_dtmf_string\<close>; the duration adjusted for
  one digit is kept for the next.
\<close>

fun queue_digits ::
    "dtmf_limits \<Rightarrow> (switch_dtmf \<Rightarrow> bool) \<Rightarrow> switch_channel \<Rightarrow> switch_dtmf \<Rightarrow> string \<Rightarrow> nat \<times> switch_channel" where
  "queue_digits l accept c dt [] = (0, c)"
| "queue_digits l accept c dt (p # ps) =
     (if is_dtmf p then
        let dt = limit_duration l (dt\<lparr>digit := p\<rparr>);
            (st, c) = switch_channel_queue_dtmf l accept c dt;
            (n, c) = queue_digits l accept c dt ps
        in (if st = SWITCH_STATUS_SUCCESS then n + 1 else n, c)
      else queue_digits l accept c dt ps)"

fun queue_args ::
    "dtmf_limits \<Rightarrow> (switch_dtmf \<Rightarrow> bool) \<Rightarrow> switch_channel \<Rightarrow> int \<Rightarrow> string list \<Rightarrow> nat \<times> switch_channel" where
  "queue_args l accept c fl [] = (0, c)"
| "queue_args l accept c fl (arg # args) =
     (let def = default_dtmf_duration l;
          (txt, dur) = (case strchr arg (CHR ''@'') of
             None \<Rightarrow> (arg, def)
           | Some i \<Rightarrow>
               let dur = atoi (drop (i + 1) arg)
               in (take i arg, if dur > int (unat (min_dtmf_duration l)) div 8 then word_of_int (dur * 8) else def));
          dt = \<lparr>digit = CHR 0x00, duration = dur, dtmf_flags = fl, dtmf_source = SWITCH_DTMF_APP\<rparr>;
          (n, c) = queue_digits l accept c dt txt;
          (m, c) = queue_args l accept c fl args
      in (n + m, c))"

definition switch_channel_queue_dtmf_string ::
    "dtmf_limits \<Rightarrow> (switch_dtmf \<Rightarrow> bool) \<Rightarrow> switch_channel \<Rightarrow> string option \<Rightarrow>
     (switch_status_t \<times> switch_channel) outcome" where
  "switch_channel_queue_dtmf_string l accept c str =
     (case str of
        Some (ch # cs) \<Rightarrow>
          let (fl, s) = (if ch = CHR ''~'' then (0, cs) else (DTMF_FLAG_SKIP_PROCESS, ch # cs))
          in bindE (switch_separate_string (Some s) (CHR ''+'') 256)
               (\<lambda>argv. let (sent, c) = queue_args l accept c fl argv
                       in Inr (if sent \<noteq> 0 then SWITCH_STATUS_SUCCESS else SWITCH_STATUS_FALSE, c))
      | _ \<Rightarrow> Inr (SWITCH_STATUS_FALSE, c))"

section \<open>The state machine\<close>

definition switch_channel_get_state :: "switch_channel \<Rightarrow> switch_channel_state_t" where
  "switch_channel_get_state c = ch_state c"

definition switch_channel_get_running_state :: "switch_channel \<Rightarrow> switch_channel_state_t" where
  "switch_channel_get_running_state c = running_state c"

definition switch_channel_get_cause_q850 :: "switch_channel \<Rightarrow> switch_call_cause_t" where
  "switch_channel_get_cause_q850 c = switch_channel_cause_q850 (hangup_cause c)"

definition switch_channel_state_change_pending :: "session_view \<Rightarrow> switch_channel \<Rightarrow> bool" where
  "switch_channel_state_change_pending sv c \<longleftrightarrow>
     \<not> (ch_state c \<ge> CS_HANGUP \<or> \<not> in_session_thread sv) \<and> running_state c \<noteq> ch_state c"

definition switch_channel_test_ready :: "session_view \<Rightarrow> switch_channel \<Rightarrow> bool \<Rightarrow> bool \<Rightarrow> bool" where
  "switch_channel_test_ready sv c check_ready check_media \<longleftrightarrow>
     (let media = (check_media \<longrightarrow>
            (switch_channel_test_flag c CF_ANSWERED \<noteq> 0 \<or> switch_channel_test_flag c CF_EARLY_MEDIA \<noteq> 0) \<and>
            switch_channel_test_flag c CF_PROXY_MODE = 0 \<and> codecs_set sv)
      in if \<not> media then False
         else if \<not> check_ready then check_media
         else hangup_cause c = SWITCH_CAUSE_NONE \<and> ch_state c > CS_ROUTING \<and> ch_state c < CS_HANGUP \<and>
              ch_state c \<noteq> CS_RESET \<and> switch_channel_test_flag c CF_TRANSFER = 0 \<and>
              switch_channel_test_flag c CF_NOT_READY = 0 \<and> \<not> switch_channel_state_change_pending sv c)"

definition answer_state :: "switch_channel \<Rightarrow> string" where
  "answer_state c =
     (if ch_state c \<ge> CS_HANGUP then ''hangup''
      else if switch_channel_test_flag c CF_ANSWERED \<noteq> 0 then ''answered''
      else if switch_channel_test_flag c CF_EARLY_MEDIA \<noteq> 0 then ''early'' else ''ringing'')"

definition apply_state_flags :: "switch_channel \<Rightarrow> switch_channel" where
  "apply_state_flags c =
     (if state_flags c 0 then
        c\<lparr>flags := (\<lambda>x. if 1 \<le> x \<and> x < CF_FLAG_MAX \<and> state_flags c x then 1 else flags c x),
          state_flags := (\<lambda>x. if x < CF_FLAG_MAX then False else state_flags c x)\<rparr>
      else c)"

definition switch_channel_perform_set_running_state ::
    "session_view \<Rightarrow> switch_channel \<Rightarrow> switch_channel_state_t \<Rightarrow> chan_result" where
  "switch_channel_perform_set_running_state sv c st =
     bindE (switch_channel_clear_flag sv (apply_state_flags c) CF_TAGGED) (\<lambda>(c, acts).
       let c = c\<lparr>running_state := st\<rparr>;
           acts = acts @ (if ch_state c = CS_ROUTING \<or> ch_state c = CS_HANGUP
                          then [Presence ''unknown'' (switch_channel_state_name st)] else []);
           (c, acts2) =
             (if st < CS_HANGUP then
                if st = CS_ROUTING then switch_channel_perform_set_callstate c CCS_RINGING
                else if switch_channel_test_flag c CF_ANSWERED \<noteq> 0 then switch_channel_perform_set_callstate c CCS_ACTIVE
                else if switch_channel_test_flag c CF_EARLY_MEDIA \<noteq> 0 then switch_channel_perform_set_callstate c CCS_EARLY
                else (c, [])
              else (c, []))
       in Inr (c, acts @ acts2 @ (if st \<le> CS_DESTROY then [StateEvent st (callstate c) (answer_state c)] else [])))"

text \<open>The table of \<open>switch_channel_perform_set_state\<close>: the changes it takes for valid.\<close>

fun valid_change :: "switch_channel_state_t \<Rightarrow> switch_channel_state_t \<Rightarrow> bool" where
  "valid_change CS_NEW s = True"
| "valid_change CS_RESET s = True"
| "valid_change CS_INIT s \<longleftrightarrow> s \<in> {CS_EXCHANGE_MEDIA, CS_SOFT_EXECUTE, CS_ROUTING, CS_EXECUTE, CS_PARK,
     CS_CONSUME_MEDIA, CS_HIBERNATE, CS_RESET}"
| "valid_change CS_EXCHANGE_MEDIA s \<longleftrightarrow> s \<in> {CS_SOFT_EXECUTE, CS_ROUTING, CS_EXECUTE, CS_PARK,
     CS_CONSUME_MEDIA, CS_HIBERNATE, CS_RESET}"
| "valid_change CS_SOFT_EXECUTE s \<longleftrightarrow> s \<in> {CS_EXCHANGE_MEDIA, CS_ROUTING, CS_EXECUTE, CS_PARK,
     CS_CONSUME_MEDIA, CS_HIBERNATE, CS_RESET}"
| "valid_change CS_PARK s \<longleftrightarrow> s \<in> {CS_EXCHANGE_MEDIA, CS_ROUTING, CS_EXECUTE, CS_SOFT_EXECUTE,
     CS_HIBERNATE, CS_RESET, CS_CONSUME_MEDIA}"
| "valid_change CS_CONSUME_MEDIA s \<longleftrightarrow> s \<in> {CS_EXCHANGE_MEDIA, CS_ROUTING, CS_EXECUTE, CS_SOFT_EXECUTE,
     CS_HIBERNATE, CS_RESET, CS_PARK}"
| "valid_change CS_HIBERNATE s \<longleftrightarrow> s \<in> {CS_EXCHANGE_MEDIA, CS_INIT, CS_ROUTING, CS_EXECUTE, CS_SOFT_EXECUTE,
     CS_PARK, CS_CONSUME_MEDIA, CS_RESET}"
| "valid_change CS_ROUTING s \<longleftrightarrow> s \<in> {CS_EXCHANGE_MEDIA, CS_EXECUTE, CS_SOFT_EXECUTE, CS_PARK,
     CS_CONSUME_MEDIA, CS_HIBERNATE, CS_RESET}"
| "valid_change CS_EXECUTE s \<longleftrightarrow> s \<in> {CS_EXCHANGE_MEDIA, CS_SOFT_EXECUTE, CS_ROUTING, CS_PARK,
     CS_CONSUME_MEDIA, CS_HIBERNATE, CS_RESET}"
| "valid_change CS_HANGUP s \<longleftrightarrow> s \<in> {CS_REPORTING, CS_DESTROY}"
| "valid_change CS_REPORTING s \<longleftrightarrow> s = CS_DESTROY"
| "valid_change CS_DESTROY s = False"
| "valid_change CS_NONE s = False"

definition switch_channel_perform_set_state ::
    "switch_channel \<Rightarrow> switch_channel_state_t \<Rightarrow> (switch_channel_state_t \<times> switch_channel \<times> chan_action list) outcome" where
  "switch_channel_perform_set_state c st =
     (let last_state = ch_state c
      in if \<not> st \<le> CS_DESTROY \<or> \<not> last_state \<le> CS_DESTROY then Inl AssertionFailed
         else if last_state = st then Inr (ch_state c, c, [])
         else if last_state \<ge> CS_HANGUP \<and> st < last_state then Inr (ch_state c, c, [])
         else if valid_change last_state st then
           let c = c\<lparr>ch_state := st\<rparr>;
               c = (if st = CS_HANGUP \<and> hangup_cause c = SWITCH_CAUSE_NONE
                    then c\<lparr>hangup_cause := SWITCH_CAUSE_NORMAL_CLEARING\<rparr> else c)
           in Inr (ch_state c, c, [SignalStateChange])
         else if ch_state c \<ge> CS_HANGUP then Inr (ch_state c, c, [])
         else Inl AssertionFailed)"

definition switch_channel_perform_hangup ::
    "session_view \<Rightarrow> switch_channel \<Rightarrow> switch_call_cause_t \<Rightarrow>
     (switch_channel_state_t \<times> switch_channel \<times> chan_action list) outcome" where
  "switch_channel_perform_hangup sv c cause =
     (if ocf_hangup c then Inr (ch_state c, c, [])
      else
        bindE (switch_channel_clear_flag sv (c\<lparr>ocf_hangup := True\<rparr>) CF_BLOCK_STATE) (\<lambda>(c, acts).
          if ch_state c < CS_HANGUP then
            bindE (if cause = SWITCH_CAUSE_LOSE_RACE then set_variable (c\<lparr>ch_state := CS_HANGUP\<rparr>) ''presence_call_info'' None
                   else Inr (c\<lparr>ch_state := CS_HANGUP\<rparr>)) (\<lambda>c.
              let pres = (if cause = SWITCH_CAUSE_LOSE_RACE then [Presence ''unknown'' ''cancelled''] else []);
                  (c, acts2) = switch_channel_perform_set_callstate c CCS_HANGUP;
                  c = c\<lparr>hangup_cause := cause\<rparr>
              in Inr (ch_state c, c,
                   acts @ pres @ acts2 @
                   (if \<not> session_running sv \<and> \<not> session_started sv then [LaunchThread] else []) @
                   [HangupEvent (switch_channel_cause2str cause), KillChannel, SignalStateChange, HangupState]))
          else Inr (ch_state c, c, acts)))"

section \<open>State handlers\<close>

text \<open>The position of the first entry of a table that is the given handler.\<close>

fun handler_pos :: "nat list \<Rightarrow> nat \<Rightarrow> nat \<Rightarrow> nat option" where
  "handler_pos [] h x = None"
| "handler_pos (t # ts) h x = (if t = h then Some x else handler_pos ts h (x + 1))"

definition switch_channel_add_state_handler :: "switch_channel \<Rightarrow> nat \<Rightarrow> int \<times> switch_channel" where
  "switch_channel_add_state_handler c h =
     (case handler_pos (state_handlers c) h 0 of
        Some x \<Rightarrow> (int x, c)
      | None \<Rightarrow>
          let index = state_handler_index c;
              c = c\<lparr>state_handler_index := index + 1\<rparr>
          in if state_handler_index c \<ge> SWITCH_MAX_STATE_HANDLERS then (-1, c)
             else (int index, c\<lparr>state_handlers := (state_handlers c)[index := h]\<rparr>))"

definition switch_channel_get_state_handler :: "switch_channel \<Rightarrow> int \<Rightarrow> nat outcome" where
  "switch_channel_get_state_handler c index =
     (if index \<ge> int SWITCH_MAX_STATE_HANDLERS \<or> index > int (state_handler_index c) then Inr 0
      else if index < 0 then Inl OutOfBounds
      else Inr (state_handlers c ! nat index))"

text \<open>
  The copying loop of \<open>switch_channel_clear_state_handler\<close> from entry \<open>index\<close> on; both tables
  have \<open>SWITCH_MAX_STATE_HANDLERS\<close> entries and neither access is guarded.
\<close>

fun keep_handlers :: "(nat \<Rightarrow> bool) \<Rightarrow> nat list \<Rightarrow> nat \<Rightarrow> nat \<Rightarrow> nat list \<Rightarrow> nat list outcome" where
  "keep_handlers keep table index 0 new = Inr new"
| "keep_handlers keep table index (Suc n) new =
     (if index \<ge> SWITCH_MAX_STATE_HANDLERS then Inl OutOfBounds
      else if keep (table ! index) then
        if length new \<ge> SWITCH_MAX_STATE_HANDLERS then Inl OutOfBounds
        else keep_handlers keep table (index + 1) n (new @ [table ! index])
      else keep_handlers keep table (index + 1) n new)"

definition switch_channel_clear_state_handler ::
    "(nat \<Rightarrow> bool) \<Rightarrow> switch_channel \<Rightarrow> nat \<Rightarrow> switch_channel outcome" where
  "switch_channel_clear_state_handler sticky c h =
     bindE (keep_handlers (if h \<noteq> 0 then (\<lambda>t. t \<noteq> h) else (\<lambda>t. t \<noteq> 0 \<and> sticky t))
              (state_handlers c) 0 (state_handler_index c) [])
       (\<lambda>new. Inr (c\<lparr>state_handler_index := length new,
                     state_handlers := new @ replicate (SWITCH_MAX_STATE_HANDLERS - length new) 0\<rparr>))"

section \<open>Runs of a channel\<close>

text \<open>
  A channel with a ghost: the cause given by the hangup that took it down, if any.
\<close>

type_synonym call_run = "switch_channel \<times> switch_call_cause_t option"

inductive call_step :: "call_run \<Rightarrow> call_run \<Rightarrow> bool" where
  set_state: "switch_channel_perform_set_state c st = Inr (s, c', acts) \<Longrightarrow> call_step (c, g) (c', g)"
| set_running: "switch_channel_perform_set_running_state sv c st = Inr (c', acts) \<Longrightarrow> call_step (c, g) (c', g)"
| hangup: "switch_channel_perform_hangup sv c cause = Inr (s, c', acts) \<Longrightarrow>
    call_step (c, g) (c', if ocf_hangup c \<or> CS_HANGUP \<le> ch_state c then g else Some cause)"
| set_flag: "switch_channel_set_flag_value sv c flag val = Inr (c', acts) \<Longrightarrow> call_step (c, g) (c', g)"
| set_flag_recursive: "switch_channel_set_flag_recursive c flag = Inr c' \<Longrightarrow> call_step (c, g) (c', g)"
| clear_flag: "switch_channel_clear_flag sv c flag = Inr (c', acts) \<Longrightarrow> call_step (c, g) (c', g)"
| clear_flag_recursive: "switch_channel_clear_flag_recursive c flag = Inr c' \<Longrightarrow> call_step (c, g) (c', g)"
| set_state_flag: "call_step (c, g) (switch_channel_set_state_flag c flag, g)"
| set_var: "switch_channel_add_variable_var_check c name val chk stack = Inr (st, c') \<Longrightarrow> call_step (c, g) (c', g)"
| queue_dtmf: "switch_channel_queue_dtmf l accept c d = (st, c') \<Longrightarrow> call_step (c, g) (c', g)"
| dequeue_dtmf: "switch_channel_dequeue_dtmf l c = (st, d, c', acts) \<Longrightarrow> call_step (c, g) (c', g)"
| add_handler: "switch_channel_add_state_handler c h = (i, c') \<Longrightarrow> call_step (c, g) (c', g)"
| clear_handler: "switch_channel_clear_state_handler sticky c h = Inr c' \<Longrightarrow> call_step (c, g) (c', g)"

definition call_init :: "call_run \<Rightarrow> bool" where
  "call_init r \<longleftrightarrow> ch_state (fst r) \<le> CS_DESTROY \<and> snd r = None"

definition call_inv :: "call_run \<Rightarrow> bool" where
  "call_inv r \<longleftrightarrow> ch_state (fst r) \<le> CS_DESTROY \<and>
     (\<forall>k. snd r = Some k \<longrightarrow> CS_HANGUP \<le> ch_state (fst r) \<and> hangup_cause (fst r) = k \<and> ocf_hangup (fst r))"

text \<open>Everything but the state changes and the hangup leaves the life cycle of the call alone.\<close>

definition same_life :: "switch_channel \<Rightarrow> switch_channel \<Rightarrow> bool" where
  "same_life c c' \<longleftrightarrow> ch_state c' = ch_state c \<and> hangup_cause c' = hangup_cause c \<and> ocf_hangup c' = ocf_hangup c"

lemma same_life_inv: "same_life c c' \<Longrightarrow> call_inv (c, g) \<Longrightarrow> call_inv (c', g)"
  by (simp add: same_life_def call_inv_def)

lemma same_life_trans: "same_life a b \<Longrightarrow> same_life b c \<Longrightarrow> same_life a c"
  by (simp add: same_life_def)

lemma add_variable_life: "switch_channel_add_variable_var_check c name val chk stack = Inr (st, c') \<Longrightarrow> same_life c c'"
  by (auto simp: switch_channel_add_variable_var_check_def same_life_def bindE_eq_Inr
      split: option.splits list.splits if_splits)

lemma set_variable_life: "set_variable c name val = Inr c' \<Longrightarrow> same_life c c'"
  by (auto simp: set_variable_def switch_channel_set_variable_var_check_def bindE_eq_Inr dest: add_variable_life)

lemma flag_variables_life: "flag_variables c table flag val = Inr c' \<Longrightarrow> same_life c c'"
  by (auto simp: flag_variables_def same_life_def dest: set_variable_life [unfolded same_life_def] split: option.splits)

lemma callstate_keeps [simp]:
  "ch_state (fst (switch_channel_perform_set_callstate c cs)) = ch_state c"
  "hangup_cause (fst (switch_channel_perform_set_callstate c cs)) = hangup_cause c"
  "ocf_hangup (fst (switch_channel_perform_set_callstate c cs)) = ocf_hangup c"
  "hold_times (fst (switch_channel_perform_set_callstate c cs)) = hold_times c"
  by (simp_all add: switch_channel_perform_set_callstate_def)

lemma set_flag_life: "switch_channel_set_flag_value sv c flag val = Inr (c', acts) \<Longrightarrow> same_life c c'"
  by (auto simp: switch_channel_set_flag_value_def Let_def case_prod_unfold bindE_eq_Inr same_life_def
      dest!: flag_variables_life split: if_splits option.splits)

lemma clear_flag_life: "switch_channel_clear_flag sv c flag = Inr (c', acts) \<Longrightarrow> same_life c c'"
  by (auto simp: switch_channel_clear_flag_def Let_def case_prod_unfold bindE_eq_Inr same_life_def
      dest!: flag_variables_life split: if_splits option.splits)

lemma set_running_life:
  assumes "switch_channel_perform_set_running_state sv c st = Inr (c', acts)"
  shows "same_life c c'"
proof -
  obtain c1 a1 where c1: "switch_channel_clear_flag sv (apply_state_flags c) CF_TAGGED = Inr (c1, a1)"
    using assms by (auto simp: switch_channel_perform_set_running_state_def bindE_eq_Inr)
  have "same_life c (apply_state_flags c)" by (simp add: same_life_def apply_state_flags_def)
  moreover have "same_life c1 c'"
    using assms unfolding switch_channel_perform_set_running_state_def c1 same_life_def
    by (auto simp: Let_def case_prod_unfold split: if_splits)
  ultimately show ?thesis using clear_flag_life [OF c1] by (simp add: same_life_def)
qed

text \<open>What the two operations that move a call towards its end do.\<close>

lemma set_state_effect:
  assumes "switch_channel_perform_set_state c st = Inr (s, c', acts)" "ch_state c \<le> CS_DESTROY"
  shows "ch_state c' = s \<and> s \<le> CS_DESTROY \<and> ocf_hangup c' = ocf_hangup c \<and>
    (CS_HANGUP \<le> ch_state c \<longrightarrow> ch_state c \<le> s \<and> hangup_cause c' = hangup_cause c)"
  using assms
  by (cases "ch_state c"; cases st)
    (auto simp: switch_channel_perform_set_state_def Let_def state_order split: if_splits)

lemma hangup_effect:
  assumes h: "switch_channel_perform_hangup sv c cause = Inr (s, c', acts)"
  shows "if ocf_hangup c then c' = c
    else ocf_hangup c' \<and>
      (if CS_HANGUP \<le> ch_state c then ch_state c' = ch_state c \<and> hangup_cause c' = hangup_cause c
       else ch_state c' = CS_HANGUP \<and> hangup_cause c' = cause)"
proof (cases "ocf_hangup c")
  case True
  then show ?thesis using h by (simp add: switch_channel_perform_hangup_def)
next
  case False
  obtain c1 a1 where c1: "switch_channel_clear_flag sv (c\<lparr>ocf_hangup := True\<rparr>) CF_BLOCK_STATE = Inr (c1, a1)"
    using h False by (auto simp: switch_channel_perform_hangup_def bindE_eq_Inr)
  have l1: "ch_state c1 = ch_state c" "hangup_cause c1 = hangup_cause c" "ocf_hangup c1"
    using clear_flag_life [OF c1] by (simp_all add: same_life_def)
  show ?thesis
  proof (cases "CS_HANGUP \<le> ch_state c")
    case True
    then have "\<not> ch_state c < CS_HANGUP" by simp
    then show ?thesis using h False l1 True by (simp add: switch_channel_perform_hangup_def c1)
  next
    case below: False
    then have "ch_state c < CS_HANGUP" by simp
    then obtain c2 where c2: "(if cause = SWITCH_CAUSE_LOSE_RACE
          then set_variable (c1\<lparr>ch_state := CS_HANGUP\<rparr>) ''presence_call_info'' None
          else Inr (c1\<lparr>ch_state := CS_HANGUP\<rparr>)) = Inr c2"
      and c': "c' = (fst (switch_channel_perform_set_callstate c2 CCS_HANGUP))\<lparr>hangup_cause := cause\<rparr>"
      using h False l1 by (auto simp: switch_channel_perform_hangup_def c1 bindE_eq_Inr Let_def case_prod_unfold cong: if_cong)
    have "same_life (c1\<lparr>ch_state := CS_HANGUP\<rparr>) c2"
      using c2 set_variable_life by (auto simp: same_life_def split: if_splits)
    then show ?thesis using False below c' l1 by (simp add: same_life_def)
  qed
qed

lemma dtmf_life:
  "switch_channel_queue_dtmf l accept c d = (st, c') \<Longrightarrow> same_life c c'"
  "switch_channel_dequeue_dtmf l c = (st, d', c', acts) \<Longrightarrow> same_life c c'"
  by (auto simp: switch_channel_queue_dtmf_def switch_channel_dequeue_dtmf_def same_life_def Let_def
      split: if_splits prod.splits list.splits)

lemma handler_life:
  "switch_channel_add_state_handler c h = (i, c') \<Longrightarrow> same_life c c'"
  "switch_channel_clear_state_handler sticky c h = Inr c' \<Longrightarrow> same_life c c'"
  by (auto simp: switch_channel_add_state_handler_def switch_channel_clear_state_handler_def same_life_def
      bindE_eq_Inr Let_def split: if_splits option.splits)

lemma recursive_flag_life:
  "switch_channel_set_flag_recursive c flag = Inr c' \<Longrightarrow> same_life c c'"
  "switch_channel_clear_flag_recursive c flag = Inr c' \<Longrightarrow> same_life c c'"
  "same_life c (switch_channel_set_state_flag c flag)"
  by (auto simp: switch_channel_set_flag_recursive_def switch_channel_clear_flag_recursive_def
      switch_channel_set_state_flag_def same_life_def dest!: flag_variables_life split: if_splits)

lemmas step_life = set_running_life set_flag_life clear_flag_life recursive_flag_life add_variable_life
  dtmf_life handler_life

lemma call_step_inv:
  assumes "call_inv r" "call_step r r'"
  shows "call_inv r'"
  using assms(2,1)
proof (induction rule: call_step.induct)
  case (set_state c st s c' acts g)
  then show ?case using set_state_effect [OF set_state(1)] by (fastforce simp: call_inv_def)
next
  case (hangup sv c cause s c' acts g)
  then show ?case using hangup_effect [OF hangup(1)]
    by (auto simp: call_inv_def state_order split: if_splits)
qed (rule same_life_inv; simp add: step_life)+

interpretation call: step_system call_init call_step call_inv
proof
  show "call_inv r" if "call_init r" for r
    using that by (simp add: call_init_def call_inv_def)
qed (fact call_step_inv)

text \<open>
  C15. A call is hung up once and for all.  In every run of a channel, once a hangup has taken
  it down with a cause, the state stays at or beyond \<open>CS_HANGUP\<close>, the cause stays that one,
  a further hangup with another cause does nothing, and a request for any state up to
  \<open>CS_DESTROY\<close> returns without aborting and never moves the state back.
\<close>

theorem hangup_is_final:
  assumes "call_init r0" "call_step\<^sup>*\<^sup>* r0 (c, Some cause)"
  shows "CS_HANGUP \<le> ch_state c \<and> hangup_cause c = cause \<and>
    switch_channel_perform_hangup sv c other = Inr (ch_state c, c, []) \<and>
    (\<forall>st \<le> CS_DESTROY. \<exists>s c' acts. switch_channel_perform_set_state c st = Inr (s, c', acts) \<and>
       ch_state c \<le> s \<and> hangup_cause c' = cause)"
proof -
  have inv: "ch_state c \<le> CS_DESTROY" "CS_HANGUP \<le> ch_state c" "hangup_cause c = cause" "ocf_hangup c"
    using call.reachable_inv [OF assms] by (simp_all add: call_inv_def)
  have "\<exists>s c' acts. switch_channel_perform_set_state c st = Inr (s, c', acts)" if "st \<le> CS_DESTROY" for st
    using inv(1,2) that by (simp add: switch_channel_perform_set_state_def Let_def)
  then show ?thesis
    using inv set_state_effect [of c] by (fastforce simp: switch_channel_perform_hangup_def)
qed

definition idle_session :: session_view where
  "idle_session = \<lparr>in_session_thread = False, session_running = True, session_started = True,
                   codecs_set = False, time_now = 0\<rparr>"

lemma hangup_is_final_witness:
  "\<exists>s c acts. switch_channel_perform_hangup idle_session blank_channel 17 = Inr (s, c, acts) \<and>
     switch_channel_perform_hangup idle_session c 16 = Inr (ch_state c, c, []) \<and> hangup_cause c = 17"
proof -
  obtain s c acts where h: "switch_channel_perform_hangup idle_session blank_channel 17 = Inr (s, c, acts)"
    by (simp add: switch_channel_perform_hangup_def switch_channel_clear_flag_def blank_channel_def CF_defs
        flag_variables_def SWITCH_CAUSE_LOSE_RACE_def state_order Let_def case_prod_unfold)
  have "call_step (blank_channel, None) (c, Some 17)"
    using call_step.hangup [OF h, of None] by (simp add: blank_channel_def state_order)
  moreover have "call_init (blank_channel, None)" by (simp add: call_init_def blank_channel_def state_order)
  ultimately show ?thesis
    using hangup_is_final [OF _ r_into_rtranclp, of "(blank_channel, None)" c 17 idle_session 16] h by auto
qed

section \<open>The state handler table\<close>

text \<open>A channel whose table holds the given handlers.\<close>

definition with_handlers :: "switch_channel \<Rightarrow> nat list \<Rightarrow> switch_channel" where
  "with_handlers c hs =
     c\<lparr>state_handler_index := length hs,
       state_handlers := hs @ replicate (SWITCH_MAX_STATE_HANDLERS - length hs) 0\<rparr>"

lemma handler_pos_None: "h \<notin> set ts \<Longrightarrow> handler_pos ts h x = None"
  by (induction ts arbitrary: x) auto

lemma keep_handlers_spec:
  "length table = SWITCH_MAX_STATE_HANDLERS \<Longrightarrow> length new \<le> i \<Longrightarrow>
   keep_handlers keep table i n new =
     (if i + n \<le> SWITCH_MAX_STATE_HANDLERS \<or> n = 0 then Inr (new @ filter keep (take n (drop i table))) else Inl OutOfBounds)"
proof (induction n arbitrary: i new)
  case 0
  then show ?case by simp
next
  case (Suc n)
  then show ?case
    by (cases "i < SWITCH_MAX_STATE_HANDLERS") (auto simp: Cons_nth_drop_Suc [symmetric])
qed

lemma add_new_handler:
  assumes "length hs < SWITCH_MAX_STATE_HANDLERS" "h \<notin> set hs" "h \<noteq> 0"
  shows "switch_channel_add_state_handler (with_handlers c hs) h =
    (if length hs + 1 < SWITCH_MAX_STATE_HANDLERS then (int (length hs), with_handlers c (hs @ [h]))
     else (-1, (with_handlers c hs)\<lparr>state_handler_index := length hs + 1\<rparr>))"
proof -
  have "handler_pos (hs @ replicate (SWITCH_MAX_STATE_HANDLERS - length hs) 0) h 0 = None"
    using assms(2,3) by (intro handler_pos_None) auto
  moreover have "replicate (SWITCH_MAX_STATE_HANDLERS - length hs) (0 :: nat) =
      0 # replicate (SWITCH_MAX_STATE_HANDLERS - length (hs @ [h])) 0"
    using assms(1) by (simp add: Suc_diff_Suc [symmetric])
  ultimately show ?thesis
    by (simp add: switch_channel_add_state_handler_def with_handlers_def Let_def list_update_append)
qed

text \<open>
  C30. The state handler table works up to its last place and breaks behind it.  A new handler is
  stored behind the others, found under the index returned, and taken out again leaving the table
  as it was; the thirtieth is refused.  But every refused attempt still counts up
  \<open>state_handler_index\<close>: after the second one, clearing any handler reads the table, and
  writes its copy, out of bounds.
\<close>

theorem state_handler_table:
  assumes "length hs < SWITCH_MAX_STATE_HANDLERS" "h \<notin> set hs" "h \<noteq> 0" "0 \<notin> set hs"
  shows "(length hs + 1 < SWITCH_MAX_STATE_HANDLERS \<longrightarrow>
      switch_channel_add_state_handler (with_handlers c hs) h = (int (length hs), with_handlers c (hs @ [h])) \<and>
      switch_channel_get_state_handler (with_handlers c (hs @ [h])) (int (length hs)) = Inr h \<and>
      switch_channel_clear_state_handler sticky (with_handlers c (hs @ [h])) h = Inr (with_handlers c hs)) \<and>
    (length hs + 1 = SWITCH_MAX_STATE_HANDLERS \<longrightarrow>
      (let (r1, c1) = switch_channel_add_state_handler (with_handlers c hs) h;
           (r2, c2) = switch_channel_add_state_handler c1 h
       in r1 = -1 \<and> r2 = -1 \<and> switch_channel_clear_state_handler sticky c2 k = Inl OutOfBounds))"
proof (intro conjI impI)
  assume room: "length hs + 1 < SWITCH_MAX_STATE_HANDLERS"
  show "switch_channel_add_state_handler (with_handlers c hs) h = (int (length hs), with_handlers c (hs @ [h]))"
    using add_new_handler [OF assms(1-3)] room by simp
  show "switch_channel_get_state_handler (with_handlers c (hs @ [h])) (int (length hs)) = Inr h"
    using room by (simp add: switch_channel_get_state_handler_def with_handlers_def nth_append)
  have "filter (\<lambda>t. t \<noteq> h) hs = hs" using assms(2) by (intro filter_True) auto
  then show "switch_channel_clear_state_handler sticky (with_handlers c (hs @ [h])) h = Inr (with_handlers c hs)"
    using room assms(3)
    by (simp add: switch_channel_clear_state_handler_def keep_handlers_spec with_handlers_def
        del: keep_handlers.simps)
next
  assume full: "length hs + 1 = SWITCH_MAX_STATE_HANDLERS"
  let ?c1 = "(with_handlers c hs)\<lparr>state_handler_index := length hs + 1\<rparr>"
  have one: "switch_channel_add_state_handler (with_handlers c hs) h = (-1, ?c1)"
    using add_new_handler [OF assms(1-3)] full by simp
  have "handler_pos (state_handlers (with_handlers c hs)) h 0 = None"
    using assms(2,3) by (intro handler_pos_None) (auto simp: with_handlers_def)
  then have two: "switch_channel_add_state_handler ?c1 h = (-1, ?c1\<lparr>state_handler_index := length hs + 2\<rparr>)"
    using full by (simp add: switch_channel_add_state_handler_def Let_def)
  have "length (state_handlers (with_handlers c hs)) = SWITCH_MAX_STATE_HANDLERS"
    using assms(1) by (simp add: with_handlers_def)
  then have "switch_channel_clear_state_handler sticky (?c1\<lparr>state_handler_index := length hs + 2\<rparr>) k = Inl OutOfBounds"
    using full by (simp add: switch_channel_clear_state_handler_def keep_handlers_spec del: keep_handlers.simps)
  then show "let (r1, c1) = switch_channel_add_state_handler (with_handlers c hs) h;
           (r2, c2) = switch_channel_add_state_handler c1 h
       in r1 = -1 \<and> r2 = -1 \<and> switch_channel_clear_state_handler sticky c2 k = Inl OutOfBounds"
    by (simp only: one two Let_def prod.case)
qed

lemma state_handler_table_witness:
  "let (r1, c1) = switch_channel_add_state_handler (with_handlers blank_channel [1..<30]) 99;
       (r2, c2) = switch_channel_add_state_handler c1 99
   in r1 = -1 \<and> r2 = -1 \<and> switch_channel_clear_state_handler (\<lambda>_. False) c2 5 = Inl OutOfBounds"
  using state_handler_table [of "[1..<30]" 99 blank_channel "\<lambda>_. False" 5]
  by (simp add: SWITCH_MAX_STATE_HANDLERS_def)

section \<open>Digits\<close>

definition limits_ok :: "dtmf_limits \<Rightarrow> bool" where
  "limits_ok l \<longleftrightarrow>
     SWITCH_MIN_DTMF_DURATION \<le> min_dtmf_duration l \<and> min_dtmf_duration l \<le> max_dtmf_duration l \<and>
     max_dtmf_duration l \<le> SWITCH_MAX_DTMF_DURATION"

lemma clamp_setting_range:
  "SWITCH_MIN_DTMF_DURATION \<le> clamp_setting d" "clamp_setting d \<le> SWITCH_MAX_DTMF_DURATION"
  by (auto simp: clamp_setting_def SWITCH_MIN_DTMF_DURATION_def SWITCH_MAX_DTMF_DURATION_def)

lemma limits_ok_setters:
  assumes "limits_ok l"
  shows "limits_ok (snd (switch_core_max_dtmf_duration l d))"
    "limits_ok (snd (switch_core_min_dtmf_duration l d))"
    "limits_ok (snd (switch_core_default_dtmf_duration l d))"
  using assms clamp_setting_range [of d]
  by (auto simp: limits_ok_def switch_core_max_dtmf_duration_def switch_core_min_dtmf_duration_def
      switch_core_default_dtmf_duration_def Let_def)

lemma limits_ok_positive: "limits_ok l \<Longrightarrow> 0 < min_dtmf_duration l"
  by (simp add: limits_ok_def SWITCH_MIN_DTMF_DURATION_def word_le_nat_alt word_less_nat_alt)

lemma limit_duration_range:
  "limits_ok l \<Longrightarrow> min_dtmf_duration l \<le> duration (limit_duration l d) \<and> duration (limit_duration l d) \<le> max_dtmf_duration l"
  using limits_ok_positive [of l] by (auto simp: limits_ok_def limit_duration_def)

text \<open>The last \<open>n\<close> entries of a list.\<close>

definition last_n :: "nat \<Rightarrow> 'a list \<Rightarrow> 'a list" where
  "last_n n xs = drop (length xs - n) xs"

lemma last_n_append: "last_n n (last_n n xs @ ys) = last_n n (xs @ ys)"
  by (cases "n \<le> length xs") (simp_all add: last_n_def add.commute)

lemma push_digit_window:
  assumes "length q \<le> SWITCH_DTMF_LOG_LEN"
  shows "push_digit 0 q dt = (SWITCH_STATUS_SUCCESS, last_n SWITCH_DTMF_LOG_LEN (q @ [dt]))"
proof (cases "length q < SWITCH_DTMF_LOG_LEN")
  case True
  then show ?thesis by (simp add: push_digit.simps [of 0] last_n_def)
next
  case False
  then have q: "length q = SWITCH_DTMF_LOG_LEN" "q \<noteq> []" using assms by (auto simp: SWITCH_DTMF_LOG_LEN_def)
  then have "push_digit 0 q dt = push_digit 1 (tl q) dt" by (simp add: push_digit.simps [of 0])
  also have "\<dots> = (SWITCH_STATUS_SUCCESS, tl q @ [dt])"
    using q by (cases q) (auto simp: push_digit.simps [of "Suc 0"])
  finally show ?thesis using q by (cases q) (auto simp: last_n_def)
qed

text \<open>Queueing a list of digits, one after the other.\<close>

definition queue_all ::
    "dtmf_limits \<Rightarrow> (switch_dtmf \<Rightarrow> bool) \<Rightarrow> switch_dtmf list \<Rightarrow> switch_channel \<Rightarrow> switch_channel" where
  "queue_all l accept = fold (\<lambda>d c. snd (switch_channel_queue_dtmf l accept c d))"

lemma queue_dtmf_window:
  "length (dtmf_queue c) \<le> SWITCH_DTMF_LOG_LEN \<Longrightarrow>
   dtmf_queue (snd (switch_channel_queue_dtmf l accept c d)) =
     last_n SWITCH_DTMF_LOG_LEN (dtmf_queue c @ (if accept d \<and> is_dtmf (digit d) then [limit_duration l d] else []))"
  by (auto simp: switch_channel_queue_dtmf_def push_digit_window last_n_def)

lemma queue_all_window:
  "length (dtmf_queue c) \<le> SWITCH_DTMF_LOG_LEN \<Longrightarrow>
   dtmf_queue (queue_all l accept ds c) =
     last_n SWITCH_DTMF_LOG_LEN
       (dtmf_queue c @ map (limit_duration l) (filter (\<lambda>d. accept d \<and> is_dtmf (digit d)) ds))"
proof (induction ds arbitrary: c)
  case Nil
  then show ?case by (simp add: queue_all_def last_n_def)
next
  case (Cons d ds)
  let ?c = "snd (switch_channel_queue_dtmf l accept c d)"
  have "length (dtmf_queue ?c) \<le> SWITCH_DTMF_LOG_LEN"
    unfolding queue_dtmf_window [OF Cons.prems] by (simp add: last_n_def)
  from Cons.IH [OF this] show ?case
    by (simp add: queue_all_def queue_dtmf_window [OF Cons.prems] last_n_append)
qed

lemma dequeue_loop_takes:
  "fst (dequeue_string_loop l c n) = map digit (take n (dtmf_queue c)) \<and>
   dtmf_queue (snd (dequeue_string_loop l c n)) = drop n (dtmf_queue c)"
proof (induction n arbitrary: c)
  case 0
  then show ?case by simp
next
  case (Suc n)
  show ?case
  proof (cases "dtmf_queue c")
    case Nil
    then show ?thesis by (simp add: switch_channel_dequeue_dtmf_def)
  next
    case (Cons d q)
    have dg: "digit (limit_duration l d) = digit d" by (simp add: limit_duration_def)
    show ?thesis
      using Cons Suc.IH by (simp add: switch_channel_dequeue_dtmf_def Let_def case_prod_unfold dg)
  qed
qed

text \<open>
  C20. The digits of a channel are a sliding window.  Whatever the hooks refuse, after any digits
  have been queued the queue holds the last thousand that were valid and accepted, in order, each
  with its duration brought into the configured limits; and reading them into a buffer of
  \<open>n + 1\<close> bytes yields the first \<open>n\<close> of them and leaves the rest.  The setters of the
  configuration keep the limits in order and inside the fixed bounds.
\<close>

theorem dtmf_queue_is_window:
  assumes "length (dtmf_queue c) \<le> SWITCH_DTMF_LOG_LEN" "limits_ok l"
  shows "let c' = queue_all l accept ds c;
             q = last_n SWITCH_DTMF_LOG_LEN
                  (dtmf_queue c @ map (limit_duration l) (filter (\<lambda>d. accept d \<and> is_dtmf (digit d)) ds))
         in dtmf_queue c' = q \<and>
            (\<exists>c''. switch_channel_dequeue_dtmf_string l c' (n + 1) =
                     Inr (length (take n q), map digit (take n q), c'') \<and> dtmf_queue c'' = drop n q) \<and>
            min_dtmf_duration l \<le> duration (limit_duration l d) \<and>
            duration (limit_duration l d) \<le> max_dtmf_duration l \<and>
            limits_ok (snd (switch_core_max_dtmf_duration l v)) \<and>
            limits_ok (snd (switch_core_min_dtmf_duration l v)) \<and>
            limits_ok (snd (switch_core_default_dtmf_duration l v))"
proof -
  let ?c' = "queue_all l accept ds c"
  obtain s c'' where d: "dequeue_string_loop l ?c' n = (s, c'')" by fastforce
  then show ?thesis
    using queue_all_window [OF assms(1), of l accept ds] dequeue_loop_takes [of l ?c' n]
      limit_duration_range [OF assms(2)] limits_ok_setters [OF assms(2)]
    by (simp add: switch_channel_dequeue_dtmf_string_def Let_def)
qed

definition default_limits :: dtmf_limits where
  "default_limits = \<lparr>max_dtmf_duration = SWITCH_MAX_DTMF_DURATION, min_dtmf_duration = SWITCH_MIN_DTMF_DURATION,
                     default_dtmf_duration = 2000\<rparr>"

definition key :: "char \<Rightarrow> switch_dtmf" where
  "key k = \<lparr>digit = k, duration = 0, dtmf_flags = 0, dtmf_source = 0\<rparr>"

lemma dtmf_queue_is_window_witness:
  "\<exists>c''. switch_channel_dequeue_dtmf_string default_limits
       (queue_all default_limits (\<lambda>_. True) [key (CHR ''1''), key (CHR ''x''), key (CHR ''#'')] blank_channel) 10 =
     Inr (2, ''1#'', c'')"
proof -
  have ok: "limits_ok default_limits"
    by (simp add: limits_ok_def default_limits_def SWITCH_MIN_DTMF_DURATION_def SWITCH_MAX_DTMF_DURATION_def)
  have len: "length (dtmf_queue blank_channel) \<le> SWITCH_DTMF_LOG_LEN" by (simp add: blank_channel_def)
  have dg: "digit (limit_duration l d) = digit d" for l d by (simp add: limit_duration_def)
  show ?thesis
    using dtmf_queue_is_window [OF len ok, of "\<lambda>_. True" "[key (CHR ''1''), key (CHR ''x''), key (CHR ''#'')]" 9 "key (CHR ''1'')" 0]
    by (auto simp: Let_def is_dtmf_def key_def blank_channel_def last_n_def SWITCH_DTMF_LOG_LEN_def dg)
qed

section \<open>Names of causes and states\<close>

lemma chart_value_ci: "strcasecmp_eq s t \<Longrightarrow> chart_value chart s = chart_value chart t"
  by (induction chart s rule: chart_value.induct) (auto simp: strcasecmp_eq_def)

lemma c_tolower_digit: "47 < (of_char (c_tolower c) :: nat) \<and> (of_char (c_tolower c) :: nat) < 58 \<longleftrightarrow>
    47 < (of_char c :: nat) \<and> (of_char c :: nat) < 58"
proof -
  have "(of_char c :: nat) < 256" by simp
  then show ?thesis by (auto simp: c_tolower_def Let_def)
qed

lemma starts_with_digit_ci:
  assumes "strcasecmp_eq s t"
  shows "starts_with_digit s = starts_with_digit t"
proof (cases s)
  case Nil
  then show ?thesis using assms by (simp add: strcasecmp_eq_def)
next
  case (Cons a s')
  then obtain b t' where t: "t = b # t'" "c_tolower b = c_tolower a"
    using assms by (cases t) (auto simp: strcasecmp_eq_def)
  then show ?thesis
    using c_tolower_digit [of a] c_tolower_digit [of b] Cons by (simp add: starts_with_digit_def)
qed

text \<open>Among texts without small letters the comparison is equality.\<close>

definition no_small :: "string \<Rightarrow> bool" where
  "no_small s \<longleftrightarrow> list_all (\<lambda>c. \<not> (97 \<le> (of_char c :: nat) \<and> (of_char c :: nat) \<le> 122)) s"

lemma c_tolower_inj:
  assumes "c_tolower a = c_tolower b" "\<not> (97 \<le> (of_char a :: nat) \<and> (of_char a :: nat) \<le> 122)"
    "\<not> (97 \<le> (of_char b :: nat) \<and> (of_char b :: nat) \<le> 122)"
  shows "a = b"
proof -
  have l: "(of_char (c_tolower c) :: nat) = (if 65 \<le> (of_char c :: nat) \<and> (of_char c :: nat) \<le> 90 then of_char c + 32 else of_char c)"
    for c by (simp add: c_tolower_def Let_def)
  have n: "x = y" if "(if 65 \<le> x \<and> x \<le> 90 then x + 32 else x) = (if 65 \<le> y \<and> y \<le> 90 then y + 32 else y)"
    "\<not> (97 \<le> x \<and> x \<le> 122)" "\<not> (97 \<le> y \<and> y \<le> 122)" for x y :: nat
    using that by (auto split: if_splits)
  have "(of_char a :: nat) = of_char b"
    by (rule n [OF _ assms(2,3)]) (simp only: l [symmetric] assms(1))
  then show ?thesis by simp
qed

lemma no_small_eq: "no_small s \<Longrightarrow> no_small t \<Longrightarrow> strcasecmp_eq s t \<longleftrightarrow> s = t"
proof (induction s arbitrary: t)
  case Nil
  then show ?case by (auto simp: strcasecmp_eq_def)
next
  case (Cons a s)
  then show ?case
    using c_tolower_inj [of a] by (cases t) (auto simp: strcasecmp_eq_def no_small_def)
qed

lemma chart_value_member:
  "(n, v) \<in> set chart \<Longrightarrow> distinct (map fst chart) \<Longrightarrow> list_all no_small (map fst chart) \<Longrightarrow> chart_value chart n = Some v"
  by (induction chart n rule: chart_value.induct) (force simp: no_small_eq list_all_iff)+

lemma chart_name_member: "(n, v) \<in> set chart \<Longrightarrow> distinct (map snd chart) \<Longrightarrow> chart_name chart v = n"
  by (induction chart v rule: chart_name.induct) force+

lemma cause_chart_distinct: "distinct (map fst CAUSE_CHART)" "distinct (map snd CAUSE_CHART)"
  by (simp_all add: CAUSE_CHART_def)

lemma cause_chart_texts:
  "list_all no_small (map fst CAUSE_CHART)" "list_all (\<lambda>n. \<not> starts_with_digit n) (map fst CAUSE_CHART)"
  by (simp_all add: CAUSE_CHART_def no_small_def starts_with_digit_def)

lemma cause_chart_numbers:
  "list_all (\<lambda>v. starts_with_digit (show_nat v) \<and> atoi (show_nat v) = int v) (map snd CAUSE_CHART)"
  by code_simp

lemma state_names_consistent: "switch_channel_name_state (switch_channel_state_name s) = s"
proof -
  have d: "distinct (map fst (zip state_names all_states))" "list_all no_small (map fst (zip state_names all_states))"
    by (simp_all add: state_names_def all_states_def no_small_def)
  have "(switch_channel_state_name s, s) \<in> set (zip state_names all_states)"
    by (cases s) (simp_all add: switch_channel_state_name_def state_names_def all_states_def)
  then show ?thesis by (simp add: switch_channel_name_state_def chart_value_member [OF _ d])
qed

lemma chart_name_unknown: "v \<notin> snd ` set chart \<Longrightarrow> chart_name chart v = ''UNKNOWN''"
  by (induction chart v rule: chart_name.induct) force+

text \<open>
  C31. Names and numbers of causes agree: every entry of the table is printed by its name, any
  spelling of the name up to case and the decimal number are read back as the cause, causes
  outside the table are printed as unknown, and the names of the channel states are read back as
  the states.
\<close>

theorem cause_names_roundtrip:
  assumes "(n, v) \<in> set CAUSE_CHART" "strcasecmp_eq n s" "u \<notin> snd ` set CAUSE_CHART"
  shows "switch_channel_cause2str v = n \<and> switch_channel_str2cause s = int v \<and>
    switch_channel_str2cause (show_nat v) = int v \<and> switch_channel_cause2str u = ''UNKNOWN'' \<and>
    switch_channel_name_state (switch_channel_state_name st) = st"
proof -
  have e: "chart_name CAUSE_CHART v = n" "chart_value CAUSE_CHART n = Some v" "\<not> starts_with_digit n"
      "starts_with_digit (show_nat v)" "atoi (show_nat v) = int v"
    using assms(1) chart_name_member [OF assms(1)] chart_value_member [OF assms(1)]
      cause_chart_distinct cause_chart_texts cause_chart_numbers by (auto simp: list_all_iff)
  show ?thesis
    using e chart_value_ci [OF assms(2), of CAUSE_CHART] starts_with_digit_ci [OF assms(2)] chart_name_unknown [OF assms(3)]
    by (simp add: switch_channel_cause2str_def switch_channel_str2cause_def state_names_consistent)
qed

lemma cause_names_roundtrip_witness:
  "switch_channel_cause2str 17 = ''USER_BUSY'' \<and> switch_channel_str2cause ''user_busy'' = 17 \<and>
   switch_channel_cause2str 4 = ''UNKNOWN''"
proof -
  have "(''USER_BUSY'', 17) \<in> set CAUSE_CHART" "4 \<notin> snd ` set CAUSE_CHART"
    by (simp_all add: CAUSE_CHART_def)
  moreover have "strcasecmp_eq ''USER_BUSY'' ''user_busy''" by code_simp
  ultimately show ?thesis using cause_names_roundtrip by fastforce
qed

end
