(* ===== verification/Stun.thy ===== *)
theory Stun
  imports Event
begin

text \<open>
  The STUN packets of \<^verbatim>\<open>switch_stun.c\<close> and \<^verbatim>\<open>switch_stun.h\<close>.  A packet is the block of bytes it
  lies in; the structures of the header file are offsets into it, and an access outside the block
  is \<open>OutOfBounds\<close>.  Numbers in memory are read the way a little-endian host does, so that
  \<open>ntohs\<close> on a field in place exchanges its two bytes.  Parsing works in place, so its result is
  the changed block.  The exchange with a server, \<open>switch_stun_lookup\<close>, is left out.
\<close>

section \<open>Access to memory\<close>

type_synonym block = "switch_byte_t list"

definition rd8 :: "block \<Rightarrow> nat \<Rightarrow> nat outcome" where
  "rd8 m off = (if off < length m then Inr (unat (m ! off)) else Inl OutOfBounds)"

definition rd16 :: "block \<Rightarrow> nat \<Rightarrow> nat outcome" where
  "rd16 m off = (if off + 1 < length m then Inr (unat (m ! off) + 256 * unat (m ! (off + 1))) else Inl OutOfBounds)"

definition wr8 :: "block \<Rightarrow> nat \<Rightarrow> nat \<Rightarrow> block outcome" where
  "wr8 m off v = (if off < length m then Inr (m[off := of_nat v]) else Inl OutOfBounds)"

definition wr16 :: "block \<Rightarrow> nat \<Rightarrow> nat \<Rightarrow> block outcome" where
  "wr16 m off v =
     (if off + 1 < length m then Inr (m[off := of_nat v, off + 1 := of_nat (v div 256)]) else Inl OutOfBounds)"

text \<open>\<open>ntohs\<close>, which is \<open>htons\<close>, on a value; on a field in place; \<open>ntohl\<close> on a field in place.\<close>

definition ntohs :: "nat \<Rightarrow> nat" where
  "ntohs v = (v mod 256) * 256 + v div 256 mod 256"

definition swap16 :: "block \<Rightarrow> nat \<Rightarrow> block outcome" where
  "swap16 m off =
     (if off + 1 < length m then Inr (m[off := m ! (off + 1), off + 1 := m ! off]) else Inl OutOfBounds)"

definition swap32 :: "block \<Rightarrow> nat \<Rightarrow> block outcome" where
  "swap32 m off =
     (if off + 3 < length m
      then Inr (m[off := m ! (off + 3), off + 1 := m ! (off + 2), off + 2 := m ! (off + 1), off + 3 := m ! off])
      else Inl OutOfBounds)"

section \<open>Packets\<close>

definition SWITCH_STUN_PACKET_MIN_LEN :: nat where "SWITCH_STUN_PACKET_MIN_LEN = 20"
definition SWITCH_STUN_ATTRIBUTE_MIN_LEN :: uint32 where "SWITCH_STUN_ATTRIBUTE_MIN_LEN = 8"

definition PACKET_TYPES :: "(nat \<times> string) list" where
  "PACKET_TYPES =
   [(0x0001, ''BINDING_REQUEST''), (0x0101, ''BINDING_RESPONSE''), (0x0111, ''BINDING_ERROR_RESPONSE''),
    (0x0002, ''SHARED_SECRET_REQUEST''), (0x0102, ''SHARED_SECRET_RESPONSE''),
    (0x0112, ''SHARED_SECRET_ERROR_RESPONSE''), (0x0003, ''ALLOCATE_REQUEST''), (0x0103, ''ALLOCATE_RESPONSE''),
    (0x0113, ''ALLOCATE_ERROR_RESPONSE''), (0x0004, ''SEND_REQUEST''), (0x0104, ''SEND_RESPONSE''),
    (0x0114, ''SEND_ERROR_RESPONSE''), (0x0115, ''DATA_INDICATION'')]"

definition ATTR_TYPES :: "(nat \<times> string) list" where
  "ATTR_TYPES =
   [(0x0001, ''MAPPED_ADDRESS''), (0x0002, ''RESPONSE_ADDRESS''), (0x0003, ''CHANGE_REQUEST''),
    (0x0004, ''SOURCE_ADDRESS''), (0x0005, ''CHANGED_ADDRESS''), (0x0006, ''USERNAME''), (0x0007, ''PASSWORD''),
    (0x0008, ''MESSAGE_INTEGRITY''), (0x0009, ''ERROR_CODE''), (0x000a, ''UNKNOWN_ATTRIBUTES''),
    (0x000b, ''REFLECTED_FROM''), (0x000c, ''TRANSPORT_PREFERENCES''), (0x000d, ''LIFETIME''),
    (0x000e, ''ALTERNATE_SERVER''), (0x000f, ''MAGIC_COOKIE''), (0x0010, ''BANDWIDTH''),
    (0x0011, ''DESTINATION_ADDRESS''), (0x0012, ''SOURCE_ADDRESS2''), (0x0013, ''DATA''), (0x8001, ''OPTIONS'')]"

definition ERROR_TYPES :: "(nat \<times> string) list" where
  "ERROR_TYPES =
   [(400, ''BAD_REQUEST''), (401, ''UNAUTHORIZED''), (420, ''UNKNOWN_ATTRIBUTE''), (430, ''STALE_CREDENTIALS''),
    (431, ''INTEGRITY_CHECK_FAILURE''), (432, ''MISSING_USERNAME''), (433, ''USE_TLS''), (500, ''SERVER_ERROR''),
    (600, ''GLOBAL_FAILURE'')]"

datatype switch_stun_type_t = SWITCH_STUN_TYPE_PACKET_TYPE | SWITCH_STUN_TYPE_ATTRIBUTE | SWITCH_STUN_TYPE_ERROR

fun stun_map :: "switch_stun_type_t \<Rightarrow> (nat \<times> string) list" where
  "stun_map SWITCH_STUN_TYPE_PACKET_TYPE = PACKET_TYPES"
| "stun_map SWITCH_STUN_TYPE_ATTRIBUTE = ATTR_TYPES"
| "stun_map SWITCH_STUN_TYPE_ERROR = ERROR_TYPES"

definition switch_stun_value_to_name :: "switch_stun_type_t \<Rightarrow> nat \<Rightarrow> string" where
  "switch_stun_value_to_name type v = (case map_of (stun_map type) v of Some n \<Rightarrow> n | None \<Rightarrow> ''INVALID'')"

text \<open>
  The macro \<open>switch_stun_attribute_padded_length\<close>: the length plus three in sixteen bits, masked
  with the complement of \<open>sizeof(uint32_t)\<close>, which is four.
\<close>

definition switch_stun_attribute_padded_length :: "nat \<Rightarrow> nat" where
  "switch_stun_attribute_padded_length l = unat ((of_nat (l + 3) :: uint16) AND NOT 4)"

text \<open>
  The macro \<open>switch_stun_packet_next_attribute\<close> on the attribute at \<open>off\<close> whose length in
  memory is \<open>l\<close>: the offset of the next one if there is one.  The length of the next attribute is
  read as it stands in memory, and its padded length counts structures of four bytes.
\<close>

definition switch_stun_packet_next_attribute :: "block \<Rightarrow> nat \<Rightarrow> nat \<Rightarrow> nat \<Rightarrow> nat option outcome" where
  "switch_stun_packet_next_attribute m off l endp =
     (let next = off + 4 + switch_stun_attribute_padded_length l
      in if \<not> next < endp then Inr None
         else bindE (rd16 m (next + 2)) (\<lambda>raw.
           Inr (if raw \<noteq> 0 \<and> next + 4 * switch_stun_attribute_padded_length raw < endp
                then Some next else None)))"

section \<open>Parsing\<close>

text \<open>
  The checks on one attribute of type \<open>ty\<close> and length \<open>l\<close>, its value at \<open>val\<close>; \<open>None\<close> when the
  packet is rejected.
\<close>

definition parse_attribute :: "block \<Rightarrow> nat \<Rightarrow> nat \<Rightarrow> nat \<Rightarrow> block option outcome" where
  "parse_attribute m ty l val =
     (if ty \<in> {0x0001, 0x0002, 0x0004, 0x0005, 0x000b, 0x000e, 0x0011, 0x0012} then
        bindE (rd8 m (val + 1)) (\<lambda>family.
          if family \<noteq> 1 \<and> family \<noteq> 2 then Inr None
          else if l \<noteq> (if family = 1 then 4 else 16) + 4 then Inr None
          else bindE (swap16 m (val + 2)) (\<lambda>m. Inr (Some m)))
      else if ty \<in> {0x0003, 0x000d, 0x0010, 0x8001} then
        if l \<noteq> 4 then Inr None else bindE (swap32 m val) (\<lambda>m. Inr (Some m))
      else if ty \<in> {0x0006, 0x0007} then Inr (if l mod 4 \<noteq> 0 then None else Some m)
      else if ty \<in> {0x0013, 0x0009, 0x000c} then Inr (Some m)
      else if ty = 0x0008 then Inr (if l \<noteq> 20 then None else Some m)
      else if ty = 0x000f then Inr (if l \<noteq> 4 then None else Some m)
      else if ty = 0x000a then Inr (if l mod 2 \<noteq> 0 then None else Some m)
      else Inr (if ty \<le> 0x7FFF then None else Some m))"

text \<open>
  The loop over the attributes from the one at \<open>off\<close> on, in a buffer of \<open>len\<close> bytes; the result
  is the changed block and the bytes left, \<open>None\<close> when the packet is rejected.
\<close>

function parse_attributes :: "nat \<Rightarrow> block \<Rightarrow> nat \<Rightarrow> uint32 \<Rightarrow> (block \<times> uint32) option outcome" where
  "parse_attributes len m off bytes_left =
     bindE (swap16 m (off + 2)) (\<lambda>m.
     bindE (swap16 m off) (\<lambda>m.
     bindE (rd16 m (off + 2)) (\<lambda>l.
     bindE (rd16 m off) (\<lambda>ty.
       let bytes_left = bytes_left - 4;
           padded = switch_stun_attribute_padded_length l
       in if l = 0 \<or> of_nat padded > bytes_left then Inr None
          else bindE (parse_attribute m ty l (off + 4)) (\<lambda>r.
            case r of None \<Rightarrow> Inr None
            | Some m \<Rightarrow>
                let bytes_left = bytes_left - of_nat padded
                in if bytes_left \<ge> SWITCH_STUN_ATTRIBUTE_MIN_LEN then
                     bindE (switch_stun_packet_next_attribute m off l len) (\<lambda>n.
                       case n of None \<Rightarrow> Inr (Some (m, bytes_left))
                       | Some next \<Rightarrow>
                           if off < next \<and> next < len then parse_attributes len m next bytes_left
                           else Inr (Some (m, bytes_left)))
                   else Inr (Some (m, bytes_left)))))))"
  by pat_completeness auto
termination by (relation "measure (\<lambda>(len, m, off, bl). len - off)") auto

declare parse_attributes.simps [simp del]

definition switch_stun_packet_parse :: "block \<Rightarrow> block option outcome" where
  "switch_stun_packet_parse m =
     (let len = length m
      in if len < SWITCH_STUN_PACKET_MIN_LEN then Inr None
         else
           bindE (swap16 m 0) (\<lambda>m. bindE (swap16 m 2) (\<lambda>m.
           bindE (rd16 m 0) (\<lambda>ty. bindE (rd16 m 2) (\<lambda>hlen.
             let bytes_left = (of_nat len :: uint32) - of_nat (hlen + 20)
             in if ty \<notin> fst ` set PACKET_TYPES then Inr None
                else if bytes_left \<le> 0 then Inr None
                else if hlen = 0 then Inr None
                else if bytes_left < SWITCH_STUN_ATTRIBUTE_MIN_LEN then Inr None
                else bindE (parse_attributes len m 20 bytes_left) (\<lambda>r.
                  case r of None \<Rightarrow> Inr None
                  | Some (m, bytes_left) \<Rightarrow>
                      let used = (of_nat len :: uint32) - bytes_left
                      in if (of_nat (hlen + 20) :: uint32) > used
                         then bindE (wr16 m 2 (unat (used - 20) mod 2 ^ 16)) (\<lambda>m. Inr (Some m))
                         else Inr (Some m)))))))"

section \<open>Reading and building attributes\<close>

text \<open>The attribute at \<open>off\<close>.\<close>

definition switch_stun_packet_attribute_get_mapped_address :: "block \<Rightarrow> nat \<Rightarrow> (string \<times> nat) outcome" where
  "switch_stun_packet_attribute_get_mapped_address m off =
     bindE (rd8 m (off + 8)) (\<lambda>a. bindE (rd8 m (off + 9)) (\<lambda>b.
     bindE (rd8 m (off + 10)) (\<lambda>c. bindE (rd8 m (off + 11)) (\<lambda>d.
     bindE (rd16 m (off + 6)) (\<lambda>port.
       Inr (show_nat a @ ''.'' @ show_nat b @ ''.'' @ show_nat c @ ''.'' @ show_nat d, port))))))"

definition switch_stun_packet_attribute_get_username :: "block \<Rightarrow> nat \<Rightarrow> nat \<Rightarrow> block outcome" where
  "switch_stun_packet_attribute_get_username m off len =
     bindE (rd16 m (off + 2)) (\<lambda>l. mem_read m (off + 4) (if l < len then l else len))"

definition switch_stun_packet_build_header :: "nat \<Rightarrow> block \<Rightarrow> block \<Rightarrow> block outcome" where
  "switch_stun_packet_build_header ty ident m =
     bindE (wr16 m 0 (ntohs ty)) (\<lambda>m. bindE (wr16 m 2 0) (\<lambda>m. mem_write m 4 (take 16 ident)))"

text \<open>The start of a new attribute behind the ones there are: its offset, type and length written.\<close>

definition begin_attribute :: "block \<Rightarrow> nat \<Rightarrow> nat \<Rightarrow> (block \<times> nat) outcome" where
  "begin_attribute m ty l =
     bindE (rd16 m 2) (\<lambda>raw.
       let off = 20 + ntohs raw
       in bindE (wr16 m off (ntohs ty)) (\<lambda>m. bindE (wr16 m (off + 2) (ntohs l)) (\<lambda>m. Inr (m, off))))"

text \<open>\<open>packet->header.length += htons(4) + attribute->length\<close>, on numbers in network order.\<close>

definition grow_packet :: "block \<Rightarrow> nat \<Rightarrow> block outcome" where
  "grow_packet m off =
     bindE (rd16 m 2) (\<lambda>h. bindE (rd16 m (off + 2)) (\<lambda>l. wr16 m 2 ((h + ntohs 4 + l) mod 2 ^ 16)))"

fun write_quad :: "nat \<Rightarrow> string \<Rightarrow> block \<Rightarrow> nat \<Rightarrow> block outcome" where
  "write_quad 0 p m at = Inr m"
| "write_quad (Suc n) p m at =
     bindE (wr8 m at (nat (atoi p mod 256))) (\<lambda>m.
       case strchr p (CHR ''.'') of None \<Rightarrow> Inr m | Some i \<Rightarrow> write_quad n (drop (i + 1) p) m (at + 1))"

definition switch_stun_packet_attribute_add_binded_address :: "block \<Rightarrow> string \<Rightarrow> nat \<Rightarrow> block outcome" where
  "switch_stun_packet_attribute_add_binded_address m ipstr port =
     bindE (begin_attribute m 0x0001 8) (\<lambda>(m, off).
     bindE (wr16 m (off + 6) (ntohs port)) (\<lambda>m.
     bindE (wr8 m (off + 5) 1) (\<lambda>m.
     bindE (write_quad 4 ipstr m (off + 8)) (\<lambda>m. grow_packet m off))))"

definition switch_stun_packet_attribute_add_username :: "block \<Rightarrow> block \<Rightarrow> nat \<Rightarrow> (nat \<times> block) outcome" where
  "switch_stun_packet_attribute_add_username m username ulen =
     (if ulen mod 4 \<noteq> 0 then Inr (0, m)
      else bindE (begin_attribute m 0x0006 ulen) (\<lambda>(m, off).
           bindE (mem_write m (off + 4) (take ulen username)) (\<lambda>m.
           bindE (grow_packet m off) (\<lambda>m. Inr (1, m)))))"

definition switch_stun_packet_length :: "block \<Rightarrow> nat outcome" where
  "switch_stun_packet_length m = bindE (rd16 m 2) (\<lambda>raw. Inr (ntohs raw + 20))"

section \<open>Decimal texts\<close>

lemma digit_char: "d < 10 \<Longrightarrow> c_isdigit (char_of (d + 48)) \<and> (of_char (char_of (d + 48)) :: int) = int d + 48"
  using of_nat_of_char [of "char_of (d + 48)", where 'a = int] by (simp add: c_isdigit_def Let_def)

lemma decimal_show_nat: "decimal acc (show_nat n @ t) = decimal (acc * 10 ^ length (show_nat n) + int n) t"
proof (induction n arbitrary: acc t rule: show_nat.induct)
  case (1 n)
  show ?case
  proof (cases "n < 10")
    case True
    then show ?thesis using digit_char [of n] by (simp add: show_nat.simps [of n])
  next
    case False
    have "decimal acc (show_nat n @ t) = decimal acc (show_nat (n div 10) @ char_of (n mod 10 + 48) # t)"
      using False by (simp add: show_nat.simps [of n])
    also have "\<dots> = decimal ((acc * 10 ^ length (show_nat (n div 10)) + int (n div 10)) * 10 + int (n mod 10)) t"
      using 1 [OF False] digit_char [of "n mod 10"] by simp
    also have "(acc * 10 ^ length (show_nat (n div 10)) + int (n div 10)) * 10 + int (n mod 10) =
        acc * 10 ^ length (show_nat n) + int n"
      using False by (simp add: show_nat.simps [of n] algebra_simps) presburger
    finally show ?thesis .
  qed
qed

lemma show_nat_digits: "list_all c_isdigit (show_nat n) \<and> show_nat n \<noteq> []"
proof (induction n rule: show_nat.induct)
  case (1 n)
  then show ?case
    using digit_char [of n] digit_char [of "n mod 10"] by (cases "n < 10") (simp_all add: show_nat.simps [of n])
qed

lemma c_isdigit_other: "c_isdigit c \<Longrightarrow> \<not> c_isspace c \<and> c \<noteq> CHR ''-'' \<and> c \<noteq> CHR ''+'' \<and> c \<noteq> CHR ''.''"
  by (auto simp: c_isdigit_def c_isspace_def Let_def)

lemma atoi_show_nat:
  assumes "n < 2 ^ 31" "t = [] \<or> \<not> c_isdigit (hd t)"
  shows "atoi (show_nat n @ t) = int n"
proof -
  obtain c s where c: "show_nat n = c # s" "c_isdigit c" using show_nat_digits [of n] by (cases "show_nat n") auto
  have "strtol10 (show_nat n @ t) = decimal 0 (show_nat n @ t)"
    using c c_isdigit_other [OF c(2)] by (simp add: strtol10_def)
  also have "\<dots> = int n" using assms(2) decimal_show_nat [of 0 n t] by (cases t) auto
  finally show ?thesis using assms(1) by (simp add: atoi_def)
qed

lemma strchr_dot: "strchr (show_nat n @ CHR ''.'' # t) (CHR ''.'') = Some (length (show_nat n))"
proof -
  have "strchr (s @ CHR ''.'' # t) (CHR ''.'') = Some (length s)" if "list_all c_isdigit s" for s
    using that c_isdigit_other by (induction s) auto
  then show ?thesis using show_nat_digits by blast
qed

lemma strchr_no_dot: "strchr (show_nat n) (CHR ''.'') = None"
proof -
  have "strchr s (CHR ''.'') = None" if "list_all c_isdigit s" for s
    using that c_isdigit_other by (induction s) auto
  then show ?thesis using show_nat_digits by blast
qed

section \<open>Padding\<close>

lemma unat_clear_bit2:
  fixes x :: uint16
  shows "unat (x AND NOT 4) = unat x - 4 * (unat x div 4 mod 2)"
proof -
  have bit4: "bit (4 :: uint16) n \<longleftrightarrow> n = 2" for n
    using bit_exp_iff [of 2 n, where 'a = "16 word"] by (auto simp: possible_bit_def)
  have "(x AND NOT 4) + (x AND 4) = (x AND NOT 4) OR (x AND 4)"
    by (rule disjunctive_add) (auto simp: bit_simps bit4)
  also have "\<dots> = x"
    by (rule bit_eqI) (auto simp: bit_simps)
  finally have s: "x = (x AND NOT 4) + (x AND 4)" ..
  have "n AND 4 = 4 * (n div 4 mod 2)" for n :: nat
    by (simp add: and_rec [of n 4] and_rec [of "n div 2" 2] and_one_eq div_mult2_eq [symmetric])
  then have u: "unat (x AND 4) = 4 * (unat x div 4 mod 2)" by (simp add: unsigned_and_eq)
  have "x AND NOT 4 \<le> x" by (rule word_and_le2)
  then have "unat x = unat (x AND NOT 4) + unat (x AND 4)" using s by (metis unat_plus_simple)
  then show ?thesis using u by simp
qed

lemma padded_length_value:
  assumes "l + 3 < 2 ^ 16"
  shows "switch_stun_attribute_padded_length l = l + 3 - 4 * ((l + 3) div 4 mod 2)"
proof -
  have "unat (of_nat (l + 3) :: uint16) = l + 3" using assms by (simp add: unat_of_nat take_bit_eq_mod del: of_nat_add)
  then show ?thesis by (simp only: switch_stun_attribute_padded_length_def unat_clear_bit2)
qed

text \<open>
  The padded length of an attribute is wrong for seven lengths out of eight.  The macro masks
  with the complement of four instead of three, so it clears one bit in the middle of the number:
  it gives the length rounded up to a multiple of four only when the length is five modulo eight,
  and for no length that already is a multiple of four, which is what every attribute of this
  file has.  So the attribute that follows such an attribute is never looked for where it is.
\<close>

theorem padded_length_wrong:
  assumes "l + 3 < 2 ^ 16"
  shows "(switch_stun_attribute_padded_length l = 4 * ((l + 3) div 4) \<longleftrightarrow> l mod 8 = 5) \<and>
    (l mod 4 = 0 \<longrightarrow>
      switch_stun_attribute_padded_length l = (if l mod 8 = 0 then l + 3 else l - 1) \<and>
      switch_stun_packet_next_attribute m off l e \<noteq> Inr (Some (off + 4 + l)))"
proof -
  define q r where "q = l div 8" and "r = l mod 8"
  have l: "l = 8 * q + r" and r: "r < 8" by (simp_all add: q_def r_def)
  have d: "(l + 3) div 4 = 2 * q + (r + 3) div 4" by (simp add: l)
  have p: "switch_stun_attribute_padded_length l = 8 * q + r + 3 - 4 * ((r + 3) div 4 mod 2)"
  proof -
    have "(2 * q + (r + 3) div 4) mod 2 = (r + 3) div 4 mod 2" by simp
    then show ?thesis unfolding padded_length_value [OF assms] d by (simp add: l)
  qed
  have rs: "r = 0 \<or> r = 1 \<or> r = 2 \<or> r = 3 \<or> r = 4 \<or> r = 5 \<or> r = 6 \<or> r = 7" using r by linarith
  have lm: "l mod 8 = r" "l mod 4 = r mod 4" by (simp_all add: l r mod_mult_self4 mod_add_eq [symmetric, of "8 * q"])
  have 1: "switch_stun_attribute_padded_length l = 4 * ((l + 3) div 4) \<longleftrightarrow> l mod 8 = 5"
    using rs unfolding p d lm by (elim disjE) simp_all
  have 2: "switch_stun_attribute_padded_length l = (if l mod 8 = 0 then l + 3 else l - 1)" if "l mod 4 = 0"
    using rs that unfolding p lm by (elim disjE) (simp_all add: l)
  have 3: "l \<noteq> switch_stun_attribute_padded_length l" if "l mod 4 = 0"
    using rs that unfolding p lm by (elim disjE) (simp_all add: l)
  show ?thesis
    using 1 2 3 by (auto simp: switch_stun_packet_next_attribute_def Let_def bindE_eq_Inr split: if_splits)
qed

lemma padded_length_wrong_witness:
  "switch_stun_attribute_padded_length 32 = 35 \<and> switch_stun_attribute_padded_length 20 = 19"
  using padded_length_wrong [of 32 "[]" 0 0] padded_length_wrong [of 20 "[]" 0 0] by simp


section \<open>Parsing\<close>

lemma swap16_in: "off + 1 < length m \<Longrightarrow> swap16 m off = Inr (m[off := m ! (off + 1), off + 1 := m ! off])"
  by (simp add: swap16_def)

lemma rd16_in: "off + 1 < length m \<Longrightarrow> rd16 m off = Inr (unat (m ! off) + 256 * unat (m ! (off + 1)))"
  by (simp add: rd16_def)

text \<open>The numbers of the header in network order.\<close>

definition header_type :: "block \<Rightarrow> nat" where
  "header_type m = 256 * unat (m ! 0) + unat (m ! 1)"

definition header_length :: "block \<Rightarrow> nat" where
  "header_length m = 256 * unat (m ! 2) + unat (m ! 3)"

definition host_header :: "block \<Rightarrow> block" where
  "host_header m = m[0 := m ! 1, 1 := m ! 0, 2 := m ! 3, 3 := m ! 2]"

lemma byte_bound: "unat (b :: switch_byte_t) < 256"
  using unsigned_less [of b, where ?'a = nat] by simp

lemma header_length_bound: "header_length m < 2 ^ 16"
  using byte_bound [of "m ! 2"] byte_bound [of "m ! 3"] by (simp add: header_length_def)

text \<open>The parser after the header has been brought into host order.\<close>

lemma parse_header:
  assumes "20 \<le> length m"
  shows "switch_stun_packet_parse m =
    (let bytes_left = (of_nat (length m) :: uint32) - of_nat (header_length m + 20)
     in if header_type m \<notin> fst ` set PACKET_TYPES then Inr None
        else if bytes_left \<le> 0 then Inr None
        else if header_length m = 0 then Inr None
        else if bytes_left < SWITCH_STUN_ATTRIBUTE_MIN_LEN then Inr None
        else bindE (parse_attributes (length m) (host_header m) 20 bytes_left) (\<lambda>r.
          case r of None \<Rightarrow> Inr None
          | Some (m', bytes_left) \<Rightarrow>
              let used = (of_nat (length m) :: uint32) - bytes_left
              in if (of_nat (header_length m + 20) :: uint32) > used
                 then bindE (wr16 m' 2 (unat (used - 20) mod 2 ^ 16)) (\<lambda>m. Inr (Some m))
                 else Inr (Some m')))"
proof -
  have ne: "m \<noteq> []" using assms by auto
  have 0: "swap16 m 0 = Inr (m[0 := m ! 1, 1 := m ! 0])" using assms by (simp add: swap16_def)
  have 1: "swap16 (m[0 := m ! 1, 1 := m ! 0]) 2 = Inr (host_header m)"
    using assms by (simp add: swap16_def host_header_def numeral_eq_Suc)
  have 2: "rd16 (host_header m) 0 = Inr (header_type m)" "rd16 (host_header m) 2 = Inr (header_length m)"
    using assms ne by (simp_all add: rd16_def host_header_def header_type_def header_length_def nth_list_update)
  have 3: "\<not> length m < SWITCH_STUN_PACKET_MIN_LEN" using assms by (simp add: SWITCH_STUN_PACKET_MIN_LEN_def)
  show ?thesis unfolding switch_stun_packet_parse_def by (simp only: 0 1 2 3 Let_def bindE_simps if_False)
qed

text \<open>
  The length check of the parser is upside down.  A packet whose attributes fill the buffer
  exactly is always rejected, because nothing is left behind them; and a length field beyond the
  end of the buffer makes the unsigned difference wrap around, passes for plenty of room, and for
  a buffer that ends within the first attribute the parser writes outside it.
\<close>

theorem parse_length_check:
  assumes "20 \<le> length m" "header_type m \<in> fst ` set PACKET_TYPES"
  shows "(header_length m + 20 = length m \<longrightarrow> switch_stun_packet_parse m = Inr None) \<and>
    (length m < 24 \<and> length m < header_length m + 20 \<longrightarrow> switch_stun_packet_parse m = Inl OutOfBounds)"
proof (intro conjI impI)
  assume "header_length m + 20 = length m"
  then show "switch_stun_packet_parse m = Inr None" by (simp add: parse_header [OF assms(1)])
next
  assume a: "length m < 24 \<and> length m < header_length m + 20"
  let ?bl = "(of_nat (length m) :: uint32) - of_nat (header_length m + 20)"
  let ?n = "length m + (2 ^ 32 - (header_length m + 20))"
  have "(of_nat ?n :: uint32) = of_nat (length m) + (of_nat (2 ^ 32) - of_nat (header_length m + 20))"
    using header_length_bound [of m] by (subst of_nat_add, subst of_nat_diff) simp_all
  then have "?bl = of_nat ?n" by simp
  moreover have "8 \<le> ?n" "?n < 2 ^ 32" using a header_length_bound [of m] by auto
  ultimately have "unat ?bl \<ge> 8" by (simp only: unat_of_nat take_bit_eq_mod) simp
  then have "\<not> ?bl < SWITCH_STUN_ATTRIBUTE_MIN_LEN" "\<not> ?bl \<le> 0"
    by (auto simp: SWITCH_STUN_ATTRIBUTE_MIN_LEN_def word_less_nat_alt word_le_nat_alt)
  moreover have "header_length m \<noteq> 0" using a assms(1) by auto
  moreover have "parse_attributes (length m) (host_header m) 20 ?bl = Inl OutOfBounds"
    using a by (simp add: parse_attributes.simps swap16_def host_header_def)
  ultimately show "switch_stun_packet_parse m = Inl OutOfBounds"
    using assms(2) by (simp add: parse_header [OF assms(1)] Let_def)
qed


lemma parse_length_check_witness:
  "switch_stun_packet_parse ([0, 1, 255, 255] @ replicate 16 0) = Inl OutOfBounds"
  using parse_length_check [of "[0, 1, 255, 255] @ replicate 16 0"]
  by (simp add: header_type_def header_length_def PACKET_TYPES_def)

section \<open>Addresses\<close>

lemma list_update_numeral: "(x # xs)[numeral v := y] = x # xs[pred_numeral v := y]"
  by (simp add: numeral_eq_Suc)

lemma unat_of_nat8: "unat (of_nat x :: switch_byte_t) = x mod 256"
  by (simp add: unat_of_nat take_bit_eq_mod)

definition dotted :: "nat \<Rightarrow> nat \<Rightarrow> nat \<Rightarrow> nat \<Rightarrow> string" where
  "dotted a b c d = show_nat a @ ''.'' @ show_nat b @ ''.'' @ show_nat c @ ''.'' @ show_nat d"

lemma not_digit_dot: "\<not> c_isdigit (CHR ''.'')" by (simp add: c_isdigit_def)

lemma write_quad_dotted:
  assumes "a < 256" "b < 256" "c < 256" "d < 256" "at + 3 < length m"
  shows "write_quad 4 (dotted a b c d) m at =
    Inr (m[at := of_nat a, at + 1 := of_nat b, at + 2 := of_nat c, at + 3 := of_nat d])"
proof -
  have n: "atoi (show_nat x @ CHR ''.'' # t) = int x" "atoi (show_nat x) = int x" if "x < 256" for x t
    using atoi_show_nat [of x "CHR ''.'' # t"] atoi_show_nat [of x "[]"] that not_digit_dot by auto
  have s: "(show_nat x @ CHR ''.'' # t) = (show_nat x @ [CHR ''.'']) @ t" for x t by simp
  have four: "4 = Suc (Suc (Suc (Suc 0)))" by simp
  show ?thesis
    using assms(5) unfolding dotted_def four
    by (simp add: wr8_def assms(1-4) n strchr_dot strchr_no_dot numeral_2_eq_2 numeral_3_eq_3)
qed

text \<open>A packet with one mapped address in front of zero bytes, as \<open>build_header\<close> and
  \<open>add_binded_address\<close> leave it.\<close>

definition address_packet :: "block \<Rightarrow> nat \<Rightarrow> nat \<Rightarrow> nat \<Rightarrow> nat \<Rightarrow> nat \<Rightarrow> nat \<Rightarrow> block" where
  "address_packet ident a b c d port k =
     [1, 1, 0, 12] @ ident @ [0, 1, 0, 8, 0, 1, of_nat (ntohs port), of_nat (ntohs port div 256),
       of_nat a, of_nat b, of_nat c, of_nat d] @ replicate k 0"

lemma build_address_packet:
  assumes "length ident = 16" "a < 256" "b < 256" "c < 256" "d < 256" "port < 2 ^ 16"
  shows "bindE (switch_stun_packet_build_header 0x0101 ident (replicate (32 + k) 0))
      (\<lambda>m. switch_stun_packet_attribute_add_binded_address m (dotted a b c d) port) =
    Inr (address_packet ident a b c d port k)"
proof -
  have z: "replicate (32 + k) (0 :: switch_byte_t) = replicate 32 0 @ replicate k 0" by (simp add: replicate_add)
  have z32: "replicate 32 (0 :: switch_byte_t) = [0, 0, 0, 0] @ replicate 16 0 @ [0, 0, 0, 0, 0, 0, 0, 0, 0, 0, 0, 0]"
    by (simp add: numeral_eq_Suc)
  let ?m1 = "[1, 1, 0, 0] @ ident @ [0, 0, 0, 0, 0, 0, 0, 0, 0, 0, 0, 0] @ replicate k 0"
  have h: "switch_stun_packet_build_header 0x0101 ident (replicate (32 + k) 0) = Inr ?m1"
    using assms(1) unfolding z z32
    by (simp add: switch_stun_packet_build_header_def wr16_def ntohs_def list_update_numeral)
  show ?thesis
    using assms(1) write_quad_dotted [OF assms(2-5)]
    unfolding h
    by (simp add: switch_stun_packet_attribute_add_binded_address_def begin_attribute_def grow_packet_def
        rd16_def wr16_def wr8_def ntohs_def list_update_append nth_append list_update_numeral address_packet_def unat_of_nat8)
qed


lemma parse_address_attribute:
  fixes p1 p2 a b c d :: switch_byte_t and ident :: block
  assumes "length ident = 16" "15 \<le> k" "k < 2 ^ 31"
  shows "parse_attributes (32 + k) ([1, 1, 12, 0] @ ident @ [0, 1, 0, 8, 0, 1, p1, p2, a, b, c, d] @ replicate k 0) 20 (of_nat k) =
    Inr (Some ([1, 1, 12, 0] @ ident @ [1, 0, 8, 0, 0, 1, p2, p1, a, b, c, d] @ replicate k 0, of_nat (k - 15)))"
proof -
  let ?m = "\<lambda>v. [1, 1, 12, 0] @ ident @ v @ replicate k (0 :: switch_byte_t)"
  have s1: "swap16 (?m [0, 1, 0, 8, 0, 1, p1, p2, a, b, c, d]) (20 + 2) = Inr (?m [0, 1, 8, 0, 0, 1, p1, p2, a, b, c, d])"
    and s2: "swap16 (?m [0, 1, 8, 0, 0, 1, p1, p2, a, b, c, d]) 20 = Inr (?m [1, 0, 8, 0, 0, 1, p1, p2, a, b, c, d])"
    and r1: "rd16 (?m [1, 0, 8, 0, 0, 1, p1, p2, a, b, c, d]) (20 + 2) = Inr 8"
    and r2: "rd16 (?m [1, 0, 8, 0, 0, 1, p1, p2, a, b, c, d]) 20 = Inr 1"
    and at: "parse_attribute (?m [1, 0, 8, 0, 0, 1, p1, p2, a, b, c, d]) 1 8 (20 + 4) =
      Inr (Some (?m [1, 0, 8, 0, 0, 1, p2, p1, a, b, c, d]))"
    using assms(1)
    by (simp_all add: swap16_def rd16_def rd8_def parse_attribute_def list_update_append nth_append list_update_numeral)
  have pad: "switch_stun_attribute_padded_length 8 = 11" by (simp add: padded_length_value)
  have nx: "switch_stun_packet_next_attribute (?m [1, 0, 8, 0, 0, 1, p2, p1, a, b, c, d]) 20 8 (32 + k) = Inr None"
    using assms(1,2) by (simp add: switch_stun_packet_next_attribute_def pad rd16_def nth_append)
  have bl: "(of_nat k :: uint32) - 4 = of_nat (k - 4)" "(of_nat (k - 4) :: uint32) - of_nat 11 = of_nat (k - 15)"
    using assms(2) by (simp_all add: of_nat_diff)
  have room: "\<not> (of_nat 11 :: uint32) > of_nat (k - 4)"
  proof -
    have "unat (of_nat (k - 4) :: uint32) = k - 4"
      using assms(3) by (simp only: unat_of_nat take_bit_eq_mod) simp
    then show ?thesis using assms(2) by (simp only: word_less_nat_alt) simp
  qed
  show ?thesis
    by (subst parse_attributes.simps) (simp only: s1 s2 r1 r2 at pad bl room nx bindE_simps Let_def option.case
        if_False if_True HOL.simp_thms if_cancel, simp)
qed

text \<open>
  C23. An address survives the journey.  A binding response built with an IPv4 address and a port
  in a zeroed buffer with at least fifteen bytes to spare is accepted by the parser, and the
  mapped address read from it is the address and the port that were put in.
\<close>

theorem address_roundtrip:
  assumes "length ident = 16" "a < 256" "b < 256" "c < 256" "d < 256" "port < 2 ^ 16"
    and "15 \<le> k" "k < 2 ^ 31"
  shows "\<exists>m1 m2 m3. switch_stun_packet_build_header 0x0101 ident (replicate (32 + k) 0) = Inr m1 \<and>
    switch_stun_packet_attribute_add_binded_address m1 (dotted a b c d) port = Inr m2 \<and>
    switch_stun_packet_parse m2 = Inr (Some m3) \<and>
    switch_stun_packet_attribute_get_mapped_address m3 20 = Inr (dotted a b c d, port)"
proof -
  let ?m2 = "address_packet ident a b c d port k"
  obtain m1 where m1: "switch_stun_packet_build_header 0x0101 ident (replicate (32 + k) 0) = Inr m1"
      "switch_stun_packet_attribute_add_binded_address m1 (dotted a b c d) port = Inr ?m2"
    using build_address_packet [OF assms(1-6), of k] by (auto simp: bindE_eq_Inr)
  have len: "length ?m2 = 32 + k" using assms(1) by (simp add: address_packet_def)
  have hdr: "header_type ?m2 = 0x0101" "header_length ?m2 = 12"
    by (simp_all add: header_type_def header_length_def address_packet_def)
  let ?h = "[1, 1, 12, 0] @ ident @ [0, 1, 0, 8, 0, 1, of_nat (ntohs port), of_nat (ntohs port div 256),
       of_nat a, of_nat b, of_nat c, of_nat d] @ replicate k 0"
  let ?m3 = "[1, 1, 12, 0] @ ident @ [1, 0, 8, 0, 0, 1, of_nat (ntohs port div 256), of_nat (ntohs port),
       of_nat a, of_nat b, of_nat c, of_nat d] @ replicate k 0"
  have h: "host_header ?m2 = ?h" by (simp add: host_header_def address_packet_def list_update_numeral)
  have bl: "(of_nat (32 + k) :: uint32) - of_nat (12 + 20) = of_nat k" by simp
  have k: "\<not> (of_nat k :: uint32) < SWITCH_STUN_ATTRIBUTE_MIN_LEN" "\<not> (of_nat k :: uint32) \<le> 0"
    using assms(7,8)
    by (auto simp: SWITCH_STUN_ATTRIBUTE_MIN_LEN_def word_less_nat_alt word_le_nat_alt unat_of_nat take_bit_eq_mod)
  have used: "(of_nat (32 + k) :: uint32) - of_nat (k - 15) = 47" using assms(7) by (simp add: of_nat_diff)
  have t: "0x0101 \<in> fst ` set PACKET_TYPES" by (simp add: PACKET_TYPES_def)
  have "20 \<le> length ?m2" using len by simp
  then have "switch_stun_packet_parse ?m2 = Inr (Some ?m3)"
    using k t by (simp only: parse_header len hdr h bl parse_address_attribute [OF assms(1,7,8)]
        Let_def bindE_simps option.case prod.case used) simp
  moreover have "unat (of_nat (ntohs port div 256) :: switch_byte_t) + 256 * unat (of_nat (ntohs port) :: switch_byte_t) = port"
    using assms(6) unfolding unat_of_nat8 by (simp add: ntohs_def)
  then have "switch_stun_packet_attribute_get_mapped_address ?m3 20 = Inr (dotted a b c d, port)"
    using assms(1-5)
    by (simp add: switch_stun_packet_attribute_get_mapped_address_def rd8_def rd16_def nth_append dotted_def unat_of_nat8)
  ultimately show ?thesis using m1 by blast
qed


lemma address_roundtrip_witness:
  "\<exists>m1 m2 m3. switch_stun_packet_build_header 0x0101 (replicate 16 7) (replicate 260 0) = Inr m1 \<and>
    switch_stun_packet_attribute_add_binded_address m1 (dotted 192 168 0 1) 5060 = Inr m2 \<and>
    switch_stun_packet_parse m2 = Inr (Some m3) \<and>
    switch_stun_packet_attribute_get_mapped_address m3 20 = Inr (dotted 192 168 0 1, 5060)"
  using address_roundtrip [of "replicate 16 7" 192 168 0 1 5060 228] by simp

end
