(* ===== verification/Audio.thy ===== *)
theory Audio
  imports Prelude
begin

text \<open>
  The sample arithmetic of \<^verbatim>\<open>switch_resample.c\<close>: clipping to 16 bits, merging and
  adding up channels, comfort noise, byte swapping and the two volume scales, with the
  rounding of C's \<open>double\<close> multiplication.  The conference mixer is built on it.
\<close>

section \<open>Samples\<close>

text \<open>
  A sample is an \<open>int16_t\<close>, read with \<open>sint\<close>; a frame of audio held as bytes is
  read as little-endian samples.
\<close>

type_synonym int16 = "16 word"

definition SWITCH_SMAX :: int where
  "SWITCH_SMAX = 32767"

definition SWITCH_SMIN :: int where
  "SWITCH_SMIN = - 32768"

definition switch_normalize_to_16bit :: "int \<Rightarrow> int" where
  "switch_normalize_to_16bit n =
     (if n > SWITCH_SMAX then SWITCH_SMAX else if n < SWITCH_SMIN then SWITCH_SMIN else n)"

definition sample_of_bytes :: "switch_byte_t \<Rightarrow> switch_byte_t \<Rightarrow> int16" where
  "sample_of_bytes lo hi = (push_bit 8 (ucast hi)) OR ucast lo"

fun samples_of :: "switch_byte_t list \<Rightarrow> int16 list" where
  "samples_of (lo # hi # bs) = sample_of_bytes lo hi # samples_of bs"
| "samples_of bs = []"

definition bytes_of_sample :: "int16 \<Rightarrow> switch_byte_t list" where
  "bytes_of_sample s = [ucast s, ucast (drop_bit 8 s)]"

definition bytes_of :: "int16 list \<Rightarrow> switch_byte_t list" where
  "bytes_of ss = concat (map bytes_of_sample ss)"

section \<open>Byte order, merging and channels\<close>

definition swap_sample :: "int16 \<Rightarrow> int16" where
  "swap_sample s = (drop_bit 8 s AND 0x00ff) OR (push_bit 8 s AND 0xff00)"

text \<open>
  \<open>buf[i] >> 8\<close> shifts the sign in; the mask \<open>0x00ff\<close> removes it, which leaves the
  logical shift.  A negative length does nothing.
\<close>

definition switch_swap_linear :: "int16 list \<Rightarrow> int \<Rightarrow> int16 list outcome" where
  "switch_swap_linear buf len =
     (if nat len \<le> length buf then Inr (map swap_sample (take (nat len) buf) @ drop (nat len) buf)
      else Inl OutOfBounds)"

definition add_samples :: "int16 \<Rightarrow> int16 \<Rightarrow> int16" where
  "add_samples a b = word_of_int (switch_normalize_to_16bit (sint a + sint b))"

text \<open>
  The shorter length is put into a signed 32-bit variable, so lengths from \<open>2 ^ 31\<close> on
  merge nothing; the value returned is that variable as an unsigned number.
\<close>

definition switch_merge_sln ::
  "int16 list \<Rightarrow> uint32 \<Rightarrow> int16 list \<Rightarrow> uint32 \<Rightarrow> (int16 list \<times> uint32) outcome" where
  "switch_merge_sln data samples other_data other_samples =
     (let x = (if samples > other_samples then other_samples else samples);
          n = nat (sint x)
      in if n \<le> length data \<and> n \<le> length other_data
         then Inr (map2 add_samples (take n data) (take n other_data) @ drop n data, x)
         else Inl OutOfBounds)"

text \<open>Every output sample adds up \<open>channels\<close> consecutive input samples, clipping after each.\<close>

definition mux_sample :: "int16 list \<Rightarrow> nat \<Rightarrow> nat \<Rightarrow> int16" where
  "mux_sample data channels i =
     foldl add_samples 0 (map (\<lambda>j. data ! (i * channels + j)) [0..<channels])"

definition switch_mux_channels :: "int16 list \<Rightarrow> nat \<Rightarrow> nat \<Rightarrow> int16 list outcome" where
  "switch_mux_channels data samples channels =
     (if samples * channels \<le> length data \<and> samples \<le> length data
      then Inr (map (mux_sample data channels) [0..<samples] @ drop samples data)
      else Inl OutOfBounds)"

text \<open>
  Comfort noise.  \<open>seed\<close> is the start value taken from the clock and the address; the
  divisor \<open>-1\<close> asks for silence, for which the code clears \<open>sizeof(*data)\<close> bytes, one
  sample.  The quotient of the C division is rounded towards zero.
\<close>

definition c_div :: "int \<Rightarrow> int \<Rightarrow> int" where
  "c_div a b = sgn a * sgn b * (\<bar>a\<bar> div \<bar>b\<bar>)"

fun noise_steps :: "nat \<Rightarrow> int16 \<Rightarrow> int \<Rightarrow> int16 \<times> int" where
  "noise_steps 0 rnd2 sum_rnd = (rnd2, sum_rnd)"
| "noise_steps (Suc k) rnd2 sum_rnd =
     (let rnd2' = rnd2 * 31821 + 13849 in noise_steps k rnd2' (sum_rnd + sint rnd2'))"

fun noise_samples :: "int \<Rightarrow> nat \<Rightarrow> int16 \<Rightarrow> int16 list" where
  "noise_samples divisor 0 rnd2 = []"
| "noise_samples divisor (Suc n) rnd2 =
     (let (rnd2', sum_rnd) = noise_steps 6 rnd2 0
      in word_of_int (c_div (sint (word_of_int sum_rnd :: int16)) divisor) # noise_samples divisor n rnd2')"

definition switch_generate_sln_silence ::
  "int16 \<Rightarrow> int16 list \<Rightarrow> nat \<Rightarrow> uint32 \<Rightarrow> int16 list outcome" where
  "switch_generate_sln_silence seed data samples divisor =
     (if divisor = 0 then Inl AssertionFailed
      else if divisor = - 1 then
        (case data of [] \<Rightarrow> Inl OutOfBounds | _ # rest \<Rightarrow> Inr (0 # rest))
      else if samples \<le> length data
        then Inr (noise_samples (sint divisor) samples seed @ drop samples data)
        else Inl OutOfBounds)"

section \<open>Volume\<close>

text \<open>
  \<open>double\<close> arithmetic.  \<open>excess n\<close> is the number of bits of \<open>n\<close> beyond the 53 a
  \<open>double\<close> holds, \<open>dbl_round\<close> rounds to 53 significant bits, ties to even.  A constant
  \<open>num / den\<close> of the source is the nearest \<open>double\<close>, kept as a multiple of
  \<open>2 ^ -60\<close> (exact for the values below 8 and from 1/256 on, which are all there are);
  the product with a sample is exact before it is rounded, and the conversion to
  \<open>int32_t\<close> rounds towards zero.
\<close>

function excess :: "int \<Rightarrow> nat" where
  "excess n = (if n < 2 ^ 53 then 0 else Suc (excess (n div 2)))"
  by auto

termination
  by (relation "measure nat") (auto simp: nat_less_iff)

declare excess.simps [simp del]

definition dbl_round :: "int \<Rightarrow> int" where
  "dbl_round n =
     (let k = excess n; q = n div 2 ^ k; r = n mod 2 ^ k
      in (if 2 * r > 2 ^ k \<or> (2 * r = 2 ^ k \<and> odd q) then q + 1 else q) * 2 ^ k)"

definition dbl_const :: "int \<Rightarrow> int \<Rightarrow> int" where
  "dbl_const num den = dbl_round (num * 2 ^ 120 div den) div 2 ^ 60"

definition mul_trunc :: "int \<Rightarrow> int \<Rightarrow> int" where
  "mul_trunc s rate = sgn s * (dbl_round (\<bar>s\<bar> * rate) div 2 ^ 60)"

definition switch_normalize_volume :: "int \<Rightarrow> int" where
  "switch_normalize_volume x = (let x = (if x > 4 then 4 else x) in if x < - 4 then - 4 else x)"

definition switch_normalize_volume_granular :: "int \<Rightarrow> int" where
  "switch_normalize_volume_granular x =
     (let x = (if x > 12 then 12 else x) in if x < - 12 then - 12 else x)"

definition volume_pos :: "int list" where
  "volume_pos = map (\<lambda>n. dbl_const n 10) [13, 23, 33, 43]"

definition volume_neg :: "int list" where
  "volume_neg = map (\<lambda>n. dbl_const n 100) [80, 60, 40, 20]"

definition granular_pos :: "int list" where
  "granular_pos =
     map (\<lambda>n. dbl_const n 100) [125, 150, 175, 200, 225, 250, 275, 300, 325, 350, 375, 400]"

definition granular_neg :: "int list" where
  "granular_neg =
     map (\<lambda>n. dbl_const n 1000) [917, 834, 751, 668, 585, 502, 419, 336, 253, 017, 087, 004]"

definition scale_sample :: "int \<Rightarrow> int16 \<Rightarrow> int16" where
  "scale_sample newrate s = word_of_int (switch_normalize_to_16bit (mul_trunc (sint s) newrate))"

definition scale_samples :: "int \<Rightarrow> int16 list \<Rightarrow> nat \<Rightarrow> int16 list outcome" where
  "scale_samples newrate data samples =
     (if newrate = 0 then Inr data
      else if samples \<le> length data
        then Inr (map (scale_sample newrate) (take samples data) @ drop samples data)
        else Inl OutOfBounds)"

definition switch_change_sln_volume_granular :: "int16 list \<Rightarrow> nat \<Rightarrow> int \<Rightarrow> int16 list outcome" where
  "switch_change_sln_volume_granular data samples vol =
     (if vol = 0 then Inr data
      else let vol = switch_normalize_volume_granular vol;
               chart = (if vol > 0 then granular_pos else granular_neg);
               i = nat (\<bar>vol\<bar> - 1)
           in if i < 12 then scale_samples (chart ! i) data samples else Inl AssertionFailed)"

definition switch_change_sln_volume :: "int16 list \<Rightarrow> nat \<Rightarrow> int \<Rightarrow> int16 list outcome" where
  "switch_change_sln_volume data samples vol =
     (if vol = 0 then Inr data
      else let vol = switch_normalize_volume vol;
               chart = (if vol > 0 then volume_pos else volume_neg);
               i = nat (\<bar>vol\<bar> - 1)
           in if i < 4 then scale_samples (chart ! i) data samples else Inl AssertionFailed)"

section \<open>Frames as bytes and as samples\<close>

lemma sample_of_bytes_of [simp]: "sample_of_bytes (ucast s) (ucast (drop_bit 8 s)) = (s :: int16)"
  by (rule bit_word_eqI) (auto simp: sample_of_bytes_def bit_simps)

lemma samples_of_bytes_of [simp]: "samples_of (bytes_of ss) = ss"
  by (induction ss) (simp_all add: bytes_of_def bytes_of_sample_def)

lemma length_bytes_of [simp]: "length (bytes_of ss) = 2 * length ss"
  by (induction ss) (simp_all add: bytes_of_def bytes_of_sample_def)

lemma length_samples_of [simp]: "length (samples_of bs) = length bs div 2"
  by (induction bs rule: samples_of.induct) simp_all

lemma bytes_of_append [simp]: "bytes_of (xs @ ys) = bytes_of xs @ bytes_of ys"
  by (simp add: bytes_of_def)

section \<open>Clipping\<close>

lemma clip_range [simp]: "- 32768 \<le> switch_normalize_to_16bit n" "switch_normalize_to_16bit n \<le> 32767"
  by (auto simp: switch_normalize_to_16bit_def SWITCH_SMAX_def SWITCH_SMIN_def)

lemma clip_id: "- 32768 \<le> n \<Longrightarrow> n \<le> 32767 \<Longrightarrow> switch_normalize_to_16bit n = n"
  by (auto simp: switch_normalize_to_16bit_def SWITCH_SMAX_def SWITCH_SMIN_def)

lemma sint16_range: "- 32768 \<le> sint (s :: int16)" "sint (s :: int16) \<le> 32767"
  using sint_ge [of s] sint_lt [of s] by simp_all

lemma sint_clipped [simp]:
  "sint (word_of_int (switch_normalize_to_16bit n) :: int16) = switch_normalize_to_16bit n"
  by (simp add: sint_sbintrunc' signed_take_bit_int_eq_self order.strict_trans1 [OF clip_range(2)])

lemma clip_mono: "a \<le> b \<Longrightarrow> switch_normalize_to_16bit a \<le> switch_normalize_to_16bit b"
  by (auto simp: switch_normalize_to_16bit_def SWITCH_SMAX_def SWITCH_SMIN_def)

section \<open>Rounding\<close>

lemma int_div_less: "(0 :: int) < p \<Longrightarrow> n < c * p \<Longrightarrow> n div p < c"
  by (metis int_one_le_iff_zero_less linorder_not_less mult.commute
      mult_right_mono pos_mod_sign div_mult_mod_eq le_add_same_cancel1 order_less_imp_le order_trans)

lemma int_le_div: "(0 :: int) < p \<Longrightarrow> c * p \<le> n \<Longrightarrow> c \<le> n div p"
  using zdiv_mono1 [of "c * p" n p] by simp

lemma excess_bounds:
  assumes "0 \<le> n"
  shows "n < 2 ^ (53 + excess n) \<and> (0 < excess n \<longrightarrow> 2 ^ (52 + excess n) \<le> n)"
  using assms
proof (induction n rule: excess.induct)
  case (1 n)
  show ?case
  proof (cases "n < 2 ^ 53")
    case True
    then show ?thesis by (simp add: excess.simps)
  next
    case False
    with 1 have IH: "n div 2 < 2 ^ (53 + excess (n div 2))"
      "0 < excess (n div 2) \<longrightarrow> 2 ^ (52 + excess (n div 2)) \<le> n div 2" by simp_all
    have e: "excess n = Suc (excess (n div 2))"
      using False by (simp add: excess.simps [of n])
    have "2 ^ (52 + excess n) \<le> n"
    proof (cases "excess (n div 2)")
      case 0
      with False show ?thesis by (simp add: e)
    next
      case (Suc m)
      with IH(2) have "2 * 2 ^ (53 + m) \<le> 2 * (n div 2)" by simp
      also have "\<dots> \<le> n" by simp
      finally show ?thesis by (simp add: e Suc power_add)
    qed
    moreover have "n < 2 ^ (53 + excess n)"
    proof -
      have "n < 2 * 2 ^ (53 + excess (n div 2))" using IH(1) by linarith
      then show ?thesis by (simp add: e power_add)
    qed
    ultimately show ?thesis by simp
  qed
qed

lemma dbl_round_bounds:
  assumes "0 \<le> n"
  shows "dbl_round n \<le> 2 ^ (53 + excess n)"
    and "n div 2 ^ excess n * 2 ^ excess n \<le> dbl_round n"
    and "dbl_round n \<le> (n div 2 ^ excess n + 1) * 2 ^ excess n"
proof -
  have "n div 2 ^ excess n < 2 ^ 53"
    using excess_bounds [OF assms] by (intro int_div_less) (simp_all add: power_add)
  then have "(n div 2 ^ excess n + 1) * 2 ^ excess n \<le> 2 ^ 53 * 2 ^ excess n"
    by (intro mult_right_mono) auto
  also have "\<dots> = 2 ^ (53 + excess n)" by (simp only: power_add)
  finally have le: "(n div 2 ^ excess n + 1) * 2 ^ excess n \<le> 2 ^ (53 + excess n)" .
  show u: "dbl_round n \<le> (n div 2 ^ excess n + 1) * 2 ^ excess n"
    by (auto simp: dbl_round_def Let_def)
  from u le show "dbl_round n \<le> 2 ^ (53 + excess n)" by (rule order_trans)
  show "n div 2 ^ excess n * 2 ^ excess n \<le> dbl_round n"
    by (auto simp: dbl_round_def Let_def)
qed

lemma excess_mono:
  assumes "0 \<le> a" and "a \<le> b"
  shows "excess a \<le> excess b"
proof (rule ccontr)
  assume c: "\<not> excess a \<le> excess b"
  then have "2 ^ (52 + excess a) \<le> a"
    using excess_bounds [OF assms(1)] by simp
  moreover have "b < 2 ^ (53 + excess b)"
    using excess_bounds [of b] assms by simp
  moreover have "(2::int) ^ (53 + excess b) \<le> 2 ^ (52 + excess a)"
    using c by (intro power_increasing) auto
  ultimately show False using assms(2) by linarith
qed

lemma dbl_round_mono:
  assumes "0 \<le> a" and "a \<le> b"
  shows "dbl_round a \<le> dbl_round b"
proof (cases "excess a = excess b")
  case False
  then have lt: "excess a < excess b" using excess_mono [OF assms] by simp
  have "dbl_round a \<le> 2 ^ (53 + excess a)" by (rule dbl_round_bounds(1) [OF assms(1)])
  also have "\<dots> \<le> 2 ^ (52 + excess b)" using lt by (intro power_increasing) auto
  also have "\<dots> \<le> b div 2 ^ excess b * 2 ^ excess b"
  proof -
    have "2 ^ 52 * 2 ^ excess b \<le> b"
      using excess_bounds [of b] lt assms by (simp add: power_add)
    then have "(2::int) ^ 52 \<le> b div 2 ^ excess b" by (intro int_le_div) simp_all
    then show ?thesis by (simp add: power_add mult_right_mono)
  qed
  also have "\<dots> \<le> dbl_round b" by (rule dbl_round_bounds(2)) (use assms in simp)
  finally show ?thesis .
next
  case True
  define k where "k = excess b"
  show ?thesis
  proof (cases "a div 2 ^ k = b div 2 ^ k")
    case False
    then have "a div 2 ^ k + 1 \<le> b div 2 ^ k"
      using zdiv_mono1 [OF assms(2), of "2 ^ k"] by simp
    then have "(a div 2 ^ k + 1) * 2 ^ k \<le> b div 2 ^ k * 2 ^ k" by (intro mult_right_mono) auto
    moreover have "dbl_round a \<le> (a div 2 ^ k + 1) * 2 ^ k"
      using dbl_round_bounds(3) [OF assms(1)] by (simp only: True k_def)
    moreover have "b div 2 ^ k * 2 ^ k \<le> dbl_round b"
      using dbl_round_bounds(2) [of b] assms by (simp only: k_def)
    ultimately show ?thesis by linarith
  next
    case q: True
    then have "a mod 2 ^ k \<le> b mod 2 ^ k"
      using assms(2) by (simp add: minus_div_mult_eq_mod [symmetric])
    with q True show ?thesis by (auto simp: dbl_round_def Let_def k_def)
  qed
qed

lemma dbl_round_nonneg: "0 \<le> n \<Longrightarrow> 0 \<le> dbl_round n"
  using dbl_round_bounds(2) [of n] by (smt (verit) pos_imp_zdiv_nonneg_iff zero_less_power mult_nonneg_nonneg)

lemma mul_trunc_abs: "0 \<le> r \<Longrightarrow> s \<noteq> 0 \<Longrightarrow> \<bar>mul_trunc s r\<bar> = dbl_round (\<bar>s\<bar> * r) div 2 ^ 60"
  by (simp add: mul_trunc_def abs_mult dbl_round_nonneg pos_imp_zdiv_nonneg_iff)

lemma mul_trunc_mono:
  assumes "0 \<le> r" and "r \<le> r'"
  shows "\<bar>mul_trunc s r\<bar> \<le> \<bar>mul_trunc s r'\<bar>"
proof (cases "s = 0")
  case False
  have "\<bar>s\<bar> * r \<le> \<bar>s\<bar> * r'" using assms by (simp add: mult_left_mono)
  then have "dbl_round (\<bar>s\<bar> * r) div 2 ^ 60 \<le> dbl_round (\<bar>s\<bar> * r') div 2 ^ 60"
    using assms by (intro zdiv_mono1 dbl_round_mono) simp_all
  with assms False show ?thesis by (simp add: mul_trunc_abs)
qed (simp add: mul_trunc_def)

section \<open>The volume scales\<close>

lemma dbl_round_exact:
  assumes "0 \<le> c" and "c < 2 ^ 53"
  shows "dbl_round (c * 2 ^ e) = c * 2 ^ e"
proof -
  have n: "0 \<le> c * 2 ^ e" using assms by simp
  have "excess (c * 2 ^ e) \<le> e"
  proof (rule ccontr)
    assume "\<not> excess (c * 2 ^ e) \<le> e"
    then have "(2::int) ^ (53 + e) \<le> 2 ^ (52 + excess (c * 2 ^ e))"
      and "2 ^ (52 + excess (c * 2 ^ e)) \<le> c * 2 ^ e"
      using excess_bounds [OF n] by (auto intro!: power_increasing)
    moreover have "c * 2 ^ e < 2 ^ (53 + e)" using assms by (simp add: power_add)
    ultimately show False by linarith
  qed
  then have "c * 2 ^ e mod 2 ^ excess (c * 2 ^ e) = 0"
    by (simp add: le_imp_power_dvd)
  then show ?thesis by (auto simp: dbl_round_def Let_def minus_mod_eq_div_mult [symmetric])
qed

definition granular_rate :: "int \<Rightarrow> int" where
  "granular_rate l =
     (if l = 0 then 2 ^ 60 else (if l > 0 then granular_pos else granular_neg) ! nat (\<bar>l\<bar> - 1))"

lemma scale_sample_unit: "scale_sample (2 ^ 60) s = s"
proof -
  have "dbl_round (\<bar>sint s\<bar> * 2 ^ 60) = \<bar>sint s\<bar> * 2 ^ 60"
    using sint16_range [of s] by (intro dbl_round_exact) simp_all
  then have "mul_trunc (sint s) (2 ^ 60) = sint s" by (simp add: mul_trunc_def sgn_if)
  then show ?thesis
    using sint16_range [of s] by (simp add: scale_sample_def clip_id)
qed

lemma mul_trunc_sign:
  assumes "0 \<le> r"
  shows "0 \<le> s \<Longrightarrow> 0 \<le> mul_trunc s r" and "s \<le> 0 \<Longrightarrow> mul_trunc s r \<le> 0"
  using assms dbl_round_nonneg [of "- s * r"]
  by (auto simp: mul_trunc_def sgn_if dbl_round_nonneg pos_imp_zdiv_nonneg_iff mult_nonpos_nonneg)

lemma scale_sample_mono:
  assumes "0 \<le> r" and "r \<le> r'"
  shows "\<bar>sint (scale_sample r s)\<bar> \<le> \<bar>sint (scale_sample r' s)\<bar>"
proof (cases "0 \<le> sint s")
  case True
  with mul_trunc_mono [OF assms, of "sint s"] assms mul_trunc_sign(1) [of r "sint s"]
    mul_trunc_sign(1) [of r' "sint s"]
  have "mul_trunc (sint s) r \<le> mul_trunc (sint s) r'" "0 \<le> mul_trunc (sint s) r"
    by simp_all
  then show ?thesis
    unfolding scale_sample_def sint_clipped
    by (auto simp: switch_normalize_to_16bit_def SWITCH_SMAX_def SWITCH_SMIN_def)
next
  case False
  with mul_trunc_mono [OF assms, of "sint s"] assms mul_trunc_sign(2) [of r "sint s"]
    mul_trunc_sign(2) [of r' "sint s"]
  have "mul_trunc (sint s) r' \<le> mul_trunc (sint s) r" "mul_trunc (sint s) r \<le> 0"
    by simp_all
  then show ?thesis
    unfolding scale_sample_def sint_clipped
    by (auto simp: switch_normalize_to_16bit_def SWITCH_SMAX_def SWITCH_SMIN_def)
qed

lemma granular_pos_values:
  "granular_pos =
      [1441151880758558720, 1729382256910270464, 2017612633061982208, 2305843009213693952,
       2594073385365405696, 2882303761517117440, 3170534137668829184, 3458764513820540928,
       3746994889972252672, 4035225266123964416, 4323455642275676160, 4611686018427387904]"
  by code_simp

lemma granular_neg_values:
  "granular_neg =
      [1057229019724478720, 961536534842110336, 865844049959742080, 770151565077373824,
       674459080195005440, 578766595312637184, 483074110430268864, 387381625547900608,
       291689140665532288, 19599665578316400, 100304170900795680, 4611686018427388]"
  by code_simp

definition granular_table :: "(int \<times> int) list" where
  "granular_table = zip [-12, -11, -10, -9, -8, -7, -6, -5, -4, -3, -2, -1, 0, 1, 2, 3, 4, 5, 6, 7, 8, 9, 10, 11, 12]
     (rev granular_neg @ [2 ^ 60] @ granular_pos)"

lemma granular_table_order:
  "\<forall>(l, r)\<in>set granular_table. 0 < r \<and>
     (\<forall>(l', r')\<in>set granular_table. l \<le> l' \<longrightarrow> l \<noteq> - 10 \<longrightarrow> l' \<noteq> - 10 \<longrightarrow> r \<le> r')"
  by (simp add: granular_table_def granular_pos_values granular_neg_values)

lemma in_granular_table:
  assumes "- 12 \<le> l" and "l \<le> 12"
  shows "(l, granular_rate l) \<in> set granular_table"
proof -
  have "l = -12 \<or> l = -11 \<or> l = -10 \<or> l = -9 \<or> l = -8 \<or> l = -7 \<or> l = -6 \<or> l = -5 \<or> l = -4 \<or>
        l = -3 \<or> l = -2 \<or> l = -1 \<or> l = 0 \<or> l = 1 \<or> l = 2 \<or> l = 3 \<or> l = 4 \<or> l = 5 \<or> l = 6 \<or>
        l = 7 \<or> l = 8 \<or> l = 9 \<or> l = 10 \<or> l = 11 \<or> l = 12"
    using assms by presburger
  then show ?thesis
    by (elim disjE)
      (simp_all add: granular_table_def granular_rate_def granular_pos_values granular_neg_values)
qed

lemma granular_rate_pos: "- 12 \<le> l \<Longrightarrow> l \<le> 12 \<Longrightarrow> 0 < granular_rate l"
  using granular_table_order in_granular_table [of l] by blast

lemma granular_rate_mono:
  assumes "- 12 \<le> l" and "l \<le> l'" and "l' \<le> 12" and "l \<noteq> - 10" and "l' \<noteq> - 10"
  shows "granular_rate l \<le> granular_rate l'"
  using granular_table_order in_granular_table [of l] in_granular_table [of l'] assms by force

lemma granular_rate_swapped: "granular_rate (- 10) \<le> granular_rate (- 11)"
  by (simp add: granular_rate_def granular_neg_values)

lemma granular_effect:
  assumes "- 12 \<le> l" and "l \<le> 12" and "samples \<le> length data"
  shows "switch_change_sln_volume_granular data samples l =
           Inr (map (scale_sample (granular_rate l)) (take samples data) @ drop samples data)"
proof (cases "l = 0")
  case True
  have "scale_sample (granular_rate 0) = id"
    by (simp only: granular_rate_def if_True refl scale_sample_unit fun_eq_iff id_apply simp_thms)
  with True show ?thesis by (simp add: switch_change_sln_volume_granular_def)
next
  case False
  have "granular_rate l \<noteq> 0" using granular_rate_pos [OF assms(1,2)] by simp
  with False assms show ?thesis
    by (auto simp: switch_change_sln_volume_granular_def switch_normalize_volume_granular_def
        Let_def scale_samples_def granular_rate_def)
qed

text \<open>
  C32. The fine volume scale is ordered, with one exception: for levels \<open>l \<le> l'\<close> of the
  scale, neither of them \<open>-10\<close>, no sample comes out louder at \<open>l\<close> than at
  \<open>l'\<close>; but level \<open>-10\<close>, whose factor is written \<open>.017\<close> between \<open>.253\<close> and
  \<open>.087\<close>, never comes out louder than the lower level \<open>-11\<close>.
\<close>

theorem granular_volume_order:
  assumes "- 12 \<le> l" and "l \<le> l'" and "l' \<le> 12" and "l \<noteq> - 10" and "l' \<noteq> - 10"
    and "samples \<le> length data"
  shows "\<exists>a b c d. switch_change_sln_volume_granular data samples l = Inr a \<and>
      switch_change_sln_volume_granular data samples l' = Inr b \<and>
      list_all2 (\<lambda>x y. \<bar>sint x\<bar> \<le> \<bar>sint y\<bar>) a b \<and>
      switch_change_sln_volume_granular data samples (- 10) = Inr c \<and>
      switch_change_sln_volume_granular data samples (- 11) = Inr d \<and>
      list_all2 (\<lambda>x y. \<bar>sint x\<bar> \<le> \<bar>sint y\<bar>) c d"
proof -
  have le: "granular_rate l \<le> granular_rate l'"
    using assms by (intro granular_rate_mono)
  have "0 \<le> granular_rate l" "0 \<le> granular_rate (- 10)"
    using granular_rate_pos [of l] granular_rate_pos [of "- 10"] assms by simp_all
  with le granular_rate_swapped show ?thesis
    using assms by (auto simp: granular_effect list_all2_conv_all_nth nth_append scale_sample_mono)
qed

theorem granular_volume_order_witness:
  "\<exists>a b c d. switch_change_sln_volume_granular [10000, - 20000, 1] 2 (- 3) = Inr a \<and>
      switch_change_sln_volume_granular [10000, - 20000, 1] 2 2 = Inr b \<and>
      list_all2 (\<lambda>x y. \<bar>sint x\<bar> \<le> \<bar>sint y\<bar>) a b \<and>
      switch_change_sln_volume_granular [10000, - 20000, 1] 2 (- 10) = Inr c \<and>
      switch_change_sln_volume_granular [10000, - 20000, 1] 2 (- 11) = Inr d \<and>
      list_all2 (\<lambda>x y. \<bar>sint x\<bar> \<le> \<bar>sint y\<bar>) c d"
  by (rule granular_volume_order) simp_all

end
