(* ===== verification/Conference.thy ===== *)
theory Conference
  imports Buffer Audio Channel
begin

text \<open>
  The conference module, \<^verbatim>\<open>mod_conference.c\<close>: its data, joining and leaving a
  conference, relationships between members and the playback queues.  The commands, the
  caller controls and the mixing thread are in the theories that import this one.

  One conference is modelled together with a store of member structures; a member is known by
  its address, the list \<open>members\<close> linked through \<open>next\<close> is a list of addresses.  The bit
  masks of flags are sets of the enumerators, which are different single bits.  The mutexes
  are left out: every operation here holds the locks of the conference and its members while
  it works.  What the module does to the rest of the system (events fired, text answered to a
  command, speech, digits, files closed) is collected in a log.
\<close>

section \<open>Data\<close>

datatype member_flag_t =
    MFLAG_RUNNING | MFLAG_CAN_SPEAK | MFLAG_CAN_HEAR | MFLAG_KICKED | MFLAG_ITHREAD
  | MFLAG_NOCHANNEL | MFLAG_INTREE | MFLAG_WASTE_BANDWIDTH | MFLAG_FLUSH_BUFFER | MFLAG_ENDCONF
  | MFLAG_HAS_AUDIO | MFLAG_TALKING | MFLAG_RESTART | MFLAG_MINTWO | MFLAG_MUTE_DETECT
  | MFLAG_DIST_DTMF | MFLAG_MOD | MFLAG_INDICATE_MUTE | MFLAG_INDICATE_UNMUTE | MFLAG_NOMOH
  | MFLAG_VIDEO_BRIDGE | MFLAG_INDICATE_MUTE_DETECT

datatype conf_flag_t =
    CFLAG_RUNNING | CFLAG_DYNAMIC | CFLAG_ENFORCE_MIN | CFLAG_DESTRUCT | CFLAG_LOCKED
  | CFLAG_ANSWERED | CFLAG_BRIDGE_TO | CFLAG_WAIT_MOD | CFLAG_VID_FLOOR | CFLAG_WASTE_BANDWIDTH
  | CFLAG_OUTCALL | CFLAG_INHASH | CFLAG_EXIT_SOUND | CFLAG_ENTER_SOUND | CFLAG_VIDEO_BRIDGE

datatype relation_flag_t = RFLAG_CAN_SPEAK | RFLAG_CAN_HEAR

datatype node_type_t = NODE_TYPE_FILE | NODE_TYPE_SPEECH

datatype file_stop_t = FILE_STOP_CURRENT | FILE_STOP_ALL | FILE_STOP_ASYNC

datatype event_type_t =
    EFLAG_ADD_MEMBER | EFLAG_DEL_MEMBER | EFLAG_ENERGY_LEVEL | EFLAG_VOLUME_LEVEL
  | EFLAG_GAIN_LEVEL | EFLAG_DTMF | EFLAG_STOP_TALKING | EFLAG_START_TALKING | EFLAG_MUTE_MEMBER
  | EFLAG_UNMUTE_MEMBER | EFLAG_DEAF_MEMBER | EFLAG_UNDEAF_MEMBER | EFLAG_KICK_MEMBER
  | EFLAG_DTMF_MEMBER | EFLAG_ENERGY_LEVEL_MEMBER | EFLAG_VOLUME_IN_MEMBER
  | EFLAG_VOLUME_OUT_MEMBER | EFLAG_PLAY_FILE | EFLAG_PLAY_FILE_MEMBER | EFLAG_SPEAK_TEXT
  | EFLAG_SPEAK_TEXT_MEMBER | EFLAG_LOCK | EFLAG_UNLOCK | EFLAG_TRANSFER | EFLAG_BGDIAL_RESULT
  | EFLAG_FLOOR_CHANGE | EFLAG_MUTE_DETECT | EFLAG_RECORD | EFLAG_HUP_MEMBER

type_synonym ptr = nat

record conference_file_node =
  fn_type :: node_type_t
  fn_done :: uint8
  fn_async :: bool
  fn_leadin :: uint32
  fn_file :: "string option"

record conference_relationship =
  rel_id :: uint32
  rel_flags :: "relation_flag_t set"

text \<open>
  The channel of a member's session stands for the session; \<open>m_conference\<close> says whether the
  pointer to the conference is set; \<open>m_frame\<close> is the frame the mixer reads the member's
  audio into and \<open>m_read\<close> the number of bytes in it.
\<close>

record conference_member =
  m_id :: uint32
  m_session :: "switch_channel option"
  m_conference :: bool
  m_audio_buffer :: switch_buffer
  m_mux_buffer :: switch_buffer
  m_flags :: "member_flag_t set"
  m_score :: uint32
  m_score_iir :: uint32
  m_rec_path :: string
  m_frame :: "switch_byte_t list"
  m_read :: uint32
  m_energy_level :: int
  m_agc_volume_in_level :: int
  m_volume_in_level :: int
  m_volume_out_level :: int
  m_join_time :: int
  m_last_talking :: int
  m_fnode :: "conference_file_node list"
  m_relationships :: "conference_relationship list"
  m_sh :: bool
  m_verbose_events :: bool
  m_dmachine :: bool
  m_last_score :: uint32
  m_vol_period :: uint32
  m_agc_concur :: int
  m_nt_tally :: int
  m_avg_score :: uint32
  m_avg_itt :: uint32
  m_avg_tally :: uint32

record conference_obj =
  c_name :: string
  c_profile_name :: string
  c_uuid_str :: string
  c_domain :: string
  c_tts_engine :: "string option"
  c_tts_voice :: "string option"
  c_enter_sound :: "string option"
  c_exit_sound :: "string option"
  c_alone_sound :: "string option"
  c_perpetual_sound :: "string option"
  c_moh_sound :: "string option"
  c_is_locked_sound :: "string option"
  c_is_unlocked_sound :: "string option"
  c_sound_prefix :: "string option"
  c_announce_count :: uint32
  c_pin :: "string option"
  c_caller_controls :: "string option"
  c_moderator_controls :: "string option"
  c_flags :: "conf_flag_t set"
  c_members :: "ptr list"
  c_floor_holder :: "ptr option"
  c_fnode :: "conference_file_node list"
  c_async_fnode :: "conference_file_node option"
  c_count :: uint32
  c_energy_level :: int
  c_min :: uint8
  c_sh :: bool
  c_record_count :: int
  c_comfort_noise_level :: int
  c_ivr_timeouts :: "int \<times> int"
  c_eflags :: "event_type_t set"
  c_verbose_events :: bool
  c_end_count :: int
  c_relationship_total :: uint32
  c_score :: uint32
  c_agc_level :: int
  c_avg_score :: uint32
  c_avg_itt :: uint32
  c_avg_tally :: uint32
  c_terminate_on_silence :: uint32
  c_rate :: uint32
  c_auto_record :: "string option"
  c_is_recording :: bool
  c_video_running :: int
  c_bridge_hangup_cause :: switch_call_cause_t
  c_cancel_cause :: switch_call_cause_t
  c_mux_loop_count :: int
  c_member_loop_count :: int
  c_muted_sound :: "string option"
  c_mute_detect_sound :: "string option"
  c_unmuted_sound :: "string option"
  c_ack_sound :: "string option"
  c_nack_sound :: "string option"
  c_locked_sound :: "string option"
  c_kicked_sound :: "string option"
  c_maxmember_sound :: "string option"
  c_pin_sound :: "string option"
  c_bad_pin_sound :: "string option"
  c_special_announce :: "string option"
  c_mpin :: "string option"
  c_timer_name :: "string option"
  c_caller_id_name :: "string option"
  c_caller_id_number :: "string option"
  c_max_members :: uint32
  c_mflags :: "member_flag_t set"
  c_interval :: uint32
  c_pin_retries :: int

text \<open>
  The log: headers of fired events in order (\<open>Channel_data\<close> marks the data of the member's
  channel, verbose or basic), answers to the command, speech, digits, closed and opened files.
\<close>

datatype conf_header = Hdr string string | Channel_data bool

datatype conf_out =
    Fired_maint "conf_header list"
  | Fired_presence "conf_header list"
  | Reply string
  | Voice string
  | Speak string
  | Kill_channel ptr
  | Send_dtmf ptr string
  | Close_file conference_file_node
  | Close_speech
  | Bind_controls ptr string
  | Transfer_session ptr string
  | Transfer_to ptr string string string
  | Execute_application ptr string string
  | Launch_record string
  | Hangup_channel ptr switch_call_cause_t
  | Launch_video
  | Launch_video_bridge ptr ptr
  | Launch_input ptr
  | Write_frame ptr "int16 list"
  | Answer_channel ptr
  | Chat_message string string string
  | Parse_events ptr
  | Parse_messages ptr
  | Outcall_bg string int string "string option" "string option" "string option"
  | Open_record string
  | Record_string string string
  | Write_record string "int16 list"
  | Close_record string
  | Play_session string
  | Speak_session string string string

record conf_world =
  conf :: conference_obj
  mem :: "ptr \<Rightarrow> conference_member"
  out :: "conf_out list"
  EC :: int
  id_pool :: uint32

text \<open>
  The environment: the variable look-up and expansion of a channel, the auto-call list hung on
  a channel, whether memory pools can be had, which files and whether the speech engine open,
  and the clock.
\<close>

record conf_env =
  get_variable :: "switch_channel \<Rightarrow> string \<Rightarrow> string option"
  expand_variables :: "switch_channel \<Rightarrow> string \<Rightarrow> string"
  autocall_list :: "switch_channel \<Rightarrow> int option"
  pool_ok :: bool
  file_opens :: "string \<Rightarrow> bool"
  speech_opens :: bool
  epoch_time_now :: int

definition CONF_DEFAULT_LEADIN :: uint32 where
  "CONF_DEFAULT_LEADIN = 20"

definition CONF_SILENT_REQ :: uint32 where
  "CONF_SILENT_REQ = 1"

definition CONF_SILENT_DONE :: uint32 where
  "CONF_SILENT_DONE = 2"

section \<open>Access to the state\<close>

definition emit :: "conf_out \<Rightarrow> conf_world \<Rightarrow> conf_world" where
  "emit e w = w\<lparr>out := out w @ [e]\<rparr>"

definition upd_conf :: "(conference_obj \<Rightarrow> conference_obj) \<Rightarrow> conf_world \<Rightarrow> conf_world" where
  "upd_conf f w = w\<lparr>conf := f (conf w)\<rparr>"

definition upd_mem :: "ptr \<Rightarrow> (conference_member \<Rightarrow> conference_member) \<Rightarrow> conf_world \<Rightarrow> conf_world" where
  "upd_mem p f w = w\<lparr>mem := (mem w)(p := f (mem w p))\<rparr>"

abbreviation mflag :: "conf_world \<Rightarrow> ptr \<Rightarrow> member_flag_t \<Rightarrow> bool" where
  "mflag w p f \<equiv> f \<in> m_flags (mem w p)"

abbreviation cflag :: "conf_world \<Rightarrow> conf_flag_t \<Rightarrow> bool" where
  "cflag w f \<equiv> f \<in> c_flags (conf w)"

abbreviation test_eflag :: "conf_world \<Rightarrow> event_type_t \<Rightarrow> bool" where
  "test_eflag w f \<equiv> f \<in> c_eflags (conf w)"

definition set_mflag :: "ptr \<Rightarrow> member_flag_t \<Rightarrow> conf_world \<Rightarrow> conf_world" where
  "set_mflag p f = upd_mem p (\<lambda>m. m\<lparr>m_flags := insert f (m_flags m)\<rparr>)"

definition clear_mflag :: "ptr \<Rightarrow> member_flag_t \<Rightarrow> conf_world \<Rightarrow> conf_world" where
  "clear_mflag p f = upd_mem p (\<lambda>m. m\<lparr>m_flags := m_flags m - {f}\<rparr>)"

definition set_cflag :: "conf_flag_t \<Rightarrow> conf_world \<Rightarrow> conf_world" where
  "set_cflag f = upd_conf (\<lambda>c. c\<lparr>c_flags := insert f (c_flags c)\<rparr>)"

definition clear_cflag :: "conf_flag_t \<Rightarrow> conf_world \<Rightarrow> conf_world" where
  "clear_cflag f = upd_conf (\<lambda>c. c\<lparr>c_flags := c_flags c - {f}\<rparr>)"

text \<open>\<open>switch_core_session_get_channel\<close> follows the session pointer.\<close>

definition member_channel :: "conf_world \<Rightarrow> ptr \<Rightarrow> switch_channel outcome" where
  "member_channel w p = (case m_session (mem w p) of None \<Rightarrow> Inl NullPointer | Some c \<Rightarrow> Inr c)"

definition set_member_channel :: "ptr \<Rightarrow> switch_channel \<Rightarrow> conf_world \<Rightarrow> conf_world" where
  "set_member_channel p c = upd_mem p (\<lambda>m. m\<lparr>m_session := Some c\<rparr>)"

definition true_false :: "bool \<Rightarrow> string" where
  "true_false b = (if b then ''true'' else ''false'')"

section \<open>Event data\<close>

definition conference_add_event_data :: "conf_world \<Rightarrow> conf_header list" where
  "conference_add_event_data w =
     [Hdr ''Conference-Name'' (c_name (conf w)),
      Hdr ''Conference-Size'' (show_nat (unat (c_count (conf w)))),
      Hdr ''Conference-Profile-Name'' (c_profile_name (conf w)),
      Hdr ''Conference-Unique-ID'' (c_uuid_str (conf w))]"

text \<open>\<open>CF_VIDEO\<close> is one of the channel's flags.\<close>

definition CF_VIDEO :: switch_channel_flag_t where
  "CF_VIDEO = 22"

definition conference_add_event_member_data :: "conf_world \<Rightarrow> ptr \<Rightarrow> conf_header list" where
  "conference_add_event_member_data w p =
     (let m = mem w p in
      (if m_conference m
       then conference_add_event_data w @ [Hdr ''Floor'' (true_false (c_floor_holder (conf w) = Some p))]
       else []) @
      (case m_session m of
         None \<Rightarrow> []
       | Some ch \<Rightarrow> [Channel_data (m_verbose_events m),
                     Hdr ''Video'' (true_false (switch_channel_test_flag ch CF_VIDEO \<noteq> 0))]) @
      [Hdr ''Hear'' (true_false (MFLAG_CAN_HEAR \<in> m_flags m)),
       Hdr ''Speak'' (true_false (MFLAG_CAN_SPEAK \<in> m_flags m)),
       Hdr ''Talking'' (true_false (MFLAG_TALKING \<in> m_flags m)),
       Hdr ''Mute-Detect'' (true_false (MFLAG_MUTE_DETECT \<in> m_flags m)),
       Hdr ''Member-ID'' (show_nat (unat (m_id m))),
       Hdr ''Member-Type'' (if MFLAG_MOD \<in> m_flags m then ''moderator'' else ''member''),
       Hdr ''Energy-Level'' (show_int (m_energy_level m))])"

definition fire_member :: "ptr \<Rightarrow> conf_header list \<Rightarrow> conf_world \<Rightarrow> conf_world" where
  "fire_member p hs w = emit (Fired_maint (conference_add_event_member_data w p @ hs)) w"

definition fire_conf :: "conf_header list \<Rightarrow> conf_world \<Rightarrow> conf_world" where
  "fire_conf hs w = emit (Fired_maint (conference_add_event_data w @ hs)) w"

section \<open>Members and relationships\<close>

definition next_member_id :: "conf_world \<Rightarrow> uint32 \<times> conf_world" where
  "next_member_id w = (let mid = id_pool w + 1 in (mid, w\<lparr>id_pool := mid\<rparr>))"

text \<open>
  The position of the relationship found, if any: the first with the other member's id, else
  the last with id 0.
\<close>

definition rel_index :: "(conference_relationship \<Rightarrow> bool) \<Rightarrow> conference_relationship list \<Rightarrow> nat option" where
  "rel_index P rs = (if list_ex P rs then Some (length (takeWhile (\<lambda>r. \<not> P r) rs)) else None)"

definition member_get_relationship :: "conf_world \<Rightarrow> ptr \<Rightarrow> ptr \<Rightarrow> nat option" where
  "member_get_relationship w p q =
     (let rs = m_relationships (mem w p) in
      case rel_index (\<lambda>r. rel_id r = m_id (mem w q)) rs of
        Some i \<Rightarrow> Some i
      | None \<Rightarrow> map_option (\<lambda>i. length rs - 1 - i) (rel_index (\<lambda>r. rel_id r = 0) (rev rs)))"

definition conference_member_get :: "conf_world \<Rightarrow> uint32 \<Rightarrow> ptr option" where
  "conference_member_get w mid =
     (if mid = 0 then None
      else case filter (\<lambda>p. \<not> mflag w p MFLAG_NOCHANNEL \<and> m_id (mem w p) = mid) (c_members (conf w)) of
             [] \<Rightarrow> None
           | p # _ \<Rightarrow> if mflag w p MFLAG_INTREE then Some p else None)"

definition record_matches :: "conf_world \<Rightarrow> string option \<Rightarrow> ptr \<Rightarrow> bool" where
  "record_matches w path p \<longleftrightarrow>
     mflag w p MFLAG_NOCHANNEL \<and> (case path of None \<Rightarrow> True | Some s \<Rightarrow> s = m_rec_path (mem w p))"

definition conference_record_stop :: "conf_world \<Rightarrow> string option \<Rightarrow> nat \<times> conf_world" where
  "conference_record_stop w path =
     (let ps = filter (record_matches w path) (c_members (conf w))
      in (length ps, fold (\<lambda>p. clear_mflag p MFLAG_RUNNING) ps w))"

text \<open>\<open>alloc\<close> says whether the pool has memory for the new relationship.\<close>

definition member_add_relationship :: "bool \<Rightarrow> conf_world \<Rightarrow> ptr \<Rightarrow> uint32 \<Rightarrow> bool \<times> conf_world" where
  "member_add_relationship alloc w p mid =
     (if mid = 0 \<or> \<not> alloc then (False, w)
      else (True,
            upd_mem p (\<lambda>m. m\<lparr>m_relationships := \<lparr>rel_id = mid, rel_flags = {}\<rparr> # m_relationships m\<rparr>)
              (upd_conf (\<lambda>c. c\<lparr>c_relationship_total := c_relationship_total c + 1\<rparr>) w)))"

text \<open>
  Removal walks the list with \<open>last\<close> one node behind, also after it has unlinked a node: the
  node behind an unlinked one keeps its place whatever its id is, because the link that is
  changed is that of the node already taken out.  The counter goes down for every match seen.
\<close>

fun unlink_rels :: "uint32 \<Rightarrow> conference_relationship list \<Rightarrow> conference_relationship list" where
  "unlink_rels mid [] = []"
| "unlink_rels mid [r] = (if rel_id r = mid then [] else [r])"
| "unlink_rels mid (r # s # rs) =
     (if rel_id r = mid then s # unlink_rels mid rs else r # unlink_rels mid (s # rs))"

definition member_del_relationship :: "conf_world \<Rightarrow> ptr \<Rightarrow> uint32 \<Rightarrow> switch_status_t \<times> conf_world" where
  "member_del_relationship w p mid =
     (if mid = 0 then (SWITCH_STATUS_FALSE, w)
      else let rs = m_relationships (mem w p);
               n = length (filter (\<lambda>r. rel_id r = mid) rs)
           in (if n = 0 then SWITCH_STATUS_FALSE else SWITCH_STATUS_SUCCESS,
               upd_mem p (\<lambda>m. m\<lparr>m_relationships := unlink_rels mid rs\<rparr>)
                 (upd_conf (\<lambda>c. c\<lparr>c_relationship_total := c_relationship_total c - of_nat n\<rparr>) w)))"

section \<open>Playback queues\<close>

definition bump :: "conference_file_node \<Rightarrow> conference_file_node" where
  "bump n = n\<lparr>fn_done := fn_done n + 1\<rparr>"

definition bump_head :: "conference_file_node list \<Rightarrow> conference_file_node list" where
  "bump_head ns = (case ns of [] \<Rightarrow> [] | n # ns \<Rightarrow> bump n # ns)"

definition conference_stop_file :: "conf_world \<Rightarrow> file_stop_t \<Rightarrow> nat \<times> conf_world" where
  "conference_stop_file w stop =
     (let c = conf w; asyncs = (if c_async_fnode c = None then 0 else 1 :: nat) in
      case stop of
        FILE_STOP_ALL \<Rightarrow>
          (length (c_fnode c) + asyncs,
           upd_conf (\<lambda>c. c\<lparr>c_fnode := map bump (c_fnode c),
                          c_async_fnode := map_option bump (c_async_fnode c)\<rparr>) w)
      | FILE_STOP_ASYNC \<Rightarrow>
          (asyncs, upd_conf (\<lambda>c. c\<lparr>c_async_fnode := map_option bump (c_async_fnode c)\<rparr>) w)
      | FILE_STOP_CURRENT \<Rightarrow>
          (min 1 (length (c_fnode c)), upd_conf (\<lambda>c. c\<lparr>c_fnode := bump_head (c_fnode c)\<rparr>) w))"

definition conference_member_stop_file :: "conf_world \<Rightarrow> ptr \<Rightarrow> file_stop_t \<Rightarrow> nat \<times> conf_world" where
  "conference_member_stop_file w p stop =
     (let ns = m_fnode (mem w p) in
      if stop = FILE_STOP_ALL
      then (length ns, upd_mem p (\<lambda>m. m\<lparr>m_fnode := map bump ns\<rparr>) w)
      else (min 1 (length ns), upd_mem p (\<lambda>m. m\<lparr>m_fnode := bump_head ns\<rparr>) w))"

fun send_all_dtmf_loop :: "uint32 \<Rightarrow> ptr list \<Rightarrow> string \<Rightarrow> conf_world \<Rightarrow> conf_world" where
  "send_all_dtmf_loop own [] dtmf w = w"
| "send_all_dtmf_loop own (p # ps) dtmf w =
     send_all_dtmf_loop own ps dtmf
       (if m_id (mem w p) = own \<or> m_session (mem w p) = None then w
        else fold (\<lambda>d w. emit (Send_dtmf p [d]) (emit (Kill_channel p) w)) dtmf w)"

definition conference_send_all_dtmf :: "conf_world \<Rightarrow> ptr \<Rightarrow> string \<Rightarrow> conf_world" where
  "conference_send_all_dtmf w p dtmf =
     send_all_dtmf_loop (m_id (mem w p)) (c_members (conf w)) dtmf w"

text \<open>
  The voice and text handed to the speech engine.  A text \<open>#voice#text\<close> chooses the voice;
  its name is copied into \<open>voice[128]\<close> with its own length as the limit.
\<close>

definition tts_parts :: "string \<Rightarrow> string \<Rightarrow> (string option \<times> string) outcome" where
  "tts_parts dflt text =
     (case text of
        CHR ''#'' # rest \<Rightarrow>
          (case strchr rest (CHR ''#'') of
             None \<Rightarrow> Inr (None, text)
           | Some n \<Rightarrow> if n + 1 \<le> 128 then Inr (Some (take n rest), drop (n + 1) rest)
                       else Inl OutOfBounds)
      | _ \<Rightarrow> Inr (Some dflt, text))"

definition feed_tts :: "string \<Rightarrow> string \<Rightarrow> conf_world \<Rightarrow> conf_world outcome" where
  "feed_tts dflt text w =
     bindE (tts_parts dflt text)
       (\<lambda>(voice, text). Inr (emit (Speak text) (case voice of None \<Rightarrow> w | Some v \<Rightarrow> emit (Voice v) w)))"

definition speech_node :: "uint32 \<Rightarrow> conference_file_node" where
  "speech_node leadin =
     \<lparr>fn_type = NODE_TYPE_SPEECH, fn_done = 0, fn_async = False, fn_leadin = leadin, fn_file = None\<rparr>"

definition file_node :: "uint32 \<Rightarrow> bool \<Rightarrow> string \<Rightarrow> conference_file_node" where
  "file_node leadin async file =
     \<lparr>fn_type = NODE_TYPE_FILE, fn_done = 0, fn_async = async, fn_leadin = leadin, fn_file = Some file\<rparr>"

definition conference_say ::
  "conf_env \<Rightarrow> conf_world \<Rightarrow> string option \<Rightarrow> uint32 \<Rightarrow> (switch_status_t \<times> conf_world) outcome" where
  "conference_say env w text leadin =
     (case text of
        None \<Rightarrow> Inr (SWITCH_STATUS_GENERR, w)
      | Some [] \<Rightarrow> Inr (SWITCH_STATUS_GENERR, w)
      | Some t \<Rightarrow>
          (case (c_tts_engine (conf w), c_tts_voice (conf w)) of
             (Some _, Some voice) \<Rightarrow>
               if c_count (conf w) = 0 then Inr (SWITCH_STATUS_FALSE, w)
               else if \<not> pool_ok env then Inr (SWITCH_STATUS_MEMERR, w)
               else if \<not> c_sh (conf w) \<and> \<not> speech_opens env then Inr (SWITCH_STATUS_FALSE, w)
               else bindE (feed_tts voice t
                             (upd_conf (\<lambda>c. c\<lparr>c_sh := True, c_fnode := c_fnode c @ [speech_node leadin]\<rparr>) w))
                      (\<lambda>w. Inr (SWITCH_STATUS_SUCCESS, w))
           | _ \<Rightarrow> Inr (SWITCH_STATUS_FALSE, w)))"

definition conference_member_say ::
  "conf_env \<Rightarrow> conf_world \<Rightarrow> ptr \<Rightarrow> string option \<Rightarrow> uint32 \<Rightarrow> (switch_status_t \<times> conf_world) outcome" where
  "conference_member_say env w p text leadin =
     (case text of
        None \<Rightarrow> Inr (SWITCH_STATUS_FALSE, w)
      | Some [] \<Rightarrow> Inr (SWITCH_STATUS_FALSE, w)
      | Some t \<Rightarrow>
          if \<not> m_conference (mem w p) then Inl AssertionFailed
          else (case (c_tts_engine (conf w), c_tts_voice (conf w)) of
             (Some _, Some voice) \<Rightarrow>
               if \<not> pool_ok env then Inr (SWITCH_STATUS_MEMERR, w)
               else if \<not> m_sh (mem w p) \<and> \<not> speech_opens env then Inr (SWITCH_STATUS_FALSE, w)
               else bindE (feed_tts voice t
                             (upd_mem p (\<lambda>m. m\<lparr>m_sh := True, m_fnode := m_fnode m @ [speech_node leadin]\<rparr>) w))
                      (\<lambda>w. Inr (SWITCH_STATUS_SUCCESS, w))
           | _ \<Rightarrow> Inr (SWITCH_STATUS_SUCCESS, w)))"

definition switch_is_file_path :: "string \<Rightarrow> bool" where
  "switch_is_file_path file =
     (let file = (if take 2 file = ''[/'' then
                    (case switch_find_end_paren (Some file) (CHR ''['') (CHR '']'') of
                       Some e \<Rightarrow> drop (e + 1) file | None \<Rightarrow> file)
                  else file)
      in take 1 file = ''/'' \<or> strstr file ''://'' \<noteq> None)"

text \<open>
  The file to open for the conference: a plain name is looked for under the sound prefix, or
  spoken when there is none.  \<open>Inl None\<close>: nothing is to be done and the status is success;
  \<open>Inl (Some t)\<close>: \<open>t\<close> is to be spoken.
\<close>

definition conf_file_choice :: "conf_world \<Rightarrow> string \<Rightarrow> bool \<Rightarrow> string option + string" where
  "conf_file_choice w file async =
     (let say = strncasecmp_eq 4 file ''say:'' in
      if \<not> async \<and> say then Inl (Some (drop 4 file))
      else if switch_is_file_path file then Inr file
      else if \<not> say \<and> c_sound_prefix (conf w) \<noteq> None
        then Inr (the (c_sound_prefix (conf w)) @ ''/'' @ file)
      else if \<not> async then Inl (Some file)
      else Inl None)"

definition queue_conf_file :: "conf_env \<Rightarrow> conf_world \<Rightarrow> string \<Rightarrow> uint32 \<Rightarrow> bool \<Rightarrow> switch_status_t \<times> conf_world" where
  "queue_conf_file env w file leadin async =
     (if \<not> pool_ok env then (SWITCH_STATUS_MEMERR, w)
      else if \<not> file_opens env file then (SWITCH_STATUS_NOTFOUND, w)
      else if async then
        (SWITCH_STATUS_SUCCESS,
         (case c_async_fnode (conf w) of None \<Rightarrow> id | Some old \<Rightarrow> emit (Close_file old))
           (upd_conf (\<lambda>c. c\<lparr>c_async_fnode := Some (file_node leadin True file)\<rparr>) w))
      else (SWITCH_STATUS_SUCCESS,
            upd_conf (\<lambda>c. c\<lparr>c_fnode := c_fnode c @ [file_node leadin False file]\<rparr>) w))"

definition conference_play_file ::
  "conf_env \<Rightarrow> conf_world \<Rightarrow> string option \<Rightarrow> uint32 \<Rightarrow> switch_channel option \<Rightarrow> bool \<Rightarrow>
     (switch_status_t \<times> conf_world) outcome" where
  "conference_play_file env w file leadin channel async =
     (if zstr file then Inr (SWITCH_STATUS_NOTFOUND, w)
      else if c_count (conf w) = 0 then Inr (SWITCH_STATUS_FALSE, w)
      else let file = (case channel of None \<Rightarrow> the file | Some ch \<Rightarrow> expand_variables env ch (the file))
           in case conf_file_choice w file async of
                Inl None \<Rightarrow> Inr (SWITCH_STATUS_SUCCESS, w)
              | Inl (Some t) \<Rightarrow> conference_say env w (Some t) leadin
              | Inr f \<Rightarrow> Inr (queue_conf_file env w f leadin async))"

definition queue_member_file :: "conf_env \<Rightarrow> conf_world \<Rightarrow> ptr \<Rightarrow> string \<Rightarrow> uint32 \<Rightarrow>
     (switch_status_t \<times> conf_world) outcome" where
  "queue_member_file env w p file leadin =
     (if \<not> pool_ok env then Inr (SWITCH_STATUS_MEMERR, w)
      else if \<not> m_conference (mem w p) then Inl NullPointer
      else if \<not> file_opens env file then Inr (SWITCH_STATUS_NOTFOUND, w)
      else Inr (SWITCH_STATUS_SUCCESS,
            upd_mem p (\<lambda>m. m\<lparr>m_fnode := m_fnode m @ [file_node leadin False file]\<rparr>) w))"

definition conference_member_play_file ::
  "conf_env \<Rightarrow> conf_world \<Rightarrow> ptr \<Rightarrow> string option \<Rightarrow> uint32 \<Rightarrow> (switch_status_t \<times> conf_world) outcome" where
  "conference_member_play_file env w p file leadin =
     (case file of
        None \<Rightarrow> Inr (SWITCH_STATUS_FALSE, w)
      | Some f \<Rightarrow>
          bindE (member_channel w p) (\<lambda>ch.
            let f = expand_variables env ch f in
            if strncasecmp_eq 4 f ''say:'' then
              (if drop 4 f = [] then Inr (SWITCH_STATUS_FALSE, w)
               else conference_member_say env w p (Some (drop 4 f)) leadin)
            else if switch_is_file_path f then queue_member_file env w p f leadin
            else if \<not> m_conference (mem w p) then Inl NullPointer
            else case c_sound_prefix (conf w) of
                   Some pre \<Rightarrow> queue_member_file env w p (pre @ ''/'' @ f) leadin
                 | None \<Rightarrow> if f \<noteq> [] then conference_member_say env w p (Some f) leadin
                           else queue_member_file env w p f leadin))"

section \<open>Joining and leaving\<close>

definition play ::
  "conf_env \<Rightarrow> string option \<Rightarrow> uint32 \<Rightarrow> switch_channel option \<Rightarrow> bool \<Rightarrow> conf_world \<Rightarrow> conf_world outcome" where
  "play env file leadin channel async w =
     bindE (conference_play_file env w file leadin channel async) (\<lambda>(_, w). Inr w)"

definition say_to ::
  "conf_env \<Rightarrow> ptr \<Rightarrow> string \<Rightarrow> uint32 \<Rightarrow> conf_world \<Rightarrow> conf_world outcome" where
  "say_to env p text leadin w =
     bindE (conference_member_say env w p (Some text) leadin) (\<lambda>(_, w). Inr w)"

text \<open>Arithmetic on a C \<open>int\<close> that wraps around, as the compilers in use have it.\<close>

definition s32 :: "int \<Rightarrow> int" where
  "s32 n = signed_take_bit 31 n"

text \<open>The presence event; \<open>dir\<close> is the name of its last header. The counter \<open>EC\<close> goes up.\<close>

definition fire_presence :: "string \<Rightarrow> conf_world \<Rightarrow> conf_world" where
  "fire_presence dir w =
     (let c = conf w; one = (c_count c = 1) in
      (emit (Fired_presence
        [Hdr ''proto'' ''conf'', Hdr ''login'' (c_name c),
         Hdr ''from'' (c_name c @ ''@'' @ c_domain c),
         Hdr ''status'' (''Active ('' @ show_int (sint (c_count c)) @ '' caller'' @
                          (if one then [] else ''s'') @ '')''),
         Hdr ''event_type'' ''presence'', Hdr ''alt_event_type'' ''dialog'',
         Hdr ''event_count'' (show_int (EC w)), Hdr ''unique-id'' (c_name c),
         Hdr ''channel-state'' ''CS_ROUTING'',
         Hdr ''answer-state'' (if one then ''early'' else ''confirmed''),
         Hdr dir (if one then ''outbound'' else ''inbound'')]) w)\<lparr>EC := s32 (EC w + 1)\<rparr>)"

definition silent_req :: "switch_channel \<Rightarrow> bool" where
  "silent_req ch \<longleftrightarrow> switch_channel_test_app_flag_key ''conf_silent'' ch CONF_SILENT_REQ \<noteq> 0"

definition link_member :: "conf_env \<Rightarrow> ptr \<Rightarrow> conf_world \<Rightarrow> conf_world" where
  "link_member env p w =
     upd_conf (\<lambda>c. c\<lparr>c_members := p # c_members c\<rparr>)
       (upd_mem p (\<lambda>m. m\<lparr>m_join_time := epoch_time_now env, m_conference := True,
                       m_energy_level := c_energy_level (conf w), m_score_iir := 0,
                       m_verbose_events := c_verbose_events (conf w),
                       m_flags := insert MFLAG_INTREE (m_flags m)\<rparr>) w)"

definition count_member :: "ptr \<Rightarrow> conf_world \<Rightarrow> conf_world" where
  "count_member p w =
     upd_conf (\<lambda>c. c\<lparr>c_count := c_count c + 1,
                     c_end_count := (if mflag w p MFLAG_ENDCONF then c_end_count c + 1 else c_end_count c)\<rparr>) w"

definition set_join_variables :: "ptr \<Rightarrow> conf_world \<Rightarrow> conf_world outcome" where
  "set_join_variables p w =
     bindE (member_channel w p) (\<lambda>ch.
     bindE (set_variable ch ''conference_member_id'' (Some (show_int (sint (m_id (mem w p)))))) (\<lambda>ch.
     bindE (set_variable ch ''conference_moderator'' (Some (true_false (mflag w p MFLAG_MOD)))) (\<lambda>ch.
     bindE (set_variable ch ''conference_uuid'' (Some (c_uuid_str (conf w)))) (\<lambda>ch.
       Inr (set_member_channel p ch w)))))"

text \<open>What the others hear when a second or later member comes in.\<close>

definition join_sounds :: "conf_env \<Rightarrow> switch_channel \<Rightarrow> conf_world \<Rightarrow> conf_world outcome" where
  "join_sounds env ch w =
     (if c_count (conf w) > 1 then
        let w = (if c_moh_sound (conf w) \<noteq> None \<and> \<not> cflag w CFLAG_WAIT_MOD
                 then snd (conference_stop_file w FILE_STOP_ASYNC) else w)
        in if \<not> silent_req ch \<and> \<not> zstr (c_enter_sound (conf w)) \<and> cflag w CFLAG_ENTER_SOUND then
             let own = get_variable env ch ''conference_enter_sound'' in
             play env (if \<not> zstr own then own else c_enter_sound (conf w)) CONF_DEFAULT_LEADIN (Some ch)
               (cflag w CFLAG_WAIT_MOD) w
           else Inr w
      else Inr w)"

text \<open>What the member that comes in hears.\<close>

definition join_announcement :: "conf_env \<Rightarrow> ptr \<Rightarrow> switch_channel \<Rightarrow> conf_world \<Rightarrow> conf_world outcome" where
  "join_announcement env p ch w =
     (let c = conf w in
      case autocall_list env ch of
        Some n \<Rightarrow> say_to env p (''Auto Calling '' @ show_int n @ '' parties'') 0 w
      | None \<Rightarrow>
          if silent_req ch then Inr w
          else if c_count c \<ge> c_announce_count c \<and> c_announce_count c > 1
            then say_to env p (''There are '' @ show_int (sint (c_count c)) @ '' callers'')
                   CONF_DEFAULT_LEADIN w
          else if c_count c = 1 \<and> c_perpetual_sound c = None \<and> \<not> cflag w CFLAG_WAIT_MOD \<and>
                  \<not> cflag w CFLAG_BRIDGE_TO
            then (if c_alone_sound c \<noteq> None
                  then play env (c_alone_sound c) CONF_DEFAULT_LEADIN (Some ch) True
                         (snd (conference_stop_file w FILE_STOP_ASYNC))
                  else say_to env p ''You are currently the only person in this conference.''
                         CONF_DEFAULT_LEADIN w)
          else Inr w)"

definition join_floor :: "ptr \<Rightarrow> conf_world \<Rightarrow> conf_world" where
  "join_floor p w =
     (let w = (if c_count (conf w) = 1 then upd_conf (\<lambda>c. c\<lparr>c_floor_holder := Some p\<rparr>) w else w)
      in if c_min (conf w) \<noteq> 0 \<and> c_count (conf w) \<ge> ucast (c_min (conf w))
         then set_cflag CFLAG_ENFORCE_MIN w else w)"

definition join_controls :: "conf_env \<Rightarrow> ptr \<Rightarrow> switch_channel \<Rightarrow> conf_world \<Rightarrow> conf_world" where
  "join_controls env p ch w =
     (let c = conf w;
          own = get_variable env ch ''conference_controls'';
          conf_ctl = (if \<not> mflag w p MFLAG_MOD \<or> c_moderator_controls c = None
                      then c_caller_controls c else c_moderator_controls c);
          controls = (if zstr own then conf_ctl else own);
          controls = (if zstr controls then ''default'' else the controls);
          w = upd_mem p (\<lambda>m. m\<lparr>m_dmachine := True\<rparr>) w
      in if strcasecmp_eq controls ''none'' then w else emit (Bind_controls p controls) w)"

text \<open>\<open>switch_event_fire\<close> of the join is not subject to the event mask.\<close>

definition conference_add_member :: "conf_env \<Rightarrow> conf_world \<Rightarrow> ptr \<Rightarrow> (switch_status_t \<times> conf_world) outcome" where
  "conference_add_member env w p =
     (let w = link_member env p w in
      if mflag w p MFLAG_NOCHANNEL then Inr (SWITCH_STATUS_SUCCESS, w)
      else
        bindE (set_join_variables p (fire_presence ''presence-call-direction'' (count_member p w))) (\<lambda>w.
        bindE (member_channel w p) (\<lambda>ch.
        let w = (if cflag w CFLAG_WAIT_MOD \<and> mflag w p MFLAG_MOD then clear_cflag CFLAG_WAIT_MOD w else w) in
        bindE (join_sounds env ch w) (\<lambda>w.
        bindE (join_announcement env p ch w) (\<lambda>w.
        let w = join_floor p w;
            w = (if silent_req ch then w else fire_member p [Hdr ''Action'' ''add-member''] w);
            ch = switch_channel_set_app_flag_key ''conf_silent''
                   (switch_channel_clear_app_flag_key ''conf_silent'' ch CONF_SILENT_REQ) CONF_SILENT_DONE;
            w = set_member_channel p ch w
        in Inr (SWITCH_STATUS_SUCCESS, join_controls env p ch w))))))"

text \<open>
  Leaving.  \<open>leave_sound\<close> comes first, then the member's own queue and speech handle are
  taken off it, it is unlinked, and its files are closed.
\<close>

definition leave_sound :: "conf_env \<Rightarrow> ptr \<Rightarrow> conf_world \<Rightarrow> (bool \<times> conf_world) outcome" where
  "leave_sound env p w =
     (case m_session (mem w p) of
        None \<Rightarrow> Inr (False, w)
      | Some ch \<Rightarrow>
          (case get_variable env ch ''conference_exit_sound'' of
             None \<Rightarrow> Inr (False, w)
           | Some s \<Rightarrow> bindE (play env (Some s) CONF_DEFAULT_LEADIN (Some ch) (cflag w CFLAG_WAIT_MOD) w)
                         (\<lambda>w. Inr (True, w))))"

definition close_nodes :: "conference_file_node list \<Rightarrow> conf_world \<Rightarrow> conf_world" where
  "close_nodes ns = fold (\<lambda>n. if fn_type n \<noteq> NODE_TYPE_SPEECH then emit (Close_file n) else id) ns"

definition unlink_member :: "ptr \<Rightarrow> conf_world \<Rightarrow> conf_world" where
  "unlink_member p w =
     (let nodes = m_fnode (mem w p); sh = m_sh (mem w p);
          w = upd_mem p (\<lambda>m. m\<lparr>m_fnode := [], m_sh := False, m_dmachine := False,
                              m_flags := m_flags m - {MFLAG_INTREE}\<rparr>) w;
          w = upd_conf (\<lambda>c. c\<lparr>c_members := remove1 p (c_members c)\<rparr>) w;
          w = close_nodes nodes w
      in if sh then emit Close_speech w else w)"

text \<open>
  \<open>member->conference\<close> is followed before it is cleared: a member that is in no conference
  stops here.
\<close>

definition drop_floor :: "ptr \<Rightarrow> conf_world \<Rightarrow> conf_world outcome" where
  "drop_floor p w =
     (if \<not> m_conference (mem w p) then Inl NullPointer
      else Inr (upd_mem p (\<lambda>m. m\<lparr>m_conference := False\<rparr>)
             (if c_floor_holder (conf w) = Some p
              then upd_conf (\<lambda>c. c\<lparr>c_floor_holder := None\<rparr>) w else w)))"

definition uncount_member :: "ptr \<Rightarrow> conf_world \<Rightarrow> conf_world" where
  "uncount_member p w =
     (let w = upd_conf (\<lambda>c. c\<lparr>c_count := c_count c - 1\<rparr>) w
      in if mflag w p MFLAG_ENDCONF then
           let w = upd_conf (\<lambda>c. c\<lparr>c_end_count := c_end_count c - 1\<rparr>) w
           in if c_end_count (conf w) = 0 then set_cflag CFLAG_DESTRUCT w else w
         else w)"

definition leave_effects :: "conf_env \<Rightarrow> ptr \<Rightarrow> bool \<Rightarrow> conf_world \<Rightarrow> conf_world outcome" where
  "leave_effects env p exit_sound w =
     (let c = conf w in
      if (c_min c \<noteq> 0 \<and> cflag w CFLAG_ENFORCE_MIN \<and> c_count c < ucast (c_min c)) \<or>
         (cflag w CFLAG_DYNAMIC \<and> c_count c = 0)
      then Inr (set_cflag CFLAG_DESTRUCT w)
      else
        bindE (if \<not> exit_sound \<and> c_exit_sound c \<noteq> None \<and> cflag w CFLAG_EXIT_SOUND
               then bindE (member_channel w p) (\<lambda>ch. play env (c_exit_sound c) 0 (Some ch) False w)
               else Inr w) (\<lambda>w.
        if c_count (conf w) = 1 \<and> c_alone_sound c \<noteq> None \<and> \<not> cflag w CFLAG_WAIT_MOD
        then bindE (member_channel w p) (\<lambda>ch.
               play env (c_alone_sound c) 0 (Some ch) True (snd (conference_stop_file w FILE_STOP_ASYNC)))
        else Inr w))"

text \<open>
  When one member with a channel is left, the floor goes to the head of the list, whatever
  kind of member that is.
\<close>

definition leave_floor :: "conf_world \<Rightarrow> conf_world" where
  "leave_floor w =
     (if c_count (conf w) = 1
      then upd_conf (\<lambda>c. c\<lparr>c_floor_holder := (case c_members c of [] \<Rightarrow> None | q # _ \<Rightarrow> Some q)\<rparr>) w
      else w)"

definition conference_del_member :: "conf_env \<Rightarrow> conf_world \<Rightarrow> ptr \<Rightarrow> (switch_status_t \<times> conf_world) outcome" where
  "conference_del_member env w p =
     bindE (leave_sound env p w) (\<lambda>(exit_sound, w).
     bindE (drop_floor p (unlink_member p w)) (\<lambda>w.
       if mflag w p MFLAG_NOCHANNEL then Inr (SWITCH_STATUS_SUCCESS, w)
       else bindE (leave_effects env p exit_sound (fire_presence ''call-direction'' (uncount_member p w))) (\<lambda>w.
         let w = leave_floor w;
             w = (if test_eflag w EFLAG_DEL_MEMBER
                  then emit (Fired_maint (conference_add_event_member_data w p @ conference_add_event_data w @
                               [Hdr ''Action'' ''del-member''])) w
                  else w)
         in Inr (SWITCH_STATUS_SUCCESS, w))))"

section \<open>What playing and announcing leave alone\<close>

text \<open>
  The part of the state that membership is about.  Everything that only queues playback or
  writes the log keeps it.
\<close>

definition conf_core :: "conf_world \<Rightarrow> ptr list \<times> uint32 \<times> int \<times> ptr option \<times> uint32 \<times>
    (ptr \<Rightarrow> uint32 \<times> bool \<times> member_flag_t set \<times> bool \<times> conference_relationship list)" where
  "conf_core w =
     (c_members (conf w), c_count (conf w), c_end_count (conf w), c_floor_holder (conf w),
      c_relationship_total (conf w),
      \<lambda>p. (m_id (mem w p), m_conference (mem w p), m_flags (mem w p), m_session (mem w p) = None,
            m_relationships (mem w p)))"

named_theorems conf_core_simps \<open>operations that keep the core of a conference\<close>

lemma core_emit [conf_core_simps, simp]: "conf_core (emit e w) = conf_core w"
  by (simp add: conf_core_def emit_def)

lemma core_EC [conf_core_simps, simp]: "conf_core (w\<lparr>EC := n\<rparr>) = conf_core w"
  by (simp add: conf_core_def)

lemma core_cflag [conf_core_simps, simp]:
  "conf_core (set_cflag f w) = conf_core w" "conf_core (clear_cflag f w) = conf_core w"
  by (simp_all add: conf_core_def set_cflag_def clear_cflag_def upd_conf_def)

lemma core_stop_file [conf_core_simps, simp]:
  "conf_core (snd (conference_stop_file w stop)) = conf_core w"
  by (cases stop) (simp_all add: conf_core_def conference_stop_file_def upd_conf_def Let_def)

lemma core_member_stop_file [conf_core_simps, simp]:
  "conf_core (snd (conference_member_stop_file w p stop)) = conf_core w"
  by (simp add: conf_core_def conference_member_stop_file_def upd_mem_def Let_def fun_eq_iff)

lemma core_fire [conf_core_simps, simp]:
  "conf_core (fire_presence dir w) = conf_core w" "conf_core (fire_member p hs w) = conf_core w"
  "conf_core (fire_conf hs w) = conf_core w"
  by (simp_all add: fire_presence_def fire_member_def fire_conf_def Let_def)

lemma core_fold [conf_core_simps]:
  "(\<And>x w. x \<in> set xs \<Longrightarrow> conf_core (f x w) = conf_core w) \<Longrightarrow> conf_core (fold f xs w) = conf_core w"
  by (induction xs arbitrary: w) simp_all

lemma core_close_nodes [conf_core_simps, simp]: "conf_core (close_nodes ns w) = conf_core w"
  by (simp add: close_nodes_def core_fold)

lemma core_feed_tts: "feed_tts v t w = Inr w' \<Longrightarrow> conf_core w' = conf_core w"
  by (auto simp: feed_tts_def bindE_eq_Inr split: option.splits)

lemma core_say: "conference_say env w t l = Inr (st, w') \<Longrightarrow> conf_core w' = conf_core w"
  by (auto simp: conference_say_def bindE_eq_Inr split: option.splits list.splits if_splits
      dest!: core_feed_tts) (simp_all add: conf_core_def upd_conf_def)

lemma core_member_say: "conference_member_say env w p t l = Inr (st, w') \<Longrightarrow> conf_core w' = conf_core w"
  by (auto simp: conference_member_say_def bindE_eq_Inr split: option.splits list.splits if_splits
      dest!: core_feed_tts) (simp_all add: conf_core_def upd_mem_def fun_eq_iff)

lemma core_queue_conf [conf_core_simps, simp]:
  "conf_core (snd (queue_conf_file env w f l a)) = conf_core w"
  by (auto simp: queue_conf_file_def conf_core_def upd_conf_def emit_def split: option.splits)

lemma core_queue_member: "queue_member_file env w p f l = Inr (st, w') \<Longrightarrow> conf_core w' = conf_core w"
  by (auto simp: queue_member_file_def conf_core_def upd_mem_def fun_eq_iff split: if_splits)

lemma core_play_file:
  "conference_play_file env w f l ch a = Inr (st, w') \<Longrightarrow> conf_core w' = conf_core w"
  by (auto simp: conference_play_file_def Let_def split: option.splits sum.splits if_splits
      dest!: core_say arg_cong [of "queue_conf_file _ _ _ _ _" _ snd])

lemma core_member_play_file:
  "conference_member_play_file env w p f l = Inr (st, w') \<Longrightarrow> conf_core w' = conf_core w"
  by (auto simp: conference_member_play_file_def Let_def bindE_eq_Inr split: option.splits if_splits
      dest!: core_member_say core_queue_member)

lemma core_play: "play env f l ch a w = Inr w' \<Longrightarrow> conf_core w' = conf_core w"
  by (auto simp: play_def bindE_eq_Inr dest: core_play_file)

lemma core_say_to: "say_to env p t l w = Inr w' \<Longrightarrow> conf_core w' = conf_core w"
  by (auto simp: say_to_def bindE_eq_Inr dest: core_member_say)

lemma core_join_sounds: "join_sounds env ch w = Inr w' \<Longrightarrow> conf_core w' = conf_core w"
  by (auto simp: join_sounds_def Let_def split: if_splits dest!: core_play)

lemma core_join_announcement: "join_announcement env p ch w = Inr w' \<Longrightarrow> conf_core w' = conf_core w"
  by (auto simp: join_announcement_def Let_def split: option.splits if_splits dest!: core_play core_say_to)

lemma core_leave_sound: "leave_sound env p w = Inr (b, w') \<Longrightarrow> conf_core w' = conf_core w"
  by (auto simp: leave_sound_def bindE_eq_Inr split: option.splits dest: core_play)

lemma core_leave_effects: "leave_effects env p b w = Inr w' \<Longrightarrow> conf_core w' = conf_core w"
  by (auto simp: leave_effects_def bindE_eq_Inr Let_def split: if_splits dest!: core_play)

lemma core_join_controls [conf_core_simps, simp]: "conf_core (join_controls env p ch w) = conf_core w"
  by (auto simp: join_controls_def Let_def conf_core_def upd_mem_def emit_def fun_eq_iff)

lemma core_set_channel [conf_core_simps]:
  "m_session (mem w p) \<noteq> None \<Longrightarrow> conf_core (set_member_channel p ch w) = conf_core w"
  by (auto simp: conf_core_def set_member_channel_def upd_mem_def fun_eq_iff)

lemma core_join_variables: "set_join_variables p w = Inr w' \<Longrightarrow> conf_core w' = conf_core w"
  by (auto simp: set_join_variables_def member_channel_def bindE_eq_Inr core_set_channel split: option.splits)

section \<open>Membership\<close>

abbreviation has_channel :: "conf_world \<Rightarrow> ptr \<Rightarrow> bool" where
  "has_channel w p \<equiv> \<not> mflag w p MFLAG_NOCHANNEL"

text \<open>
  The invariant: the list has no repetitions; a structure is in it exactly when it points to
  the conference and carries \<open>MFLAG_INTREE\<close>; members other than recordings have a session;
  the two counters count the members with a channel and those that end the conference; the
  floor is held by a member or by nobody.
\<close>

definition conf_inv :: "conf_world \<Rightarrow> bool" where
  "conf_inv w \<longleftrightarrow>
     distinct (c_members (conf w)) \<and>
     (\<forall>p. p \<in> set (c_members (conf w)) \<longleftrightarrow> m_conference (mem w p)) \<and>
     (\<forall>p. p \<in> set (c_members (conf w)) \<longleftrightarrow> mflag w p MFLAG_INTREE) \<and>
     (\<forall>p\<in>set (c_members (conf w)). has_channel w p \<longrightarrow> m_session (mem w p) \<noteq> None) \<and>
     c_count (conf w) = of_nat (length (filter (has_channel w) (c_members (conf w)))) \<and>
     c_end_count (conf w) =
       int (length (filter (\<lambda>p. has_channel w p \<and> mflag w p MFLAG_ENDCONF) (c_members (conf w)))) \<and>
     (\<forall>p. c_floor_holder (conf w) = Some p \<longrightarrow> p \<in> set (c_members (conf w)))"

lemma core_eqD:
  assumes "conf_core w' = conf_core w"
  shows "c_members (conf w') = c_members (conf w)" "c_count (conf w') = c_count (conf w)"
    "c_end_count (conf w') = c_end_count (conf w)" "c_floor_holder (conf w') = c_floor_holder (conf w)"
    "c_relationship_total (conf w') = c_relationship_total (conf w)"
    "m_id (mem w' p) = m_id (mem w p)" "m_conference (mem w' p) = m_conference (mem w p)"
    "m_flags (mem w' p) = m_flags (mem w p)"
    "m_session (mem w' p) = None \<longleftrightarrow> m_session (mem w p) = None"
    "m_relationships (mem w' p) = m_relationships (mem w p)"
proof -
  from assms show "c_members (conf w') = c_members (conf w)" "c_count (conf w') = c_count (conf w)"
    "c_end_count (conf w') = c_end_count (conf w)" "c_floor_holder (conf w') = c_floor_holder (conf w)"
    "c_relationship_total (conf w') = c_relationship_total (conf w)"
    by (simp_all only: conf_core_def prod.inject)
  from assms have "(\<lambda>p. (m_id (mem w' p), m_conference (mem w' p), m_flags (mem w' p), m_session (mem w' p) = None,
            m_relationships (mem w' p))) =
    (\<lambda>p. (m_id (mem w p), m_conference (mem w p), m_flags (mem w p), m_session (mem w p) = None,
            m_relationships (mem w p)))"
    by (simp only: conf_core_def prod.inject)
  from fun_cong [OF this, of p]
  show "m_id (mem w' p) = m_id (mem w p)" "m_conference (mem w' p) = m_conference (mem w p)"
    "m_flags (mem w' p) = m_flags (mem w p)"
    "m_session (mem w' p) = None \<longleftrightarrow> m_session (mem w p) = None"
    "m_relationships (mem w' p) = m_relationships (mem w p)"
    by (simp_all only: prod.inject)
qed

lemma conf_inv_core:
  assumes "conf_core w' = conf_core w"
  shows "conf_inv w' = conf_inv w"
  by (simp only: conf_inv_def core_eqD [OF assms])

text \<open>The changes of the core that joining and leaving make.\<close>

definition joined :: "conf_world \<Rightarrow> ptr \<Rightarrow> conf_world \<Rightarrow> bool" where
  "joined w p w' \<longleftrightarrow>
     c_members (conf w') = p # c_members (conf w) \<and>
     (\<forall>q. m_flags (mem w' q) = (if q = p then insert MFLAG_INTREE (m_flags (mem w q)) else m_flags (mem w q))) \<and>
     (\<forall>q. m_conference (mem w' q) \<longleftrightarrow> q = p \<or> m_conference (mem w q)) \<and>
     (\<forall>q. m_session (mem w' q) = None \<longleftrightarrow> m_session (mem w q) = None) \<and>
     (\<forall>q. m_id (mem w' q) = m_id (mem w q)) \<and>
     (if has_channel w p
      then m_session (mem w p) \<noteq> None \<and> c_count (conf w') = c_count (conf w) + 1 \<and>
           c_end_count (conf w') = c_end_count (conf w) + (if mflag w p MFLAG_ENDCONF then 1 else 0) \<and>
           c_floor_holder (conf w') = (if c_count (conf w') = 1 then Some p else c_floor_holder (conf w))
      else c_count (conf w') = c_count (conf w) \<and> c_end_count (conf w') = c_end_count (conf w) \<and>
           c_floor_holder (conf w') = c_floor_holder (conf w))"

lemma joined_core:
  assumes "conf_core w'' = conf_core w'" and "joined w p w'"
  shows "joined w p w''"
  using assms(2) unfolding joined_def core_eqD [OF assms(1)] .

lemma link_member_joined:
  "\<not> has_channel w p \<Longrightarrow> joined w p (link_member env p w)"
  "has_channel w p \<Longrightarrow> m_session (mem w p) \<noteq> None \<Longrightarrow>
     joined w p (join_floor p (count_member p (link_member env p w)))"
  by (simp_all add: joined_def link_member_def count_member_def join_floor_def set_cflag_def upd_conf_def
      upd_mem_def Let_def)

lemma core_join_floor_cong:
  assumes "conf_core w' = conf_core w"
  shows "conf_core (join_floor p w') = conf_core (join_floor p w)"
  by (simp add: conf_core_def join_floor_def upd_conf_def set_cflag_def Let_def core_eqD [OF assms])

lemma link_member_same:
  "mflag (link_member env p w) p f \<longleftrightarrow> f = MFLAG_INTREE \<or> mflag w p f"
  "m_session (mem (link_member env p w) p) = m_session (mem w p)"
  by (auto simp: link_member_def upd_conf_def upd_mem_def)

lemma add_member_joined:
  assumes "conference_add_member env w p = Inr (st, w')"
  shows "st = SWITCH_STATUS_SUCCESS \<and> joined w p w'"
proof (cases "has_channel w p")
  case False
  with assms show ?thesis
    by (auto simp: conference_add_member_def Let_def link_member_same link_member_joined)
next
  case True
  define w1 where "w1 = count_member p (link_member env p w)"
  obtain w2 ch w3 w4 w5 ch' where
    2: "set_join_variables p (fire_presence ''presence-call-direction'' w1) = Inr w2"
    and ch: "member_channel w2 p = Inr ch"
    and 3: "join_sounds env ch (if cflag w2 CFLAG_WAIT_MOD \<and> mflag w2 p MFLAG_MOD
              then clear_cflag CFLAG_WAIT_MOD w2 else w2) = Inr w3"
    and 4: "join_announcement env p ch w3 = Inr w4"
    and st: "st = SWITCH_STATUS_SUCCESS"
    and 5: "w5 = (if silent_req ch then join_floor p w4
                  else fire_member p [Hdr ''Action'' ''add-member''] (join_floor p w4))"
    and w': "w' = join_controls env p ch' (set_member_channel p ch' w5)"
    using assms True by (auto simp: conference_add_member_def Let_def bindE_eq_Inr w1_def link_member_same)
  have c2: "conf_core w2 = conf_core w1" using core_join_variables [OF 2] by simp
  have c4: "conf_core w4 = conf_core w1"
    using c2 core_join_sounds [OF 3] core_join_announcement [OF 4] by (simp split: if_splits)
  have c5: "conf_core w5 = conf_core (join_floor p w1)"
    using core_join_floor_cong [OF c4] by (simp add: 5)
  have "m_session (mem w2 p) \<noteq> None" using ch by (auto simp: member_channel_def split: option.splits)
  then have s1: "m_session (mem w1 p) \<noteq> None" by (simp only: core_eqD(9) [OF c2] not_False_eq_True)
  then have s0: "m_session (mem w p) \<noteq> None"
    by (simp add: w1_def count_member_def upd_conf_def link_member_same)
  have "m_session (mem (join_floor p w1) p) = m_session (mem w1 p)"
    by (simp add: join_floor_def upd_conf_def set_cflag_def Let_def)
  with s1 have "m_session (mem w5 p) \<noteq> None" by (simp only: core_eqD(9) [OF c5] not_False_eq_True)
  with c5 have "conf_core w' = conf_core (join_floor p w1)"
    by (simp add: w' core_set_channel)
  with link_member_joined(2) [OF True s0] st show ?thesis
    unfolding w1_def by (blast intro: joined_core)
qed

definition left :: "conf_world \<Rightarrow> ptr \<Rightarrow> conf_world \<Rightarrow> bool" where
  "left w p w' \<longleftrightarrow>
     m_conference (mem w p) \<and>
     c_members (conf w') = remove1 p (c_members (conf w)) \<and>
     (\<forall>q. m_flags (mem w' q) = (if q = p then m_flags (mem w q) - {MFLAG_INTREE} else m_flags (mem w q))) \<and>
     (\<forall>q. m_conference (mem w' q) \<longleftrightarrow> q \<noteq> p \<and> m_conference (mem w q)) \<and>
     (\<forall>q. m_session (mem w' q) = None \<longleftrightarrow> m_session (mem w q) = None) \<and>
     (\<forall>q. m_id (mem w' q) = m_id (mem w q)) \<and>
     (let kept = (if c_floor_holder (conf w) = Some p then None else c_floor_holder (conf w)) in
      if has_channel w p
      then c_count (conf w') = c_count (conf w) - 1 \<and>
           c_end_count (conf w') = c_end_count (conf w) - (if mflag w p MFLAG_ENDCONF then 1 else 0) \<and>
           c_floor_holder (conf w') =
             (if c_count (conf w') = 1
              then (case c_members (conf w') of [] \<Rightarrow> None | q # _ \<Rightarrow> Some q) else kept)
      else c_count (conf w') = c_count (conf w) \<and> c_end_count (conf w') = c_end_count (conf w) \<and>
           c_floor_holder (conf w') = kept)"

lemma left_core:
  assumes "conf_core w'' = conf_core w'" and "left w p w'"
  shows "left w p w''"
  using assms(2) unfolding left_def core_eqD [OF assms(1)] .

lemma left_core_from:
  assumes "conf_core v = conf_core w" and "left v p w'"
  shows "left w p w'"
  using assms(2) unfolding left_def core_eqD [OF assms(1)] .

lemma core_unlink_member:
  "conf_core (unlink_member p w) =
     conf_core (upd_mem p (\<lambda>m. m\<lparr>m_flags := m_flags m - {MFLAG_INTREE}\<rparr>)
       (upd_conf (\<lambda>c. c\<lparr>c_members := remove1 p (c_members c)\<rparr>) w))"
proof -
  have "conf_core (unlink_member p w) =
      conf_core (upd_conf (\<lambda>c. c\<lparr>c_members := remove1 p (c_members c)\<rparr>)
        (upd_mem p (\<lambda>m. m\<lparr>m_fnode := [], m_sh := False, m_dmachine := False,
                          m_flags := m_flags m - {MFLAG_INTREE}\<rparr>) w))"
    by (simp add: unlink_member_def Let_def)
  then show ?thesis by (simp add: conf_core_def upd_conf_def upd_mem_def fun_eq_iff)
qed

lemma drop_unlink_left:
  assumes "drop_floor p (unlink_member p w) = Inr w1"
  shows "mflag w1 p MFLAG_NOCHANNEL \<longleftrightarrow> mflag w p MFLAG_NOCHANNEL"
    and "\<not> has_channel w p \<Longrightarrow> left w p w1"
    and "has_channel w p \<Longrightarrow> left w p (leave_floor (uncount_member p w1))"
proof -
  note u = core_eqD [OF core_unlink_member]
  have m: "m_conference (mem w p)"
    using assms by (simp add: drop_floor_def u upd_mem_def upd_conf_def split: if_splits)
  have w1: "w1 = upd_mem p (\<lambda>m. m\<lparr>m_conference := False\<rparr>)
             (if c_floor_holder (conf w) = Some p
              then upd_conf (\<lambda>c. c\<lparr>c_floor_holder := None\<rparr>) (unlink_member p w) else unlink_member p w)"
    using assms by (simp add: drop_floor_def u upd_mem_def upd_conf_def split: if_splits)
  show "mflag w1 p MFLAG_NOCHANNEL \<longleftrightarrow> mflag w p MFLAG_NOCHANNEL"
    by (simp add: w1 upd_mem_def upd_conf_def u)
  show "left w p w1" if "\<not> has_channel w p"
    using that m by (simp add: left_def w1 upd_mem_def upd_conf_def u Let_def)
  show "left w p (leave_floor (uncount_member p w1))" if "has_channel w p"
    using that m by (simp add: left_def leave_floor_def uncount_member_def set_cflag_def w1 upd_mem_def upd_conf_def u Let_def)
qed

lemma core_leave_floor_cong:
  assumes "conf_core w' = conf_core w"
  shows "conf_core (leave_floor w') = conf_core (leave_floor w)"
  by (simp add: conf_core_def leave_floor_def upd_conf_def core_eqD [OF assms])

lemma del_member_left:
  assumes "conference_del_member env w p = Inr (st, w')"
  shows "st = SWITCH_STATUS_SUCCESS \<and> left w p w'"
proof -
  obtain b v w1 where v: "leave_sound env p w = Inr (b, v)" and 1: "drop_floor p (unlink_member p v) = Inr w1"
    and rest: "(if mflag w1 p MFLAG_NOCHANNEL then Inr (SWITCH_STATUS_SUCCESS, w1)
       else bindE (leave_effects env p b (fire_presence ''call-direction'' (uncount_member p w1))) (\<lambda>w.
         let w = leave_floor w;
             w = (if test_eflag w EFLAG_DEL_MEMBER
                  then emit (Fired_maint (conference_add_event_member_data w p @ conference_add_event_data w @
                               [Hdr ''Action'' ''del-member''])) w
                  else w)
         in Inr (SWITCH_STATUS_SUCCESS, w))) = Inr (st, w')"
    using assms by (auto simp: conference_del_member_def bindE_eq_Inr)
  note cv = core_leave_sound [OF v]
  note d = drop_unlink_left [OF 1]
  have "st = SWITCH_STATUS_SUCCESS \<and> left v p w'"
  proof (cases "mflag w1 p MFLAG_NOCHANNEL")
    case True
    with rest d show ?thesis by simp
  next
    case False
    then obtain w2 where 2: "leave_effects env p b (fire_presence ''call-direction'' (uncount_member p w1)) = Inr w2"
      and st: "st = SWITCH_STATUS_SUCCESS" and w': "conf_core w' = conf_core (leave_floor w2)"
      using rest by (auto simp: bindE_eq_Inr Let_def)
    have "conf_core w2 = conf_core (uncount_member p w1)" using core_leave_effects [OF 2] by simp
    from core_leave_floor_cong [OF this] w' have "conf_core w' = conf_core (leave_floor (uncount_member p w1))" by simp
    with d False st show ?thesis by (blast intro: left_core)
  qed
  then show ?thesis by (blast intro: left_core_from [OF cv])
qed

lemma length_filter_remove1:
  "x \<in> set xs \<Longrightarrow> length (filter P (remove1 x xs)) + (if P x then 1 else 0) = length (filter P xs)"
  by (induction xs) auto

lemma conf_invD:
  assumes "conf_inv w"
  shows "distinct (c_members (conf w))" "p \<in> set (c_members (conf w)) \<longleftrightarrow> m_conference (mem w p)"
    "mflag w p MFLAG_INTREE \<longleftrightarrow> m_conference (mem w p)"
    "m_conference (mem w p) \<Longrightarrow> has_channel w p \<Longrightarrow> m_session (mem w p) \<noteq> None"
    "c_count (conf w) = of_nat (length (filter (has_channel w) (c_members (conf w))))"
    "c_end_count (conf w) =
       int (length (filter (\<lambda>p. has_channel w p \<and> mflag w p MFLAG_ENDCONF) (c_members (conf w))))"
    "c_floor_holder (conf w) = Some p \<Longrightarrow> m_conference (mem w p)"
  using assms by (auto simp: conf_inv_def)

lemma joined_inv [fs_inv]:
  assumes inv: "conf_inv w" and j: "joined w p w'" and new: "\<not> m_conference (mem w p)"
  shows "conf_inv w'"
proof -
  note i = conf_invD [OF inv]
  have members: "c_members (conf w') = p # c_members (conf w)"
    and flags: "m_flags (mem w' q) = (if q = p then insert MFLAG_INTREE (m_flags (mem w q)) else m_flags (mem w q))"
    and confd: "m_conference (mem w' q) \<longleftrightarrow> q = p \<or> m_conference (mem w q)"
    and sess: "m_session (mem w' q) = None \<longleftrightarrow> m_session (mem w q) = None"
    and chan: "has_channel w p \<Longrightarrow> m_session (mem w p) \<noteq> None \<and> c_count (conf w') = c_count (conf w) + 1 \<and>
           c_end_count (conf w') = c_end_count (conf w) + (if mflag w p MFLAG_ENDCONF then 1 else 0) \<and>
           c_floor_holder (conf w') = (if c_count (conf w') = 1 then Some p else c_floor_holder (conf w))"
    and nochan: "\<not> has_channel w p \<Longrightarrow>
           c_count (conf w') = c_count (conf w) \<and> c_end_count (conf w') = c_end_count (conf w) \<and>
           c_floor_holder (conf w') = c_floor_holder (conf w)" for q
    using j by (simp_all only: joined_def if_True if_False not_False_eq_True simp_thms)
  have f: "has_channel w' q \<longleftrightarrow> has_channel w q" "mflag w' q MFLAG_ENDCONF \<longleftrightarrow> mflag w q MFLAG_ENDCONF"
    "mflag w' q MFLAG_INTREE \<longleftrightarrow> q = p \<or> m_conference (mem w q)" for q
    by (auto simp: flags i(3))
  have "distinct (c_members (conf w'))" using i(1,2) new by (simp add: members)
  moreover have "\<forall>q. q \<in> set (c_members (conf w')) \<longleftrightarrow> m_conference (mem w' q)"
    by (simp add: members i(2) confd)
  moreover have "\<forall>q. q \<in> set (c_members (conf w')) \<longleftrightarrow> mflag w' q MFLAG_INTREE"
    by (simp add: members i(2) f)
  moreover have "\<forall>q\<in>set (c_members (conf w')). has_channel w' q \<longrightarrow> m_session (mem w' q) \<noteq> None"
    using chan by (simp add: members i(2,4) f sess del: not_None_eq)
  moreover have "c_count (conf w') = of_nat (length (filter (has_channel w') (c_members (conf w'))))"
    using chan nochan by (cases "has_channel w p") (simp_all add: members f i(5))
  moreover have "c_end_count (conf w') =
       int (length (filter (\<lambda>p. has_channel w' p \<and> mflag w' p MFLAG_ENDCONF) (c_members (conf w'))))"
    using chan nochan by (cases "has_channel w p") (simp_all add: members f i(6))
  moreover have "\<forall>q. c_floor_holder (conf w') = Some q \<longrightarrow> q \<in> set (c_members (conf w'))"
    using chan nochan i(7) by (cases "has_channel w p") (auto simp: members i(2) split: if_splits)
  ultimately show ?thesis unfolding conf_inv_def by blast
qed

lemma left_inv [fs_inv]:
  assumes inv: "conf_inv w" and l: "left w p w'"
  shows "conf_inv w'"
proof -
  note i = conf_invD [OF inv]
  define kept where "kept = (if c_floor_holder (conf w) = Some p then None else c_floor_holder (conf w))"
  have pin: "m_conference (mem w p)" and members: "c_members (conf w') = remove1 p (c_members (conf w))"
    and flags: "m_flags (mem w' q) = (if q = p then m_flags (mem w q) - {MFLAG_INTREE} else m_flags (mem w q))"
    and confd: "m_conference (mem w' q) \<longleftrightarrow> q \<noteq> p \<and> m_conference (mem w q)"
    and sess: "m_session (mem w' q) = None \<longleftrightarrow> m_session (mem w q) = None"
    and chan: "has_channel w p \<Longrightarrow> c_count (conf w') = c_count (conf w) - 1 \<and>
           c_end_count (conf w') = c_end_count (conf w) - (if mflag w p MFLAG_ENDCONF then 1 else 0) \<and>
           c_floor_holder (conf w') = (if c_count (conf w') = 1
              then (case c_members (conf w') of [] \<Rightarrow> None | q # _ \<Rightarrow> Some q) else kept)"
    and nochan: "\<not> has_channel w p \<Longrightarrow>
           c_count (conf w') = c_count (conf w) \<and> c_end_count (conf w') = c_end_count (conf w) \<and>
           c_floor_holder (conf w') = kept" for q
    using l by (simp_all only: left_def Let_def kept_def [symmetric] if_True if_False not_False_eq_True simp_thms)
  have pm: "p \<in> set (c_members (conf w))" using pin by (simp add: i(2))
  have f: "has_channel w' q \<longleftrightarrow> has_channel w q" "mflag w' q MFLAG_ENDCONF \<longleftrightarrow> mflag w q MFLAG_ENDCONF"
    "mflag w' q MFLAG_INTREE \<longleftrightarrow> q \<noteq> p \<and> m_conference (mem w q)" for q
    by (auto simp: flags i(3))
  have mem': "q \<in> set (c_members (conf w')) \<longleftrightarrow> q \<noteq> p \<and> m_conference (mem w q)" for q
    using i(1) by (auto simp: members i(2) [symmetric])
  have "distinct (c_members (conf w'))" using i(1) by (simp add: members)
  moreover have "\<forall>q. q \<in> set (c_members (conf w')) \<longleftrightarrow> m_conference (mem w' q)"
    "\<forall>q. q \<in> set (c_members (conf w')) \<longleftrightarrow> mflag w' q MFLAG_INTREE"
    "\<forall>q\<in>set (c_members (conf w')). has_channel w' q \<longrightarrow> m_session (mem w' q) \<noteq> None"
    by (simp_all add: mem' confd f sess i(4) del: not_None_eq)
  moreover have "c_count (conf w') = of_nat (length (filter (has_channel w') (c_members (conf w'))))"
  proof -
    have "(of_nat (length (filter (has_channel w) (c_members (conf w)))) :: uint32) =
        of_nat (length (filter (has_channel w) (remove1 p (c_members (conf w))))) +
        (if has_channel w p then 1 else 0)"
      by (simp flip: length_filter_remove1 [OF pm])
    then show ?thesis
      using chan nochan by (cases "has_channel w p") (simp_all add: members f i(5))
  qed
  moreover have "c_end_count (conf w') =
       int (length (filter (\<lambda>p. has_channel w' p \<and> mflag w' p MFLAG_ENDCONF) (c_members (conf w'))))"
    using chan nochan length_filter_remove1 [OF pm, of "\<lambda>p. has_channel w p \<and> mflag w p MFLAG_ENDCONF"]
    by (cases "has_channel w p") (auto simp: members f i(6))
  moreover have "\<forall>q. c_floor_holder (conf w') = Some q \<longrightarrow> q \<in> set (c_members (conf w'))"
    using chan nochan i(7) mem' by (cases "has_channel w p") (auto simp: kept_def split: if_splits list.splits)
  ultimately show ?thesis unfolding conf_inv_def by blast
qed

end
