(* ===== verification/Conference_Commands.thy ===== *)
theory Conference_Commands
  imports Conference
begin

text \<open>
  The commands of \<^verbatim>\<open>mod_conference.c\<close>: the sub-commands of the \<open>conference\<close>
  API with their dispatcher, the key controls of a caller, and the parsers of flag lists.  A
  conference run is any sequence of joins, leaves, commands and controls; the invariant of
  the membership and the bounds of the volume levels hold in all of them.
\<close>

section \<open>Arguments and answers\<close>

text \<open>
  The argument vector is zeroed before it is filled, so entries behind the last argument are
  null.  A command is called with or without a stream to answer to.
\<close>

type_synonym api_result = "(switch_status_t \<times> conf_world) outcome"
type_synonym conf_api_member_cmd_t = "bool \<Rightarrow> string option \<Rightarrow> ptr option \<Rightarrow> conf_world \<Rightarrow> api_result"
type_synonym conf_api_args_cmd_t = "string list \<Rightarrow> conf_world \<Rightarrow> api_result"
type_synonym conf_api_text_cmd_t = "string option \<Rightarrow> conf_world \<Rightarrow> api_result"

definition arg :: "string list \<Rightarrow> nat \<Rightarrow> string option" where
  "arg argv i = (if i < length argv then Some (argv ! i) else None)"

definition deref :: "'a option \<Rightarrow> 'a outcome" where
  "deref x = (case x of None \<Rightarrow> Inl NullPointer | Some y \<Rightarrow> Inr y)"

definition reply :: "string \<Rightarrow> conf_world \<Rightarrow> conf_world" where
  "reply s = emit (Reply s)"

definition reply_if :: "bool \<Rightarrow> string \<Rightarrow> conf_world \<Rightarrow> conf_world" where
  "reply_if stream s = (if stream then reply s else id)"

definition ok :: "conf_world \<Rightarrow> api_result" where
  "ok w = Inr (SWITCH_STATUS_SUCCESS, w)"

definition generr :: "conf_world \<Rightarrow> api_result" where
  "generr w = Inr (SWITCH_STATUS_GENERR, w)"

definition u32 :: "uint32 \<Rightarrow> string" where
  "u32 n = show_nat (unat n)"

definition show_ptr :: "string option \<Rightarrow> string" where
  "show_ptr s = (case s of None \<Rightarrow> ''(null)'' | Some t \<Rightarrow> t)"

definition newline :: string where
  "newline = [CHR 0x0A]"

text \<open>An event about a member, when the mask of the conference it points to has it.\<close>

definition fire_masked :: "event_type_t \<Rightarrow> ptr \<Rightarrow> conf_header list \<Rightarrow> conf_world \<Rightarrow> conf_world outcome" where
  "fire_masked f p hs w =
     (if \<not> m_conference (mem w p) then Inl NullPointer
      else Inr (if test_eflag w f then fire_member p hs w else w))"

section \<open>Commands about one member\<close>

definition conf_api_sub_mute :: conf_api_member_cmd_t where
  "conf_api_sub_mute stream data member w =
     (case member of
        None \<Rightarrow> generr w
      | Some p \<Rightarrow>
          let w = set_mflag p MFLAG_INDICATE_MUTE (clear_mflag p MFLAG_TALKING (clear_mflag p MFLAG_CAN_SPEAK w));
              w = reply_if stream (''OK mute '' @ u32 (m_id (mem w p)) @ newline) w
          in bindE (fire_masked EFLAG_MUTE_MEMBER p [Hdr ''Action'' ''mute-member''] w) ok)"

definition conf_api_sub_unmute :: conf_api_member_cmd_t where
  "conf_api_sub_unmute stream data member w =
     (case member of
        None \<Rightarrow> generr w
      | Some p \<Rightarrow>
          let w = set_mflag p MFLAG_INDICATE_UNMUTE (set_mflag p MFLAG_CAN_SPEAK w);
              w = reply_if stream (''OK unmute '' @ u32 (m_id (mem w p)) @ newline) w
          in bindE (fire_masked EFLAG_UNMUTE_MEMBER p [Hdr ''Action'' ''unmute-member''] w) ok)"

definition conf_api_sub_deaf :: conf_api_member_cmd_t where
  "conf_api_sub_deaf stream data member w =
     (case member of
        None \<Rightarrow> generr w
      | Some p \<Rightarrow>
          let w = clear_mflag p MFLAG_CAN_HEAR w;
              w = reply_if stream (''OK deaf '' @ u32 (m_id (mem w p)) @ newline) w
          in ok (fire_member p [Hdr ''Action'' ''deaf-member''] w))"

definition conf_api_sub_undeaf :: conf_api_member_cmd_t where
  "conf_api_sub_undeaf stream data member w =
     (case member of
        None \<Rightarrow> generr w
      | Some p \<Rightarrow>
          let w = set_mflag p MFLAG_CAN_HEAR w;
              w = reply_if stream (''OK undeaf '' @ u32 (m_id (mem w p)) @ newline) w
          in ok (fire_member p [Hdr ''Action'' ''undeaf-member''] w))"

definition conf_api_sub_hup :: conf_api_member_cmd_t where
  "conf_api_sub_hup stream data member w =
     (case member of
        None \<Rightarrow> generr w
      | Some p \<Rightarrow>
          let w = clear_mflag p MFLAG_RUNNING w
          in ok (if m_conference (mem w p) \<and> test_eflag w EFLAG_HUP_MEMBER
                 then fire_member p [Hdr ''Action'' ''hup-member''] w else w))"

definition conf_api_sub_kick :: conf_api_member_cmd_t where
  "conf_api_sub_kick stream data member w =
     (case member of
        None \<Rightarrow> generr w
      | Some p \<Rightarrow>
          let w = set_mflag p MFLAG_KICKED (clear_mflag p MFLAG_RUNNING w) in
          bindE (member_channel w p) (\<lambda>_.
          let w = reply_if stream (''OK kicked '' @ u32 (m_id (mem w p)) @ newline) (emit (Kill_channel p) w)
          in ok (if m_conference (mem w p) \<and> test_eflag w EFLAG_KICK_MEMBER
                 then fire_member p [Hdr ''Action'' ''kick-member''] w else w)))"

definition conf_api_sub_dtmf :: conf_api_member_cmd_t where
  "conf_api_sub_dtmf stream data member w =
     (case member of
        None \<Rightarrow> if stream then generr (reply (''Invalid member!'' @ newline) w) else Inl NullPointer
      | Some p \<Rightarrow>
          if zstr data then (if stream then generr (reply (''Invalid input!'' @ newline) w) else Inl NullPointer)
          else
            bindE (member_channel w p) (\<lambda>_.
            let w = emit (Send_dtmf p (the data)) (emit (Kill_channel p) w);
                w = reply_if stream (''OK sent '' @ the data @ '' to '' @ u32 (m_id (mem w p)) @ newline) w
            in bindE (fire_masked EFLAG_DTMF_MEMBER p
                        [Hdr ''Action'' ''dtmf-member'', Hdr ''Digits'' (the data)] w) ok))"

text \<open>The three commands that set a level share their shape.\<close>

definition set_level ::
  "(int \<Rightarrow> conference_member \<Rightarrow> conference_member) \<Rightarrow> (conference_member \<Rightarrow> int) \<Rightarrow> string \<Rightarrow>
     event_type_t \<Rightarrow> string \<Rightarrow> string \<Rightarrow> conf_api_member_cmd_t" where
  "set_level setter getter text eflag action header stream data member w =
     (case member of
        None \<Rightarrow> generr w
      | Some p \<Rightarrow>
          let w = (case data of None \<Rightarrow> w | Some d \<Rightarrow> upd_mem p (setter (atoi d)) w);
              w = reply_if stream (text @ u32 (m_id (mem w p)) @ '' = '' @
                                   show_int (getter (mem w p)) @ newline) w
          in if \<not> m_conference (mem w p) then Inl NullPointer
             else ok (if test_eflag w eflag \<and> data \<noteq> None
                      then fire_member p [Hdr ''Action'' action,
                                          Hdr header (show_int (getter (mem w p)))] w
                      else w))"

definition conf_api_sub_energy :: conf_api_member_cmd_t where
  "conf_api_sub_energy =
     set_level (\<lambda>n m. m\<lparr>m_energy_level := n\<rparr>) m_energy_level ''Energy ''
       EFLAG_ENERGY_LEVEL_MEMBER ''energy-level-member'' ''Energy-Level''"

definition conf_api_sub_volume_in :: conf_api_member_cmd_t where
  "conf_api_sub_volume_in =
     set_level (\<lambda>n m. m\<lparr>m_volume_in_level := switch_normalize_volume n\<rparr>) m_volume_in_level ''Volume IN ''
       EFLAG_VOLUME_IN_MEMBER ''volume-in-member'' ''Volume-Level''"

definition conf_api_sub_volume_out :: conf_api_member_cmd_t where
  "conf_api_sub_volume_out =
     set_level (\<lambda>n m. m\<lparr>m_volume_out_level := switch_normalize_volume n\<rparr>) m_volume_out_level ''Volume OUT ''
       EFLAG_VOLUME_OUT_MEMBER ''volume-out-member'' ''Volume-Level''"

text \<open>The iterator ignores what the command returns.\<close>

fun member_loop :: "(ptr \<Rightarrow> conf_world \<Rightarrow> api_result) \<Rightarrow> ptr list \<Rightarrow> conf_world \<Rightarrow> conf_world outcome" where
  "member_loop f [] w = Inr w"
| "member_loop f (p # ps) w =
     (if m_session (mem w p) \<noteq> None \<and> \<not> mflag w p MFLAG_NOCHANNEL
      then bindE (f p w) (\<lambda>(_, w). member_loop f ps w)
      else member_loop f ps w)"

definition conference_member_itterator ::
  "conf_api_member_cmd_t \<Rightarrow> string option \<Rightarrow> conf_world \<Rightarrow> conf_world outcome" where
  "conference_member_itterator pfncallback data w =
     member_loop (\<lambda>p. pfncallback True data (Some p)) (c_members (conf w)) w"

section \<open>Commands about the conference\<close>

definition DEFAULT_AGC_LEVEL :: int where
  "DEFAULT_AGC_LEVEL = 1100"

definition conf_api_sub_agc :: conf_api_args_cmd_t where
  "conf_api_sub_agc argv w =
     (if length argv = 2
      then ok (reply (''+OK CURRENT AGC LEVEL IS '' @ show_int (c_agc_level (conf w)) @ newline) w)
      else bindE (deref (arg argv 2)) (\<lambda>a.
        if \<not> strcasecmp_eq a ''on''
        then ok (upd_conf (\<lambda>c. c\<lparr>c_agc_level := 0\<rparr>) (reply (''+OK AGC DISABLED'' @ newline) w))
        else let level = (case arg argv 3 of Some l \<Rightarrow> atoi l | None \<Rightarrow> DEFAULT_AGC_LEVEL)
             in if level > c_energy_level (conf w)
                then ok (reply (''OK AGC ENABLED '' @ show_int level @ newline)
                       (upd_conf (\<lambda>c. c\<lparr>c_avg_score := 0, c_avg_itt := 0, c_avg_tally := 0,
                                       c_agc_level := level\<rparr>) w))
                else ok (reply (''-ERR invalid level'' @ newline) w)))"

definition conf_api_sub_stop :: conf_api_args_cmd_t where
  "conf_api_sub_stop argv w =
     (let kind = (case arg argv 2 of
                    None \<Rightarrow> Some FILE_STOP_ALL
                  | Some a \<Rightarrow> if strcasecmp_eq a ''async'' then Some FILE_STOP_ASYNC
                              else if strcasecmp_eq a ''current'' then Some FILE_STOP_CURRENT
                              else if strcasecmp_eq a ''all'' then Some FILE_STOP_ALL else None)
      in case kind of
           None \<Rightarrow> generr w
         | Some k \<Rightarrow>
             if length argv = 4 then
               let mid = word_of_int (atoi (argv ! 3)) in
               (case conference_member_get w mid of
                  Some p \<Rightarrow> let (n, w) = conference_member_stop_file w p k
                            in ok (reply (''Stopped '' @ show_nat n @ '' files.'' @ newline) w)
                | None \<Rightarrow> ok (reply (''Member: '' @ u32 mid @ '' not found.'' @ newline) w))
             else let (n, w) = conference_stop_file w k
                  in ok (reply (''Stopped '' @ show_nat n @ '' files.'' @ newline) w))"

definition set_rel :: "nat \<Rightarrow> relation_flag_t set \<Rightarrow> ptr \<Rightarrow> conf_world \<Rightarrow> conf_world" where
  "set_rel i fs p =
     upd_mem p (\<lambda>m. m\<lparr>m_relationships := (m_relationships m)[i := (m_relationships m ! i)\<lparr>rel_flags := fs\<rparr>]\<rparr>)"

definition relate_set ::
  "bool \<Rightarrow> bool \<Rightarrow> bool \<Rightarrow> uint32 \<Rightarrow> uint32 \<Rightarrow> ptr \<Rightarrow> ptr \<Rightarrow> conf_world \<Rightarrow> conf_world" where
  "relate_set alloc nospeak nohear mid oid p q w =
     (let (rel, w) = (case member_get_relationship w p q of
                        Some i \<Rightarrow> (Some i, w)
                      | None \<Rightarrow> let (made, w) = member_add_relationship alloc w p oid
                                in (if made then Some 0 else None, w))
      in case rel of
           None \<Rightarrow> reply (''error!'' @ newline) w
         | Some i \<Rightarrow>
             let fs = {RFLAG_CAN_SPEAK, RFLAG_CAN_HEAR} - (if nospeak then {RFLAG_CAN_SPEAK} else {})
                        - (if nohear then {RFLAG_CAN_HEAR} else {});
                 w = set_rel i fs p w;
                 w = (if nospeak then clear_mflag p MFLAG_TALKING w else w)
             in reply (''ok '' @ u32 mid @ ''->'' @ u32 oid @ '' set'' @ newline) w)"

definition conf_api_sub_relate :: "bool \<Rightarrow> conf_api_args_cmd_t" where
  "conf_api_sub_relate alloc argv w =
     (if length argv \<le> 4 then generr w
      else
        let nospeak = (strstr (argv ! 4) ''nospeak'' \<noteq> None);
            nohear = (strstr (argv ! 4) ''nohear'' \<noteq> None);
            clear = strcasecmp_eq (argv ! 4) ''clear'';
            mid = word_of_int (atoi (argv ! 2));
            oid = word_of_int (atoi (argv ! 3));
            not_found = reply (''relationship '' @ u32 mid @ ''->'' @ u32 oid @ '' not found.'' @ newline)
        in if \<not> (clear \<or> nospeak \<or> nohear) then generr w
           else if clear then
             (case conference_member_get w mid of
                Some p \<Rightarrow> ok (reply (''relationship '' @ u32 mid @ ''->'' @ u32 oid @ '' cleared.'' @ newline)
                                (snd (member_del_relationship w p oid)))
              | None \<Rightarrow> ok (not_found w))
           else
             (case (conference_member_get w mid, conference_member_get w oid) of
                (Some p, Some q) \<Rightarrow> ok (relate_set alloc nospeak nohear mid oid p q w)
              | _ \<Rightarrow> ok (not_found w)))"

text \<open>Locking plays its sound first; the commands return 0 whatever happens.\<close>

definition conf_api_sub_lock :: "conf_env \<Rightarrow> conf_api_args_cmd_t" where
  "conf_api_sub_lock env argv w =
     bindE (deref (arg argv 0)) (\<lambda>name.
     bindE (if c_is_locked_sound (conf w) \<noteq> None
            then play env (c_is_locked_sound (conf w)) CONF_DEFAULT_LEADIN None False w else Inr w) (\<lambda>w.
       let w = reply (''OK '' @ name @ '' locked'' @ newline) (set_cflag CFLAG_LOCKED w)
       in ok (if test_eflag w EFLAG_LOCK then fire_conf [Hdr ''Action'' ''lock''] w else w)))"

definition conf_api_sub_unlock :: "conf_env \<Rightarrow> conf_api_args_cmd_t" where
  "conf_api_sub_unlock env argv w =
     bindE (deref (arg argv 0)) (\<lambda>name.
     bindE (if c_is_unlocked_sound (conf w) \<noteq> None
            then play env (c_is_unlocked_sound (conf w)) CONF_DEFAULT_LEADIN None False w else Inr w) (\<lambda>w.
       let w = reply (''OK '' @ name @ '' unlocked'' @ newline) (clear_cflag CFLAG_LOCKED w)
       in ok (if test_eflag w EFLAG_UNLOCK then fire_conf [Hdr ''Action'' ''unlock''] w else w)))"

definition conf_api_sub_exit_sound :: conf_api_args_cmd_t where
  "conf_api_sub_exit_sound argv w =
     (if length argv \<le> 2 then generr (reply (''Not enough args'' @ newline) w)
      else
        let name = argv ! 0; a = argv ! 2;
            done = (\<lambda>act w. ok (if test_eflag w EFLAG_LOCK then fire_conf [Hdr ''Action'' act] w else w))
        in if strcasecmp_eq a ''on'' then
             done ''exit-sounds-on''
               (reply (''OK '' @ name @ '' exit sounds on ('' @ show_ptr (c_exit_sound (conf w)) @ '')'' @ newline)
                 (set_cflag CFLAG_EXIT_SOUND w))
           else if strcasecmp_eq a ''off'' \<or> strcasecmp_eq a ''none'' then
             done ''exit-sounds-off''
               (reply (''OK '' @ name @ '' exit sounds off ('' @ show_ptr (c_exit_sound (conf w)) @ '')'' @ newline)
                 (clear_cflag CFLAG_EXIT_SOUND w))
           else if strcasecmp_eq a ''file'' then
             (case arg argv 3 of
                None \<Rightarrow> ok (reply (''No filename specified'' @ newline) w)
              | Some f \<Rightarrow>
                  done ''exit-sound-file-changed''
                    (reply (''OK '' @ name @ '' exit sound file set to '' @ f @ newline)
                      (upd_conf (\<lambda>c. c\<lparr>c_exit_sound := Some f\<rparr>)
                        (reply (''Old exit sound: ['' @ show_ptr (c_exit_sound (conf w)) @ '']'' @ newline) w))))
           else generr (reply (''Bad args'' @ newline) w))"

definition conf_api_sub_enter_sound :: conf_api_args_cmd_t where
  "conf_api_sub_enter_sound argv w =
     (if length argv \<le> 2 then generr (reply (''Not enough args'' @ newline) w)
      else
        let name = argv ! 0; a = argv ! 2;
            done = (\<lambda>act w. ok (if test_eflag w EFLAG_LOCK then fire_conf [Hdr ''Action'' act] w else w))
        in if strcasecmp_eq a ''on'' then
             done ''enter-sounds-on''
               (reply (''OK '' @ name @ '' enter sounds on ('' @ show_ptr (c_enter_sound (conf w)) @ '')'' @ newline)
                 (set_cflag CFLAG_ENTER_SOUND w))
           else if strcasecmp_eq a ''off'' \<or> strcasecmp_eq a ''none'' then
             done ''enter-sounds-off''
               (reply (''OK '' @ name @ '' enter sounds off ('' @ show_ptr (c_enter_sound (conf w)) @ '')'' @ newline)
                 (clear_cflag CFLAG_ENTER_SOUND w))
           else if strcasecmp_eq a ''file'' then
             (case arg argv 3 of
                None \<Rightarrow> ok (reply (''No filename specified'' @ newline) w)
              | Some f \<Rightarrow>
                  done ''enter-sound-file-changed''
                    (reply (''OK '' @ name @ '' enter sound file set to '' @ f @ newline)
                      (upd_conf (\<lambda>c. c\<lparr>c_enter_sound := Some f\<rparr>) w)))
           else generr (reply (''Bad args'' @ newline) w))"

definition conf_api_sub_play :: "conf_env \<Rightarrow> conf_api_args_cmd_t" where
  "conf_api_sub_play env argv w =
     (let async = ((length argv = 4 \<and> strcasecmp_eq (argv ! 3) ''async'') \<or>
                   (length argv = 5 \<and> strcasecmp_eq (argv ! 4) ''async''));
          argc = (if async then length argv - 1 else length argv)
      in if argc = 3 then
           bindE (conference_play_file env w (Some (argv ! 2)) 0 None async) (\<lambda>(st, w).
             if st = SWITCH_STATUS_SUCCESS then
               let w = reply (''(play) Playing file '' @ argv ! 2 @ newline) w
               in ok (if test_eflag w EFLAG_PLAY_FILE
                      then fire_conf [Hdr ''Action'' ''play-file'', Hdr ''File'' (argv ! 2),
                                      Hdr ''Async'' (true_false async)] w else w)
             else ok (reply (''(play) File: '' @ argv ! 2 @ '' not found.'' @ newline) w))
         else if argc = 4 then
           let mid = word_of_int (atoi (argv ! 3)) in
           (case conference_member_get w mid of
              None \<Rightarrow> generr (reply (''Member: '' @ u32 mid @ '' not found.'' @ newline) w)
            | Some p \<Rightarrow>
                bindE (conference_member_play_file env w p (Some (argv ! 2)) 0) (\<lambda>(st, w).
                  if st = SWITCH_STATUS_SUCCESS then
                    let w = reply (''(play) Playing file '' @ argv ! 2 @ '' to member '' @ u32 mid @ newline) w
                    in ok (if test_eflag w EFLAG_PLAY_FILE_MEMBER
                           then fire_member p [Hdr ''Action'' ''play-file-member'', Hdr ''File'' (argv ! 2)] w else w)
                  else ok (reply (''(play) File: '' @ argv ! 2 @ '' not found.'' @ newline) w)))
         else generr w)"

definition conf_api_sub_say :: "conf_env \<Rightarrow> conf_api_text_cmd_t" where
  "conf_api_sub_say env text w =
     (if zstr text then generr (reply (''(say) Error! No text.'' @ newline) w)
      else bindE (conference_say env w text 0) (\<lambda>(st, w).
        if st \<noteq> SWITCH_STATUS_SUCCESS then generr (reply (''(say) Error!'' @ newline) w)
        else let w = reply (''(say) OK'' @ newline) w
             in ok (if test_eflag w EFLAG_SPEAK_TEXT
                    then fire_conf [Hdr ''Action'' ''speak-text'', Hdr ''Text'' (the text)] w else w)))"

text \<open>Without a blank in it the whole text is both the member's number and what is said.\<close>

definition conf_api_sub_saymember :: "conf_env \<Rightarrow> conf_api_text_cmd_t" where
  "conf_api_sub_saymember env text w =
     (let no_text = generr (reply (''(saymember) No Text!'' @ newline) w) in
      if zstr text then no_text
      else
        let (num, said) = (case strchr (the text) (CHR '' '') of
                             Some i \<Rightarrow> (take i (the text), drop (i + 1) (the text))
                           | None \<Rightarrow> (the text, the text));
            mid = word_of_int (atoi num)
        in if mid = 0 \<or> said = [] then no_text
           else case conference_member_get w mid of
                  None \<Rightarrow> generr (reply (''(saymember) Unknown Member '' @ u32 mid @ ''!'' @ newline) w)
                | Some p \<Rightarrow>
                    bindE (member_channel w p) (\<lambda>ch.
                    let said = expand_variables env ch said in
                    bindE (conference_member_say env w p (Some said) 0) (\<lambda>(st, w).
                      if st \<noteq> SWITCH_STATUS_SUCCESS then generr (reply (''(saymember) Error!'' @ newline) w)
                      else let w = reply (''(saymember) OK'' @ newline) w
                           in bindE (fire_masked EFLAG_SPEAK_TEXT_MEMBER p
                                       [Hdr ''Action'' ''speak-text-member'', Hdr ''Text'' said] w) ok)))"

text \<open>
  Transfer.  The event names the fourth argument, a member's number, as the new conference.
\<close>

fun transfer_loop :: "string \<Rightarrow> string \<Rightarrow> string list \<Rightarrow> string list \<Rightarrow> conf_world \<Rightarrow> conf_world outcome" where
  "transfer_loop cname profile argv [] w = Inr w"
| "transfer_loop cname profile argv (a # as) w =
     (let mid = word_of_int (atoi a) in
      case (if mid = 0 then None else conference_member_get w mid) of
        None \<Rightarrow> transfer_loop cname profile argv as
                  (reply (''No Member '' @ u32 mid @ '' in conference '' @ c_name (conf w) @ ''.'' @ newline) w)
      | Some p \<Rightarrow>
          bindE (member_channel w p) (\<lambda>ch.
          bindE (set_variable ch ''last_transfered_conference'' (Some cname)) (\<lambda>ch.
          let w = set_member_channel p ch
                    (emit (Transfer_session p (''conference:'' @ cname @ ''@'' @ profile)) w);
              w = reply (''OK Member '' @ [CHR 0x27] @ show_int (sint (m_id (mem w p))) @ [CHR 0x27] @
                         '' sent to conference '' @ argv ! 2 @ ''.'' @ newline) w;
              w = (if test_eflag w EFLAG_TRANSFER
                   then fire_member p [Hdr ''Old-Conference-Name'' (c_name (conf w)),
                                       Hdr ''New-Conference-Name'' (argv ! 3),
                                       Hdr ''Action'' ''transfer''] w else w)
          in transfer_loop cname profile argv as w)))"

definition conf_api_sub_transfer :: conf_api_args_cmd_t where
  "conf_api_sub_transfer argv w =
     (if length argv > 3 \<and> argv ! 2 \<noteq> [] then
        let (cname, profile) = (case strchr (argv ! 2) (CHR ''@'') of
                                  Some i \<Rightarrow> (take i (argv ! 2), drop (i + 1) (argv ! 2))
                                | None \<Rightarrow> (argv ! 2, ''default''))
        in bindE (transfer_loop cname profile argv (drop 3 argv) w) ok
      else generr w)"

definition conf_api_sub_record :: conf_api_args_cmd_t where
  "conf_api_sub_record argv w =
     (if length argv \<le> 2 then generr w
      else ok (emit (Launch_record (argv ! 2))
             (upd_conf (\<lambda>c. c\<lparr>c_record_count := s32 (c_record_count c + 1)\<rparr>)
               (reply (''Record file '' @ argv ! 2 @ newline) w))))"

definition conf_api_sub_norecord :: conf_api_args_cmd_t where
  "conf_api_sub_norecord argv w =
     (if length argv \<le> 2 then generr w
      else
        let all = strcasecmp_eq (argv ! 2) ''all'';
            w = reply (''Stop recording file '' @ argv ! 2 @ newline) w;
            (n, w) = conference_record_stop w (if all then None else Some (argv ! 2))
        in if n = 0 \<and> \<not> all
           then ok (reply (''non-existant recording '' @ [CHR 0x27] @ argv ! 2 @ [CHR 0x27] @ newline) w)
           else
             let w = upd_conf (\<lambda>c. c\<lparr>c_record_count := (if all then 0 else s32 (c_record_count c - 1))\<rparr>) w
             in ok (if test_eflag w EFLAG_RECORD
                    then fire_conf [Hdr ''Action'' ''stop-recording'',
                                    Hdr ''Path'' (if all then ''all'' else argv ! 2),
                                    Hdr ''Other-Recordings'' (true_false (c_record_count (conf w) \<noteq> 0))] w
                    else w))"

definition conf_api_sub_pin :: conf_api_args_cmd_t where
  "conf_api_sub_pin argv w =
     (if length argv = 3 \<and> argv ! 1 = ''pin'' then
        ok (reply (''Pin for conference '' @ argv ! 0 @ '' set: '' @ argv ! 2 @ newline)
              (upd_conf (\<lambda>c. c\<lparr>c_pin := Some (argv ! 2)\<rparr>) w))
      else if length argv = 2 \<and> argv ! 1 = ''nopin'' then
        ok (reply (''Pin for conference '' @ argv ! 0 @ '' deleted'' @ newline)
              (upd_conf (\<lambda>c. c\<lparr>c_pin := None\<rparr>) w))
      else generr (reply (''Invalid parameters:'' @ newline) w))"

section \<open>The command table and its dispatcher\<close>

datatype api_fn =
    CONF_API_SUB_ARGS_SPLIT conf_api_args_cmd_t
  | CONF_API_SUB_MEMBER_TARGET conf_api_member_cmd_t
  | CONF_API_SUB_ARGS_AS_ONE conf_api_text_cmd_t

record api_command =
  pname :: string
  pfnapicmd :: api_fn
  psyntax :: string

text \<open>
  The handlers that print lists or place calls, \<open>list\<close>, \<open>xml_list\<close>, \<open>dial\<close> and
  \<open>bgdial\<close>, are the argument \<open>other\<close>, by name.  \<open>pcommand\<close> equals \<open>pname\<close> in every
  row.
\<close>

definition conf_api_sub_commands :: "conf_env \<Rightarrow> (string \<Rightarrow> conf_api_args_cmd_t) \<Rightarrow> api_command list" where
  "conf_api_sub_commands env other =
     map (\<lambda>(n, f, s). \<lparr>pname = n, pfnapicmd = f, psyntax = s\<rparr>)
      [(''list'', CONF_API_SUB_ARGS_SPLIT (other ''list''), ''[delim <string>]''),
       (''xml_list'', CONF_API_SUB_ARGS_SPLIT (other ''xml_list''), ''''),
       (''energy'', CONF_API_SUB_MEMBER_TARGET conf_api_sub_energy, ''<member_id|all|last> [<newval>]''),
       (''volume_in'', CONF_API_SUB_MEMBER_TARGET conf_api_sub_volume_in, ''<member_id|all|last> [<newval>]''),
       (''volume_out'', CONF_API_SUB_MEMBER_TARGET conf_api_sub_volume_out, ''<member_id|all|last> [<newval>]''),
       (''play'', CONF_API_SUB_ARGS_SPLIT (conf_api_sub_play env), ''<file_path> [async|<member_id>]''),
       (''say'', CONF_API_SUB_ARGS_AS_ONE (conf_api_sub_say env), ''<text>''),
       (''saymember'', CONF_API_SUB_ARGS_AS_ONE (conf_api_sub_saymember env), ''<member_id> <text>''),
       (''stop'', CONF_API_SUB_ARGS_SPLIT conf_api_sub_stop, ''<[current|all|async|last]> [<member_id>]''),
       (''dtmf'', CONF_API_SUB_MEMBER_TARGET conf_api_sub_dtmf, ''<[member_id|all|last]> <digits>''),
       (''kick'', CONF_API_SUB_MEMBER_TARGET conf_api_sub_kick, ''<[member_id|all|last]>''),
       (''hup'', CONF_API_SUB_MEMBER_TARGET conf_api_sub_hup, ''<[member_id|all|last]>''),
       (''mute'', CONF_API_SUB_MEMBER_TARGET conf_api_sub_mute, ''<[member_id|all]|last>''),
       (''unmute'', CONF_API_SUB_MEMBER_TARGET conf_api_sub_unmute, ''<[member_id|all]|last>''),
       (''deaf'', CONF_API_SUB_MEMBER_TARGET conf_api_sub_deaf, ''<[member_id|all]|last>''),
       (''undeaf'', CONF_API_SUB_MEMBER_TARGET conf_api_sub_undeaf, ''<[member_id|all]|last>''),
       (''relate'', CONF_API_SUB_ARGS_SPLIT (conf_api_sub_relate (pool_ok env)),
          ''<member_id> <other_member_id> [nospeak|nohear|clear]''),
       (''lock'', CONF_API_SUB_ARGS_SPLIT (conf_api_sub_lock env), ''''),
       (''unlock'', CONF_API_SUB_ARGS_SPLIT (conf_api_sub_unlock env), ''''),
       (''agc'', CONF_API_SUB_ARGS_SPLIT conf_api_sub_agc, ''''),
       (''dial'', CONF_API_SUB_ARGS_SPLIT (other ''dial''),
          ''<endpoint_module_name>/<destination> <callerid number> <callerid name>''),
       (''bgdial'', CONF_API_SUB_ARGS_SPLIT (other ''bgdial''),
          ''<endpoint_module_name>/<destination> <callerid number> <callerid name>''),
       (''transfer'', CONF_API_SUB_ARGS_SPLIT conf_api_sub_transfer, ''<conference_name> <member id> [...<member id>]''),
       (''record'', CONF_API_SUB_ARGS_SPLIT conf_api_sub_record, ''<filename>''),
       (''norecord'', CONF_API_SUB_ARGS_SPLIT conf_api_sub_norecord, ''<[filename|all]>''),
       (''exit_sound'', CONF_API_SUB_ARGS_SPLIT conf_api_sub_exit_sound, ''on|off|none|file <filename>''),
       (''enter_sound'', CONF_API_SUB_ARGS_SPLIT conf_api_sub_enter_sound, ''on|off|none|file <filename>''),
       (''pin'', CONF_API_SUB_ARGS_SPLIT conf_api_sub_pin, ''<pin#>''),
       (''nopin'', CONF_API_SUB_ARGS_SPLIT conf_api_sub_pin, '''')]"

text \<open>\<open>last_member\<close>: the member with the greatest number, the first of them in the list.\<close>

fun last_member :: "conf_world \<Rightarrow> ptr option \<Rightarrow> ptr list \<Rightarrow> ptr option" where
  "last_member w best [] = best"
| "last_member w best (p # ps) =
     last_member w (case best of None \<Rightarrow> Some p
                    | Some b \<Rightarrow> if m_id (mem w p) > m_id (mem w b) then Some p else Some b) ps"

definition usage :: "api_command \<Rightarrow> conf_world \<Rightarrow> conf_world" where
  "usage c = reply (pname c @ '' '' @ psyntax c)"

text \<open>A member command: for all members, for the last one, for the one with the number.\<close>

definition dispatch_member ::
  "api_command \<Rightarrow> conf_api_member_cmd_t \<Rightarrow> string list \<Rightarrow> nat \<Rightarrow> conf_world \<Rightarrow> conf_world outcome" where
  "dispatch_member c pfn argv argn w =
     (let target = arg argv (argn + 1); data = arg argv (argn + 2);
          mid = (case target of None \<Rightarrow> 0 | Some t \<Rightarrow> word_of_int (atoi t))
      in case target of
           None \<Rightarrow> Inr (usage c w)
         | Some t \<Rightarrow>
             if mid \<noteq> 0 then
               (case conference_member_get w mid of
                  Some p \<Rightarrow> bindE (pfn True data (Some p) w) (\<lambda>(_, w). Inr w)
                | None \<Rightarrow> Inr (reply (''Non-Existant ID '' @ u32 mid @ newline) w))
             else if strcasecmp_eq t ''all'' then conference_member_itterator pfn data w
             else if strcasecmp_eq t ''last'' then
               (case last_member w None (c_members (conf w)) of
                  Some p \<Rightarrow> if m_session (mem w p) \<noteq> None \<and> \<not> mflag w p MFLAG_NOCHANNEL
                            then bindE (pfn True data (Some p) w) (\<lambda>(_, w). Inr w) else Inr w
                | None \<Rightarrow> Inr w)
             else Inr (usage c w))"

text \<open>
  The text of a text command: what follows the first place where the name of the command
  occurs in the command line, which begins with the name of the conference.
\<close>

definition command_text :: "string \<Rightarrow> string option \<Rightarrow> string option" where
  "command_text cmd cmdline =
     (case cmdline of
        None \<Rightarrow> None
      | Some l \<Rightarrow> (case (if l = [] then None else strstr l cmd) of
                    None \<Rightarrow> Some l
                  | Some i \<Rightarrow> Some (dropWhile (\<lambda>c. c = CHR '' '' \<or> c = CHR 0x09) (drop (i + length cmd) l))))"

definition run_command ::
  "api_command \<Rightarrow> string list \<Rightarrow> string option \<Rightarrow> nat \<Rightarrow> conf_world \<Rightarrow> conf_world outcome" where
  "run_command c argv cmdline argn w =
     (let show_usage = (\<lambda>(st, w). Inr (if st = SWITCH_STATUS_SUCCESS then w else usage c w)) in
      case pfnapicmd c of
        CONF_API_SUB_ARGS_SPLIT f \<Rightarrow> bindE (f argv w) show_usage
      | CONF_API_SUB_MEMBER_TARGET f \<Rightarrow> dispatch_member c f argv argn w
      | CONF_API_SUB_ARGS_AS_ONE f \<Rightarrow> bindE (f (command_text (pname c) cmdline) w) show_usage)"

definition conf_api_dispatch ::
  "api_command list \<Rightarrow> string list \<Rightarrow> string option \<Rightarrow> nat \<Rightarrow> conf_world \<Rightarrow> api_result" where
  "conf_api_dispatch table argv cmdline argn w =
     bindE (deref (arg argv argn)) (\<lambda>name.
       case filter (\<lambda>c. strcasecmp_eq name (pname c)) table of
         [] \<Rightarrow> Inr (SWITCH_STATUS_FALSE,
                    reply (''Conference command '' @ [CHR 0x27] @ name @ [CHR 0x27] @ '' not found.'' @ newline) w)
       | c # _ \<Rightarrow> bindE (run_command c argv cmdline argn w) ok)"

section \<open>The key controls of a caller\<close>

definition quiet :: "conf_api_member_cmd_t \<Rightarrow> ptr \<Rightarrow> conf_world \<Rightarrow> conf_world outcome" where
  "quiet cmd p w = bindE (cmd False None (Some p) w) (\<lambda>(_, w). Inr w)"

definition speak_again :: "ptr \<Rightarrow> conf_world \<Rightarrow> conf_world outcome" where
  "speak_again p w =
     bindE (quiet conf_api_sub_unmute p w) (\<lambda>w.
       if mflag w p MFLAG_CAN_HEAR then Inr w else quiet conf_api_sub_undeaf p w)"

definition conference_loop_fn_mute_toggle :: "ptr \<Rightarrow> conf_world \<Rightarrow> conf_world outcome" where
  "conference_loop_fn_mute_toggle p w =
     (if mflag w p MFLAG_CAN_SPEAK then quiet conf_api_sub_mute p w else speak_again p w)"

definition conference_loop_fn_mute_on :: "ptr \<Rightarrow> conf_world \<Rightarrow> conf_world outcome" where
  "conference_loop_fn_mute_on p w =
     (if mflag w p MFLAG_CAN_SPEAK then quiet conf_api_sub_mute p w else Inr w)"

definition conference_loop_fn_mute_off :: "ptr \<Rightarrow> conf_world \<Rightarrow> conf_world outcome" where
  "conference_loop_fn_mute_off p w =
     (if mflag w p MFLAG_CAN_SPEAK then Inr w else speak_again p w)"

definition conference_loop_fn_deafmute_toggle :: "ptr \<Rightarrow> conf_world \<Rightarrow> conf_world outcome" where
  "conference_loop_fn_deafmute_toggle p w =
     (if mflag w p MFLAG_CAN_SPEAK then
        bindE (quiet conf_api_sub_mute p w) (\<lambda>w.
          if mflag w p MFLAG_CAN_HEAR then quiet conf_api_sub_deaf p w else Inr w)
      else speak_again p w)"

definition conference_loop_fn_lock_toggle :: "conf_env \<Rightarrow> ptr \<Rightarrow> conf_world \<Rightarrow> conf_world outcome" where
  "conference_loop_fn_lock_toggle env p w =
     (if \<not> m_conference (mem w p) then Inl NullPointer
      else if \<not> cflag w CFLAG_LOCKED then
        bindE (if c_is_locked_sound (conf w) \<noteq> None
               then play env (c_is_locked_sound (conf w)) CONF_DEFAULT_LEADIN None False w else Inr w) (\<lambda>w.
          let w = set_cflag CFLAG_LOCKED w
          in Inr (if test_eflag w EFLAG_LOCK then fire_conf [Hdr ''Action'' ''lock''] w else w))
      else
        bindE (if c_is_unlocked_sound (conf w) \<noteq> None
               then play env (c_is_unlocked_sound (conf w)) CONF_DEFAULT_LEADIN None False w else Inr w) (\<lambda>w.
          let w = clear_cflag CFLAG_LOCKED w
          in Inr (if test_eflag w EFLAG_UNLOCK then fire_conf [Hdr ''Action'' ''unlock''] w else w)))"

definition member_play :: "conf_env \<Rightarrow> ptr \<Rightarrow> string \<Rightarrow> conf_world \<Rightarrow> conf_world outcome" where
  "member_play env p file w =
     bindE (conference_member_play_file env w p (Some file) 0) (\<lambda>(_, w). Inr w)"

text \<open>The digits of a level are played one file per digit.\<close>

fun play_digits :: "conf_env \<Rightarrow> ptr \<Rightarrow> string \<Rightarrow> conf_world \<Rightarrow> conf_world outcome" where
  "play_digits env p [] w = Inr w"
| "play_digits env p (d # ds) w =
     bindE (member_play env p (''digits/'' @ [d] @ ''.wav'') w) (play_digits env p ds)"

definition energy_control :: "(int \<Rightarrow> int) \<Rightarrow> conf_env \<Rightarrow> ptr \<Rightarrow> conf_world \<Rightarrow> conf_world outcome" where
  "energy_control f env p w =
     (let w = upd_mem p (\<lambda>m. m\<lparr>m_energy_level := f (m_energy_level m)\<rparr>) w;
          level = m_energy_level (mem w p)
      in bindE (fire_masked EFLAG_ENERGY_LEVEL p
                  [Hdr ''Action'' ''energy-level'', Hdr ''New-Level'' (show_int level)] w)
           (play_digits env p (show_int (\<bar>level\<bar> div 200))))"

definition conference_loop_fn_energy_up :: "conf_env \<Rightarrow> ptr \<Rightarrow> conf_world \<Rightarrow> conf_world outcome" where
  "conference_loop_fn_energy_up =
     energy_control (\<lambda>n. let n = s32 (n + 200) in if n > 1800 then 1800 else n)"

definition conference_loop_fn_energy_equ_conf :: "conf_env \<Rightarrow> ptr \<Rightarrow> conf_world \<Rightarrow> conf_world outcome" where
  "conference_loop_fn_energy_equ_conf env p w =
     (if \<not> m_conference (mem w p) then Inl NullPointer
      else energy_control (\<lambda>_. c_energy_level (conf w)) env p w)"

definition conference_loop_fn_energy_dn :: "conf_env \<Rightarrow> ptr \<Rightarrow> conf_world \<Rightarrow> conf_world outcome" where
  "conference_loop_fn_energy_dn =
     energy_control (\<lambda>n. let n = s32 (n - 200) in if n < 0 then 0 else n)"

definition announce_volume :: "conf_env \<Rightarrow> ptr \<Rightarrow> int \<Rightarrow> conf_world \<Rightarrow> conf_world outcome" where
  "announce_volume env p level w =
     bindE (if level < 0 then member_play env p ''currency/negative.wav'' w else Inr w)
       (member_play env p (''digits/'' @ show_int \<bar>level\<bar> @ ''.wav''))"

definition talk_control :: "(int \<Rightarrow> int) \<Rightarrow> conf_env \<Rightarrow> ptr \<Rightarrow> conf_world \<Rightarrow> conf_world outcome" where
  "talk_control f env p w =
     (let w = upd_mem p (\<lambda>m. m\<lparr>m_volume_out_level := f (m_volume_out_level m)\<rparr>) w;
          level = m_volume_out_level (mem w p)
      in bindE (fire_masked EFLAG_VOLUME_LEVEL p
                  [Hdr ''Action'' ''volume-level'', Hdr ''New-Level'' (show_int level)] w)
           (announce_volume env p level))"

definition listen_control :: "(int \<Rightarrow> int) \<Rightarrow> conf_env \<Rightarrow> ptr \<Rightarrow> conf_world \<Rightarrow> conf_world outcome" where
  "listen_control f env p w =
     (let w = upd_mem p (\<lambda>m. m\<lparr>m_volume_in_level := f (m_volume_in_level m)\<rparr>) w;
          level = m_volume_in_level (mem w p)
      in bindE (fire_masked EFLAG_GAIN_LEVEL p
                  [Hdr ''Action'' ''gain-level'', Hdr ''New-Level'' (show_int level)] w)
           (announce_volume env p level))"

definition conference_loop_fn_volume_talk_up :: "conf_env \<Rightarrow> ptr \<Rightarrow> conf_world \<Rightarrow> conf_world outcome" where
  "conference_loop_fn_volume_talk_up = talk_control (\<lambda>n. switch_normalize_volume (s32 (n + 1)))"

definition conference_loop_fn_volume_talk_zero :: "conf_env \<Rightarrow> ptr \<Rightarrow> conf_world \<Rightarrow> conf_world outcome" where
  "conference_loop_fn_volume_talk_zero = talk_control (\<lambda>_. 0)"

definition conference_loop_fn_volume_talk_dn :: "conf_env \<Rightarrow> ptr \<Rightarrow> conf_world \<Rightarrow> conf_world outcome" where
  "conference_loop_fn_volume_talk_dn = talk_control (\<lambda>n. switch_normalize_volume (s32 (n - 1)))"

definition conference_loop_fn_volume_listen_up :: "conf_env \<Rightarrow> ptr \<Rightarrow> conf_world \<Rightarrow> conf_world outcome" where
  "conference_loop_fn_volume_listen_up = listen_control (\<lambda>n. switch_normalize_volume (s32 (n + 1)))"

definition conference_loop_fn_volume_listen_zero :: "conf_env \<Rightarrow> ptr \<Rightarrow> conf_world \<Rightarrow> conf_world outcome" where
  "conference_loop_fn_volume_listen_zero = listen_control (\<lambda>_. 0)"

definition conference_loop_fn_volume_listen_dn :: "conf_env \<Rightarrow> ptr \<Rightarrow> conf_world \<Rightarrow> conf_world outcome" where
  "conference_loop_fn_volume_listen_dn = listen_control (\<lambda>n. switch_normalize_volume (s32 (n - 1)))"

record caller_control_action =
  binded_dtmf :: string
  expanded_data :: string

definition conference_loop_fn_event :: "caller_control_action \<Rightarrow> ptr \<Rightarrow> conf_world \<Rightarrow> conf_world outcome" where
  "conference_loop_fn_event action p w =
     fire_masked EFLAG_DTMF p
       [Hdr ''Action'' ''dtmf'', Hdr ''DTMF-Key'' (binded_dtmf action), Hdr ''Data'' (expanded_data action)] w"

definition conference_loop_fn_hangup :: "ptr \<Rightarrow> conf_world \<Rightarrow> conf_world" where
  "conference_loop_fn_hangup p w = clear_mflag p MFLAG_RUNNING w"

section \<open>Flag lists of the configuration\<close>

text \<open>Commas count as bars; at most ten entries are told apart, the tenth is all the rest.\<close>

definition flag_words :: "string \<Rightarrow> string list outcome" where
  "flag_words s =
     switch_separate_string (Some (map (\<lambda>c. if c = CHR '','' then CHR ''|'' else c) s)) (CHR ''|'') 10"

definition mflag_word :: "string \<Rightarrow> member_flag_t set \<Rightarrow> member_flag_t set" where
  "mflag_word s f =
     (if strcasecmp_eq s ''mute'' then f - {MFLAG_CAN_SPEAK} - {MFLAG_TALKING}
      else if strcasecmp_eq s ''deaf'' then f - {MFLAG_CAN_HEAR}
      else if strcasecmp_eq s ''waste'' then insert MFLAG_WASTE_BANDWIDTH f
      else if strcasecmp_eq s ''mute-detect'' then insert MFLAG_MUTE_DETECT f
      else if strcasecmp_eq s ''dist-dtmf'' then insert MFLAG_DIST_DTMF f
      else if strcasecmp_eq s ''moderator'' then insert MFLAG_MOD f
      else if strcasecmp_eq s ''nomoh'' then insert MFLAG_NOMOH f
      else if strcasecmp_eq s ''endconf'' then insert MFLAG_ENDCONF f
      else if strcasecmp_eq s ''mintwo'' then insert MFLAG_MINTWO f
      else if strcasecmp_eq s ''video-bridge'' then insert MFLAG_VIDEO_BRIDGE f
      else f)"

definition set_mflags :: "string option \<Rightarrow> member_flag_t set \<Rightarrow> member_flag_t set outcome" where
  "set_mflags fl f =
     (case fl of None \<Rightarrow> Inr f | Some s \<Rightarrow> bindE (flag_words s) (\<lambda>ws. Inr (fold mflag_word ws f)))"

definition cflag_word :: "string \<Rightarrow> conf_flag_t set \<Rightarrow> conf_flag_t set" where
  "cflag_word s f =
     (if strcasecmp_eq s ''wait-mod'' then insert CFLAG_WAIT_MOD f
      else if strcasecmp_eq s ''video-floor-only'' then insert CFLAG_VID_FLOOR f
      else if strcasecmp_eq s ''waste-bandwidth'' then insert CFLAG_WASTE_BANDWIDTH f
      else if strcasecmp_eq s ''video-bridge'' then insert CFLAG_VIDEO_BRIDGE f
      else f)"

definition set_cflags :: "string option \<Rightarrow> conf_flag_t set \<Rightarrow> conf_flag_t set outcome" where
  "set_cflags fl f =
     (case fl of None \<Rightarrow> Inr f | Some s \<Rightarrow> bindE (flag_words s) (\<lambda>ws. Inr (fold cflag_word ws f)))"

definition eflag_names :: "(string \<times> event_type_t) list" where
  "eflag_names =
     [(''add-member'', EFLAG_ADD_MEMBER), (''del-member'', EFLAG_DEL_MEMBER),
      (''energy-level'', EFLAG_ENERGY_LEVEL), (''volume-level'', EFLAG_VOLUME_LEVEL),
      (''gain-level'', EFLAG_GAIN_LEVEL), (''dtmf'', EFLAG_DTMF),
      (''stop-talking'', EFLAG_STOP_TALKING), (''start-talking'', EFLAG_START_TALKING),
      (''mute-detect'', EFLAG_MUTE_DETECT), (''mute-member'', EFLAG_MUTE_MEMBER),
      (''unmute-member'', EFLAG_UNMUTE_MEMBER), (''kick-member'', EFLAG_KICK_MEMBER),
      (''dtmf-member'', EFLAG_DTMF_MEMBER), (''energy-level-member'', EFLAG_ENERGY_LEVEL_MEMBER),
      (''volume-in-member'', EFLAG_VOLUME_IN_MEMBER), (''volume-out-member'', EFLAG_VOLUME_OUT_MEMBER),
      (''play-file'', EFLAG_PLAY_FILE), (''play-file-member'', EFLAG_PLAY_FILE_MEMBER),
      (''speak-text'', EFLAG_SPEAK_TEXT), (''speak-text-member'', EFLAG_SPEAK_TEXT_MEMBER),
      (''lock'', EFLAG_LOCK), (''unlock'', EFLAG_UNLOCK), (''transfer'', EFLAG_TRANSFER),
      (''bgdial-result'', EFLAG_BGDIAL_RESULT), (''floor-change'', EFLAG_FLOOR_CHANGE),
      (''record'', EFLAG_RECORD)]"

text \<open>The list is cut to 511 bytes and taken apart at the commas, without skipping blanks.\<close>

function clear_eflags_loop :: "string \<Rightarrow> event_type_t set \<Rightarrow> event_type_t set" where
  "clear_eflags_loop s f =
     (let clear = (\<lambda>w. case map_of eflag_names w of None \<Rightarrow> f | Some e \<Rightarrow> f - {e}) in
      case strchr s (CHR '','') of
        None \<Rightarrow> clear s
      | Some i \<Rightarrow> clear_eflags_loop (drop (i + 1) s) (clear (take i s)))"
  by pat_completeness auto

termination
  by (relation "measure (\<lambda>(s, f). length s)") (auto dest: strchr_Some)

declare clear_eflags_loop.simps [simp del]

definition clear_eflags :: "string option \<Rightarrow> event_type_t set \<Rightarrow> event_type_t set" where
  "clear_eflags events f = (case events of None \<Rightarrow> f | Some s \<Rightarrow> clear_eflags_loop (take 511 s) f)"

section \<open>What every command keeps\<close>

definition conf_kept :: "conf_world \<Rightarrow> ptr list \<times> uint32 \<times> int \<times> ptr option \<times>
    (ptr \<Rightarrow> uint32 \<times> bool \<times> bool \<times> bool \<times> bool \<times> bool)" where
  "conf_kept w =
     (c_members (conf w), c_count (conf w), c_end_count (conf w), c_floor_holder (conf w),
      \<lambda>p. (m_id (mem w p), m_conference (mem w p), mflag w p MFLAG_INTREE, mflag w p MFLAG_NOCHANNEL,
            mflag w p MFLAG_ENDCONF, m_session (mem w p) = None))"

lemma kept_core: "conf_core w' = conf_core w \<Longrightarrow> conf_kept w' = conf_kept w"
  by (simp add: conf_kept_def core_eqD [where w = w and w' = w'])

lemma kept_inv:
  assumes "conf_kept w' = conf_kept w" and "conf_inv w"
  shows "conf_inv w'"
proof -
  have c: "c_members (conf w') = c_members (conf w)" "c_count (conf w') = c_count (conf w)"
    "c_end_count (conf w') = c_end_count (conf w)" "c_floor_holder (conf w') = c_floor_holder (conf w)"
    using assms(1) by (simp_all only: conf_kept_def prod.inject)
  have m: "m_conference (mem w' p) \<longleftrightarrow> m_conference (mem w p)"
    "mflag w' p MFLAG_INTREE \<longleftrightarrow> mflag w p MFLAG_INTREE"
    "mflag w' p MFLAG_NOCHANNEL \<longleftrightarrow> mflag w p MFLAG_NOCHANNEL"
    "mflag w' p MFLAG_ENDCONF \<longleftrightarrow> mflag w p MFLAG_ENDCONF"
    "m_session (mem w' p) = None \<longleftrightarrow> m_session (mem w p) = None" for p
    using assms(1) [unfolded conf_kept_def prod.inject, THEN conjunct2, THEN conjunct2, THEN conjunct2,
        THEN conjunct2, THEN fun_cong, of p]
    by (simp_all only: prod.inject)
  from assms(2) show ?thesis unfolding conf_inv_def c m .
qed

lemma kept_emit [simp]: "conf_kept (emit e w) = conf_kept w"
  by (rule kept_core) simp

lemma kept_reply [simp]: "conf_kept (reply s w) = conf_kept w" "conf_kept (reply_if b s w) = conf_kept w"
  by (simp_all add: reply_def reply_if_def)

lemma kept_fire [simp]: "conf_kept (fire_member p hs w) = conf_kept w" "conf_kept (fire_conf hs w) = conf_kept w"
  by (rule kept_core, simp)+

lemma kept_cflag [simp]: "conf_kept (set_cflag f w) = conf_kept w" "conf_kept (clear_cflag f w) = conf_kept w"
  by (rule kept_core, simp)+

lemma kept_stop [simp]:
  "conf_kept (snd (conference_stop_file w k)) = conf_kept w"
  "conf_kept (snd (conference_member_stop_file w p k)) = conf_kept w"
  by (rule kept_core, simp)+

definition stable :: "member_flag_t \<Rightarrow> bool" where
  "stable f \<longleftrightarrow> f \<in> {MFLAG_INTREE, MFLAG_NOCHANNEL, MFLAG_ENDCONF}"

lemma kept_mflag [simp]:
  "\<not> stable f \<Longrightarrow> conf_kept (set_mflag p f w) = conf_kept w"
  "\<not> stable f \<Longrightarrow> conf_kept (clear_mflag p f w) = conf_kept w"
  by (auto simp: conf_kept_def set_mflag_def clear_mflag_def upd_mem_def stable_def fun_eq_iff)

lemma unstable [simp]:
  "\<not> stable MFLAG_CAN_SPEAK" "\<not> stable MFLAG_CAN_HEAR" "\<not> stable MFLAG_TALKING" "\<not> stable MFLAG_RUNNING"
  "\<not> stable MFLAG_KICKED" "\<not> stable MFLAG_INDICATE_MUTE" "\<not> stable MFLAG_INDICATE_UNMUTE"
  by (simp_all add: stable_def)

lemma kept_upd_conf:
  assumes "\<And>c. c_members (f c) = c_members c \<and> c_count (f c) = c_count c \<and>
      c_end_count (f c) = c_end_count c \<and> c_floor_holder (f c) = c_floor_holder c"
  shows "conf_kept (upd_conf f w) = conf_kept w"
  using assms by (simp add: conf_kept_def upd_conf_def)

lemma kept_upd_mem:
  assumes "\<And>m. m_id (f m) = m_id m \<and> m_conference (f m) = m_conference m \<and> m_flags (f m) = m_flags m \<and>
      (m_session (f m) = None \<longleftrightarrow> m_session m = None)"
  shows "conf_kept (upd_mem p f w) = conf_kept w"
  using assms by (simp add: conf_kept_def upd_mem_def fun_eq_iff)

lemma kept_set_channel:
  "m_session (mem w p) \<noteq> None \<Longrightarrow> conf_kept (set_member_channel p ch w) = conf_kept w"
  by (auto simp: conf_kept_def set_member_channel_def upd_mem_def fun_eq_iff)

lemma kept_fold: "(\<And>x w. conf_kept (f x w) = conf_kept w) \<Longrightarrow> conf_kept (fold f xs w) = conf_kept w"
  by (induction xs arbitrary: w) simp_all

lemmas kept_play = core_play [THEN kept_core] core_play_file [THEN kept_core]
  core_member_play_file [THEN kept_core] core_say [THEN kept_core] core_member_say [THEN kept_core]

lemma kept_fire_masked: "fire_masked f p hs w = Inr w' \<Longrightarrow> conf_kept w' = conf_kept w"
  by (auto simp: fire_masked_def split: if_splits)

text \<open>A member command keeps the membership of whatever world it is run in.\<close>

definition member_keeps :: "conf_api_member_cmd_t \<Rightarrow> bool" where
  "member_keeps f \<longleftrightarrow> (\<forall>stream data p w st w'. f stream data p w = Inr (st, w') \<longrightarrow> conf_kept w' = conf_kept w)"

definition args_keeps :: "conf_api_args_cmd_t \<Rightarrow> bool" where
  "args_keeps f \<longleftrightarrow> (\<forall>argv w st w'. f argv w = Inr (st, w') \<longrightarrow> conf_kept w' = conf_kept w)"

definition text_keeps :: "conf_api_text_cmd_t \<Rightarrow> bool" where
  "text_keeps f \<longleftrightarrow> (\<forall>t w st w'. f t w = Inr (st, w') \<longrightarrow> conf_kept w' = conf_kept w)"

lemma member_commands_keep:
  "member_keeps conf_api_sub_mute" "member_keeps conf_api_sub_unmute" "member_keeps conf_api_sub_deaf"
  "member_keeps conf_api_sub_undeaf" "member_keeps conf_api_sub_hup" "member_keeps conf_api_sub_kick"
  "member_keeps conf_api_sub_dtmf"
  unfolding member_keeps_def conf_api_sub_mute_def conf_api_sub_unmute_def conf_api_sub_deaf_def
    conf_api_sub_undeaf_def conf_api_sub_hup_def conf_api_sub_kick_def conf_api_sub_dtmf_def
  by (auto simp: Let_def ok_def generr_def bindE_eq_Inr split: option.splits if_splits dest!: kept_fire_masked)

lemma set_level_keeps:
  assumes "\<And>n m. m_id (setter n m) = m_id m \<and> m_conference (setter n m) = m_conference m \<and>
      m_flags (setter n m) = m_flags m \<and> (m_session (setter n m) = None \<longleftrightarrow> m_session m = None)"
  shows "member_keeps (set_level setter getter text eflag action header)"
proof -
  have "conf_kept (upd_mem p (setter n) w) = conf_kept w" for p n w
    using assms by (intro kept_upd_mem)
  then show ?thesis
    by (auto simp: member_keeps_def set_level_def Let_def ok_def generr_def split: option.splits if_splits)
qed

lemma level_commands_keep:
  "member_keeps conf_api_sub_energy" "member_keeps conf_api_sub_volume_in" "member_keeps conf_api_sub_volume_out"
  unfolding conf_api_sub_energy_def conf_api_sub_volume_in_def conf_api_sub_volume_out_def
  by (intro set_level_keeps, simp)+

lemma del_relationship_keeps [simp]: "conf_kept (snd (member_del_relationship w p mid)) = conf_kept w"
  by (simp add: member_del_relationship_def Let_def kept_upd_mem kept_upd_conf)

lemma add_relationship_keeps [simp]: "conf_kept (snd (member_add_relationship a w p mid)) = conf_kept w"
  by (simp add: member_add_relationship_def kept_upd_mem kept_upd_conf)

lemma set_rel_keeps [simp]: "conf_kept (set_rel i fs p w) = conf_kept w"
  by (simp add: set_rel_def kept_upd_mem)

lemma relate_set_keeps [simp]: "conf_kept (relate_set a ns nh mid oid p q w) = conf_kept w"
proof -
  have "conf_kept v = conf_kept w" if "member_add_relationship a w p oid = (b, v)" for b v
    using add_relationship_keeps [of a w p oid] that by simp
  then show ?thesis
    by (auto simp: relate_set_def Let_def split: option.splits prod.splits if_splits)
qed

lemma record_stop_keeps [simp]: "conf_kept (snd (conference_record_stop w path)) = conf_kept w"
  by (simp add: conference_record_stop_def Let_def kept_fold)

lemma stop_keeps: "args_keeps conf_api_sub_stop"
proof -
  have "conf_kept v = conf_kept w" if "conference_stop_file w k = (n, v)" for w k n v
    using kept_stop(1) [of w k] that by simp
  moreover have "conf_kept v = conf_kept w" if "conference_member_stop_file w p k = (n, v)" for w p k n v
    using kept_stop(2) [of w p k] that by simp
  ultimately show ?thesis
    by (auto simp: args_keeps_def conf_api_sub_stop_def Let_def ok_def generr_def
        split: option.splits if_splits prod.splits)
qed

lemma norecord_keeps: "args_keeps conf_api_sub_norecord"
proof -
  have "conf_kept v = conf_kept w" if "conference_record_stop w path = (n, v)" for w path n v
    using record_stop_keeps [of w path] that by simp
  then show ?thesis
    by (auto simp: args_keeps_def conf_api_sub_norecord_def Let_def ok_def generr_def kept_upd_conf
        split: if_splits prod.splits)
qed

lemma transfer_loop_keeps: "transfer_loop cname profile argv as w = Inr w' \<Longrightarrow> conf_kept w' = conf_kept w"
proof (induction as arbitrary: w)
  case (Cons a as)
  define mid :: uint32 where "mid = word_of_int (atoi a)"
  show ?case
  proof (cases "if mid = 0 then None else conference_member_get w mid")
    case None
    from Cons.prems have "transfer_loop cname profile argv as
        (reply (''No Member '' @ u32 mid @ '' in conference '' @ c_name (conf w) @ ''.'' @ newline) w) = Inr w'"
      using None by (simp only: transfer_loop.simps Let_def mid_def [symmetric] option.case)
    from Cons.IH [OF this] show ?thesis by simp
  next
    case (Some p)
    obtain ch ch' where ch: "m_session (mem w p) = Some ch"
      and r: "transfer_loop cname profile argv as
        (let w = set_member_channel p ch' (emit (Transfer_session p (''conference:'' @ cname @ ''@'' @ profile)) w);
              w = reply (''OK Member '' @ [CHR 0x27] @ show_int (sint (m_id (mem w p))) @ [CHR 0x27] @
                         '' sent to conference '' @ argv ! 2 @ ''.'' @ newline) w
          in (if test_eflag w EFLAG_TRANSFER
                   then fire_member p [Hdr ''Old-Conference-Name'' (c_name (conf w)),
                                       Hdr ''New-Conference-Name'' (argv ! 3),
                                       Hdr ''Action'' ''transfer''] w else w)) = Inr w'"
      using Cons.prems
      unfolding transfer_loop.simps Let_def mid_def [symmetric] Some option.case bindE_eq_Inr member_channel_def
      by (auto split: option.splits)
    have "m_session (mem (emit e w) p) \<noteq> None" for e using ch by (simp add: emit_def)
    then show ?thesis using Cons.IH [OF r] by (simp add: Let_def kept_set_channel split: if_splits)
  qed
qed simp

lemma sound_commands_keep:
  "args_keeps conf_api_sub_exit_sound" "args_keeps conf_api_sub_enter_sound"
  unfolding args_keeps_def conf_api_sub_exit_sound_def conf_api_sub_enter_sound_def
  by (auto simp: Let_def ok_def generr_def kept_upd_conf split: if_splits option.splits)

lemma conference_commands_keep:
  "args_keeps conf_api_sub_agc" "args_keeps (conf_api_sub_relate alloc)"
  "args_keeps conf_api_sub_record" "args_keeps conf_api_sub_pin" "args_keeps conf_api_sub_transfer"
  unfolding args_keeps_def conf_api_sub_agc_def conf_api_sub_relate_def
    conf_api_sub_record_def conf_api_sub_pin_def conf_api_sub_transfer_def
  by (auto simp: Let_def ok_def generr_def kept_upd_conf bindE_eq_Inr split: if_splits option.splits
      dest!: transfer_loop_keeps)

lemma lock_commands_keep: "args_keeps (conf_api_sub_lock env)" "args_keeps (conf_api_sub_unlock env)"
  unfolding args_keeps_def conf_api_sub_lock_def conf_api_sub_unlock_def
  by (auto simp: Let_def ok_def bindE_eq_Inr split: if_splits dest!: kept_play)

lemma play_keeps: "args_keeps (conf_api_sub_play env)"
  unfolding args_keeps_def conf_api_sub_play_def
  by (auto simp: Let_def ok_def generr_def bindE_eq_Inr split: if_splits option.splits dest!: kept_play)

lemma speech_commands_keep: "text_keeps (conf_api_sub_say env)" "text_keeps (conf_api_sub_saymember env)"
  unfolding text_keeps_def conf_api_sub_say_def conf_api_sub_saymember_def
  by (auto simp: Let_def ok_def generr_def bindE_eq_Inr split: if_splits option.splits prod.splits
      dest!: kept_play kept_fire_masked)

fun fn_keeps :: "api_fn \<Rightarrow> bool" where
  "fn_keeps (CONF_API_SUB_ARGS_SPLIT f) = args_keeps f"
| "fn_keeps (CONF_API_SUB_MEMBER_TARGET f) = member_keeps f"
| "fn_keeps (CONF_API_SUB_ARGS_AS_ONE f) = text_keeps f"

lemma table_keeps:
  assumes "\<And>n. args_keeps (other n)"
  shows "\<forall>c\<in>set (conf_api_sub_commands env other). fn_keeps (pfnapicmd c)"
  unfolding conf_api_sub_commands_def
  by (simp add: assms member_commands_keep level_commands_keep stop_keeps norecord_keeps sound_commands_keep
      conference_commands_keep lock_commands_keep play_keeps speech_commands_keep)

lemma member_loop_keeps:
  assumes "\<And>p w st w'. f p w = Inr (st, w') \<Longrightarrow> conf_kept w' = conf_kept w"
  shows "member_loop f ps w = Inr w' \<Longrightarrow> conf_kept w' = conf_kept w"
  by (induction ps arbitrary: w) (auto simp: bindE_eq_Inr split: if_splits dest: assms)

lemma itterator_keeps:
  assumes "member_keeps f" and "conference_member_itterator f data w = Inr w'"
  shows "conf_kept w' = conf_kept w"
  using assms(2) unfolding conference_member_itterator_def
  by (rule member_loop_keeps [rotated]) (use assms(1) in \<open>auto simp: member_keeps_def\<close>)

lemma dispatch_member_keeps:
  assumes "member_keeps f" and "dispatch_member c f argv argn w = Inr w'"
  shows "conf_kept w' = conf_kept w"
proof -
  have "conf_kept v = conf_kept w" if "f b d p w = Inr (st, v)" for b d p st v
    using assms(1) that by (simp add: member_keeps_def)
  with assms(2) itterator_keeps [OF assms(1)] show ?thesis
    by (auto simp: dispatch_member_def Let_def usage_def bindE_eq_Inr split: option.splits if_splits)
qed

lemma run_command_keeps:
  assumes "fn_keeps (pfnapicmd c)" and "run_command c argv cmdline argn w = Inr w'"
  shows "conf_kept w' = conf_kept w"
  using assms dispatch_member_keeps
  by (cases "pfnapicmd c")
    (auto simp: run_command_def Let_def usage_def bindE_eq_Inr args_keeps_def text_keeps_def split: if_splits)

lemma dispatch_keeps:
  assumes "\<forall>c\<in>set table. fn_keeps (pfnapicmd c)"
    and "conf_api_dispatch table argv cmdline argn w = Inr (st, w')"
  shows "conf_kept w' = conf_kept w"
proof -
  obtain name where "arg argv argn = Some name"
    using assms(2) by (auto simp: conf_api_dispatch_def deref_def bindE_eq_Inr split: option.splits)
  show ?thesis
  proof (cases "filter (\<lambda>c. strcasecmp_eq name (pname c)) table")
    case Nil
    with assms(2) \<open>arg argv argn = Some name\<close> show ?thesis by (auto simp: conf_api_dispatch_def deref_def)
  next
    case (Cons c cs)
    then have "c \<in> set (filter (\<lambda>c. strcasecmp_eq name (pname c)) table)" by simp
    then have "c \<in> set table" by simp
    with assms(1) run_command_keeps [of c] assms(2) Cons \<open>arg argv argn = Some name\<close> show ?thesis
      by (auto simp: conf_api_dispatch_def deref_def ok_def bindE_eq_Inr)
  qed
qed

section \<open>The controls keep it too\<close>

lemma quiet_keeps: "member_keeps f \<Longrightarrow> quiet f p w = Inr w' \<Longrightarrow> conf_kept w' = conf_kept w"
  by (auto simp: quiet_def bindE_eq_Inr member_keeps_def)

lemmas quiet_commands_keep = member_commands_keep [THEN quiet_keeps]

lemma speak_again_keeps: "speak_again p w = Inr w' \<Longrightarrow> conf_kept w' = conf_kept w"
  by (auto simp: speak_again_def bindE_eq_Inr split: if_splits dest!: quiet_commands_keep)

lemma mute_controls_keep:
  "conference_loop_fn_mute_toggle p w = Inr w' \<Longrightarrow> conf_kept w' = conf_kept w"
  "conference_loop_fn_mute_on p w = Inr w' \<Longrightarrow> conf_kept w' = conf_kept w"
  "conference_loop_fn_mute_off p w = Inr w' \<Longrightarrow> conf_kept w' = conf_kept w"
  "conference_loop_fn_deafmute_toggle p w = Inr w' \<Longrightarrow> conf_kept w' = conf_kept w"
  by (auto simp: conference_loop_fn_mute_toggle_def conference_loop_fn_mute_on_def
      conference_loop_fn_mute_off_def conference_loop_fn_deafmute_toggle_def bindE_eq_Inr
      split: if_splits dest!: quiet_commands_keep speak_again_keeps)

lemma lock_toggle_keeps: "conference_loop_fn_lock_toggle env p w = Inr w' \<Longrightarrow> conf_kept w' = conf_kept w"
  by (auto simp: conference_loop_fn_lock_toggle_def Let_def bindE_eq_Inr split: if_splits dest!: kept_play)

lemma member_play_keeps: "member_play env p f w = Inr w' \<Longrightarrow> conf_kept w' = conf_kept w"
  by (auto simp: member_play_def bindE_eq_Inr dest: kept_play)

lemma play_digits_keeps: "play_digits env p ds w = Inr w' \<Longrightarrow> conf_kept w' = conf_kept w"
  by (induction ds arbitrary: w) (auto simp: bindE_eq_Inr dest: member_play_keeps)

lemma announce_volume_keeps: "announce_volume env p l w = Inr w' \<Longrightarrow> conf_kept w' = conf_kept w"
  by (auto simp: announce_volume_def bindE_eq_Inr split: if_splits dest!: member_play_keeps)

lemma level_controls_keep:
  "energy_control f env p w = Inr w' \<Longrightarrow> conf_kept w' = conf_kept w"
  "talk_control f env p w = Inr w' \<Longrightarrow> conf_kept w' = conf_kept w"
  "listen_control f env p w = Inr w' \<Longrightarrow> conf_kept w' = conf_kept w"
  unfolding energy_control_def talk_control_def listen_control_def Let_def bindE_eq_Inr
  by (auto simp: kept_upd_mem dest!: kept_fire_masked play_digits_keeps announce_volume_keeps)

section \<open>Runs of a conference\<close>

text \<open>
  A key of a caller: the controls of the table a digit can be bound to, as far as they act on
  the conference.
\<close>

inductive conf_control :: "conf_env \<Rightarrow> ptr \<Rightarrow> conf_world \<Rightarrow> conf_world \<Rightarrow> bool" for env p where
  mute: "conference_loop_fn_mute_toggle p w = Inr w' \<Longrightarrow> conf_control env p w w'"
| mute_on: "conference_loop_fn_mute_on p w = Inr w' \<Longrightarrow> conf_control env p w w'"
| mute_off: "conference_loop_fn_mute_off p w = Inr w' \<Longrightarrow> conf_control env p w w'"
| deaf_mute: "conference_loop_fn_deafmute_toggle p w = Inr w' \<Longrightarrow> conf_control env p w w'"
| lock: "conference_loop_fn_lock_toggle env p w = Inr w' \<Longrightarrow> conf_control env p w w'"
| energy_up: "conference_loop_fn_energy_up env p w = Inr w' \<Longrightarrow> conf_control env p w w'"
| energy_equ: "conference_loop_fn_energy_equ_conf env p w = Inr w' \<Longrightarrow> conf_control env p w w'"
| energy_dn: "conference_loop_fn_energy_dn env p w = Inr w' \<Longrightarrow> conf_control env p w w'"
| vol_talk_up: "conference_loop_fn_volume_talk_up env p w = Inr w' \<Longrightarrow> conf_control env p w w'"
| vol_talk_zero: "conference_loop_fn_volume_talk_zero env p w = Inr w' \<Longrightarrow> conf_control env p w w'"
| vol_talk_dn: "conference_loop_fn_volume_talk_dn env p w = Inr w' \<Longrightarrow> conf_control env p w w'"
| vol_listen_up: "conference_loop_fn_volume_listen_up env p w = Inr w' \<Longrightarrow> conf_control env p w w'"
| vol_listen_zero: "conference_loop_fn_volume_listen_zero env p w = Inr w' \<Longrightarrow> conf_control env p w w'"
| vol_listen_dn: "conference_loop_fn_volume_listen_dn env p w = Inr w' \<Longrightarrow> conf_control env p w w'"
| event: "conference_loop_fn_event action p w = Inr w' \<Longrightarrow> conf_control env p w w'"
| hangup: "conf_control env p w (conference_loop_fn_hangup p w)"

lemma control_keeps: "conf_control env p w w' \<Longrightarrow> conf_kept w' = conf_kept w"
  by (induction rule: conf_control.induct)
    (auto simp: conference_loop_fn_energy_up_def conference_loop_fn_energy_dn_def
      conference_loop_fn_energy_equ_conf_def conference_loop_fn_volume_talk_up_def
      conference_loop_fn_volume_talk_zero_def conference_loop_fn_volume_talk_dn_def
      conference_loop_fn_volume_listen_up_def conference_loop_fn_volume_listen_zero_def
      conference_loop_fn_volume_listen_dn_def conference_loop_fn_event_def conference_loop_fn_hangup_def
      split: if_splits
      dest: mute_controls_keep lock_toggle_keeps level_controls_keep kept_fire_masked)

text \<open>
  One step: somebody who is in no conference joins, a member leaves, a command line is
  dispatched, a member presses a key.  The environment and the unmodelled handlers may differ
  from step to step.
\<close>

inductive conf_step :: "conf_world \<Rightarrow> conf_world \<Rightarrow> bool" where
  join: "\<not> m_conference (mem w p) \<Longrightarrow> conference_add_member env w p = Inr (st, w') \<Longrightarrow> conf_step w w'"
| leave: "conference_del_member env w p = Inr (st, w') \<Longrightarrow> conf_step w w'"
| command: "(\<And>n. args_keeps (other n)) \<Longrightarrow>
     conf_api_dispatch (conf_api_sub_commands env other) argv cmdline 1 w = Inr (st, w') \<Longrightarrow> conf_step w w'"
| control: "m_conference (mem w p) \<Longrightarrow> conf_control env p w w' \<Longrightarrow> conf_step w w'"

text \<open>A conference before anybody joined.\<close>

definition conf_fresh :: "conf_world \<Rightarrow> bool" where
  "conf_fresh w \<longleftrightarrow>
     c_members (conf w) = [] \<and> c_count (conf w) = 0 \<and> c_end_count (conf w) = 0 \<and>
     c_floor_holder (conf w) = None \<and>
     (\<forall>p. \<not> m_conference (mem w p) \<and> \<not> mflag w p MFLAG_INTREE)"

lemma conf_fresh_inv: "conf_fresh w \<Longrightarrow> conf_inv w"
  by (simp add: conf_fresh_def conf_inv_def)

lemma conf_step_inv: "conf_step w w' \<Longrightarrow> conf_inv w \<Longrightarrow> conf_inv w'"
proof (induction rule: conf_step.induct)
  case (join w p env st w')
  then show ?case using add_member_joined [of env w p st w'] by (blast intro: joined_inv)
next
  case (leave env w p st w')
  then show ?case using del_member_left [of env w p st w'] by (blast intro: left_inv)
next
  case (command other env argv cmdline w st w')
  show ?case using dispatch_keeps [OF table_keeps [OF command(1)] command(2)] command(3) by (rule kept_inv)
next
  case (control w p env w')
  then show ?case using control_keeps by (blast intro: kept_inv)
qed

interpretation room: step_system conf_fresh conf_step conf_inv
proof
  show "conf_inv s" if "conf_fresh s" for s using that by (rule conf_fresh_inv)
  show "conf_inv t" if "conf_inv s" and "conf_step s t" for s t using that(2,1) by (rule conf_step_inv)
qed

section \<open>Properties\<close>

lemma member_get_iff:
  assumes "conf_inv w"
  shows "conference_member_get w mid = Some p \<longleftrightarrow>
    mid \<noteq> 0 \<and> (\<exists>as bs. c_members (conf w) = as @ p # bs \<and> has_channel w p \<and> m_id (mem w p) = mid \<and>
      (\<forall>q\<in>set as. \<not> (has_channel w q \<and> m_id (mem w q) = mid)))"
proof -
  have "mflag w q MFLAG_INTREE" if "q \<in> set (c_members (conf w))" for q
    using that conf_invD(2,3) [OF assms] by simp
  then have "conference_member_get w mid = Some p \<longleftrightarrow>
      mid \<noteq> 0 \<and> (\<exists>ps. filter (\<lambda>p. has_channel w p \<and> m_id (mem w p) = mid) (c_members (conf w)) = p # ps)"
    by (auto simp: conference_member_get_def split: list.splits) (metis filter_eq_ConsD in_set_conv_decomp)+
  then show ?thesis by (auto simp: filter_eq_Cons_iff)
qed

text \<open>
  Whatever sequence of joins, leaves, commands and key presses a conference has seen: no
  member is listed twice; \<open>count\<close> is the number of members with a channel and
  \<open>end_count\<close> that of the members that end the conference (both as long as there are fewer
  than \<open>2 ^ 32\<close> members); the floor is held by a member or nobody; every member with a
  channel has a session; and looking up a number finds the first member with a channel that
  has it.
\<close>

theorem membership_invariant:
  assumes "conf_fresh w0" and "conf_step\<^sup>*\<^sup>* w0 w" and "length (c_members (conf w)) < 2 ^ 32"
  shows "distinct (c_members (conf w)) \<and>
    unat (c_count (conf w)) = length (filter (\<lambda>p. \<not> mflag w p MFLAG_NOCHANNEL) (c_members (conf w))) \<and>
    c_end_count (conf w) = int (length (filter (\<lambda>p. \<not> mflag w p MFLAG_NOCHANNEL \<and> mflag w p MFLAG_ENDCONF)
      (c_members (conf w)))) \<and>
    (\<forall>p. c_floor_holder (conf w) = Some p \<longrightarrow> p \<in> set (c_members (conf w))) \<and>
    (\<forall>p\<in>set (c_members (conf w)). \<not> mflag w p MFLAG_NOCHANNEL \<longrightarrow> m_session (mem w p) \<noteq> None) \<and>
    (\<forall>mid p. conference_member_get w mid = Some p \<longleftrightarrow>
      mid \<noteq> 0 \<and> (\<exists>as bs. c_members (conf w) = as @ p # bs \<and> \<not> mflag w p MFLAG_NOCHANNEL \<and>
        m_id (mem w p) = mid \<and> (\<forall>q\<in>set as. \<not> (\<not> mflag w q MFLAG_NOCHANNEL \<and> m_id (mem w q) = mid))))"
proof -
  have inv: "conf_inv w" using assms(1,2) by (rule room.reachable_inv)
  have "length (filter (has_channel w) (c_members (conf w))) < 2 ^ 32"
    using assms(3) length_filter_le [of "has_channel w" "c_members (conf w)"] by linarith
  then have "unat (c_count (conf w)) = length (filter (has_channel w) (c_members (conf w)))"
    by (simp add: conf_invD(5) [OF inv] unat_of_nat)
  moreover have "\<forall>mid p. conference_member_get w mid = Some p \<longleftrightarrow>
      mid \<noteq> 0 \<and> (\<exists>as bs. c_members (conf w) = as @ p # bs \<and> has_channel w p \<and> m_id (mem w p) = mid \<and>
        (\<forall>q\<in>set as. \<not> (has_channel w q \<and> m_id (mem w q) = mid)))"
    using member_get_iff [OF inv] by blast
  ultimately show ?thesis using inv unfolding conf_inv_def by blast
qed

definition plain_env :: conf_env where
  "plain_env = \<lparr>get_variable = \<lambda>_ _. None, expand_variables = \<lambda>_ s. s, autocall_list = \<lambda>_. None,
     pool_ok = True, file_opens = \<lambda>_. True, speech_opens = True, epoch_time_now = 0\<rparr>"

definition plain_buffer :: switch_buffer where
  "plain_buffer = \<lparr>buf_data = Some [], buf_head = 0, buf_used = 0, buf_actually_used = 0, buf_datalen = 0,
     buf_max_len = 0, buf_blocksize = 0, buf_mutex = None, buf_flags = SWITCH_BUFFER_FLAG_DYNAMIC,
     buf_id = 0, buf_loops = 0\<rparr>"

definition caller :: "uint32 \<Rightarrow> member_flag_t set \<Rightarrow> switch_channel option \<Rightarrow> conference_member" where
  "caller mid fl ch = \<lparr>m_id = mid, m_session = ch, m_conference = False, m_audio_buffer = plain_buffer,
     m_mux_buffer = plain_buffer, m_flags = fl, m_score = 0, m_score_iir = 0, m_rec_path = [],
     m_frame = [], m_read = 0, m_energy_level = 0, m_agc_volume_in_level = 0, m_volume_in_level = 0,
     m_volume_out_level = 0, m_join_time = 0, m_last_talking = 0, m_fnode = [], m_relationships = [],
     m_sh = False, m_verbose_events = False, m_dmachine = False, m_last_score = 0, m_vol_period = 0,
     m_agc_concur = 0, m_nt_tally = 0, m_avg_score = 0, m_avg_itt = 0, m_avg_tally = 0\<rparr>"

definition plain_conf :: conference_obj where
  "plain_conf = \<lparr>c_name = ''room'', c_profile_name = ''default'', c_uuid_str = ''u'', c_domain = ''d'',
     c_tts_engine = None, c_tts_voice = None, c_enter_sound = None, c_exit_sound = None,
     c_alone_sound = None, c_perpetual_sound = None, c_moh_sound = None, c_is_locked_sound = None,
     c_is_unlocked_sound = None, c_sound_prefix = None, c_announce_count = 0, c_pin = None,
     c_caller_controls = None, c_moderator_controls = None, c_flags = {}, c_members = [],
     c_floor_holder = None, c_fnode = [], c_async_fnode = None, c_count = 0, c_energy_level = 300,
     c_min = 0, c_sh = False, c_record_count = 0, c_comfort_noise_level = 0, c_ivr_timeouts = (0, 0),
     c_eflags = {}, c_verbose_events = False, c_end_count = 0, c_relationship_total = 0, c_score = 0,
     c_agc_level = 0, c_avg_score = 0, c_avg_itt = 0, c_avg_tally = 0, c_terminate_on_silence = 0, c_rate = 8000,
     c_auto_record = None, c_is_recording = False, c_video_running = 0, c_bridge_hangup_cause = 0,
     c_cancel_cause = 0, c_mux_loop_count = 0,
     c_member_loop_count = 0, c_muted_sound = None, c_mute_detect_sound = None, c_unmuted_sound = None,
     c_ack_sound = None, c_nack_sound = None, c_locked_sound = None, c_kicked_sound = None,
     c_maxmember_sound = None, c_pin_sound = None, c_bad_pin_sound = None, c_special_announce = None,
     c_mpin = None, c_timer_name = Some ''soft'', c_caller_id_name = None, c_caller_id_number = None,
     c_max_members = 0, c_mflags = {}, c_interval = 20, c_pin_retries = 0\<rparr>"

text \<open>Two callers, 1 and 2, and a recording, 3.\<close>

definition sample_world :: conf_world where
  "sample_world = \<lparr>conf = plain_conf,
     mem = (\<lambda>p. if p = 3 then caller 3 {MFLAG_CAN_HEAR, MFLAG_NOCHANNEL, MFLAG_RUNNING} None
                else caller (of_nat p) {MFLAG_CAN_HEAR, MFLAG_CAN_SPEAK, MFLAG_RUNNING} (Some blank_channel)),
     out = [], EC = 0, id_pool = 3\<rparr>"

lemma set_variable_none: "variables ch = None \<Longrightarrow> set_variable ch n v = Inr ch"
  by (simp add: set_variable_def switch_channel_set_variable_var_check_def switch_channel_add_variable_var_check_def
      split: option.splits list.splits)

text \<open>Without speech and sounds nothing can stop a caller from coming in.\<close>

lemma join_no_fault:
  assumes "has_channel w p" and "m_session (mem w p) = Some ch" and "variables ch = None"
    and "c_tts_engine (conf w) = None" and "c_enter_sound (conf w) = None" and "c_alone_sound (conf w) = None"
    and "c_moh_sound (conf w) = None"
  shows "\<exists>w'. conference_add_member env w p = Inr (SWITCH_STATUS_SUCCESS, w')"
proof -
  define w1 where "w1 = fire_presence ''presence-call-direction'' (count_member p (link_member env p w))"
  define w2 where "w2 = set_member_channel p ch w1"
  define w3 where "w3 = (if cflag w2 CFLAG_WAIT_MOD \<and> mflag w2 p MFLAG_MOD then clear_cflag CFLAG_WAIT_MOD w2 else w2)"
  have m1: "m_session (mem w1 p) = Some ch" "m_conference (mem w1 p)"
    using assms(2) by (simp_all add: w1_def fire_presence_def emit_def count_member_def upd_conf_def
        link_member_def upd_mem_def Let_def)
  have c1: "c_tts_engine (conf w1) = None" "c_enter_sound (conf w1) = None" "c_alone_sound (conf w1) = None"
    "c_moh_sound (conf w1) = None"
    using assms(4-7) by (simp_all add: w1_def fire_presence_def emit_def count_member_def upd_conf_def
        link_member_def upd_mem_def Let_def)
  have 2: "set_join_variables p w1 = Inr w2"
    by (simp add: set_join_variables_def member_channel_def m1 set_variable_none assms(3) w2_def)
  have m3: "m_conference (mem w3 p)" "member_channel w2 p = Inr ch"
    using m1 by (simp_all add: w3_def w2_def set_member_channel_def upd_mem_def clear_cflag_def upd_conf_def
        member_channel_def)
  have c3: "c_tts_engine (conf w3) = None" "c_enter_sound (conf w3) = None" "c_alone_sound (conf w3) = None"
    "c_moh_sound (conf w3) = None"
    using c1 by (simp_all add: w3_def w2_def set_member_channel_def upd_mem_def clear_cflag_def upd_conf_def)
  have 3: "join_sounds env ch w3 = Inr w3"
    using c3 by (simp add: join_sounds_def zstr_def)
  have say: "say_to env p t l w3 = Inr w3" for t l
    using c3 m3 by (auto simp: say_to_def conference_member_say_def split: list.splits)
  have 4: "join_announcement env p ch w3 = Inr w3"
    by (simp add: join_announcement_def say c3 Let_def split: option.splits)
  have "\<not> mflag (link_member env p w) p MFLAG_NOCHANNEL" using assms(1) by (simp add: link_member_same)
  with 2 m3 3 4 show ?thesis
    unfolding conference_add_member_def w1_def w3_def by (simp add: Let_def)
qed

lemma sample_join: "\<exists>w'. conf_fresh sample_world \<and> conf_step sample_world w' \<and> joined sample_world 1 w'"
proof -
  obtain w' where w': "conference_add_member plain_env sample_world 1 = Inr (SWITCH_STATUS_SUCCESS, w')"
    using join_no_fault [of sample_world 1 blank_channel plain_env]
    by (auto simp: sample_world_def plain_conf_def caller_def blank_channel_def)
  have new: "\<not> m_conference (mem sample_world 1)" by (simp add: sample_world_def caller_def)
  have "conf_fresh sample_world" by (simp add: conf_fresh_def sample_world_def plain_conf_def caller_def)
  with conf_step.join [OF new w'] add_member_joined [OF w'] show ?thesis by blast
qed

theorem membership_invariant_witness:
  "\<exists>w. conf_step\<^sup>*\<^sup>* sample_world w \<and> c_members (conf w) = [1] \<and> unat (c_count (conf w)) = 1"
proof -
  obtain w where f: "conf_fresh sample_world" and s: "conf_step sample_world w" and j: "joined sample_world 1 w"
    using sample_join by blast
  have m: "c_members (conf w) = [1]" using j by (simp add: joined_def sample_world_def plain_conf_def)
  have fl: "\<not> mflag w 1 MFLAG_NOCHANNEL" using j by (simp add: joined_def sample_world_def caller_def)
  have "unat (c_count (conf w)) = length (filter (\<lambda>p. \<not> mflag w p MFLAG_NOCHANNEL) (c_members (conf w)))"
    using membership_invariant [OF f r_into_rtranclp [of conf_step, OF s]] m by simp
  with m fl s show ?thesis by auto
qed

text \<open>
  C34. When the second but last caller leaves while a recording is at the head of the member
  list, the floor goes to the recording, which has no session, although a caller is still
  there; following the session of the floor holder, as the video thread does, is then a null
  pointer.
\<close>

theorem floor_to_recording:
  assumes "conf_inv w" and "conference_del_member env w p = Inr (st, w')"
    and "\<not> mflag w p MFLAG_NOCHANNEL" and "c_count (conf w) = 2"
    and "c_members (conf w) = r # ps" and "mflag w r MFLAG_NOCHANNEL" and "m_session (mem w r) = None"
  shows "c_floor_holder (conf w') = Some r \<and> member_channel w' r = Inl NullPointer \<and>
    (\<exists>q\<in>set (c_members (conf w')). \<not> mflag w' q MFLAG_NOCHANNEL \<and> q \<noteq> r)"
proof -
  have l: "left w p w'" using del_member_left [OF assms(2)] by blast
  have ne: "r \<noteq> p" using assms(3,6) by auto
  have c: "c_count (conf w') = 1" using l assms(3,4) by (simp add: left_def Let_def)
  have m: "c_members (conf w') = r # remove1 p ps" using l ne assms(5) by (simp add: left_def)
  have r: "m_session (mem w' r) = None" "mflag w' r MFLAG_NOCHANNEL"
    using l ne assms(6,7) by (simp_all add: left_def)
  have "c_floor_holder (conf w') = Some r" using l assms(3) c m by (simp add: left_def Let_def)
  moreover have "\<exists>q\<in>set (c_members (conf w')). has_channel w' q"
  proof (rule ccontr)
    assume "\<not> ?thesis"
    then have "c_count (conf w') = 0"
      using conf_invD(5) [OF left_inv [OF assms(1) l]] by (simp add: filter_False)
    with c show False by simp
  qed
  ultimately show ?thesis using r by (auto simp: member_channel_def)
qed

text \<open>The recording came in last; callers 1 and 2 are there.\<close>

definition full_room :: conf_world where
  "full_room = sample_world
     \<lparr>conf := plain_conf\<lparr>c_members := [3, 2, 1], c_count := 2, c_floor_holder := Some 1\<rparr>,
      mem := (\<lambda>p. if p \<in> {1, 2, 3}
                  then (mem sample_world p)\<lparr>m_conference := True,
                         m_flags := insert MFLAG_INTREE (m_flags (mem sample_world p))\<rparr>
                  else mem sample_world p)\<rparr>"

lemma full_room_facts:
  "conf_inv full_room"
  "\<exists>w'. conference_del_member plain_env full_room 2 = Inr (SWITCH_STATUS_SUCCESS, w')"
proof -
  show "conf_inv full_room"
    by (auto simp: conf_inv_def full_room_def sample_world_def plain_conf_def caller_def)
  show "\<exists>w'. conference_del_member plain_env full_room 2 = Inr (SWITCH_STATUS_SUCCESS, w')"
    by (simp add: conference_del_member_def leave_sound_def plain_env_def full_room_def sample_world_def
        plain_conf_def caller_def drop_floor_def unlink_member_def close_nodes_def uncount_member_def
        fire_presence_def emit_def leave_effects_def upd_mem_def upd_conf_def Let_def)
qed

theorem floor_to_recording_witness:
  "\<exists>w'. conference_del_member plain_env full_room 2 = Inr (SWITCH_STATUS_SUCCESS, w') \<and>
     c_floor_holder (conf w') = Some 3 \<and> member_channel w' 3 = Inl NullPointer"
proof -
  obtain w' where w': "conference_del_member plain_env full_room 2 = Inr (SWITCH_STATUS_SUCCESS, w')"
    using full_room_facts(2) by blast
  have "c_floor_holder (conf w') = Some 3 \<and> member_channel w' 3 = Inl NullPointer"
    using floor_to_recording [OF full_room_facts(1) w', of 3 "[2, 1]"]
    by (simp add: full_room_def sample_world_def plain_conf_def caller_def)
  with w' show ?thesis by blast
qed

text \<open>
  A text \<open>#voice#words\<close> to be said in a conference with speech writes behind the end of
  the voice buffer exactly when the voice has 128 characters or more; with fewer it queues one
  speech node behind the others, selects the voice and speaks the words.
\<close>

theorem say_voice_buffer:
  assumes "CHR ''#'' \<notin> set v" and "c_count (conf w) \<noteq> 0" and "pool_ok env" and "speech_opens env"
    and "c_tts_engine (conf w) = Some e" and "c_tts_voice (conf w) = Some dv"
  shows "conference_say env w (Some (''#'' @ v @ ''#'' @ t)) leadin =
    (if length v < 128
     then Inr (SWITCH_STATUS_SUCCESS,
            emit (Speak t) (emit (Voice v)
              (upd_conf (\<lambda>c. c\<lparr>c_sh := True, c_fnode := c_fnode c @ [speech_node leadin]\<rparr>) w)))
     else Inl OutOfBounds)"
proof -
  have "strchr (v @ ''#'' @ t) (CHR ''#'') = Some (length v)"
    using assms(1) by (induction v) auto
  then show ?thesis using assms by (simp add: conference_say_def feed_tts_def tts_parts_def)
qed

theorem say_voice_buffer_witness:
  "conference_say plain_env (upd_conf (\<lambda>c. c\<lparr>c_count := 1, c_tts_engine := Some ''e'', c_tts_voice := Some ''v''\<rparr>) sample_world)
     (Some (''#'' @ replicate 128 (CHR ''a'') @ ''#'' @ ''hi'')) 0 = Inl OutOfBounds"
  by (subst say_voice_buffer) (simp_all add: upd_conf_def plain_env_def)

end
