(* ===== verification/Dmachine.thy ===== *)
theory Dmachine
  imports Prelude
begin

text \<open>
  The digit machine of \<^verbatim>\<open>switch_ivr_async.c\<close>: digits are collected until they are those of a
  binding, a timeout or a wrong digit ends the input, and callbacks are told.  Conferences bind
  the keys of their callers with it.

  Callbacks are numbers; what one does is a parameter that is given the machine (with the match
  in it) and a state of the application, and returns its status with both.  Regular expressions
  are matched by a library and are a parameter too.  The clock counts microseconds.
\<close>

section \<open>State\<close>

definition DMACHINE_MAX_DIGIT_LEN :: nat where
  "DMACHINE_MAX_DIGIT_LEN = 512"

record 'u switch_ivr_dmachine_binding =
  bd_digits :: string
  bd_key :: int
  bd_callback :: "nat option"
  bd_is_regex :: bool
  bd_user_data :: "'u option"

datatype dm_match_type_t = DM_MATCH_POSITIVE | DM_MATCH_NEGATIVE

text \<open>\<open>match_digits\<close> points to one of two arrays of the machine.\<close>

datatype dm_digits = Last_matching_digits | Last_failed_digits

record 'u switch_ivr_dmachine_match =
  match_digits :: "dm_digits option"
  match_key :: int
  match_type :: dm_match_type_t
  match_user_data :: "'u option"

text \<open>
  The list heads of the realms are never freed before the machine is; \<open>dm_heads\<close> holds them
  all, the hash and the pointer \<open>dm_realm\<close> refer to them by position.
\<close>

record 'u switch_ivr_dmachine =
  dm_digit_timeout_ms :: uint32
  dm_input_timeout_ms :: uint32
  dm_heads :: "'u switch_ivr_dmachine_binding list list"
  dm_binding_hash :: "string \<Rightarrow> nat option"
  dm_match :: "'u switch_ivr_dmachine_match"
  dm_target :: nat
  dm_digits :: string
  dm_last_matching_digits :: string
  dm_last_failed_digits :: string
  dm_cur_digit_len :: uint32
  dm_max_digit_len :: uint32
  dm_last_digit_time :: int
  dm_is_match :: bool
  dm_match_callback :: "nat option"
  dm_nonmatch_callback :: "nat option"
  dm_realm :: "nat option"
  dm_last_matching_binding :: "'u switch_ivr_dmachine_binding option"
  dm_user_data :: "'u option"

text \<open>\<open>dm_call\<close> runs a callback, \<open>dm_regex digits pattern\<close> matches.\<close>

record ('u, 'w) dm_env =
  dm_call :: "nat \<Rightarrow> 'u switch_ivr_dmachine \<Rightarrow> 'w \<Rightarrow> (switch_status_t \<times> 'u switch_ivr_dmachine \<times> 'w) outcome"
  dm_regex :: "string \<Rightarrow> string \<Rightarrow> bool"

section \<open>Creation and settings\<close>

definition switch_ivr_dmachine_create ::
    "uint32 \<Rightarrow> uint32 \<Rightarrow> nat option \<Rightarrow> nat option \<Rightarrow> 'u option \<Rightarrow> 'u switch_ivr_dmachine" where
  "switch_ivr_dmachine_create digit_timeout_ms input_timeout_ms match_callback nonmatch_callback user_data =
     \<lparr>dm_digit_timeout_ms = digit_timeout_ms, dm_input_timeout_ms = input_timeout_ms, dm_heads = [],
      dm_binding_hash = Map.empty,
      dm_match = \<lparr>match_digits = None, match_key = 0, match_type = DM_MATCH_POSITIVE, match_user_data = None\<rparr>,
      dm_target = 0, dm_digits = [], dm_last_matching_digits = [], dm_last_failed_digits = [],
      dm_cur_digit_len = 0, dm_max_digit_len = 0, dm_last_digit_time = 0, dm_is_match = False,
      dm_match_callback = match_callback, dm_nonmatch_callback = nonmatch_callback, dm_realm = None,
      dm_last_matching_binding = None, dm_user_data = user_data\<rparr>"

definition switch_ivr_dmachine_get_target :: "'u switch_ivr_dmachine \<Rightarrow> nat" where
  "switch_ivr_dmachine_get_target dm = dm_target dm"

definition switch_ivr_dmachine_set_target :: "'u switch_ivr_dmachine \<Rightarrow> nat \<Rightarrow> 'u switch_ivr_dmachine" where
  "switch_ivr_dmachine_set_target dm target = dm\<lparr>dm_target := target\<rparr>"

definition switch_ivr_dmachine_set_match_callback ::
    "'u switch_ivr_dmachine \<Rightarrow> nat option \<Rightarrow> 'u switch_ivr_dmachine" where
  "switch_ivr_dmachine_set_match_callback dm cb = dm\<lparr>dm_match_callback := cb\<rparr>"

definition switch_ivr_dmachine_set_nonmatch_callback ::
    "'u switch_ivr_dmachine \<Rightarrow> nat option \<Rightarrow> 'u switch_ivr_dmachine" where
  "switch_ivr_dmachine_set_nonmatch_callback dm cb = dm\<lparr>dm_nonmatch_callback := cb\<rparr>"

definition switch_ivr_dmachine_set_digit_timeout_ms ::
    "'u switch_ivr_dmachine \<Rightarrow> uint32 \<Rightarrow> 'u switch_ivr_dmachine" where
  "switch_ivr_dmachine_set_digit_timeout_ms dm ms = dm\<lparr>dm_digit_timeout_ms := ms\<rparr>"

definition switch_ivr_dmachine_set_input_timeout_ms ::
    "'u switch_ivr_dmachine \<Rightarrow> uint32 \<Rightarrow> 'u switch_ivr_dmachine" where
  "switch_ivr_dmachine_set_input_timeout_ms dm ms = dm\<lparr>dm_input_timeout_ms := ms\<rparr>"

section \<open>Realms and bindings\<close>

definition switch_ivr_dmachine_set_realm ::
    "'u switch_ivr_dmachine \<Rightarrow> string \<Rightarrow> switch_status_t \<times> 'u switch_ivr_dmachine" where
  "switch_ivr_dmachine_set_realm dm realm =
     (case dm_binding_hash dm realm of
        Some headp \<Rightarrow> (SWITCH_STATUS_SUCCESS, dm\<lparr>dm_realm := Some headp\<rparr>)
      | None \<Rightarrow> (SWITCH_STATUS_FALSE, dm))"

text \<open>The realm is forgotten by name; a machine that is in it stays in it.\<close>

definition switch_ivr_dmachine_clear_realm ::
    "'u switch_ivr_dmachine \<Rightarrow> string \<Rightarrow> switch_status_t \<times> 'u switch_ivr_dmachine" where
  "switch_ivr_dmachine_clear_realm dm realm =
     (if realm = [] then (SWITCH_STATUS_FALSE, dm)
      else (SWITCH_STATUS_SUCCESS, dm\<lparr>dm_binding_hash := (dm_binding_hash dm)(realm := None)\<rparr>))"

definition realm_head :: "'u switch_ivr_dmachine \<Rightarrow> string \<Rightarrow> nat \<times> 'u switch_ivr_dmachine" where
  "realm_head dm realm =
     (case dm_binding_hash dm realm of
        Some h \<Rightarrow> (h, dm)
      | None \<Rightarrow> let h = length (dm_heads dm)
                in (h, dm\<lparr>dm_heads := dm_heads dm @ [[]], dm_binding_hash := (dm_binding_hash dm)(realm \<mapsto> h)\<rparr>))"

definition longer_digits :: "bool \<Rightarrow> nat \<Rightarrow> uint32 \<Rightarrow> uint32" where
  "longer_digits is_regex len max_len =
     (if is_regex \<and> max_len \<noteq> of_nat (DMACHINE_MAX_DIGIT_LEN - 1) then of_nat (DMACHINE_MAX_DIGIT_LEN - 1)
      else if len > unat max_len then of_nat len else max_len)"

definition switch_ivr_dmachine_bind ::
    "'u switch_ivr_dmachine \<Rightarrow> string \<Rightarrow> string \<Rightarrow> int \<Rightarrow> nat option \<Rightarrow> 'u option \<Rightarrow>
     switch_status_t \<times> 'u switch_ivr_dmachine" where
  "switch_ivr_dmachine_bind dm realm digits key callback user_data =
     (if length digits > DMACHINE_MAX_DIGIT_LEN - 1 then (SWITCH_STATUS_FALSE, dm)
      else
        let realm = (if realm = [] then ''default'' else realm);
            (h, dm) = realm_head dm realm;
            is_regex = (digits \<noteq> [] \<and> hd digits = CHR ''~'');
            digits = (if is_regex then tl digits else digits);
            binding = \<lparr>bd_digits = digits, bd_key = key, bd_callback = callback, bd_is_regex = is_regex,
                       bd_user_data = user_data\<rparr>;
            dm = dm\<lparr>dm_heads := (dm_heads dm)[h := dm_heads dm ! h @ [binding]]\<rparr>;
            dm = (if dm_realm dm \<noteq> Some h then snd (switch_ivr_dmachine_set_realm dm realm) else dm)
        in (SWITCH_STATUS_SUCCESS,
            dm\<lparr>dm_max_digit_len := longer_digits is_regex (length digits) (dm_max_digit_len dm)\<rparr>))"

section \<open>Matching\<close>

datatype dm_match_t = DM_MATCH_NONE | DM_MATCH_EXACT | DM_MATCH_PARTIAL | DM_MATCH_BOTH

text \<open>
  The loop over the bindings, with the local variables of the code; of \<open>both_bp\<close> and
  \<open>partial_bp\<close> only matters whether they are set.
\<close>

record 'u match_vars =
  mv_best :: dm_match_t
  mv_exact :: "'u switch_ivr_dmachine_binding option"
  mv_partial :: "'u switch_ivr_dmachine_binding option"
  mv_both :: "'u switch_ivr_dmachine_binding option"

definition match_none :: "'u match_vars" where
  "match_none = \<lparr>mv_best = DM_MATCH_NONE, mv_exact = None, mv_partial = None, mv_both = None\<rparr>"

text \<open>One binding; the Boolean says whether the loop is left.\<close>

definition match_regex :: "bool \<Rightarrow> 'u switch_ivr_dmachine_binding \<Rightarrow> 'u match_vars \<Rightarrow> 'u match_vars \<times> bool" where
  "match_regex is_timeout bp v =
     (if is_timeout then (v\<lparr>mv_best := DM_MATCH_EXACT, mv_exact := Some bp\<rparr>, True)
      else (v\<lparr>mv_best := DM_MATCH_PARTIAL\<rparr>, False))"

definition match_exact ::
    "string \<Rightarrow> bool \<Rightarrow> 'u switch_ivr_dmachine_binding \<Rightarrow> 'u match_vars \<Rightarrow> 'u match_vars \<times> bool" where
  "match_exact digits full bp v =
     (if mv_exact v = None \<and> bd_digits bp = digits
      then (v\<lparr>mv_best := DM_MATCH_EXACT, mv_exact := Some bp\<rparr>, full) else (v, False))"

definition match_longer :: "string \<Rightarrow> 'u switch_ivr_dmachine_binding \<Rightarrow> 'u match_vars \<Rightarrow> 'u match_vars" where
  "match_longer digits bp v =
     (if \<not> (mv_both v \<noteq> None \<and> mv_partial v \<noteq> None) \<and> length (bd_digits bp) \<noteq> length digits \<and>
         take (length digits) (bd_digits bp) = digits
      then if mv_exact v \<noteq> None then v\<lparr>mv_best := DM_MATCH_BOTH, mv_both := Some bp\<rparr>
           else v\<lparr>mv_best := DM_MATCH_PARTIAL, mv_partial := Some bp\<rparr>
      else v)"

fun match_loop ::
    "(string \<Rightarrow> string \<Rightarrow> bool) \<Rightarrow> string \<Rightarrow> bool \<Rightarrow> bool \<Rightarrow> 'u switch_ivr_dmachine_binding list \<Rightarrow> 'u match_vars \<Rightarrow> 'u match_vars" where
  "match_loop regex digits full is_timeout [] v = v"
| "match_loop regex digits full is_timeout (bp # bps) v =
     (if bd_is_regex bp then
        if regex digits (bd_digits bp) then
          let (v, brk) = match_regex is_timeout bp v
          in if brk then v else match_loop regex digits full is_timeout bps v
        else match_loop regex digits full is_timeout bps v
      else
        let (v, brk) = match_exact digits full bp v
        in if brk then v
           else let v = match_longer digits bp v
                in if mv_both v \<noteq> None \<and> mv_exact v \<noteq> None \<and> mv_partial v \<noteq> None then v
                   else match_loop regex digits full is_timeout bps v)"

definition match_result :: "bool \<Rightarrow> 'u match_vars \<Rightarrow> 'u switch_ivr_dmachine_binding option" where
  "match_result is_timeout v =
     (let r = (if is_timeout \<and> mv_both v \<noteq> None
               then (if mv_exact v \<noteq> None then mv_exact v else mv_both v) else None)
      in if mv_best v = DM_MATCH_EXACT \<and> mv_exact v \<noteq> None then mv_exact v else r)"

definition match_bindings :: "('u, 'w) dm_env \<Rightarrow> 'u switch_ivr_dmachine \<Rightarrow> bool \<Rightarrow> 'u match_vars" where
  "match_bindings env dm is_timeout =
     (case dm_realm dm of
        Some h \<Rightarrow>
          if dm_cur_digit_len dm = 0 then match_none
          else match_loop (dm_regex env) (dm_digits dm) (dm_cur_digit_len dm = dm_max_digit_len dm)
                 is_timeout (dm_heads dm ! h) match_none
      | None \<Rightarrow> match_none)"

definition switch_ivr_dmachine_check_match ::
    "('u, 'w) dm_env \<Rightarrow> 'u switch_ivr_dmachine \<Rightarrow> bool \<Rightarrow> dm_match_t \<times> 'u switch_ivr_dmachine" where
  "switch_ivr_dmachine_check_match env dm is_timeout =
     (let v = match_bindings env dm is_timeout
      in case match_result is_timeout v of
           Some bp \<Rightarrow> (DM_MATCH_EXACT, dm\<lparr>dm_last_matching_binding := Some bp, dm_last_matching_digits := dm_digits dm\<rparr>)
         | None \<Rightarrow> (mv_best v, dm))"

text \<open>
  The time since the last digit is counted in milliseconds and cut to 32 bits.  The first look
  after the machine was cleared starts the clock.
\<close>

definition elapsed_ms :: "int \<Rightarrow> int \<Rightarrow> uint32" where
  "elapsed_ms now prev = word_of_int (sgn (now - prev) * (\<bar>now - prev\<bar> div 1000))"

definition switch_ivr_dmachine_check_timeout ::
    "int \<Rightarrow> 'u switch_ivr_dmachine \<Rightarrow> bool \<times> 'u switch_ivr_dmachine" where
  "switch_ivr_dmachine_check_timeout now dm =
     (let timeout = (if dm_cur_digit_len dm \<noteq> 0 then dm_digit_timeout_ms dm else dm_input_timeout_ms dm);
          dm = (if dm_last_digit_time dm = 0 then dm\<lparr>dm_last_digit_time := now\<rparr> else dm)
      in (timeout \<noteq> 0 \<and> elapsed_ms now (dm_last_digit_time dm) > timeout, dm))"

definition switch_ivr_dmachine_get_match ::
    "'u switch_ivr_dmachine \<Rightarrow> 'u switch_ivr_dmachine_match option \<times> 'u switch_ivr_dmachine" where
  "switch_ivr_dmachine_get_match dm =
     (if dm_is_match dm then (Some (dm_match dm), dm\<lparr>dm_is_match := False\<rparr>) else (None, dm))"

definition switch_ivr_dmachine_get_failed_digits :: "'u switch_ivr_dmachine \<Rightarrow> string" where
  "switch_ivr_dmachine_get_failed_digits dm = dm_last_failed_digits dm"

definition switch_ivr_dmachine_clear :: "'u switch_ivr_dmachine \<Rightarrow> switch_status_t \<times> 'u switch_ivr_dmachine" where
  "switch_ivr_dmachine_clear dm =
     (SWITCH_STATUS_SUCCESS, dm\<lparr>dm_digits := [], dm_cur_digit_len := 0, dm_last_digit_time := 0\<rparr>)"

section \<open>Ping and feed\<close>

definition callback_status :: "switch_status_t \<Rightarrow> switch_status_t \<Rightarrow> switch_status_t" where
  "callback_status s r =
     (case s of SWITCH_STATUS_CONTINUE \<Rightarrow> SWITCH_STATUS_SUCCESS
              | SWITCH_STATUS_SUCCESS \<Rightarrow> r
              | _ \<Rightarrow> SWITCH_STATUS_BREAK)"

definition run_callback ::
    "('u, 'w) dm_env \<Rightarrow> nat option \<Rightarrow> switch_status_t \<Rightarrow> 'u switch_ivr_dmachine \<Rightarrow> 'w \<Rightarrow>
     (switch_status_t \<times> 'u switch_ivr_dmachine \<times> 'w) outcome" where
  "run_callback env cb r dm w =
     (case cb of
        None \<Rightarrow> Inr (r, dm, w)
      | Some f \<Rightarrow> bindE (dm_call env f dm w) (\<lambda>(s, dm, w). Inr (callback_status s r, dm, w)))"

definition with_user_data :: "nat option \<Rightarrow> 'u switch_ivr_dmachine \<Rightarrow> 'u switch_ivr_dmachine" where
  "with_user_data cb dm =
     (if cb = None then dm else dm\<lparr>dm_match := (dm_match dm)\<lparr>match_user_data := dm_user_data dm\<rparr>\<rparr>)"

definition ping_found ::
    "('u, 'w) dm_env \<Rightarrow> 'u switch_ivr_dmachine \<Rightarrow> 'w \<Rightarrow> (switch_status_t \<times> 'u switch_ivr_dmachine \<times> 'w) outcome" where
  "ping_found env dm w =
     (case dm_last_matching_binding dm of
        None \<Rightarrow> Inl NullPointer
      | Some bp \<Rightarrow>
          let dm = dm\<lparr>dm_match := \<lparr>match_digits = Some Last_matching_digits, match_key = bd_key bp,
                                  match_type = DM_MATCH_POSITIVE, match_user_data = bd_user_data bp\<rparr>,
                      dm_is_match := True\<rparr>
          in bindE (run_callback env (bd_callback bp) SWITCH_STATUS_FOUND dm w) (\<lambda>(r, dm, w).
               run_callback env (dm_match_callback dm) r (with_user_data (dm_match_callback dm) dm) w))"

definition ping_failed ::
    "('u, 'w) dm_env \<Rightarrow> switch_status_t \<Rightarrow> 'u switch_ivr_dmachine \<Rightarrow> 'w \<Rightarrow>
     (switch_status_t \<times> 'u switch_ivr_dmachine \<times> 'w) outcome" where
  "ping_failed env r dm w =
     (let dm = dm\<lparr>dm_last_failed_digits := dm_digits dm,
                  dm_match := (dm_match dm)\<lparr>match_digits := Some Last_failed_digits, match_type := DM_MATCH_NEGATIVE\<rparr>\<rparr>
      in run_callback env (dm_nonmatch_callback dm) r (with_user_data (dm_nonmatch_callback dm) dm) w)"

definition ping_status :: "dm_match_t \<Rightarrow> bool \<Rightarrow> 'u switch_ivr_dmachine \<Rightarrow> switch_status_t" where
  "ping_status is_match is_timeout dm =
     (if dm_digits dm = [] \<and> \<not> is_timeout then SWITCH_STATUS_SUCCESS
      else if dm_cur_digit_len dm > dm_max_digit_len dm then SWITCH_STATUS_FALSE
      else if is_match = DM_MATCH_EXACT \<or> (is_match = DM_MATCH_BOTH \<and> is_timeout) then SWITCH_STATUS_FOUND
      else if is_timeout then SWITCH_STATUS_TIMEOUT
      else if is_match = DM_MATCH_NONE \<and> dm_cur_digit_len dm = dm_max_digit_len dm then SWITCH_STATUS_NOTFOUND
      else SWITCH_STATUS_SUCCESS)"

definition switch_ivr_dmachine_ping ::
    "('u, 'w) dm_env \<Rightarrow> int \<Rightarrow> 'u switch_ivr_dmachine \<Rightarrow> 'w \<Rightarrow>
     (switch_status_t \<times> 'u switch_ivr_dmachine \<times> 'w) outcome" where
  "switch_ivr_dmachine_ping env now dm w =
     (let (is_timeout, dm) = switch_ivr_dmachine_check_timeout now dm;
          (is_match, dm) = switch_ivr_dmachine_check_match env dm is_timeout;
          r = ping_status is_match is_timeout dm;
          found = (r = SWITCH_STATUS_FOUND)
      in bindE (if found then ping_found env dm w else Inr (r, dm, w)) (\<lambda>(r, dm, w).
           if r \<noteq> SWITCH_STATUS_FOUND \<and> r \<noteq> SWITCH_STATUS_SUCCESS \<and> r \<noteq> SWITCH_STATUS_BREAK
           then bindE (ping_failed env r dm w) (\<lambda>(r, dm, w). Inr (r, snd (switch_ivr_dmachine_clear dm), w))
           else Inr (r, if found then snd (switch_ivr_dmachine_clear dm) else dm, w)))"

text \<open>
  Appending writes at most \<open>max_digit_len\<close> characters and a NUL into the array.  The
  clock is read once for the digit and once more by the ping that follows.
\<close>

definition append_digits :: "'u switch_ivr_dmachine \<Rightarrow> string \<Rightarrow> string outcome" where
  "append_digits dm digits =
     (let new = dm_digits dm @ take (unat (dm_max_digit_len dm)) digits
      in if length new < DMACHINE_MAX_DIGIT_LEN then Inr new else Inl OutOfBounds)"

definition switch_ivr_dmachine_feed ::
    "('u, 'w) dm_env \<Rightarrow> int \<Rightarrow> int \<Rightarrow> 'u switch_ivr_dmachine \<Rightarrow> string \<Rightarrow> 'w \<Rightarrow>
     (switch_status_t \<times> 'u switch_ivr_dmachine \<times> 'w) outcome" where
  "switch_ivr_dmachine_feed env now later dm digits w =
     (if length digits + length (dm_digits dm) > unat (dm_max_digit_len dm) then Inr (SWITCH_STATUS_FALSE, dm, w)
      else bindE (append_digits dm digits) (\<lambda>new.
        switch_ivr_dmachine_ping env later
          (dm\<lparr>dm_digits := new, dm_cur_digit_len := of_nat (length new), dm_last_digit_time := now\<rparr>) w))"

section \<open>What a match is\<close>

lemma match_none_simps [simp]:
  "mv_best match_none = DM_MATCH_NONE" "mv_exact match_none = None" "mv_partial match_none = None" "mv_both match_none = None"
  by (simp_all add: match_none_def)

text \<open>
  On bindings without regular expressions the loop computes this: the first binding with exactly
  the digits, and whether a longer one with these first digits follows it or, when there is none,
  is anywhere.
\<close>

abbreviation exact_in :: "string \<Rightarrow> 'u switch_ivr_dmachine_binding \<Rightarrow> bool" where
  "exact_in ds b \<equiv> bd_digits b = ds"

abbreviation longer_in :: "string \<Rightarrow> 'u switch_ivr_dmachine_binding \<Rightarrow> bool" where
  "longer_in ds b \<equiv> strict_prefix ds (bd_digits b)"

lemma longer_cond: "length (bd_digits b) \<noteq> length ds \<and> take (length ds) (bd_digits b) = ds \<longleftrightarrow> longer_in ds b"
  by (auto simp: strict_prefix_def prefix_def take_all_iff) (metis append_take_drop_id)

definition plain :: "'u switch_ivr_dmachine_binding list \<Rightarrow> bool" where
  "plain bs \<longleftrightarrow> (\<forall>b\<in>set bs. \<not> bd_is_regex b)"

lemma plain_simps [simp]: "plain []" "plain (b # bs) \<longleftrightarrow> \<not> bd_is_regex b \<and> plain bs"
  by (auto simp: plain_def)

lemma loop_after_exact:
  assumes "plain bs" and "mv_exact v = Some e" and "mv_best v \<in> {DM_MATCH_EXACT, DM_MATCH_BOTH}"
    and "mv_best v = DM_MATCH_BOTH \<longleftrightarrow> mv_both v \<noteq> None"
  shows "mv_exact (match_loop rx ds full t bs v) = Some e \<and>
    mv_best (match_loop rx ds full t bs v) =
      (if mv_best v = DM_MATCH_BOTH \<or> (\<exists>b\<in>set bs. longer_in ds b) then DM_MATCH_BOTH else DM_MATCH_EXACT) \<and>
    (mv_both (match_loop rx ds full t bs v) \<noteq> None \<longleftrightarrow> mv_best (match_loop rx ds full t bs v) = DM_MATCH_BOTH)"
  using assms
proof (induction bs arbitrary: v)
  case (Cons b bs)
  then show ?case
    by (auto simp: match_exact_def match_longer_def longer_cond Let_def)
qed auto

lemma loop_before_exact:
  assumes "plain bs" and "mv_exact v = None" and "mv_both v = None"
    and "mv_best v = (if mv_partial v \<noteq> None then DM_MATCH_PARTIAL else DM_MATCH_NONE)"
    and "full \<Longrightarrow> \<forall>b\<in>set bs. \<not> longer_in ds b"
  shows "mv_exact (match_loop rx ds full t bs v) = find (exact_in ds) bs \<and>
    mv_best (match_loop rx ds full t bs v) =
      (if find (exact_in ds) bs = None
       then (if mv_best v = DM_MATCH_PARTIAL \<or> (\<exists>b\<in>set bs. longer_in ds b) then DM_MATCH_PARTIAL else DM_MATCH_NONE)
       else (if \<exists>b\<in>set (tl (dropWhile (\<lambda>b. \<not> exact_in ds b) bs)). longer_in ds b then DM_MATCH_BOTH else DM_MATCH_EXACT)) \<and>
    (mv_both (match_loop rx ds full t bs v) \<noteq> None \<longleftrightarrow> mv_best (match_loop rx ds full t bs v) = DM_MATCH_BOTH)"
  using assms
proof (induction bs arbitrary: v)
  case (Cons b bs)
  show ?case
  proof (cases "exact_in ds b")
    case True
    let ?v = "v\<lparr>mv_best := DM_MATCH_EXACT, mv_exact := Some b\<rparr>"
    have l: "match_longer ds b ?v = ?v" using True by (simp add: match_longer_def)
    show ?thesis
    proof (cases full)
      case True
      with Cons.prems \<open>exact_in ds b\<close> show ?thesis
        by (auto simp: match_exact_def Let_def)
    next
      case False
      then have "match_loop rx ds full t (b # bs) v = match_loop rx ds full t bs ?v"
        using Cons.prems True l by (simp add: match_exact_def Let_def)
      with loop_after_exact [of bs ?v b] Cons.prems True show ?thesis by auto
    qed
  next
    case False
    have "match_loop rx ds full t (b # bs) v = match_loop rx ds full t bs (match_longer ds b v)"
      using Cons.prems False by (auto simp: match_exact_def match_longer_def Let_def)
    moreover have "mv_exact (match_longer ds b v) = None" "mv_both (match_longer ds b v) = None"
      "mv_best (match_longer ds b v) = (if mv_partial (match_longer ds b v) \<noteq> None then DM_MATCH_PARTIAL else DM_MATCH_NONE)"
      "mv_best (match_longer ds b v) = DM_MATCH_PARTIAL \<longleftrightarrow> mv_best v = DM_MATCH_PARTIAL \<or> longer_in ds b"
      using Cons.prems by (auto simp: match_longer_def longer_cond)
    ultimately show ?thesis
      using Cons.IH [of "match_longer ds b v"] Cons.prems False by auto
  qed
qed auto

section \<open>The invariant\<close>

definition dm_inv :: "'u switch_ivr_dmachine \<Rightarrow> bool" where
  "dm_inv dm \<longleftrightarrow>
     length (dm_digits dm) = unat (dm_cur_digit_len dm) \<and>
     dm_cur_digit_len dm \<le> dm_max_digit_len dm \<and> unat (dm_max_digit_len dm) < DMACHINE_MAX_DIGIT_LEN \<and>
     length (dm_last_matching_digits dm) < DMACHINE_MAX_DIGIT_LEN \<and>
     length (dm_last_failed_digits dm) < DMACHINE_MAX_DIGIT_LEN \<and>
     (\<forall>h. dm_realm dm = Some h \<longrightarrow> h < length (dm_heads dm)) \<and>
     (\<forall>r h. dm_binding_hash dm r = Some h \<longrightarrow> h < length (dm_heads dm)) \<and>
     (\<forall>bs\<in>set (dm_heads dm). \<forall>b\<in>set bs. length (bd_digits b) \<le> unat (dm_max_digit_len dm))"

lemma inv_create: "dm_inv (switch_ivr_dmachine_create a b c d e)"
  by (simp add: dm_inv_def switch_ivr_dmachine_create_def DMACHINE_MAX_DIGIT_LEN_def)

lemma longer_digits_bounds:
  assumes "unat m < DMACHINE_MAX_DIGIT_LEN" and "n < DMACHINE_MAX_DIGIT_LEN"
  shows "unat (longer_digits rx n m) < DMACHINE_MAX_DIGIT_LEN" "unat m \<le> unat (longer_digits rx n m)"
    "n \<le> unat (longer_digits rx n m)"
proof -
  have "unat m = 511 \<Longrightarrow> m = 511" by unat_arith
  moreover have "unat (of_nat n :: uint32) = n" using assms(2) by (simp add: DMACHINE_MAX_DIGIT_LEN_def unat_of_nat)
  moreover have "unat (511 :: uint32) = 511" by simp
  ultimately show "unat (longer_digits rx n m) < DMACHINE_MAX_DIGIT_LEN" "unat m \<le> unat (longer_digits rx n m)"
    "n \<le> unat (longer_digits rx n m)"
    using assms by (auto simp: longer_digits_def DMACHINE_MAX_DIGIT_LEN_def)
qed

lemma inv_realm_head:
  assumes "dm_inv dm" and "realm_head dm r = (h, dm')"
  shows "dm_inv dm'" "h < length (dm_heads dm')" "dm_max_digit_len dm' = dm_max_digit_len dm"
    "dm_binding_hash dm' r = Some h"
  using assms by (auto simp: realm_head_def dm_inv_def Let_def less_Suc_eq split: option.splits if_splits)

lemma inv_set_realm: "dm_inv dm \<Longrightarrow> dm_inv (snd (switch_ivr_dmachine_set_realm dm r))"
  by (auto simp: switch_ivr_dmachine_set_realm_def dm_inv_def split: option.splits)

lemma inv_clear_realm: "dm_inv dm \<Longrightarrow> dm_inv (snd (switch_ivr_dmachine_clear_realm dm r))"
  by (auto simp: switch_ivr_dmachine_clear_realm_def dm_inv_def)

lemma inv_clear: "dm_inv dm \<Longrightarrow> dm_inv (snd (switch_ivr_dmachine_clear dm))"
  by (auto simp: switch_ivr_dmachine_clear_def dm_inv_def)

lemma inv_bind: 
  assumes "dm_inv dm"
  shows "dm_inv (snd (switch_ivr_dmachine_bind dm realm digits key cb ud))"
proof (cases "length digits > DMACHINE_MAX_DIGIT_LEN - 1")
  case False
  define rm where "rm = (if realm = [] then ''default'' else realm)"
  obtain h d1 where d1: "realm_head dm rm = (h, d1)" by fastforce
  note i1 = inv_realm_head [OF assms d1]
  define rx where "rx = (digits \<noteq> [] \<and> hd digits = CHR ''~'')"
  define ds where "ds = (if rx then tl digits else digits)"
  define b where "b = \<lparr>bd_digits = ds, bd_key = key, bd_callback = cb, bd_is_regex = rx, bd_user_data = ud\<rparr>"
  define d2 where "d2 = d1\<lparr>dm_heads := (dm_heads d1)[h := dm_heads d1 ! h @ [b]]\<rparr>"
  define d3 where "d3 = (if dm_realm d2 \<noteq> Some h then snd (switch_ivr_dmachine_set_realm d2 rm) else d2)"
  define m where "m = longer_digits rx (length ds) (dm_max_digit_len d1)"
  have len: "length ds < DMACHINE_MAX_DIGIT_LEN" using False by (auto simp: ds_def DMACHINE_MAX_DIGIT_LEN_def)
  note m = longer_digits_bounds [of "dm_max_digit_len d1" "length ds" rx, folded m_def]
  have "dm_max_digit_len d3 = dm_max_digit_len d1" "dm_heads d3 = dm_heads d2"
      "dm_binding_hash d3 = dm_binding_hash d1" "dm_realm d3 = Some h"
      "dm_digits d3 = dm_digits d1" "dm_cur_digit_len d3 = dm_cur_digit_len d1"
      "dm_last_matching_digits d3 = dm_last_matching_digits d1" "dm_last_failed_digits d3 = dm_last_failed_digits d1"
    using i1(4) by (auto simp: d3_def d2_def switch_ivr_dmachine_set_realm_def)
  moreover have "\<forall>bs\<in>set (dm_heads d2). \<forall>b\<in>set bs. length (bd_digits b) \<le> unat m"
  proof -
    have "length (bd_digits x) \<le> unat m" if "x \<in> set bs" "bs \<in> set (dm_heads d1)" for x bs
      using i1(1) that m(2) len by (fastforce simp: dm_inv_def)
    then show ?thesis
      using m(3) len i1(1,2) by (auto simp: d2_def dm_inv_def b_def dest!: set_update_subset_insert [THEN subsetD])
  qed
  ultimately have "dm_inv (d3\<lparr>dm_max_digit_len := m\<rparr>)"
    using i1(1,2) m len by (auto simp: dm_inv_def d2_def word_le_nat_alt)
  moreover have "snd (switch_ivr_dmachine_bind dm realm digits key cb ud) =
      d3\<lparr>dm_max_digit_len := longer_digits rx (length ds) (dm_max_digit_len d3)\<rparr>"
    using False d1 by (simp add: switch_ivr_dmachine_bind_def rm_def rx_def ds_def b_def d2_def d3_def Let_def)
  ultimately show ?thesis by (simp add: m_def \<open>dm_max_digit_len d3 = dm_max_digit_len d1\<close>)
qed (simp add: switch_ivr_dmachine_bind_def assms)

text \<open>
  \<open>max_digit_len\<close> is exactly what the bindings of all realms need: the length of the longest one,
  and all the array holds once a regular expression is among them.
\<close>

definition code_len :: "'u switch_ivr_dmachine_binding \<Rightarrow> nat" where
  "code_len b = (if bd_is_regex b then DMACHINE_MAX_DIGIT_LEN - 1 else length (bd_digits b))"

definition longest_code :: "'u switch_ivr_dmachine_binding list list \<Rightarrow> nat" where
  "longest_code heads = Max (insert 0 (code_len ` set (concat heads)))"

definition dm_good :: "'u switch_ivr_dmachine \<Rightarrow> bool" where
  "dm_good dm \<longleftrightarrow> dm_inv dm \<and> unat (dm_max_digit_len dm) = longest_code (dm_heads dm)"

lemma dm_goodD [dest]: "dm_good dm \<Longrightarrow> dm_inv dm"
  by (simp add: dm_good_def)

lemma longest_code_new: "longest_code (heads @ [[]]) = longest_code heads"
  by (simp add: longest_code_def)

lemma longest_code_bind:
  assumes "h < length heads"
  shows "longest_code (heads[h := heads ! h @ [b]]) = max (longest_code heads) (code_len b)"
proof -
  have "concat heads = concat (take h heads) @ heads ! h @ concat (drop (Suc h) heads)"
    using arg_cong [OF id_take_nth_drop [OF assms], of concat] by simp
  then have "set (concat (heads[h := heads ! h @ [b]])) = insert b (set (concat heads))"
    using assms by (simp add: upd_conv_take_nth_drop Un_assoc)
  then have "longest_code (heads[h := heads ! h @ [b]]) = Max (insert (code_len b) (insert 0 (code_len ` set (concat heads))))"
    by (simp add: longest_code_def insert_commute)
  also have "\<dots> = max (code_len b) (longest_code heads)"
    unfolding longest_code_def by (rule Max_insert) simp_all
  finally show ?thesis by (simp add: max.commute)
qed

lemma longer_digits_exact:
  assumes "unat m < DMACHINE_MAX_DIGIT_LEN" and "n < DMACHINE_MAX_DIGIT_LEN"
  shows "unat (longer_digits rx n m) = max (unat m) (if rx then DMACHINE_MAX_DIGIT_LEN - 1 else n)"
proof -
  have "unat (of_nat n :: uint32) = n" using assms(2) by (simp add: DMACHINE_MAX_DIGIT_LEN_def unat_of_nat)
  with assms show ?thesis by (auto simp: longer_digits_def DMACHINE_MAX_DIGIT_LEN_def)
qed

lemma realm_head_longest:
  "realm_head dm r = (h, dm') \<Longrightarrow> longest_code (dm_heads dm') = longest_code (dm_heads dm)"
  by (auto simp: realm_head_def Let_def longest_code_new split: option.splits)

lemma set_realm_keeps [simp]:
  "dm_heads (snd (switch_ivr_dmachine_set_realm dm r)) = dm_heads dm"
  "dm_max_digit_len (snd (switch_ivr_dmachine_set_realm dm r)) = dm_max_digit_len dm"
  by (simp_all add: switch_ivr_dmachine_set_realm_def split: option.split)

lemma sized_bind:
  assumes "dm_good dm"
  shows "dm_good (snd (switch_ivr_dmachine_bind dm realm digits key cb ud))"
proof (cases "length digits > DMACHINE_MAX_DIGIT_LEN - 1")
  case False
  have i: "dm_inv dm" "unat (dm_max_digit_len dm) = longest_code (dm_heads dm)" using assms by (simp_all add: dm_good_def)
  obtain h d1 where d1: "realm_head dm (if realm = [] then ''default'' else realm) = (h, d1)" by fastforce
  note i1 = inv_realm_head [OF i(1) d1]
  define rx where "rx = (digits \<noteq> [] \<and> hd digits = CHR ''~'')"
  define ds where "ds = (if rx then tl digits else digits)"
  define b where "b = \<lparr>bd_digits = ds, bd_key = key, bd_callback = cb, bd_is_regex = rx, bd_user_data = ud\<rparr>"
  let ?dm = "snd (switch_ivr_dmachine_bind dm realm digits key cb ud)"
  have "dm_heads ?dm = (dm_heads d1)[h := dm_heads d1 ! h @ [b]]"
      "dm_max_digit_len ?dm = longer_digits rx (length ds) (dm_max_digit_len d1)"
    using False d1 by (auto simp: switch_ivr_dmachine_bind_def rx_def ds_def b_def Let_def)
  moreover have "length ds < DMACHINE_MAX_DIGIT_LEN" using False by (auto simp: ds_def DMACHINE_MAX_DIGIT_LEN_def)
  moreover have "code_len b = (if rx then DMACHINE_MAX_DIGIT_LEN - 1 else length ds)" by (simp add: code_len_def b_def)
  moreover have "unat (dm_max_digit_len d1) < DMACHINE_MAX_DIGIT_LEN" using i1(1) by (simp add: dm_inv_def)
  ultimately have "unat (dm_max_digit_len ?dm) = longest_code (dm_heads ?dm)"
    using i(2) i1(2,3) by (simp add: longer_digits_exact longest_code_bind realm_head_longest [OF d1])
  with inv_bind [OF i(1)] show ?thesis by (simp add: dm_good_def)
qed (simp add: switch_ivr_dmachine_bind_def assms)

section \<open>Ping and feed keep it, and do not fault\<close>

text \<open>What callbacks must do: come back, and leave the machine in order.\<close>

definition callbacks_ok :: "('u, 'w) dm_env \<Rightarrow> bool" where
  "callbacks_ok env \<longleftrightarrow>
     (\<forall>f dm w. dm_good dm \<longrightarrow> (\<exists>s dm' w'. dm_call env f dm w = Inr (s, dm', w') \<and> dm_good dm'))"

lemma inv_check_timeout: "dm_inv dm \<Longrightarrow> dm_inv (snd (switch_ivr_dmachine_check_timeout now dm))"
  by (auto simp: switch_ivr_dmachine_check_timeout_def dm_inv_def Let_def)

lemma inv_check_match: "dm_inv dm \<Longrightarrow> dm_inv (snd (switch_ivr_dmachine_check_match env dm t))"
  by (auto simp: switch_ivr_dmachine_check_match_def dm_inv_def Let_def word_le_nat_alt split: option.splits)

lemma sized_check:
  assumes "dm_good dm"
  shows "dm_good (snd (switch_ivr_dmachine_check_timeout now dm))" "dm_good (snd (switch_ivr_dmachine_check_match env dm t))"
proof -
  have "dm_good (snd (switch_ivr_dmachine_check_timeout now dm))"
    using assms inv_check_timeout [of dm now] by (simp add: dm_good_def switch_ivr_dmachine_check_timeout_def Let_def)
  moreover have "dm_good (snd (switch_ivr_dmachine_check_match env dm t))"
    using assms inv_check_match [of dm env t]
    by (simp add: dm_good_def switch_ivr_dmachine_check_match_def Let_def split: option.splits)
  ultimately show "dm_good (snd (switch_ivr_dmachine_check_timeout now dm))"
    "dm_good (snd (switch_ivr_dmachine_check_match env dm t))" .
qed

lemma sized_clear: "dm_good dm \<Longrightarrow> dm_good (snd (switch_ivr_dmachine_clear dm))"
  using inv_clear [of dm] by (simp add: dm_good_def switch_ivr_dmachine_clear_def)

definition vars_ok :: "'u match_vars \<Rightarrow> bool" where
  "vars_ok v \<longleftrightarrow>
     (mv_best v = DM_MATCH_EXACT \<longrightarrow> mv_exact v \<noteq> None) \<and> (mv_best v = DM_MATCH_BOTH \<longrightarrow> mv_both v \<noteq> None)"

lemma vars_ok_steps:
  assumes "vars_ok v"
  shows "vars_ok (fst (match_regex t b v))" "vars_ok (fst (match_exact ds full b v))" "vars_ok (match_longer ds b v)"
  using assms by (simp_all add: vars_ok_def match_regex_def match_exact_def match_longer_def)

lemma loop_exact_set: "vars_ok v \<Longrightarrow> vars_ok (match_loop rx ds full t bs v)"
proof (induction bs arbitrary: v)
  case (Cons b bs)
  note ok = vars_ok_steps(1) [OF Cons.prems, of t b] vars_ok_steps(2) [OF Cons.prems, of ds full b]
  show ?case using Cons.IH ok vars_ok_steps(3) [OF ok(2), of ds b] Cons.prems
    by (simp add: Let_def split_beta)
qed simp

lemma match_bindings_set:
  fixes env :: "('u, 'w) dm_env"
  shows "mv_best (match_bindings env dm t) = DM_MATCH_EXACT \<Longrightarrow> mv_exact (match_bindings env dm t) \<noteq> None"
  "mv_best (match_bindings env dm t) = DM_MATCH_BOTH \<Longrightarrow> mv_both (match_bindings env dm t) \<noteq> None"
proof -
  have "vars_ok (match_none :: 'u match_vars)" by (simp add: vars_ok_def)
  then have "vars_ok (match_bindings env dm t)" by (simp add: match_bindings_def loop_exact_set split: option.split)
  then show "mv_best (match_bindings env dm t) = DM_MATCH_EXACT \<Longrightarrow> mv_exact (match_bindings env dm t) \<noteq> None"
    "mv_best (match_bindings env dm t) = DM_MATCH_BOTH \<Longrightarrow> mv_both (match_bindings env dm t) \<noteq> None"
    by (simp_all add: vars_ok_def)
qed

lemma match_has_binding:
  assumes "switch_ivr_dmachine_check_match env dm t = (m, dm')"
    and "m = DM_MATCH_EXACT \<or> m = DM_MATCH_BOTH \<and> t"
  shows "\<exists>bp. dm_last_matching_binding dm' = Some bp"
  using assms match_bindings_set [of env dm t]
  by (auto simp: switch_ivr_dmachine_check_match_def match_result_def Let_def split: option.splits if_splits)

lemma run_callback_ok:
  assumes "callbacks_ok env" and "dm_good dm"
  shows "\<exists>r' dm' w'. run_callback env cb r dm w = Inr (r', dm', w') \<and> dm_good dm'"
proof (cases cb)
  case (Some f)
  obtain s dm' w' where "dm_call env f dm w = Inr (s, dm', w')" "dm_good dm'"
    using assms by (force simp: callbacks_ok_def)
  with Some show ?thesis by (simp add: run_callback_def)
qed (simp add: run_callback_def assms)

lemma sized_match [simp]: "dm_good (dm\<lparr>dm_match := x\<rparr>) = dm_good dm" "dm_good (dm\<lparr>dm_is_match := y\<rparr>) = dm_good dm"
  by (simp_all add: dm_good_def dm_inv_def)

lemma sized_user_data [simp]: "dm_good (with_user_data cb dm) = dm_good dm"
  by (simp add: with_user_data_def)

lemma ping_found_ok:
  assumes "callbacks_ok env" and "dm_good dm" and "dm_last_matching_binding dm = Some bp"
  shows "\<exists>r dm' w'. ping_found env dm w = Inr (r, dm', w') \<and> dm_good dm'"
proof -
  let ?d = "dm\<lparr>dm_match := \<lparr>match_digits = Some Last_matching_digits, match_key = bd_key bp,
    match_type = DM_MATCH_POSITIVE, match_user_data = bd_user_data bp\<rparr>, dm_is_match := True\<rparr>"
  obtain r1 d1 w1 where 1: "run_callback env (bd_callback bp) SWITCH_STATUS_FOUND ?d w = Inr (r1, d1, w1)" "dm_good d1"
    using run_callback_ok [OF assms(1), of ?d "bd_callback bp" SWITCH_STATUS_FOUND w] assms(2) by auto
  obtain r2 d2 w2 where "run_callback env (dm_match_callback d1) r1 (with_user_data (dm_match_callback d1) d1) w1 = Inr (r2, d2, w2)"
      "dm_good d2"
    using run_callback_ok [OF assms(1), of "with_user_data (dm_match_callback d1) d1" "dm_match_callback d1" r1 w1] 1(2) by auto
  with 1(1) assms(3) show ?thesis by (simp add: ping_found_def Let_def)
qed

lemma ping_failed_ok:
  assumes "callbacks_ok env" and "dm_good dm"
  shows "\<exists>r' dm' w'. ping_failed env r dm w = Inr (r', dm', w') \<and> dm_good dm'"
proof -
  have "dm_good (dm\<lparr>dm_last_failed_digits := dm_digits dm, dm_match := x\<rparr>)" for x
    using assms(2) by (auto simp: dm_good_def dm_inv_def word_le_nat_alt)
  then show ?thesis
    unfolding ping_failed_def Let_def by (intro run_callback_ok [OF assms(1)]) simp
qed

lemma ping_ok:
  assumes "callbacks_ok env" and "dm_good dm"
  shows "\<exists>r dm' w'. switch_ivr_dmachine_ping env now dm w = Inr (r, dm', w') \<and> dm_good dm'"
proof -
  obtain t d1 where 1: "switch_ivr_dmachine_check_timeout now dm = (t, d1)" by fastforce
  obtain m d2 where 2: "switch_ivr_dmachine_check_match env d1 t = (m, d2)" by fastforce
  have i: "dm_good d2"
    using sized_check(2) [of d1 env t] sized_check(1) [OF assms(2), of now] 1 2 by simp
  let ?r = "ping_status m t d2"
  obtain r d3 w3 where 3: "(if ?r = SWITCH_STATUS_FOUND then ping_found env d2 w else Inr (?r, d2, w)) = Inr (r, d3, w3)" "dm_good d3"
  proof (cases "?r = SWITCH_STATUS_FOUND")
    case True
    then have "m = DM_MATCH_EXACT \<or> m = DM_MATCH_BOTH \<and> t" by (auto simp: ping_status_def split: if_splits)
    from match_has_binding [OF 2 this] obtain bp where "dm_last_matching_binding d2 = Some bp" by blast
    from ping_found_ok [OF assms(1) i this] that True show ?thesis by auto
  next
    case False
    with i that show ?thesis by simp
  qed
  obtain r4 d4 w4 where 4: "ping_failed env r d3 w3 = Inr (r4, d4, w4)" "dm_good d4"
    using ping_failed_ok [OF assms(1) 3(2)] by blast
  show ?thesis
    unfolding switch_ivr_dmachine_ping_def Let_def 1 2 prod.case 3(1) bindE_simps 4(1)
    using 3(2) 4(2) sized_clear by (auto simp: switch_ivr_dmachine_clear_def)
qed

lemma feed_ok:
  assumes "callbacks_ok env" and "dm_good dm"
  shows "\<exists>r dm' w'. switch_ivr_dmachine_feed env now later dm ds w = Inr (r, dm', w') \<and> dm_good dm'"
proof (cases "length ds + length (dm_digits dm) > unat (dm_max_digit_len dm)")
  case False
  let ?new = "dm_digits dm @ take (unat (dm_max_digit_len dm)) ds"
  have new: "append_digits dm ds = Inr ?new" "?new = dm_digits dm @ ds"
    using False dm_goodD [OF assms(2)] by (auto simp: append_digits_def dm_inv_def)
  let ?d = "dm\<lparr>dm_digits := ?new, dm_cur_digit_len := of_nat (length ?new), dm_last_digit_time := now\<rparr>"
  have le: "length ?new \<le> unat (dm_max_digit_len dm)" using False new(2) by simp
  then have "unat (of_nat (length ?new) :: uint32) = length ?new"
    using unsigned_less [of "dm_max_digit_len dm", where 'a = nat] by (simp only: unat_of_nat) simp
  then have "dm_good ?d" using assms(2) le by (auto simp: dm_good_def dm_inv_def word_le_nat_alt)
  from ping_ok [OF assms(1) this] False new(1) show ?thesis by (simp add: switch_ivr_dmachine_feed_def)
qed (simp add: switch_ivr_dmachine_feed_def assms)

section \<open>Runs of a machine\<close>

lemma sized_create: "dm_good (switch_ivr_dmachine_create a b c d e)"
  using inv_create [of a b c d e] by (simp add: dm_good_def switch_ivr_dmachine_create_def longest_code_def)

lemma sized_settings [simp]:
  "dm_good (dm\<lparr>dm_target := t\<rparr>) = dm_good dm" "dm_good (dm\<lparr>dm_match_callback := cb\<rparr>) = dm_good dm"
  "dm_good (dm\<lparr>dm_nonmatch_callback := cb\<rparr>) = dm_good dm" "dm_good (dm\<lparr>dm_digit_timeout_ms := ms\<rparr>) = dm_good dm"
  "dm_good (dm\<lparr>dm_input_timeout_ms := ms\<rparr>) = dm_good dm"
  by (simp_all add: dm_good_def dm_inv_def)

lemma sized_set_realm: "dm_good dm \<Longrightarrow> dm_good (snd (switch_ivr_dmachine_set_realm dm r))"
  using inv_set_realm [of dm r] by (simp add: dm_good_def)

lemma sized_clear_realm: "dm_good dm \<Longrightarrow> dm_good (snd (switch_ivr_dmachine_clear_realm dm r))"
  using inv_clear_realm [of dm r] by (simp add: dm_good_def switch_ivr_dmachine_clear_realm_def)

inductive dm_step :: "('u, 'w) dm_env \<Rightarrow> 'u switch_ivr_dmachine \<times> 'w \<Rightarrow> 'u switch_ivr_dmachine \<times> 'w \<Rightarrow> bool"
  for env :: "('u, 'w) dm_env" where
  bind: "dm_step env (dm, w) (snd (switch_ivr_dmachine_bind dm realm ds key cb ud), w)"
| set_realm: "dm_step env (dm, w) (snd (switch_ivr_dmachine_set_realm dm realm), w)"
| clear_realm: "dm_step env (dm, w) (snd (switch_ivr_dmachine_clear_realm dm realm), w)"
| clear: "dm_step env (dm, w) (snd (switch_ivr_dmachine_clear dm), w)"
| get_match: "dm_step env (dm, w) (snd (switch_ivr_dmachine_get_match dm), w)"
| set_target: "dm_step env (dm, w) (switch_ivr_dmachine_set_target dm t, w)"
| set_match_callback: "dm_step env (dm, w) (switch_ivr_dmachine_set_match_callback dm cb, w)"
| set_nonmatch_callback: "dm_step env (dm, w) (switch_ivr_dmachine_set_nonmatch_callback dm cb, w)"
| set_digit_timeout: "dm_step env (dm, w) (switch_ivr_dmachine_set_digit_timeout_ms dm ms, w)"
| set_input_timeout: "dm_step env (dm, w) (switch_ivr_dmachine_set_input_timeout_ms dm ms, w)"
| ping: "switch_ivr_dmachine_ping env now dm w = Inr (r, dm', w') \<Longrightarrow> dm_step env (dm, w) (dm', w')"
| feed: "switch_ivr_dmachine_feed env now later dm ds w = Inr (r, dm', w') \<Longrightarrow> dm_step env (dm, w) (dm', w')"

definition dm_new :: "'u switch_ivr_dmachine \<times> 'w \<Rightarrow> bool" where
  "dm_new s \<longleftrightarrow> (\<exists>a b c d e. fst s = switch_ivr_dmachine_create a b c d e)"

lemma dm_step_good:
  assumes "dm_step env s t" and "callbacks_ok env" and "dm_good (fst s)"
  shows "dm_good (fst t)"
  using assms
proof (induction rule: dm_step.induct)
  case (ping now dm w r dm' w')
  with ping_ok [OF assms(2), of dm now w] show ?case by simp
next
  case (feed now later dm ds w r dm' w')
  with feed_ok [OF assms(2), of dm now later ds w] show ?case by simp
qed (auto simp: sized_bind sized_set_realm sized_clear_realm sized_clear switch_ivr_dmachine_get_match_def
    switch_ivr_dmachine_set_target_def switch_ivr_dmachine_set_match_callback_def
    switch_ivr_dmachine_set_nonmatch_callback_def switch_ivr_dmachine_set_digit_timeout_ms_def
    switch_ivr_dmachine_set_input_timeout_ms_def)

text \<open>A callback that cannot keep the machine in order stops it: the system below takes no step.\<close>

interpretation dmr: step_system dm_new "\<lambda>s t. callbacks_ok env \<and> dm_step env s t" "\<lambda>s. dm_good (fst s)" for env
  by unfold_locales (auto simp: dm_new_def sized_create dest: dm_step_good)

text \<open>
  C12. Whatever was bound, fed, cleared and set before, in whatever order: the digits fit their
  array and are as many as the machine thinks; \<open>max_digit_len\<close>, which bounds them, is exactly the
  length of the longest binding of any realm, or 511 from the first regular expression on; a
  realm in use exists; and the next digits, or the next look at the clock, end normally.  Asked
  of the callbacks is only that they come back and keep this themselves.
\<close>

theorem dmachine_never_faults:
  assumes "callbacks_ok env" and "dm_new s0" and "(dm_step env)\<^sup>*\<^sup>* s0 (dm, w)"
  shows "length (dm_digits dm) = unat (dm_cur_digit_len dm) \<and> dm_cur_digit_len dm \<le> dm_max_digit_len dm \<and>
    unat (dm_max_digit_len dm) =
      Max (insert 0 ((\<lambda>b. if bd_is_regex b then 511 else length (bd_digits b)) ` set (concat (dm_heads dm)))) \<and>
    unat (dm_max_digit_len dm) < DMACHINE_MAX_DIGIT_LEN \<and>
    (\<forall>h. dm_realm dm = Some h \<longrightarrow> h < length (dm_heads dm)) \<and>
    (\<forall>now later ds. \<exists>r s'. switch_ivr_dmachine_feed env now later dm ds w = Inr (r, s')) \<and>
    (\<forall>now. \<exists>r s'. switch_ivr_dmachine_ping env now dm w = Inr (r, s'))"
proof -
  have "(\<lambda>s t. callbacks_ok env \<and> dm_step env s t)\<^sup>*\<^sup>* s0 (dm, w)" using assms(1,3) by simp
  from dmr.reachable_inv [OF assms(2) this] have g: "dm_good dm" by simp
  have "\<exists>r s'. switch_ivr_dmachine_feed env now later dm ds w = Inr (r, s')"
      "\<exists>r s'. switch_ivr_dmachine_ping env now dm w = Inr (r, s')" for now later ds
    using feed_ok [OF assms(1) g] ping_ok [OF assms(1) g] by blast+
  moreover have "(code_len :: 'a switch_ivr_dmachine_binding \<Rightarrow> nat) = (\<lambda>b. if bd_is_regex b then 511 else length (bd_digits b))"
    by (simp add: fun_eq_iff code_len_def DMACHINE_MAX_DIGIT_LEN_def)
  then have "unat (dm_max_digit_len dm) =
      Max (insert 0 ((\<lambda>b. if bd_is_regex b then 511 else length (bd_digits b)) ` set (concat (dm_heads dm))))"
    using g unfolding dm_good_def longest_code_def by metis
  ultimately show ?thesis using dm_goodD [OF g] unfolding dm_inv_def by blast
qed

section \<open>Which binding a ping finds\<close>

lemma match_bindings_plain:
  assumes "dm_inv dm" and "dm_realm dm = Some h" and "plain (dm_heads dm ! h)" and "dm_digits dm \<noteq> []"
  defines "bs \<equiv> dm_heads dm ! h" and "ds \<equiv> dm_digits dm"
  shows "mv_exact (match_bindings env dm t) = find (exact_in ds) bs"
    "mv_best (match_bindings env dm t) =
      (if find (exact_in ds) bs = None
       then (if \<exists>b\<in>set bs. longer_in ds b then DM_MATCH_PARTIAL else DM_MATCH_NONE)
       else (if \<exists>b\<in>set (tl (dropWhile (\<lambda>b. \<not> exact_in ds b) bs)). longer_in ds b then DM_MATCH_BOTH else DM_MATCH_EXACT))"
    "mv_both (match_bindings env dm t) \<noteq> None \<longleftrightarrow> mv_best (match_bindings env dm t) = DM_MATCH_BOTH"
proof -
  let ?full = "dm_cur_digit_len dm = dm_max_digit_len dm"
  have len: "length ds = unat (dm_cur_digit_len dm)" using assms(1) by (simp add: dm_inv_def ds_def)
  then have "dm_cur_digit_len dm \<noteq> 0" using assms(4) by (auto simp: ds_def)
  then have m: "match_bindings env dm t = match_loop (dm_regex env) ds ?full t bs match_none"
    by (simp add: match_bindings_def assms(2) bs_def ds_def)
  have "\<not> longer_in ds b" if "b \<in> set bs" ?full for b
  proof -
    have "h < length (dm_heads dm)" using assms(1,2) by (simp add: dm_inv_def)
    then have "length (bd_digits b) \<le> length ds" using that assms(1) len by (auto simp: dm_inv_def bs_def)
    then show ?thesis by (auto dest: prefix_length_less)
  qed
  then show "mv_exact (match_bindings env dm t) = find (exact_in ds) bs"
    "mv_best (match_bindings env dm t) =
      (if find (exact_in ds) bs = None
       then (if \<exists>b\<in>set bs. longer_in ds b then DM_MATCH_PARTIAL else DM_MATCH_NONE)
       else (if \<exists>b\<in>set (tl (dropWhile (\<lambda>b. \<not> exact_in ds b) bs)). longer_in ds b then DM_MATCH_BOTH else DM_MATCH_EXACT))"
    "mv_both (match_bindings env dm t) \<noteq> None \<longleftrightarrow> mv_best (match_bindings env dm t) = DM_MATCH_BOTH"
    using loop_before_exact [of bs match_none ?full ds "dm_regex env" t] assms(3) unfolding m bs_def by auto
qed

text \<open>What the digits typed so far are taken for, in a realm without regular expressions.\<close>

lemma check_match_order:
  assumes "dm_inv dm" and "dm_realm dm = Some h" and "plain (dm_heads dm ! h)" and "dm_digits dm \<noteq> []"
  defines "bs \<equiv> dm_heads dm ! h" and "ds \<equiv> dm_digits dm"
  shows "switch_ivr_dmachine_check_match env dm t =
    (case find (\<lambda>b. bd_digits b = ds) bs of
       None \<Rightarrow> (if \<exists>b\<in>set bs. strict_prefix ds (bd_digits b) then DM_MATCH_PARTIAL else DM_MATCH_NONE, dm)
     | Some e \<Rightarrow>
         if (\<exists>b\<in>set (tl (dropWhile (\<lambda>b. bd_digits b \<noteq> ds) bs)). strict_prefix ds (bd_digits b)) \<and> \<not> t
         then (DM_MATCH_BOTH, dm)
         else (DM_MATCH_EXACT, dm\<lparr>dm_last_matching_binding := Some e, dm_last_matching_digits := ds\<rparr>))"
proof -
  note m = match_bindings_plain [OF assms(1-4), of env t, folded bs_def ds_def]
  show ?thesis
  proof (cases "find (\<lambda>b. bd_digits b = ds) bs")
    case None
    with m show ?thesis by (simp add: switch_ivr_dmachine_check_match_def match_result_def Let_def)
  next
    case (Some e)
    with m show ?thesis
      by (cases t) (simp_all add: switch_ivr_dmachine_check_match_def match_result_def Let_def ds_def)
  qed
qed

lemma run_callback_status:
  assumes "run_callback env cb r dm w = Inr (r', dm', w')"
    and "r \<in> {SWITCH_STATUS_FOUND, SWITCH_STATUS_SUCCESS, SWITCH_STATUS_BREAK}"
  shows "r' \<in> {SWITCH_STATUS_FOUND, SWITCH_STATUS_SUCCESS, SWITCH_STATUS_BREAK}"
proof (cases cb)
  case (Some f)
  then obtain s where "r' = callback_status s r" using assms(1) by (auto simp: run_callback_def bindE_eq_Inr)
  with assms(2) show ?thesis by (cases s) (auto simp: callback_status_def)
qed (use assms in \<open>simp add: run_callback_def\<close>)

lemma ping_found_status:
  assumes "ping_found env dm w = Inr (r, dm', w')"
  shows "r \<in> {SWITCH_STATUS_FOUND, SWITCH_STATUS_SUCCESS, SWITCH_STATUS_BREAK}"
proof -
  obtain bp where bp: "dm_last_matching_binding dm = Some bp"
    using assms by (cases "dm_last_matching_binding dm") (simp_all add: ping_found_def)
  let ?d = "dm\<lparr>dm_match := \<lparr>match_digits = Some Last_matching_digits, match_key = bd_key bp,
    match_type = DM_MATCH_POSITIVE, match_user_data = bd_user_data bp\<rparr>, dm_is_match := True\<rparr>"
  obtain r1 d1 w1 where 1: "run_callback env (bd_callback bp) SWITCH_STATUS_FOUND ?d w = Inr (r1, d1, w1)"
    using assms bp by (cases "run_callback env (bd_callback bp) SWITCH_STATUS_FOUND ?d w") (auto simp: ping_found_def)
  have 2: "run_callback env (dm_match_callback d1) r1 (with_user_data (dm_match_callback d1) d1) w1 = Inr (r, dm', w')"
    using assms by (simp add: ping_found_def bp 1)
  have "r1 \<in> {SWITCH_STATUS_FOUND, SWITCH_STATUS_SUCCESS, SWITCH_STATUS_BREAK}"
    using run_callback_status [OF 1] by simp
  with run_callback_status [OF 2] show ?thesis .
qed

lemma ping_when_found:
  assumes "switch_ivr_dmachine_check_timeout now dm = (t, d1)" and "switch_ivr_dmachine_check_match env d1 t = (m, d2)"
    and "ping_status m t d2 = SWITCH_STATUS_FOUND"
  shows "switch_ivr_dmachine_ping env now dm w =
    bindE (ping_found env d2 w) (\<lambda>(r, d, w). Inr (r, snd (switch_ivr_dmachine_clear d), w))"
proof (cases "ping_found env d2 w")
  case (Inr x)
  obtain r d w' where x: "x = (r, d, w')" by (cases x) auto
  with ping_found_status [of env d2 w r d w'] Inr show ?thesis
    by (auto simp: switch_ivr_dmachine_ping_def Let_def assms)
qed (simp add: switch_ivr_dmachine_ping_def Let_def assms)

text \<open>Digits that fit are appended whole, and the machine stays in order.\<close>

lemma feed_appends:
  fixes now later :: int
  assumes "dm_inv dm" and "length (dm_digits dm @ ks) \<le> unat (dm_max_digit_len dm)"
  defines "dm1 \<equiv> dm\<lparr>dm_digits := dm_digits dm @ ks, dm_cur_digit_len := of_nat (length (dm_digits dm @ ks)), dm_last_digit_time := now\<rparr>"
  shows "switch_ivr_dmachine_feed env now later dm ks w = switch_ivr_dmachine_ping env later dm1 w" "dm_inv dm1"
    "unat (dm_cur_digit_len dm1) = length (dm_digits dm @ ks)"
proof -
  have "unat (of_nat (length (dm_digits dm @ ks)) :: uint32) = length (dm_digits dm @ ks)"
    using assms(2) unsigned_less [of "dm_max_digit_len dm", where 'a = nat] by (simp only: unat_of_nat) simp
  then show "dm_inv dm1" and "unat (dm_cur_digit_len dm1) = length (dm_digits dm @ ks)"
    using assms(1,2) by (simp_all add: dm_inv_def dm1_def word_le_nat_alt)
  have "append_digits dm ks = Inr (dm_digits dm @ ks)"
    using assms(1,2) by (auto simp: append_digits_def dm_inv_def)
  with assms(2) show "switch_ivr_dmachine_feed env now later dm ks w = switch_ivr_dmachine_ping env later dm1 w"
    by (simp add: switch_ivr_dmachine_feed_def dm1_def)
qed

text \<open>
  C33. What keys do that are fed to a machine in a realm without regular expressions.  Keys that
  do not fit with the digits already there are refused.  Otherwise all digits, old and new, are
  looked up together, and the first binding with exactly these digits is found, its callbacks are
  run and the digits are cleared, as soon as no longer binding that begins with them is bound
  after it, or when the time is up.  Else the machine waits when the time is not up and a longer
  binding is there or the digits could still grow, and gives up otherwise.  A longer binding that
  was bound before the shorter one does not delay it, so that it is out of reach of keys fed one
  by one once the shorter one is complete; fed with all its keys at once it is found itself.
\<close>

theorem dmachine_match_order:
  fixes now later :: int
  assumes "dm_inv dm" and "dm_realm dm = Some h" and "plain (dm_heads dm ! h)" and "dm_digits dm @ ks \<noteq> []"
  defines "bs \<equiv> dm_heads dm ! h" and "ds \<equiv> dm_digits dm @ ks"
  defines "dm1 \<equiv> dm\<lparr>dm_digits := ds, dm_cur_digit_len := of_nat (length ds), dm_last_digit_time := now\<rparr>"
  defines "t \<equiv> fst (switch_ivr_dmachine_check_timeout later dm1)"
    and "dm2 \<equiv> snd (switch_ivr_dmachine_check_timeout later dm1)"
  defines "cleared \<equiv> \<lambda>(r, d, w). Inr (r, snd (switch_ivr_dmachine_clear d), w)"
  shows "switch_ivr_dmachine_feed env now later dm ks w =
    (if length ds > unat (dm_max_digit_len dm) then Inr (SWITCH_STATUS_FALSE, dm, w)
     else case find (\<lambda>b. bd_digits b = ds) bs of
       Some e \<Rightarrow>
         if (\<exists>b\<in>set (tl (dropWhile (\<lambda>b. bd_digits b \<noteq> ds) bs)). strict_prefix ds (bd_digits b)) \<and> \<not> t
         then Inr (SWITCH_STATUS_SUCCESS, dm2, w)
         else bindE (ping_found env (dm2\<lparr>dm_last_matching_binding := Some e, dm_last_matching_digits := ds\<rparr>) w) cleared
     | None \<Rightarrow>
         if t then bindE (ping_failed env SWITCH_STATUS_TIMEOUT dm2 w) cleared
         else if (\<exists>b\<in>set bs. strict_prefix ds (bd_digits b)) \<or> length ds < unat (dm_max_digit_len dm)
         then Inr (SWITCH_STATUS_SUCCESS, dm2, w)
         else bindE (ping_failed env SWITCH_STATUS_NOTFOUND dm2 w) cleared)"
proof (cases "length ds \<le> unat (dm_max_digit_len dm)")
  case True
  have le: "length (dm_digits dm @ ks) \<le> unat (dm_max_digit_len dm)" using True by (simp add: ds_def)
  have f: "switch_ivr_dmachine_feed env now later dm ks w = switch_ivr_dmachine_ping env later dm1 w" "dm_inv dm1"
      "unat (dm_cur_digit_len dm1) = length ds"
    unfolding dm1_def ds_def by (rule feed_appends [OF assms(1) le])+
  have ct: "switch_ivr_dmachine_check_timeout later dm1 = (t, dm2)" by (simp add: t_def dm2_def)
  have i: "dm_inv dm2" using inv_check_timeout [OF f(2)] by (simp add: dm2_def)
  have d2: "dm_realm dm2 = Some h" "dm_heads dm2 ! h = bs" "dm_digits dm2 = ds" "dm_cur_digit_len dm2 = dm_cur_digit_len dm1"
      "dm_max_digit_len dm2 = dm_max_digit_len dm"
    using assms(2) by (simp_all add: dm2_def dm1_def bs_def switch_ivr_dmachine_check_timeout_def Let_def)
  have ne: "ds \<noteq> []" and pl: "plain bs" using assms(3,4) by (simp_all add: ds_def bs_def)
  note m = check_match_order [OF i d2(1), of env t, unfolded d2, OF pl ne]
  have le: "\<not> dm_cur_digit_len dm1 > dm_max_digit_len dm" and
    full: "dm_cur_digit_len dm1 = dm_max_digit_len dm \<longleftrightarrow> length ds = unat (dm_max_digit_len dm)"
    using f(3) True by (auto simp: word_less_nat_alt word_unat_eq_iff)
  show ?thesis
  proof (cases "find (\<lambda>b. bd_digits b = ds) bs")
    case None
    with m f(1) True le full ne show ?thesis
      by (auto simp: switch_ivr_dmachine_ping_def ct ping_status_def d2 cleared_def Let_def)
  next
    case (Some e)
    show ?thesis
    proof (cases "(\<exists>b\<in>set (tl (dropWhile (\<lambda>b. bd_digits b \<noteq> ds) bs)). strict_prefix ds (bd_digits b)) \<and> \<not> t")
      case True
      with m Some f(1) \<open>length ds \<le> _\<close> le ne show ?thesis
        by (simp add: switch_ivr_dmachine_ping_def ct ping_status_def d2)
    next
      case False
      let ?d = "dm2\<lparr>dm_last_matching_binding := Some e, dm_last_matching_digits := ds\<rparr>"
      from False Some m have m': "switch_ivr_dmachine_check_match env dm2 t = (DM_MATCH_EXACT, ?d)" by auto
      have "ping_status DM_MATCH_EXACT t ?d = SWITCH_STATUS_FOUND" using le ne by (simp add: ping_status_def d2)
      from ping_when_found [OF ct m' this] False Some f(1) \<open>length ds \<le> _\<close> show ?thesis by (auto simp: cleared_def)
    qed
  qed
qed (auto simp: switch_ivr_dmachine_feed_def ds_def)

section \<open>Codes\<close>

text \<open>
  Bindings of which none begins another: what is typed is then read without waiting and without
  ambiguity.  \<open>feed_keys\<close> types one digit after the other; each comes with the two times at
  which the clock is read.
\<close>

definition prefix_code :: "'u switch_ivr_dmachine_binding list \<Rightarrow> bool" where
  "prefix_code bs \<longleftrightarrow>
     plain bs \<and> (\<forall>b\<in>set bs. bd_digits b \<noteq> [] \<and> bd_callback b \<noteq> None \<and> bd_user_data b \<noteq> None) \<and>
     (\<forall>a\<in>set bs. \<forall>b\<in>set bs. prefix (bd_digits a) (bd_digits b) \<longrightarrow> a = b)"

lemma set_tl_dropWhile: "x \<in> set (tl (dropWhile P xs)) \<Longrightarrow> x \<in> set xs"
  by (induction xs) (auto split: if_splits)

lemma prefix_codeD:
  assumes "prefix_code bs"
  shows "plain bs" "b \<in> set bs \<Longrightarrow> bd_digits b \<noteq> []" "b \<in> set bs \<Longrightarrow> bd_callback b \<noteq> None \<and> bd_user_data b \<noteq> None"
    "a \<in> set bs \<Longrightarrow> b \<in> set bs \<Longrightarrow> prefix (bd_digits a) (bd_digits b) \<Longrightarrow> a = b"
  using assms unfolding prefix_code_def by blast+

fun feed_keys ::
    "('u, 'w) dm_env \<Rightarrow> (char \<times> int \<times> int) list \<Rightarrow> 'u switch_ivr_dmachine \<Rightarrow> 'w \<Rightarrow>
     (switch_status_t list \<times> 'u switch_ivr_dmachine \<times> 'w) outcome" where
  "feed_keys env [] dm w = Inr ([], dm, w)"
| "feed_keys env ((c, now, later) # ks) dm w =
     bindE (switch_ivr_dmachine_feed env now later dm [c] w) (\<lambda>(r, dm, w).
     bindE (feed_keys env ks dm w) (\<lambda>(rs, dm, w). Inr (r # rs, dm, w)))"

text \<open>The machine is in the realm, has these digits, and nobody listens to all matches.\<close>

definition typing :: "nat \<Rightarrow> 'u switch_ivr_dmachine_binding list \<Rightarrow> uint32 \<Rightarrow> string \<Rightarrow> 'u switch_ivr_dmachine \<Rightarrow> bool" where
  "typing h bs ms ds dm \<longleftrightarrow>
     dm_inv dm \<and> dm_realm dm = Some h \<and> dm_heads dm ! h = bs \<and> dm_digit_timeout_ms dm = ms \<and>
     dm_match_callback dm = None \<and> dm_digits dm = ds"

definition in_time :: "uint32 \<Rightarrow> int \<Rightarrow> int \<Rightarrow> bool" where
  "in_time ms now later \<longleftrightarrow> ms = 0 \<or> (now \<le> later \<and> (later - now) div 1000 \<le> int (unat ms))"

definition matched_digits :: "'u switch_ivr_dmachine \<Rightarrow> string" where
  "matched_digits dm =
     (case match_digits (dm_match dm) of
        None \<Rightarrow> [] | Some Last_matching_digits \<Rightarrow> dm_last_matching_digits dm
      | Some Last_failed_digits \<Rightarrow> dm_last_failed_digits dm)"

lemma no_timeout:
  assumes "in_time ms now later" and "dm_digit_timeout_ms dm = ms" and "dm_cur_digit_len dm \<noteq> 0" and "dm_last_digit_time dm = now"
  shows "\<not> fst (switch_ivr_dmachine_check_timeout later dm)"
proof (cases "ms = 0 \<or> now = 0")
  case True
  then show ?thesis using assms by (auto simp: switch_ivr_dmachine_check_timeout_def elapsed_ms_def Let_def)
next
  case False
  then have le: "now \<le> later" "(later - now) div 1000 \<le> int (unat ms)" using assms(1) by (auto simp: in_time_def)
  have b: "0 \<le> (later - now) div 1000" using le(1) by simp
  have "sgn (later - now) * (\<bar>later - now\<bar> div 1000) = (later - now) div 1000"
    using le(1) by (cases "now = later") (auto simp: sgn_if)
  then have "uint (elapsed_ms later now) \<le> uint ms"
    using le(2) b unsigned_less [of ms, where 'a = int] unfolding elapsed_ms_def by (simp only: uint_word_of_int) simp
  then show ?thesis
    using False assms(2,3,4) by (simp add: switch_ivr_dmachine_check_timeout_def Let_def word_less_alt)
qed

lemma feed_prepares:
  assumes "typing h bs ms ds dm" and "in_time ms now later" and "b \<in> set bs" and "prefix (ds @ [c]) (bd_digits b)"
  obtains dm1 dm2 where "switch_ivr_dmachine_feed env now later dm [c] w = switch_ivr_dmachine_ping env later dm1 w"
    and "switch_ivr_dmachine_check_timeout later dm1 = (False, dm2)" and "typing h bs ms (ds @ [c]) dm2"
proof -
  define dm1 where "dm1 = dm\<lparr>dm_digits := ds @ [c], dm_cur_digit_len := of_nat (length (ds @ [c])), dm_last_digit_time := now\<rparr>"
  have i: "dm_inv dm" and d: "dm_digits dm = ds" and r: "dm_realm dm = Some h" "dm_heads dm ! h = bs"
    using assms(1) by (simp_all add: typing_def)
  from i r have "h < length (dm_heads dm)" by (simp add: dm_inv_def)
  then have "length (bd_digits b) \<le> unat (dm_max_digit_len dm)" using i r assms(3) by (auto simp: dm_inv_def)
  then have "length (ds @ [c]) \<le> unat (dm_max_digit_len dm)" using prefix_length_le [OF assms(4)] by linarith
  then have le: "length (dm_digits dm @ [c]) \<le> unat (dm_max_digit_len dm)" by (simp add: d)
  have a: "switch_ivr_dmachine_feed env now later dm [c] w = switch_ivr_dmachine_ping env later dm1 w" "dm_inv dm1"
      "unat (dm_cur_digit_len dm1) = length (ds @ [c])"
    unfolding dm1_def d [symmetric] by (rule feed_appends [OF i le])+
  from a(2) have t: "typing h bs ms (ds @ [c]) dm1" using assms(1) by (simp add: typing_def dm1_def)
  have "dm_cur_digit_len dm1 \<noteq> 0" using a(3) by auto
  with no_timeout [OF assms(2), of dm1] t have "\<not> fst (switch_ivr_dmachine_check_timeout later dm1)"
    by (simp add: typing_def dm1_def)
  moreover have "typing h bs ms (ds @ [c]) (snd (switch_ivr_dmachine_check_timeout later dm1))"
    using t inv_check_timeout [of dm1 later] by (simp add: typing_def switch_ivr_dmachine_check_timeout_def Let_def)
  ultimately show ?thesis
    using that [OF a(1)] by (cases "switch_ivr_dmachine_check_timeout later dm1") simp
qed

lemma feed_inside:
  assumes "typing h bs ms ds dm" and "prefix_code bs" and "in_time ms now later" and "b \<in> set bs"
    and "strict_prefix (ds @ [c]) (bd_digits b)"
  shows "\<exists>dm'. typing h bs ms (ds @ [c]) dm' \<and>
    switch_ivr_dmachine_feed env now later dm [c] w = Inr (SWITCH_STATUS_SUCCESS, dm', w)"
proof -
  have p: "prefix (ds @ [c]) (bd_digits b)" using assms(5) by simp
  obtain dm1 dm2 where f: "switch_ivr_dmachine_feed env now later dm [c] w = switch_ivr_dmachine_ping env later dm1 w"
    and t: "switch_ivr_dmachine_check_timeout later dm1 = (False, dm2)" and ty: "typing h bs ms (ds @ [c]) dm2"
    by (rule feed_prepares [OF assms(1,3,4) p])
  have none: "find (\<lambda>b. bd_digits b = ds @ [c]) bs = None"
    using prefix_codeD(4) [OF assms(2) _ assms(4)] assms(5) p by (fastforce simp: find_None_iff)
  then have m: "switch_ivr_dmachine_check_match env dm2 False = (DM_MATCH_PARTIAL, dm2)"
    using check_match_order [of dm2 h env False] ty prefix_codeD(1) [OF assms(2)] assms(4,5) by (auto simp: typing_def)
  have "dm_cur_digit_len dm2 \<le> dm_max_digit_len dm2" using ty by (simp add: typing_def dm_inv_def)
  then have "ping_status DM_MATCH_PARTIAL False dm2 = SWITCH_STATUS_SUCCESS" by (simp add: ping_status_def)
  then have "switch_ivr_dmachine_ping env later dm1 w = Inr (SWITCH_STATUS_SUCCESS, dm2, w)"
    by (simp add: switch_ivr_dmachine_ping_def t m)
  with f ty show ?thesis by auto
qed

lemma feed_keys_append:
  "feed_keys env (ks @ ls) dm w = bindE (feed_keys env ks dm w) (\<lambda>(rs, dm, w).
     bindE (feed_keys env ls dm w) (\<lambda>(rs', dm, w). Inr (rs @ rs', dm, w)))"
proof (induction ks arbitrary: dm w)
  case Nil
  then show ?case by (cases "feed_keys env ls dm w") auto
next
  case (Cons k ks)
  obtain c now later where k: "k = (c, now, later)" by (cases k) auto
  show ?case
  proof (cases "switch_ivr_dmachine_feed env now later dm [c] w")
    case (Inr s)
    obtain r dm1 w1 where s: "s = (r, dm1, w1)" by (cases s) auto
    show ?thesis
    proof (cases "feed_keys env ks dm1 w1")
      case (Inr t)
      obtain rs dm2 w2 where "t = (rs, dm2, w2)" by (cases t) auto
      then show ?thesis
        using \<open>switch_ivr_dmachine_feed env now later dm [c] w = Inr s\<close> Inr
        by (cases "feed_keys env ls dm2 w2") (auto simp: k s Cons.IH)
    qed (simp add: k s Cons.IH Inr)
  qed (simp add: k)
qed

text \<open>What an application has to say about its callbacks, and what it gets for it.\<close>

fun run_codes ::
    "('u \<Rightarrow> string \<Rightarrow> 'w \<Rightarrow> 'w outcome) \<Rightarrow> 'u switch_ivr_dmachine_binding list \<Rightarrow> 'w \<Rightarrow> 'w outcome" where
  "run_codes act [] w = Inr w"
| "run_codes act (b # bs) w = bindE (act (the (bd_user_data b)) (bd_digits b) w) (run_codes act bs)"

definition code_statuses :: "'u switch_ivr_dmachine_binding list \<Rightarrow> switch_status_t list" where
  "code_statuses codes =
     concat (map (\<lambda>b. replicate (length (bd_digits b) - 1) SWITCH_STATUS_SUCCESS @ [SWITCH_STATUS_FOUND]) codes)"

locale dm_client =
  fixes env :: "('u, 'w) dm_env"
    and act :: "'u \<Rightarrow> string \<Rightarrow> 'w \<Rightarrow> 'w outcome"
  assumes call: "match_user_data (dm_match dm) = Some u \<Longrightarrow> dm_call env f dm w =
    bindE (act u (matched_digits dm) w) (\<lambda>w. Inr (SWITCH_STATUS_SUCCESS, dm, w))"
begin

lemma feed_end:
  assumes "typing h bs ms ds dm" and "prefix_code bs" and "in_time ms now later" and "b \<in> set bs"
    and "ds @ [c] = bd_digits b"
  shows "\<exists>dm'. typing h bs ms [] dm' \<and>
    switch_ivr_dmachine_feed env now later dm [c] w =
      bindE (act (the (bd_user_data b)) (bd_digits b) w) (\<lambda>w. Inr (SWITCH_STATUS_FOUND, dm', w))"
proof -
  have p: "prefix (ds @ [c]) (bd_digits b)" using assms(5) by simp
  obtain dm1 dm2 where f: "switch_ivr_dmachine_feed env now later dm [c] w = switch_ivr_dmachine_ping env later dm1 w"
    and t: "switch_ivr_dmachine_check_timeout later dm1 = (False, dm2)" and ty: "typing h bs ms (ds @ [c]) dm2"
    by (rule feed_prepares [OF assms(1,3,4) p])
  have code: "a = b" if "a \<in> set bs" "prefix (bd_digits a) (bd_digits b) \<or> prefix (bd_digits b) (bd_digits a)" for a
    using prefix_codeD(4) [OF assms(2)] assms(4) that by blast
  have "find (\<lambda>a. bd_digits a = ds @ [c]) bs \<noteq> None" using assms(4,5) by (auto simp: find_None_iff)
  then obtain e where e: "find (\<lambda>a. bd_digits a = ds @ [c]) bs = Some e" by blast
  then have "e \<in> set bs" "bd_digits e = bd_digits b" using assms(5) by (auto simp: find_Some_iff)
  with code e have fb: "find (\<lambda>a. bd_digits a = ds @ [c]) bs = Some b" by simp
  moreover have "\<not> strict_prefix (ds @ [c]) (bd_digits a)" if "a \<in> set bs" for a
    using code [OF that] assms(5) by (auto simp: strict_prefix_def)
  ultimately have m: "switch_ivr_dmachine_check_match env dm2 False =
      (DM_MATCH_EXACT, dm2\<lparr>dm_last_matching_binding := Some b, dm_last_matching_digits := bd_digits b\<rparr>)"
    using check_match_order [of dm2 h env False] ty prefix_codeD(1) [OF assms(2)] prefix_codeD(2) [OF assms(2,4)] assms(5)
    by (auto simp: typing_def dest!: set_tl_dropWhile)
  let ?d = "dm2\<lparr>dm_last_matching_binding := Some b, dm_last_matching_digits := bd_digits b\<rparr>"
  have "dm_cur_digit_len dm2 \<le> dm_max_digit_len dm2" "dm_match_callback dm2 = None"
    using ty by (simp_all add: typing_def dm_inv_def)
  then have r: "ping_status DM_MATCH_EXACT False ?d = SWITCH_STATUS_FOUND"
    using ty by (simp add: ping_status_def typing_def)
  obtain cb u where cb: "bd_callback b = Some cb" "bd_user_data b = Some u" using prefix_codeD(3) [OF assms(2,4)] by blast
  let ?e = "?d\<lparr>dm_match := \<lparr>match_digits = Some Last_matching_digits, match_key = bd_key b,
    match_type = DM_MATCH_POSITIVE, match_user_data = bd_user_data b\<rparr>, dm_is_match := True\<rparr>"
  have "ping_found env ?d w = bindE (act (the (bd_user_data b)) (bd_digits b) w) (\<lambda>w. Inr (SWITCH_STATUS_FOUND, ?e, w))"
    using \<open>dm_match_callback dm2 = None\<close>
    by (cases "act (the (bd_user_data b)) (bd_digits b) w")
      (simp_all add: ping_found_def Let_def cb run_callback_def call matched_digits_def callback_status_def with_user_data_def)
  then have "switch_ivr_dmachine_ping env later dm1 w =
      bindE (act (the (bd_user_data b)) (bd_digits b) w)
        (\<lambda>w. Inr (SWITCH_STATUS_FOUND, snd (switch_ivr_dmachine_clear ?e), w))"
    by (cases "act (the (bd_user_data b)) (bd_digits b) w") (simp_all add: switch_ivr_dmachine_ping_def t m r)
  moreover have "typing h bs ms [] (snd (switch_ivr_dmachine_clear ?e))"
    using ty assms(5) by (auto simp: typing_def switch_ivr_dmachine_clear_def dm_inv_def word_le_nat_alt)
  ultimately show ?thesis using f by auto
qed

lemma feed_code:
  assumes "prefix_code bs" and "b \<in> set bs"
  shows "typing h bs ms ds dm \<Longrightarrow> ds @ map fst ks = bd_digits b \<Longrightarrow> ks \<noteq> [] \<Longrightarrow>
    \<forall>(c, now, later)\<in>set ks. in_time ms now later \<Longrightarrow>
    \<exists>dm'. typing h bs ms [] dm' \<and>
      feed_keys env ks dm w = bindE (act (the (bd_user_data b)) (bd_digits b) w) (\<lambda>w.
        Inr (replicate (length ks - 1) SWITCH_STATUS_SUCCESS @ [SWITCH_STATUS_FOUND], dm', w))"
proof (induction ks arbitrary: ds dm w)
  case (Cons k ks)
  obtain c now later where k: "k = (c, now, later)" by (cases k) auto
  have time: "in_time ms now later" using Cons.prems(4) by (simp add: k)
  show ?case
  proof (cases "ks = []")
    case True
    then have "ds @ [c] = bd_digits b" using Cons.prems(2) by (simp add: k)
    from feed_end [OF Cons.prems(1) assms(1) time assms(2) this, of w] obtain dm' where
      "typing h bs ms [] dm'" "switch_ivr_dmachine_feed env now later dm [c] w =
        bindE (act (the (bd_user_data b)) (bd_digits b) w) (\<lambda>w. Inr (SWITCH_STATUS_FOUND, dm', w))"
      by blast
    then show ?thesis
      by (intro exI [of _ dm']) (cases "act (the (bd_user_data b)) (bd_digits b) w", simp_all add: k True)
  next
    case False
    then have "bd_digits b = (ds @ [c]) @ map fst ks" "map fst ks \<noteq> []" using Cons.prems(2) by (simp_all add: k)
    then have "strict_prefix (ds @ [c]) (bd_digits b)" by (auto simp: strict_prefix_def prefix_def)
    from feed_inside [OF Cons.prems(1) assms(1) time assms(2) this, of env w] obtain d1 where
      d1: "typing h bs ms (ds @ [c]) d1" "switch_ivr_dmachine_feed env now later dm [c] w = Inr (SWITCH_STATUS_SUCCESS, d1, w)"
      by blast
    from Cons.IH [OF d1(1) _ False, of w] Cons.prems(2,4) obtain dm' where
      "typing h bs ms [] dm'" "feed_keys env ks d1 w = bindE (act (the (bd_user_data b)) (bd_digits b) w) (\<lambda>w.
        Inr (replicate (length ks - 1) SWITCH_STATUS_SUCCESS @ [SWITCH_STATUS_FOUND], dm', w))"
      by (auto simp: k)
    then show ?thesis
      using False d1(2)
      by (intro exI [of _ dm']) (cases "act (the (bd_user_data b)) (bd_digits b) w"; cases ks; simp add: k)
  qed
qed simp

lemma feed_codes:
  assumes "prefix_code bs"
  shows "typing h bs ms [] dm \<Longrightarrow> set codes \<subseteq> set bs \<Longrightarrow> map fst ks = concat (map bd_digits codes) \<Longrightarrow>
    \<forall>(c, now, later)\<in>set ks. in_time ms now later \<Longrightarrow>
    \<exists>dm'. typing h bs ms [] dm' \<and>
      feed_keys env ks dm w = bindE (run_codes act codes w) (\<lambda>w. Inr (code_statuses codes, dm', w))"
proof (induction codes arbitrary: ks dm w)
  case (Cons b codes)
  let ?k1 = "take (length (bd_digits b)) ks" and ?k2 = "drop (length (bd_digits b)) ks"
  have k1: "map fst ?k1 = bd_digits b" and k2: "map fst ?k2 = concat (map bd_digits codes)"
    using Cons.prems(3) by (simp_all flip: take_map drop_map)
  have b: "b \<in> set bs" using Cons.prems(2) by simp
  have ne: "?k1 \<noteq> []" using k1 prefix_codeD(2) [OF assms b] by auto
  have len: "length ?k1 = length (bd_digits b)" using arg_cong [OF k1, of length] by simp
  have time: "\<forall>(c, now, later)\<in>set ?k1. in_time ms now later" "\<forall>(c, now, later)\<in>set ?k2. in_time ms now later"
    using Cons.prems(4) by (auto dest: in_set_takeD in_set_dropD)
  from feed_code [OF assms b Cons.prems(1) _ ne time(1), of w] k1 obtain d1 where d1: "typing h bs ms [] d1"
      "feed_keys env ?k1 dm w = bindE (act (the (bd_user_data b)) (bd_digits b) w) (\<lambda>w.
        Inr (replicate (length (bd_digits b) - 1) SWITCH_STATUS_SUCCESS @ [SWITCH_STATUS_FOUND], d1, w))"
    unfolding len by auto
  have all: "\<exists>dm'. typing h bs ms [] dm' \<and>
      feed_keys env ?k2 d1 w1 = bindE (run_codes act codes w1) (\<lambda>w. Inr (code_statuses codes, dm', w))" for w1
    using Cons.IH [OF d1(1) _ k2 time(2), of w1] Cons.prems(2) by simp
  have split: "feed_keys env ks dm w = bindE (feed_keys env ?k1 dm w) (\<lambda>(rs, dm, w).
      bindE (feed_keys env ?k2 dm w) (\<lambda>(rs', dm, w). Inr (rs @ rs', dm, w)))"
    using feed_keys_append [of env ?k1 ?k2 dm w] by simp
  show ?case
  proof (cases "act (the (bd_user_data b)) (bd_digits b) w")
    case (Inl e)
    with Cons.prems(1) split d1(2) show ?thesis by auto
  next
    case (Inr w1)
    from all [of w1] obtain d2 where "typing h bs ms [] d2"
        "feed_keys env ?k2 d1 w1 = bindE (run_codes act codes w1) (\<lambda>w. Inr (code_statuses codes, d2, w))"
      by blast
    with Inr split d1(2) show ?thesis
      by (intro exI [of _ d2]) (cases "run_codes act codes w1", simp_all add: code_statuses_def)
  qed
qed (auto simp: code_statuses_def)

end

section \<open>A small machine\<close>

definition echo_env :: "(nat, nat list) dm_env" where
  "echo_env = \<lparr>dm_call = (\<lambda>f dm w. Inr (SWITCH_STATUS_SUCCESS, dm, w @ [f])), dm_regex = (\<lambda>_ _. False)\<rparr>"

definition two_codes :: "nat switch_ivr_dmachine" where
  "two_codes = snd (switch_ivr_dmachine_bind (snd (switch_ivr_dmachine_bind
     (switch_ivr_dmachine_create 2000 0 None None None) ''conf'' ''12'' 0 (Some 7) None)) ''conf'' ''1'' 0 (Some 8) None)"

theorem dmachine_never_faults_witness:
  "\<exists>r s'. switch_ivr_dmachine_feed echo_env 5 6 two_codes ''1'' [] = Inr (r, s')"
proof -
  let ?d0 = "switch_ivr_dmachine_create 2000 0 None None None :: nat switch_ivr_dmachine"
  have "callbacks_ok echo_env" by (simp add: callbacks_ok_def echo_env_def)
  moreover have "dm_new (?d0, [] :: nat list)" unfolding dm_new_def fst_conv by blast
  moreover have "(dm_step echo_env)\<^sup>*\<^sup>* (?d0, []) (two_codes, [])"
    unfolding two_codes_def by (rule rtranclp.rtrancl_into_rtrancl [OF r_into_rtranclp]) (rule dm_step.bind)+
  ultimately show ?thesis using dmachine_never_faults [of echo_env "(?d0, [])" two_codes "[]"] by blast
qed

text \<open>The longer code was bound first: its first digit already runs the shorter one.\<close>

theorem dmachine_match_order_witness:
  "\<exists>dm. switch_ivr_dmachine_feed echo_env 5 6 two_codes ''1'' [] = Inr (SWITCH_STATUS_FOUND, dm, [8])"
proof -
  let ?ks = "''1'' :: string"
  have f: "dm_realm two_codes = Some 0" "plain (dm_heads two_codes ! 0)" "dm_digits two_codes = []"
      "map bd_digits (dm_heads two_codes ! 0) = [''12'', ''1'']" "map bd_callback (dm_heads two_codes ! 0) = [Some 7, Some 8]"
      "dm_inv two_codes" "unat (dm_max_digit_len two_codes) = 2" "dm_match_callback two_codes = None"
    by (simp_all add: two_codes_def switch_ivr_dmachine_bind_def switch_ivr_dmachine_create_def realm_head_def
        switch_ivr_dmachine_set_realm_def longer_digits_def DMACHINE_MAX_DIGIT_LEN_def dm_inv_def)
  then obtain a b where ab: "dm_heads two_codes ! 0 = [a, b]" "bd_digits a = ''12''" "bd_digits b = ''1''" "bd_callback b = Some 8"
    by auto
  from dmachine_match_order [OF f(6,1,2), of ?ks echo_env 5 6 "[]"] f ab show ?thesis
    by (simp add: ping_found_def run_callback_def echo_env_def with_user_data_def callback_status_def
        switch_ivr_dmachine_check_timeout_def Let_def)
qed

end
