(* ===== verification/Conference_Keys.thy ===== *)
theory Conference_Keys
  imports Conference_Commands Dmachine
begin

text \<open>
  The keys of a caller: \<^verbatim>\<open>mod_conference.c\<close> binds the controls of a configured group with the
  digit machine of \<open>Dmachine\<close>; a code that is typed runs the handler of its control on the
  conference.  The group read from the configuration is a parameter.
\<close>

section \<open>Two more controls\<close>

definition transfer_session :: "ptr \<Rightarrow> string list \<Rightarrow> conf_world \<Rightarrow> conf_world" where
  "transfer_session p argv w =
     (case argv of
        [] \<Rightarrow> w
      | [exten] \<Rightarrow> emit (Transfer_to p exten ''XML'' ''default'') w
      | [exten, dialplan] \<Rightarrow> emit (Transfer_to p exten dialplan ''default'') w
      | exten # dialplan # context # _ \<Rightarrow> emit (Transfer_to p exten dialplan context) w)"

definition conference_loop_fn_transfer :: "caller_control_action \<Rightarrow> ptr \<Rightarrow> conf_world \<Rightarrow> conf_world outcome" where
  "conference_loop_fn_transfer action p w =
     bindE (fire_masked EFLAG_DTMF p
              [Hdr ''Action'' ''transfer'', Hdr ''Dialplan'' (expanded_data action)] w) (\<lambda>w.
     let w = clear_mflag p MFLAG_RUNNING w
     in bindE (member_channel w p) (\<lambda>_.
        bindE (switch_separate_string (Some (expanded_data action)) (CHR '' '') 3) (\<lambda>argv.
          Inr (transfer_session p argv w))))"

definition CF_APP_TAGGED :: uint32 where
  "CF_APP_TAGGED = 1"

definition tag_app :: "(string \<Rightarrow> switch_channel \<Rightarrow> uint32 \<Rightarrow> switch_channel) \<Rightarrow> ptr \<Rightarrow> conf_world \<Rightarrow> conf_world outcome" where
  "tag_app f p w =
     bindE (member_channel w p) (\<lambda>ch. Inr (set_member_channel p (f ''mod_conference.c'' ch CF_APP_TAGGED) w))"

definition execute_app :: "ptr \<Rightarrow> string list \<Rightarrow> conf_world \<Rightarrow> conf_world outcome" where
  "execute_app p argv w =
     (case argv of
        [] \<Rightarrow> Inr w
      | app # rest \<Rightarrow>
          bindE (tag_app switch_channel_set_app_flag_key p w) (\<lambda>w.
            tag_app switch_channel_clear_app_flag_key p
              (emit (Execute_application p app (case rest of [] \<Rightarrow> [] | a # _ \<Rightarrow> a)) w)))"

text \<open>The application runs while the channel is marked; the change of codecs is media.\<close>

definition conference_loop_fn_exec_app :: "caller_control_action \<Rightarrow> ptr \<Rightarrow> conf_world \<Rightarrow> conf_world outcome" where
  "conference_loop_fn_exec_app action p w =
     bindE (fire_masked EFLAG_DTMF p
              [Hdr ''Action'' ''execute_app'', Hdr ''Application'' (expanded_data action)] w) (\<lambda>w.
     bindE (switch_separate_string (Some (expanded_data action)) (CHR '' '') 2) (\<lambda>argv.
       execute_app p argv w))"

section \<open>Binding\<close>

type_synonym conf_key_callback_t = "conf_env \<Rightarrow> caller_control_action \<Rightarrow> ptr \<Rightarrow> conf_world \<Rightarrow> conf_world outcome"

record key_binding =
  kb_member :: ptr
  kb_binded_dtmf :: string
  kb_data :: string
  kb_handler :: conf_key_callback_t

definition control_mappings :: "(string \<times> conf_key_callback_t) list" where
  "control_mappings =
    [(''mute'', \<lambda>env a. conference_loop_fn_mute_toggle),
     (''mute on'', \<lambda>env a. conference_loop_fn_mute_on),
     (''mute off'', \<lambda>env a. conference_loop_fn_mute_off),
     (''deaf mute'', \<lambda>env a. conference_loop_fn_deafmute_toggle),
     (''energy up'', \<lambda>env a. conference_loop_fn_energy_up env),
     (''energy equ'', \<lambda>env a. conference_loop_fn_energy_equ_conf env),
     (''energy dn'', \<lambda>env a. conference_loop_fn_energy_dn env),
     (''vol talk up'', \<lambda>env a. conference_loop_fn_volume_talk_up env),
     (''vol talk zero'', \<lambda>env a. conference_loop_fn_volume_talk_zero env),
     (''vol talk dn'', \<lambda>env a. conference_loop_fn_volume_talk_dn env),
     (''vol listen up'', \<lambda>env a. conference_loop_fn_volume_listen_up env),
     (''vol listen zero'', \<lambda>env a. conference_loop_fn_volume_listen_zero env),
     (''vol listen dn'', \<lambda>env a. conference_loop_fn_volume_listen_dn env),
     (''hangup'', \<lambda>env a p w. Inr (conference_loop_fn_hangup p w)),
     (''event'', \<lambda>env. conference_loop_fn_event),
     (''lock'', \<lambda>env a. conference_loop_fn_lock_toggle env),
     (''transfer'', \<lambda>env. conference_loop_fn_transfer),
     (''execute_application'', \<lambda>env. conference_loop_fn_exec_app)]"

text \<open>Callback 0 is the dispatcher, which gets the binding as its user data.\<close>

definition dmachine_dispatcher :: "conf_env \<Rightarrow> key_binding \<Rightarrow> string \<Rightarrow> conf_world \<Rightarrow> conf_world outcome" where
  "dmachine_dispatcher env b digits w =
     bindE (member_channel w (kb_member b)) (\<lambda>ch.
     bindE (set_variable ch ''conference_last_matching_digits'' (Some digits)) (\<lambda>ch.
     let w = set_member_channel (kb_member b) ch w;
         action = \<lparr>binded_dtmf = kb_binded_dtmf b, expanded_data = expand_variables env ch (kb_data b)\<rparr>
     in bindE (kb_handler b env action (kb_member b) w) (\<lambda>w.
          Inr (set_mflag (kb_member b) MFLAG_FLUSH_BUFFER w))))"

definition conf_dm_env :: "conf_env \<Rightarrow> (string \<Rightarrow> string \<Rightarrow> bool) \<Rightarrow> (key_binding, conf_world) dm_env" where
  "conf_dm_env env regex =
     \<lparr>dm_call = (\<lambda>_ dm w.
        case match_user_data (dm_match dm) of
          None \<Rightarrow> Inr (SWITCH_STATUS_FALSE, dm, w)
        | Some b \<Rightarrow> bindE (dmachine_dispatcher env b (matched_digits dm) w) (\<lambda>w. Inr (SWITCH_STATUS_SUCCESS, dm, w))),
      dm_regex = regex\<rparr>"

definition do_binding ::
    "ptr \<Rightarrow> conf_key_callback_t \<Rightarrow> string \<Rightarrow> string \<Rightarrow> key_binding switch_ivr_dmachine \<Rightarrow> key_binding switch_ivr_dmachine" where
  "do_binding p handler digits data dm =
     snd (switch_ivr_dmachine_bind dm ''conf'' digits 0 (Some 0)
       (Some \<lparr>kb_member = p, kb_binded_dtmf = digits, kb_data = data, kb_handler = handler\<rparr>))"

text \<open>An entry of the group: the attributes action and digits, which may be missing, and data.\<close>

record xcontrol =
  ctl_action :: "string option"
  ctl_digits :: "string option"
  ctl_data :: string

definition bind_control :: "ptr \<Rightarrow> xcontrol \<Rightarrow> key_binding switch_ivr_dmachine \<Rightarrow> key_binding switch_ivr_dmachine" where
  "bind_control p x dm =
     (if zstr (ctl_action x) \<or> zstr (ctl_digits x) then dm
      else fold (\<lambda>(name, handler) dm.
             if strcasecmp_eq (the (ctl_action x)) name
             then do_binding p handler (the (ctl_digits x)) (ctl_data x) dm else dm) control_mappings dm)"

definition member_bind_controls ::
    "ptr \<Rightarrow> xcontrol list option \<Rightarrow> key_binding switch_ivr_dmachine \<Rightarrow> key_binding switch_ivr_dmachine" where
  "member_bind_controls p xgroup dm = (case xgroup of None \<Rightarrow> dm | Some xs \<Rightarrow> fold (bind_control p) xs dm)"

interpretation keys: dm_client "conf_dm_env env regex" "dmachine_dispatcher env" for env regex
  by unfold_locales (simp add: conf_dm_env_def)

section \<open>Controls keep the membership\<close>

lemma kept_flush [simp]: "\<not> stable MFLAG_FLUSH_BUFFER"
  by (simp add: stable_def)

lemma transfer_session_keeps [simp]: "conf_kept (transfer_session p argv w) = conf_kept w"
  by (simp add: transfer_session_def split: list.split)

lemma transfer_keeps: "conference_loop_fn_transfer a p w = Inr w' \<Longrightarrow> conf_kept w' = conf_kept w"
  by (auto simp: conference_loop_fn_transfer_def Let_def bindE_eq_Inr dest!: kept_fire_masked)

lemma tag_app_keeps: "tag_app f p w = Inr w' \<Longrightarrow> conf_kept w' = conf_kept w"
  by (auto simp: tag_app_def bindE_eq_Inr member_channel_def kept_set_channel split: option.splits)

lemma execute_app_keeps: "execute_app p argv w = Inr w' \<Longrightarrow> conf_kept w' = conf_kept w"
  by (cases argv) (auto simp: execute_app_def bindE_eq_Inr dest!: tag_app_keeps)

lemma exec_app_keeps: "conference_loop_fn_exec_app a p w = Inr w' \<Longrightarrow> conf_kept w' = conf_kept w"
  by (auto simp: conference_loop_fn_exec_app_def bindE_eq_Inr dest!: kept_fire_masked execute_app_keeps)

lemma handler_keeps:
  assumes "(n, h) \<in> set control_mappings" and "h env a p w = Inr w'"
  shows "conf_kept w' = conf_kept w"
proof -
  have "conf_control env p w w' \<or> conference_loop_fn_transfer a p w = Inr w' \<or> conference_loop_fn_exec_app a p w = Inr w'"
    using assms by (auto simp: control_mappings_def intro: conf_control.intros)
  then show ?thesis using control_keeps transfer_keeps exec_app_keeps by blast
qed

lemma dispatcher_keeps:
  assumes "dmachine_dispatcher env b ds w = Inr w'" and "(n, kb_handler b) \<in> set control_mappings"
  shows "conf_kept w' = conf_kept w"
  using assms handler_keeps [OF assms(2)]
  by (auto simp: dmachine_dispatcher_def bindE_eq_Inr Let_def member_channel_def kept_set_channel split: option.splits)

section \<open>The bound machine\<close>

text \<open>A control that can be bound: it is known, and its digits are no pattern and not too long.\<close>

definition control_ok :: "xcontrol \<Rightarrow> bool" where
  "control_ok x \<longleftrightarrow>
     (\<exists>a ds. ctl_action x = Some a \<and> ctl_digits x = Some ds \<and> a \<noteq> [] \<and> ds \<noteq> [] \<and> hd ds \<noteq> CHR ''~'' \<and>
       length ds < DMACHINE_MAX_DIGIT_LEN \<and> (\<exists>(name, h)\<in>set control_mappings. strcasecmp_eq a name))"

definition control_handler :: "xcontrol \<Rightarrow> conf_key_callback_t" where
  "control_handler x =
     snd (the (find (\<lambda>(name, h). strcasecmp_eq (the (ctl_action x)) name) control_mappings))"

definition control_binding :: "ptr \<Rightarrow> xcontrol \<Rightarrow> key_binding switch_ivr_dmachine_binding" where
  "control_binding p x =
     \<lparr>bd_digits = the (ctl_digits x), bd_key = 0, bd_callback = Some 0, bd_is_regex = False,
      bd_user_data = Some \<lparr>kb_member = p, kb_binded_dtmf = the (ctl_digits x), kb_data = ctl_data x,
                           kb_handler = control_handler x\<rparr>\<rparr>"

lemma mapping_names_differ: "distinct (map (map c_tolower \<circ> fst) control_mappings)"
  by (simp add: control_mappings_def c_tolower_def)

lemma fold_no_mapping:
  "\<forall>(n, h)\<in>set ms. \<not> strcasecmp_eq a n \<Longrightarrow> fold (\<lambda>(n, h) d. if strcasecmp_eq a n then f h d else d) ms d = d"
  by (induction ms arbitrary: d) auto

lemma fold_one_mapping:
  assumes "distinct (map (map c_tolower \<circ> fst) ms)" and "find (\<lambda>(n, h). strcasecmp_eq a n) ms = Some (n, h)"
  shows "fold (\<lambda>(n, h) d. if strcasecmp_eq a n then f h d else d) ms d = f h d"
  using assms
proof (induction ms arbitrary: d)
  case (Cons m ms)
  obtain n1 h1 where m: "m = (n1, h1)" by fastforce
  show ?case
  proof (cases "strcasecmp_eq a n1")
    case True
    have "\<forall>(n2, h2)\<in>set ms. \<not> strcasecmp_eq a n2"
      using Cons.prems(1) True by (force simp: m strcasecmp_eq_def)
    from fold_no_mapping [OF this] True Cons.prems(2) show ?thesis by (simp add: m)
  qed (use Cons in \<open>simp add: m\<close>)
qed simp

lemma control_found:
  assumes "control_ok x"
  shows "\<exists>n. find (\<lambda>(n, h). strcasecmp_eq (the (ctl_action x)) n) control_mappings = Some (n, control_handler x)"
proof -
  obtain n h where "(n, h) \<in> set control_mappings" "strcasecmp_eq (the (ctl_action x)) n"
    using assms by (auto simp: control_ok_def)
  then have "find (\<lambda>(n, h). strcasecmp_eq (the (ctl_action x)) n) control_mappings \<noteq> None"
    by (auto simp: find_None_iff)
  then show ?thesis by (auto simp: control_handler_def)
qed

lemma control_handler_mapped: "control_ok x \<Longrightarrow> \<exists>n. (n, control_handler x) \<in> set control_mappings"
  using control_found [of x] by (metis find_Some_iff nth_mem)

lemma bind_control_ok:
  assumes "control_ok x"
  shows "bind_control p x dm = do_binding p (control_handler x) (the (ctl_digits x)) (ctl_data x) dm"
proof -
  obtain n where n: "find (\<lambda>(n, h). strcasecmp_eq (the (ctl_action x)) n) control_mappings = Some (n, control_handler x)"
    using control_found [OF assms] by blast
  have "\<not> zstr (ctl_action x)" "\<not> zstr (ctl_digits x)" using assms by (auto simp: control_ok_def zstr_def)
  then show ?thesis
    using fold_one_mapping [OF mapping_names_differ n, of "\<lambda>h. do_binding p h (the (ctl_digits x)) (ctl_data x)" dm]
    by (simp add: bind_control_def)
qed

definition bound :: "uint32 \<Rightarrow> ptr \<Rightarrow> xcontrol list \<Rightarrow> key_binding switch_ivr_dmachine \<Rightarrow> bool" where
  "bound ms p xs dm \<longleftrightarrow>
     typing 0 (map (control_binding p) xs) ms [] dm \<and> length (dm_heads dm) = 1 \<and> dm_binding_hash dm ''conf'' = Some 0"

lemma do_binding_inv: "dm_inv dm \<Longrightarrow> dm_inv (do_binding p h ds data dm)"
  by (simp add: do_binding_def inv_bind)

lemma bound_first:
  assumes "control_ok x"
  shows "bound ms p [x] (bind_control p x (switch_ivr_dmachine_create ms ims None None None))"
proof -
  let ?d = "switch_ivr_dmachine_create ms ims None None None :: key_binding switch_ivr_dmachine"
  obtain ds where "ctl_digits x = Some ds" "ds \<noteq> []" "hd ds \<noteq> CHR ''~''" "length ds < DMACHINE_MAX_DIGIT_LEN"
    using assms by (auto simp: control_ok_def)
  then have "dm_heads (bind_control p x ?d) = [[control_binding p x]] \<and> dm_realm (bind_control p x ?d) = Some 0 \<and>
      dm_binding_hash (bind_control p x ?d) ''conf'' = Some 0 \<and> dm_digit_timeout_ms (bind_control p x ?d) = ms \<and>
      dm_match_callback (bind_control p x ?d) = None \<and> dm_digits (bind_control p x ?d) = []"
    by (simp add: bind_control_ok [OF assms] do_binding_def switch_ivr_dmachine_bind_def switch_ivr_dmachine_create_def
        realm_head_def switch_ivr_dmachine_set_realm_def control_binding_def Let_def)
  moreover have "dm_inv (bind_control p x ?d)"
    unfolding bind_control_ok [OF assms] by (intro do_binding_inv inv_create)
  ultimately show ?thesis by (simp add: bound_def typing_def)
qed

lemma bound_next:
  assumes "control_ok x" and "bound ms p xs dm"
  shows "bound ms p (xs @ [x]) (bind_control p x dm)"
proof -
  obtain ds where "ctl_digits x = Some ds" "ds \<noteq> []" "hd ds \<noteq> CHR ''~''" "length ds < DMACHINE_MAX_DIGIT_LEN"
    using assms by (auto simp: control_ok_def)
  then have "length (dm_heads (bind_control p x dm)) = 1 \<and>
      dm_heads (bind_control p x dm) ! 0 = map (control_binding p) (xs @ [x]) \<and> dm_realm (bind_control p x dm) = Some 0 \<and>
      dm_binding_hash (bind_control p x dm) ''conf'' = Some 0 \<and> dm_digit_timeout_ms (bind_control p x dm) = ms \<and>
      dm_match_callback (bind_control p x dm) = None \<and> dm_digits (bind_control p x dm) = []"
    using assms(2)
    by (simp add: bound_def typing_def bind_control_ok [OF assms(1)] do_binding_def switch_ivr_dmachine_bind_def
        realm_head_def switch_ivr_dmachine_set_realm_def control_binding_def Let_def)
  moreover have "dm_inv (bind_control p x dm)"
    using assms(2) unfolding bind_control_ok [OF assms(1)] by (intro do_binding_inv) (simp add: bound_def typing_def)
  ultimately show ?thesis by (simp add: bound_def typing_def)
qed

lemma bound_all:
  assumes "\<forall>x\<in>set xs. control_ok x" and "xs \<noteq> []"
  shows "bound ms p xs (member_bind_controls p (Some xs) (switch_ivr_dmachine_create ms ims None None None))"
  using assms
proof (induction xs rule: rev_induct)
  case (snoc x xs)
  then show ?case
    using bound_first [of x ms p ims] bound_next [of x ms p xs] by (cases "xs = []") (auto simp: member_bind_controls_def)
qed simp

section \<open>Typed codes run their controls\<close>

fun run_controls :: "conf_env \<Rightarrow> ptr \<Rightarrow> xcontrol list \<Rightarrow> conf_world \<Rightarrow> conf_world outcome" where
  "run_controls env p [] w = Inr w"
| "run_controls env p (x # xs) w =
     bindE (dmachine_dispatcher env (the (bd_user_data (control_binding p x))) (the (ctl_digits x)) w) (run_controls env p xs)"

lemma run_controls_codes: "run_controls env p xs w = run_codes (dmachine_dispatcher env) (map (control_binding p) xs) w"
  by (induction xs arbitrary: w)
    (auto simp: control_binding_def bindE_def split: sum.split)

lemma run_controls_keep:
  "\<forall>x\<in>set xs. control_ok x \<Longrightarrow> run_controls env p xs w = Inr w' \<Longrightarrow> conf_kept w' = conf_kept w"
proof (induction xs arbitrary: w)
  case (Cons x xs)
  obtain n where "(n, control_handler x) \<in> set control_mappings" using control_handler_mapped Cons.prems(1) by auto
  then show ?case using Cons
    by (auto simp: bindE_eq_Inr control_binding_def dest!: dispatcher_keeps [where n = n])
qed simp

text \<open>
  C9. A caller whose controls are bound to codes none of which begins another, and who types
  some of these codes one after the other, each key answered in time: exactly the controls of
  these codes are run, in the order they were typed, each when its last key is pressed; every
  other key is just taken; the machine waits for the next code.  Should a control fault, so does
  the run, at this control.  The membership of the conference stays in order.
\<close>

theorem keys_run_controls:
  assumes "\<forall>x\<in>set xs. control_ok x" and "xs \<noteq> []"
    and "\<forall>x\<in>set xs. \<forall>y\<in>set xs. prefix (the (ctl_digits x)) (the (ctl_digits y)) \<longrightarrow> x = y"
    and "set sel \<subseteq> set xs" and "map fst ks = concat (map (\<lambda>x. the (ctl_digits x)) sel)"
    and "\<forall>(c, now, later)\<in>set ks. in_time ms now later" and "conf_inv w"
  shows "\<exists>dm'. dm_digits dm' = [] \<and>
    feed_keys (conf_dm_env env regex) ks
      (member_bind_controls p (Some xs) (switch_ivr_dmachine_create ms ims None None None)) w =
    bindE (run_controls env p sel w) (\<lambda>w'.
      Inr (concat (map (\<lambda>x. replicate (length (the (ctl_digits x)) - 1) SWITCH_STATUS_SUCCESS @ [SWITCH_STATUS_FOUND]) sel),
           dm', w')) \<and>
    (\<forall>w'. run_controls env p sel w = Inr w' \<longrightarrow> conf_inv w')"
proof -
  let ?bs = "map (control_binding p) xs"
  have pf: "control_binding p x = control_binding p y" if "x \<in> set xs" "y \<in> set xs"
      "prefix (bd_digits (control_binding p x)) (bd_digits (control_binding p y))" for x y
    using assms(3) that by (auto simp: control_binding_def)
  have "the (ctl_digits x) \<noteq> []" if "x \<in> set xs" for x using assms(1) that by (auto simp: control_ok_def)
  then have "\<forall>b\<in>set ?bs. bd_digits b \<noteq> [] \<and> bd_callback b \<noteq> None \<and> bd_user_data b \<noteq> None"
    by (simp add: control_binding_def)
  moreover have "plain ?bs" by (simp add: plain_def control_binding_def)
  ultimately have code: "prefix_code ?bs" unfolding prefix_code_def set_map using pf by blast
  have ty: "typing 0 ?bs ms [] (member_bind_controls p (Some xs) (switch_ivr_dmachine_create ms ims None None None))"
    using bound_all [OF assms(1,2), of ms p ims] by (simp add: bound_def)
  have sub: "set (map (control_binding p) sel) \<subseteq> set ?bs" using assms(4) by auto
  have ks: "map fst ks = concat (map bd_digits (map (control_binding p) sel))"
    using assms(5) by (simp add: control_binding_def comp_def)
  from keys.feed_codes [OF code ty sub ks assms(6), of env regex w] obtain dm' where
    "typing 0 ?bs ms [] dm'" "feed_keys (conf_dm_env env regex) ks
      (member_bind_controls p (Some xs) (switch_ivr_dmachine_create ms ims None None None)) w =
      bindE (run_codes (dmachine_dispatcher env) (map (control_binding p) sel) w)
        (\<lambda>w. Inr (code_statuses (map (control_binding p) sel), dm', w))"
    by blast
  moreover have "conf_inv w'" if "run_controls env p sel w = Inr w'" for w'
    using run_controls_keep [OF _ that] assms(1,4,7) by (blast intro: kept_inv)
  ultimately show ?thesis
    by (intro exI [of _ dm'])
      (simp add: run_controls_codes code_statuses_def control_binding_def comp_def typing_def)
qed

definition hangup_control :: xcontrol where
  "hangup_control = \<lparr>ctl_action = Some ''hangup'', ctl_digits = Some ''99'', ctl_data = []\<rparr>"

definition two_controls :: "xcontrol list" where
  "two_controls = [\<lparr>ctl_action = Some ''mute'', ctl_digits = Some ''0'', ctl_data = []\<rparr>,
                   hangup_control]"

theorem keys_run_controls_witness:
  "\<exists>dm' w'. feed_keys (conf_dm_env plain_env (\<lambda>_ _. False)) [(CHR ''9'', 1, 2), (CHR ''9'', 1000, 1001)]
      (member_bind_controls 2 (Some two_controls) (switch_ivr_dmachine_create 2000 0 None None None)) sample_world =
        Inr ([SWITCH_STATUS_SUCCESS, SWITCH_STATUS_FOUND], dm', w') \<and> \<not> mflag w' 2 MFLAG_RUNNING"
proof -
  let ?sel = "[hangup_control]"
  have ok: "\<forall>x\<in>set two_controls. control_ok x"
    by (simp add: two_controls_def hangup_control_def control_ok_def control_mappings_def strcasecmp_eq_def c_tolower_def DMACHINE_MAX_DIGIT_LEN_def)
  have h: "control_handler (hangup_control) = (\<lambda>env a p w. Inr (conference_loop_fn_hangup p w))"
    by (simp add: control_handler_def two_controls_def hangup_control_def control_mappings_def strcasecmp_eq_def c_tolower_def)
  have ch: "m_session (mem sample_world 2) = Some blank_channel" "variables blank_channel = None"
    by (simp_all add: sample_world_def caller_def blank_channel_def)
  have r: "\<exists>w'. run_controls plain_env 2 ?sel sample_world = Inr w' \<and> \<not> mflag w' 2 MFLAG_RUNNING"
    by (simp add: control_binding_def h dmachine_dispatcher_def member_channel_def ch set_variable_none Let_def
        conference_loop_fn_hangup_def set_mflag_def clear_mflag_def upd_mem_def)
  have inv: "conf_inv sample_world"
    by (rule conf_fresh_inv) (simp add: conf_fresh_def sample_world_def plain_conf_def caller_def)
  have "two_controls \<noteq> []" "set ?sel \<subseteq> set two_controls"
    "\<forall>x\<in>set two_controls. \<forall>y\<in>set two_controls. prefix (the (ctl_digits x)) (the (ctl_digits y)) \<longrightarrow> x = y"
    "map fst [(CHR ''9'', 1, 2), (CHR ''9'', 1000, 1001 :: int)] = concat (map (\<lambda>x. the (ctl_digits x)) ?sel)"
    "\<forall>(c, now, later)\<in>set [(CHR ''9'', 1, 2), (CHR ''9'', 1000, 1001)]. in_time 2000 now later"
    by (simp_all add: two_controls_def hangup_control_def in_time_def)
  from keys_run_controls [OF ok this(1,3,2,4,5) inv, of plain_env "\<lambda>_ _. False" 2 0] r
  show ?thesis by (auto simp: two_controls_def hangup_control_def)
qed

end
