(* ===== verification/Conference_Voice.thy ===== *)
theory Conference_Voice
  imports Conference_Keys
begin

text \<open>
  The input loop of a member, \<open>conference_loop_input\<close> of \<^verbatim>\<open>mod_conference.c\<close>: frames of
  the call leg are measured, the automatic gain is adjusted, the beginning and the end of talking
  are told in events, audio that is let through is put in the buffer the mixing thread reads, and
  the floor moves to who talks.

  The frames are given by a list of reads; a read also gives the world that the other threads
  leave while it waits.  A frame is the block of samples it points to and its length in bytes.
\<close>

section \<open>Data\<close>

definition SCORE_MAX_IIR :: uint32 where
  "SCORE_MAX_IIR = 25000"

definition SCORE_IIR_SPEAKING_MAX :: uint32 where
  "SCORE_IIR_SPEAKING_MAX = 3000"

definition SCORE_IIR_SPEAKING_MIN :: uint32 where
  "SCORE_IIR_SPEAKING_MIN = 100"

text \<open>\<open>0.8\<close> as a \<open>double\<close>, in units of \<open>2 ^ -60\<close>.\<close>

definition SCORE_DECAY :: int where
  "SCORE_DECAY = dbl_const 8 10"

record switch_codec_implementation =
  actual_samples_per_second :: uint32
  samples_per_packet :: uint32
  number_of_channels :: uint8

record switch_frame =
  fr_cng :: bool
  fr_data :: "int16 list"
  fr_datalen :: uint32

text \<open>
  What the loop is given: the environment of the conference, \<open>realloc\<close>, the codec, the
  resampler (a library) if there is one, and the size of the block its result is copied to.
\<close>

record input_env =
  i_env :: conf_env
  i_heap :: heap
  i_session :: session_view
  i_impl :: switch_codec_implementation
  i_resampler :: "(int16 list \<Rightarrow> int16 list) option"
  i_frame_size :: nat

text \<open>The local variables that live from frame to frame.\<close>

record talk_vars =
  hangover_hits :: uint32
  hangunder_hits :: uint32

definition hangover :: uint32 where "hangover = 40"

definition hangunder :: uint32 where "hangunder = 5"

definition diff_level :: uint32 where "diff_level = 400"

section \<open>Levels\<close>

text \<open>Both comparisons convert the signed level to the unsigned type of the score.\<close>

definition noise_gate_check :: "conference_obj \<Rightarrow> conference_member \<Rightarrow> bool" where
  "noise_gate_check c m \<longleftrightarrow>
     (if c_agc_level c \<noteq> 0 \<and> m_agc_volume_in_level m \<noteq> 0
      then let target_score = m_energy_level m + 25 * m_agc_volume_in_level m
           in m_score m > word_of_int (if target_score < 0 then 0 else target_score)
      else m_score m > word_of_int (m_energy_level m))"

definition clear_avg :: "conference_member \<Rightarrow> conference_member" where
  "clear_avg m = m\<lparr>m_avg_score := 0, m_avg_itt := 0, m_avg_tally := 0, m_agc_concur := 0\<rparr>"

definition check_agc_levels :: "conference_obj \<Rightarrow> conference_member \<Rightarrow> conference_member" where
  "check_agc_levels c m =
     (if m_avg_score m = 0 then m
      else if m_avg_score m < word_of_int (c_agc_level c - 100)
        then clear_avg (m\<lparr>m_agc_volume_in_level := switch_normalize_volume_granular (m_agc_volume_in_level m + 1)\<rparr>)
      else if m_avg_score m > word_of_int (c_agc_level c + 100)
        then clear_avg (m\<lparr>m_agc_volume_in_level := switch_normalize_volume_granular (m_agc_volume_in_level m - 1)\<rparr>)
      else m)"

text \<open>
  The energy of a frame: the loop runs once per sample of the frame and takes every
  \<open>number_of_channels\<close>-th sample of the block.
\<close>

fun energy_loop :: "nat \<Rightarrow> nat \<Rightarrow> nat \<Rightarrow> int16 list \<Rightarrow> uint32 \<Rightarrow> uint32 outcome" where
  "energy_loop 0 channels j data energy = Inr energy"
| "energy_loop (Suc n) channels j data energy =
     (if j < length data
      then energy_loop n channels (j + channels) data (energy + word_of_int \<bar>sint (data ! j)\<bar>)
      else Inl OutOfBounds)"

definition frame_score :: "switch_codec_implementation \<Rightarrow> switch_frame \<Rightarrow> uint32 outcome" where
  "frame_score impl fr =
     (let samples = fr_datalen fr div 2 in
      if samples = 0 then Inr 0
      else bindE (energy_loop (unat samples) (unat (number_of_channels impl)) 0 (fr_data fr) 0)
             (\<lambda>energy. Inr (energy div samples)))"

text \<open>
  The running score.  Both scores are below \<open>2 ^ 24\<close>, so their conversion to \<open>float\<close> is
  exact; the products and the sum are rounded as \<open>double\<close>s.
\<close>

definition next_score_iir :: "uint32 \<Rightarrow> uint32 \<Rightarrow> uint32" where
  "next_score_iir score iir =
     (let r = word_of_int (dbl_round (dbl_round (uint score * (2 ^ 60 - SCORE_DECAY)) +
                                      dbl_round (uint iir * SCORE_DECAY)) div 2 ^ 60)
      in if r > SCORE_MAX_IIR then SCORE_MAX_IIR else r)"

definition frame_volume :: "conference_member \<Rightarrow> switch_frame \<Rightarrow> switch_frame outcome" where
  "frame_volume m fr =
     (let n = unat (fr_datalen fr) div 2 in
      bindE (switch_change_sln_volume (fr_data fr) n (m_volume_in_level m)) (\<lambda>d.
      bindE (switch_change_sln_volume_granular d n (m_agc_volume_in_level m)) (\<lambda>d.
        Inr (fr\<lparr>fr_data := d\<rparr>))))"

definition packets_per_second :: "switch_codec_implementation \<Rightarrow> uint32" where
  "packets_per_second impl = actual_samples_per_second impl div samples_per_packet impl"

text \<open>The gain: the average over frames that pass the gate, looked at four times a second.\<close>

definition agc_average :: "conference_member \<Rightarrow> conference_member" where
  "agc_average m =
     (if m_score m \<noteq> 0 \<and> m_last_score m \<noteq> 0 \<and> \<bar>sint (m_last_score m - m_score m)\<bar> > 900 then m
      else let tally = m_avg_tally m + m_score m;
               itt = (if m_avg_itt m + 1 = 0 then 1 else m_avg_itt m + 1)
           in m\<lparr>m_avg_tally := tally, m_avg_itt := itt, m_avg_score := tally div itt\<rparr>)"

definition agc_frame :: "switch_codec_implementation \<Rightarrow> conference_obj \<Rightarrow> conference_member \<Rightarrow> conference_member" where
  "agc_frame impl c m =
     (if c_agc_level c \<noteq> 0 \<and> m_score m \<noteq> 0 \<and> MFLAG_CAN_SPEAK \<in> m_flags m \<and> noise_gate_check c m
      then let m = agc_average m;
               concur = m_agc_concur m + 1
           in if concur \<ge> uint (packets_per_second impl div 4)
              then (if m_vol_period m = 0 then check_agc_levels c (m\<lparr>m_agc_concur := concur\<rparr>)
                    else m)\<lparr>m_agc_concur := 0\<rparr>
              else m\<lparr>m_agc_concur := concur\<rparr>
      else m\<lparr>m_nt_tally := m_nt_tally m + 1\<rparr>)"

definition measure_member ::
    "switch_codec_implementation \<Rightarrow> conference_obj \<Rightarrow> uint32 \<Rightarrow> conference_member \<Rightarrow> conference_member" where
  "measure_member impl c score m =
     (let m = m\<lparr>m_score := score, m_vol_period := (if m_vol_period m = 0 then 0 else m_vol_period m - 1)\<rparr>;
          m = agc_frame impl c m
      in m\<lparr>m_score_iir := next_score_iir (m_score m) (m_score_iir m)\<rparr>)"

section \<open>Talking\<close>

definition fire_if :: "event_type_t \<Rightarrow> ptr \<Rightarrow> string \<Rightarrow> conf_world \<Rightarrow> conf_world" where
  "fire_if f p action w = (if test_eflag w f then fire_member p [Hdr ''Action'' action] w else w)"

definition no_hits :: talk_vars where
  "no_hits = \<lparr>hangover_hits = 0, hangunder_hits = 0\<rparr>"

definition dec_hits :: "uint32 \<Rightarrow> uint32" where
  "dec_hits n = (if n = 0 then 0 else n - 1)"

text \<open>One more quiet frame of a member that talks.\<close>

definition quiet_hit :: "ptr \<Rightarrow> talk_vars \<Rightarrow> conf_world \<Rightarrow> talk_vars \<times> conf_world" where
  "quiet_hit p v w =
     (let hits = hangover_hits v + 1 in
      if hits \<ge> hangover
      then (no_hits,
            fire_if EFLAG_STOP_TALKING p ''stop-talking''
              (upd_mem p (\<lambda>m. clear_avg (check_agc_levels (conf w) m)) (clear_mflag p MFLAG_TALKING w)))
      else (v\<lparr>hangover_hits := hits\<rparr>, w))"

definition cng_frame :: "ptr \<Rightarrow> talk_vars \<Rightarrow> conf_world \<Rightarrow> talk_vars \<times> conf_world" where
  "cng_frame p v w =
     (let w = (if c_agc_level (conf w) = 0 then w else upd_mem p (\<lambda>m. m\<lparr>m_nt_tally := m_nt_tally m + 1\<rparr>) w);
          v = v\<lparr>hangunder_hits := dec_hits (hangunder_hits v)\<rparr>
      in if mflag w p MFLAG_TALKING then quiet_hit p v w else (v, w))"

definition start_talking :: "ptr \<Rightarrow> conf_world \<Rightarrow> conf_world" where
  "start_talking p w =
     (if mflag w p MFLAG_TALKING then w
      else
        let w = set_mflag p MFLAG_TALKING w;
            w = (if mflag w p MFLAG_CAN_SPEAK then fire_if EFLAG_START_TALKING p ''start-talking'' w else w)
        in if mflag w p MFLAG_MUTE_DETECT \<and> \<not> mflag w p MFLAG_CAN_SPEAK
           then fire_if EFLAG_MUTE_DETECT p ''mute-detect''
                  (if zstr (c_mute_detect_sound (conf w)) then w else set_mflag p MFLAG_INDICATE_MUTE_DETECT w)
           else w)"

definition set_nt_tally :: "(int \<Rightarrow> int) \<Rightarrow> ptr \<Rightarrow> conf_world \<Rightarrow> conf_world" where
  "set_nt_tally f p w =
     (if c_agc_level (conf w) = 0 then w else upd_mem p (\<lambda>m. m\<lparr>m_nt_tally := f (m_nt_tally m)\<rparr>) w)"

text \<open>The Boolean is \<open>check_floor_change\<close>.\<close>

definition loud_frame :: "conf_env \<Rightarrow> ptr \<Rightarrow> talk_vars \<Rightarrow> conf_world \<Rightarrow> bool \<times> talk_vars \<times> conf_world" where
  "loud_frame env p v w =
     (let diff = m_score (mem w p) - word_of_int (m_energy_level (mem w p));
          v = v\<lparr>hangover_hits := dec_hits (hangover_hits v)\<rparr>;
          w = set_nt_tally (\<lambda>_. 0) p w
      in if diff \<ge> diff_level \<or> hangunder_hits v + 1 \<ge> hangunder
         then (True, no_hits,
               start_talking p (upd_mem p (\<lambda>m. m\<lparr>m_last_talking := epoch_time_now env\<rparr>) w))
         else (False, v\<lparr>hangunder_hits := hangunder_hits v + 1\<rparr>, w))"

definition quiet_frame :: "ptr \<Rightarrow> talk_vars \<Rightarrow> conf_world \<Rightarrow> talk_vars \<times> conf_world" where
  "quiet_frame p v w =
     (let v = v\<lparr>hangunder_hits := dec_hits (hangunder_hits v)\<rparr>;
          w = set_nt_tally (\<lambda>n. n + 1) p w
      in if mflag w p MFLAG_TALKING \<and> mflag w p MFLAG_CAN_SPEAK then quiet_hit p v w else (v, w))"

definition detect_talking ::
    "conf_env \<Rightarrow> ptr \<Rightarrow> talk_vars \<Rightarrow> conf_world \<Rightarrow> bool \<times> talk_vars \<times> conf_world" where
  "detect_talking env p v w =
     (let (floor, v, w) = (if noise_gate_check (conf w) (mem w p) then loud_frame env p v w
                           else (False, quiet_frame p v w))
      in (floor, v, upd_mem p (\<lambda>m. m\<lparr>m_last_score := m_score m\<rparr>) w))"

section \<open>Passing the audio on\<close>

definition lets_through :: "ptr \<Rightarrow> conf_world \<Rightarrow> bool" where
  "lets_through p w \<longleftrightarrow>
     (mflag w p MFLAG_TALKING \<or> m_energy_level (mem w p) = 0) \<and> mflag w p MFLAG_CAN_SPEAK \<and>
     \<not> cflag w CFLAG_WAIT_MOD"

text \<open>The bytes of a frame, or of the frame resampled into the member's own block.\<close>

definition frame_bytes :: "input_env \<Rightarrow> switch_frame \<Rightarrow> switch_byte_t list outcome" where
  "frame_bytes ie fr =
     (if unat (fr_datalen fr) > 2 * length (fr_data fr) then Inl OutOfBounds
      else case i_resampler ie of
             None \<Rightarrow> Inr (take (unat (fr_datalen fr)) (bytes_of (fr_data fr)))
           | Some f \<Rightarrow>
               let to = f (take (unat (fr_datalen fr) div 2) (fr_data fr))
               in if 2 * length to \<le> i_frame_size ie then Inr (bytes_of to) else Inl OutOfBounds)"

text \<open>The Boolean says whether the loop goes on: a failed write ends it.\<close>

definition pass_on :: "input_env \<Rightarrow> ptr \<Rightarrow> switch_frame \<Rightarrow> conf_world \<Rightarrow> (bool \<times> conf_world) outcome" where
  "pass_on ie p fr w =
     (if \<not> lets_through p w then Inr (True, w)
      else bindE (frame_bytes ie fr) (\<lambda>bytes.
        if bytes = [] then Inr (True, w)
        else bindE (switch_buffer_write (i_heap ie) (m_audio_buffer (mem w p)) bytes) (\<lambda>(b, r).
          Inr (r \<noteq> 0, upd_mem p (\<lambda>m. m\<lparr>m_audio_buffer := b\<rparr>) w))))"

section \<open>The floor\<close>

definition takes_floor :: "ptr \<Rightarrow> switch_channel \<Rightarrow> conf_world \<Rightarrow> bool" where
  "takes_floor p ch w \<longleftrightarrow>
     (case c_floor_holder (conf w) of
        None \<Rightarrow> True
      | Some h \<Rightarrow> \<not> mflag w h MFLAG_TALKING \<or>
          (m_score_iir (mem w p) > SCORE_IIR_SPEAKING_MAX \<and> m_score_iir (mem w h) < SCORE_IIR_SPEAKING_MIN)) \<and>
     (cflag w CFLAG_VID_FLOOR \<longrightarrow> switch_channel_test_flag ch CF_VIDEO \<noteq> 0)"

definition floor_change :: "ptr \<Rightarrow> switch_channel \<Rightarrow> conf_world \<Rightarrow> conf_world" where
  "floor_change p ch w =
     (if \<not> takes_floor p ch w then w
      else
        let (old, new) = (case c_floor_holder (conf w) of
                            None \<Rightarrow> (0, 0)
                          | Some h \<Rightarrow> (m_id (mem w h), m_id (mem w p)));
            w = (if test_eflag w EFLAG_FLOOR_CHANGE
                 then fire_member p [Hdr ''Action'' ''floor-change'', Hdr ''Old-ID'' (show_int (sint old)),
                                     Hdr ''New-ID'' (show_int (sint new))] w
                 else w)
        in upd_conf (\<lambda>c. c\<lparr>c_floor_holder := Some p\<rparr>) w)"

section \<open>The loop\<close>

text \<open>Three seconds without talk take the gain back; without automatic gain there is no average.\<close>

definition settle_gain :: "switch_codec_implementation \<Rightarrow> ptr \<Rightarrow> conf_world \<Rightarrow> conf_world" where
  "settle_gain impl p w =
     (let w = (if word_of_int (m_nt_tally (mem w p)) > packets_per_second impl * 3
               then upd_mem p (\<lambda>m. clear_avg (m\<lparr>m_agc_volume_in_level := 0\<rparr>)) w else w)
      in if c_agc_level (conf w) = 0 then upd_mem p clear_avg w else w)"

text \<open>A frame of media up to the buffer; the Booleans are \<open>check_floor_change\<close> and going on.\<close>

definition media_frame ::
    "input_env \<Rightarrow> ptr \<Rightarrow> switch_frame \<Rightarrow> talk_vars \<Rightarrow> conf_world \<Rightarrow> (bool \<times> bool \<times> talk_vars \<times> conf_world) outcome" where
  "media_frame ie p fr v w =
     (let impl = i_impl ie in
      if samples_per_packet impl = 0 then Inl DivideByZero
      else
        let w = settle_gain impl p w
        in bindE (if mflag w p MFLAG_CAN_SPEAK \<or> mflag w p MFLAG_MUTE_DETECT
                  then bindE (frame_volume (mem w p) fr) (\<lambda>fr.
                       bindE (frame_score impl fr) (\<lambda>score.
                         let w = upd_mem p (measure_member impl (conf w) score) w
                         in Inr (fr, detect_talking (i_env ie) p v w)))
                  else Inr (fr, False, v, w)) (\<lambda>(fr, floor, v, w).
           bindE (pass_on ie p fr w) (\<lambda>(go, w). Inr (floor, go, v, w))))"

definition input_frame ::
    "input_env \<Rightarrow> ptr \<Rightarrow> switch_frame \<Rightarrow> talk_vars \<Rightarrow> conf_world \<Rightarrow> (bool \<times> talk_vars \<times> conf_world) outcome" where
  "input_frame ie p fr v w =
     (if \<not> m_conference (mem w p) then Inl NullPointer
      else if fr_cng fr then Inr (True, cng_frame p v w)
      else bindE (media_frame ie p fr v w) (\<lambda>(floor, go, v, w).
        if go \<and> floor
        then bindE (member_channel w p) (\<lambda>ch. Inr (True, v, floor_change p ch w))
        else Inr (go, v, w)))"

definition SWITCH_READ_ACCEPTABLE :: "switch_status_t \<Rightarrow> bool" where
  "SWITCH_READ_ACCEPTABLE status \<longleftrightarrow> status = SWITCH_STATUS_SUCCESS \<or> status = SWITCH_STATUS_BREAK"

type_synonym frame_read = "conf_world \<Rightarrow> switch_status_t \<times> switch_frame \<times> conf_world"

text \<open>
  The loop over reads.  A channel that runs an application is waited for: this uses up a read.
  The thread ends with its flag cleared; when the list is used up the loop is still running.
\<close>

definition input_end :: "ptr \<Rightarrow> conf_world \<Rightarrow> conf_world" where
  "input_end p w = clear_mflag p MFLAG_ITHREAD w"

fun input_loop ::
    "input_env \<Rightarrow> ptr \<Rightarrow> frame_read list \<Rightarrow> talk_vars \<Rightarrow> conf_world \<Rightarrow> (bool \<times> talk_vars \<times> conf_world) outcome" where
  "input_loop ie p [] v w = Inr (True, v, w)"
| "input_loop ie p (r # rs) v w =
     bindE (member_channel w p) (\<lambda>ch.
     if \<not> mflag w p MFLAG_RUNNING \<or> \<not> switch_channel_test_ready (i_session ie) ch True False
     then Inr (False, v, input_end p w)
     else if switch_channel_test_app_flag_key ''mod_conference.c'' ch CF_APP_TAGGED \<noteq> 0
     then input_loop ie p rs v (snd (snd (r w)))
     else let (status, fr, w) = r w in
       if \<not> SWITCH_READ_ACCEPTABLE status \<or> \<not> mflag w p MFLAG_RUNNING
       then Inr (False, v, input_end p w)
       else bindE (input_frame ie p fr v w) (\<lambda>(go, v, w).
         if go then input_loop ie p rs v w else Inr (False, v, input_end p w)))"

definition conference_loop_input ::
    "input_env \<Rightarrow> ptr \<Rightarrow> frame_read list \<Rightarrow> conf_world \<Rightarrow> (bool \<times> talk_vars \<times> conf_world) outcome" where
  "conference_loop_input ie p rs w =
     bindE (member_channel w p) (\<lambda>_. input_loop ie p rs no_hits (clear_mflag p MFLAG_TALKING w))"

section \<open>What a frame leaves alone\<close>

text \<open>The part of a member that measuring and the detection of talking do not touch.\<close>

definition unmeasured :: "conference_member \<Rightarrow> conference_member" where
  "unmeasured m = m\<lparr>m_flags := m_flags m - {MFLAG_TALKING, MFLAG_INDICATE_MUTE_DETECT}, m_score := 0,
     m_score_iir := 0, m_agc_volume_in_level := 0, m_last_talking := 0, m_last_score := 0,
     m_vol_period := 0, m_agc_concur := 0, m_nt_tally := 0, m_avg_score := 0, m_avg_itt := 0, m_avg_tally := 0\<rparr>"

definition voice_rest :: "ptr \<Rightarrow> conf_world \<Rightarrow> conference_obj \<times> (ptr \<Rightarrow> conference_member)" where
  "voice_rest p w = (conf w, (mem w)(p := unmeasured (mem w p)))"

lemma rest_mem [simp]: "(\<And>m. unmeasured (f m) = unmeasured m) \<Longrightarrow> voice_rest p (upd_mem p f w) = voice_rest p w"
  by (simp add: voice_rest_def upd_mem_def)

lemma rest_emit [simp]: "voice_rest p (emit e w) = voice_rest p w"
  by (simp add: voice_rest_def emit_def)

lemma rest_fire [simp]: "voice_rest p (fire_member q hs w) = voice_rest p w" "voice_rest p (fire_if f q a w) = voice_rest p w"
  by (simp_all add: fire_member_def fire_if_def)

lemma unmeasured_clear_avg [simp]: "unmeasured (clear_avg m) = unmeasured m"
  by (simp add: unmeasured_def clear_avg_def)

lemma unmeasured_agc [simp]: "unmeasured (check_agc_levels c m) = unmeasured m"
  by (simp add: check_agc_levels_def) (simp add: unmeasured_def)

lemma unmeasured_average [simp]: "unmeasured (agc_average m) = unmeasured m"
  by (simp add: agc_average_def unmeasured_def Let_def)

lemma unmeasured_fields [simp]:
  "unmeasured (m\<lparr>m_nt_tally := a\<rparr>) = unmeasured m" "unmeasured (m\<lparr>m_last_talking := b\<rparr>) = unmeasured m"
  "unmeasured (m\<lparr>m_last_score := s\<rparr>) = unmeasured m" "unmeasured (m\<lparr>m_agc_concur := a\<rparr>) = unmeasured m"
  "unmeasured (m\<lparr>m_score_iir := s\<rparr>) = unmeasured m" "unmeasured (m\<lparr>m_score := s\<rparr>) = unmeasured m"
  "unmeasured (m\<lparr>m_vol_period := s\<rparr>) = unmeasured m" "unmeasured (m\<lparr>m_agc_volume_in_level := a\<rparr>) = unmeasured m"
  by (simp_all add: unmeasured_def)

lemma unmeasured_agc_frame [simp]: "unmeasured (agc_frame impl c m) = unmeasured m"
  by (simp add: agc_frame_def Let_def)

lemma unmeasured_measure [simp]: "unmeasured (measure_member impl c s m) = unmeasured m"
  by (simp add: measure_member_def Let_def)

lemma unmeasured_flags:
  "F - {MFLAG_TALKING, MFLAG_INDICATE_MUTE_DETECT} = m_flags m - {MFLAG_TALKING, MFLAG_INDICATE_MUTE_DETECT} \<Longrightarrow>
   unmeasured (m\<lparr>m_flags := F\<rparr>) = unmeasured m"
  by (simp add: unmeasured_def)

lemma rest_flags [simp]:
  "f \<in> {MFLAG_TALKING, MFLAG_INDICATE_MUTE_DETECT} \<Longrightarrow> voice_rest p (set_mflag p f w) = voice_rest p w"
  "f \<in> {MFLAG_TALKING, MFLAG_INDICATE_MUTE_DETECT} \<Longrightarrow> voice_rest p (clear_mflag p f w) = voice_rest p w"
  unfolding set_mflag_def clear_mflag_def by (rule rest_mem, rule unmeasured_flags, blast)+

lemma rest_quiet_hit [simp]: "voice_rest p (snd (quiet_hit p v w)) = voice_rest p w"
  by (simp add: quiet_hit_def Let_def)

lemma rest_nt_tally [simp]: "voice_rest p (set_nt_tally f p w) = voice_rest p w"
  by (simp add: set_nt_tally_def)

lemma rest_cng [simp]: "voice_rest p (snd (cng_frame p v w)) = voice_rest p w"
  by (simp add: cng_frame_def Let_def)

lemma rest_settle [simp]: "voice_rest p (settle_gain impl p w) = voice_rest p w"
  by (simp add: settle_gain_def Let_def)

lemma rest_start [simp]: "voice_rest p (start_talking p w) = voice_rest p w"
  by (simp add: start_talking_def Let_def)

lemma rest_loud [simp]: "voice_rest p (snd (snd (loud_frame env p v w))) = voice_rest p w"
  by (simp add: loud_frame_def Let_def)

lemma rest_quiet [simp]: "voice_rest p (snd (quiet_frame p v w)) = voice_rest p w"
  by (simp add: quiet_frame_def Let_def)

lemma rest_detect [simp]: "voice_rest p (snd (snd (detect_talking env p v w))) = voice_rest p w"
  by (simp add: detect_talking_def Let_def split: prod.split) (metis rest_loud rest_quiet snd_conv)

lemma rest_eqD:
  assumes "voice_rest p w' = voice_rest p w"
  shows "conf w' = conf w" "q \<noteq> p \<Longrightarrow> mem w' q = mem w q" "m_session (mem w' q) = m_session (mem w q)"
    "m_id (mem w' q) = m_id (mem w q)" "m_conference (mem w' q) = m_conference (mem w q)"
    "m_audio_buffer (mem w' q) = m_audio_buffer (mem w q)"
    "m_energy_level (mem w' q) = m_energy_level (mem w q)"
    "m_volume_in_level (mem w' q) = m_volume_in_level (mem w q)"
    "f \<notin> {MFLAG_TALKING, MFLAG_INDICATE_MUTE_DETECT} \<Longrightarrow> mflag w' q f = mflag w q f"
proof -
  have m: "(mem w')(p := unmeasured (mem w' p)) = (mem w)(p := unmeasured (mem w p))" and c: "conf w' = conf w"
    using assms by (simp_all add: voice_rest_def)
  show "conf w' = conf w" by (rule c)
  show o: "mem w' q = mem w q" if "q \<noteq> p" for q using fun_cong [OF m, of q] that by simp
  have "unmeasured (mem w' q) = unmeasured (mem w q)" using fun_cong [OF m, of q] o [of q] by (cases "q = p") simp_all
  then have u: "g (unmeasured (mem w' q)) = g (unmeasured (mem w q))" for g :: "conference_member \<Rightarrow> 'b" by simp
  show "m_session (mem w' q) = m_session (mem w q)" using u [of m_session] by (simp add: unmeasured_def)
  show "m_id (mem w' q) = m_id (mem w q)" using u [of m_id] by (simp add: unmeasured_def)
  show "m_conference (mem w' q) = m_conference (mem w q)" using u [of m_conference] by (simp add: unmeasured_def)
  show "m_audio_buffer (mem w' q) = m_audio_buffer (mem w q)" using u [of m_audio_buffer] by (simp add: unmeasured_def)
  show "m_energy_level (mem w' q) = m_energy_level (mem w q)" using u [of m_energy_level] by (simp add: unmeasured_def)
  show "m_volume_in_level (mem w' q) = m_volume_in_level (mem w q)"
    using u [of m_volume_in_level] by (simp add: unmeasured_def)
  show "mflag w' q f = mflag w q f" if "f \<notin> {MFLAG_TALKING, MFLAG_INDICATE_MUTE_DETECT}"
    using u [of "\<lambda>m. f \<in> m_flags m"] that by (simp add: unmeasured_def)
qed

section \<open>The detection of talking as a small machine\<close>

text \<open>
  Seen from the member, a frame is quiet, over the threshold, or far over it; the state is
  whether the member talks, the quiet frames counted while it does, and the frames over the
  threshold counted lately.
\<close>

datatype loudness = Quiet | Over | Loud

fun talk_next :: "loudness \<Rightarrow> bool \<times> nat \<times> nat \<Rightarrow> bool \<times> nat \<times> nat" where
  "talk_next Quiet (talks, q, k) =
     (if \<not> talks then (False, q, k - 1)
      else if q + 1 \<ge> 40 then (False, 0, 0) else (True, q + 1, k - 1))"
| "talk_next Over (talks, q, k) =
     (if k + 1 \<ge> 5 then (True, 0, 0) else (talks, q - 1, k + 1))"
| "talk_next Loud s = (True, 0, 0)"

definition loudness_of :: "conference_obj \<Rightarrow> conference_member \<Rightarrow> loudness" where
  "loudness_of c m =
     (if \<not> noise_gate_check c m then Quiet
      else if m_score m - word_of_int (m_energy_level m) \<ge> diff_level then Loud else Over)"

definition talk_abs :: "ptr \<Rightarrow> talk_vars \<Rightarrow> conf_world \<Rightarrow> bool \<times> nat \<times> nat" where
  "talk_abs p v w = (mflag w p MFLAG_TALKING, unat (hangover_hits v), unat (hangunder_hits v))"

definition hits_ok :: "talk_vars \<Rightarrow> bool" where
  "hits_ok v \<longleftrightarrow> unat (hangover_hits v) < 40 \<and> unat (hangunder_hits v) < 5"

lemma hits_Suc: "unat n < 40 \<Longrightarrow> unat (n + 1 :: uint32) = Suc (unat n)"
  by (simp add: unat_word_ariths)

lemma unat_dec_hits [simp]: "unat (dec_hits n) = unat n - 1"
  by (auto simp: dec_hits_def unat_sub unat_gt_0 word_le_nat_alt Suc_le_eq)

lemma no_hits_simps [simp]: "hangover_hits no_hits = 0" "hangunder_hits no_hits = 0" "hits_ok no_hits"
  by (simp_all add: no_hits_def hits_ok_def)

lemma fire_if_mem [simp]: "mem (fire_if f p a w) = mem w" "conf (fire_if f p a w) = conf w"
  by (simp_all add: fire_if_def fire_member_def emit_def)

lemma upd_mem_simps [simp]:
  "mem (upd_mem p f w) q = (if q = p then f (mem w p) else mem w q)" "conf (upd_mem p f w) = conf w"
  "out (upd_mem p f w) = out w"
  by (simp_all add: upd_mem_def)

lemma mflag_simps [simp]:
  "mflag (set_mflag p f w) q g \<longleftrightarrow> q = p \<and> g = f \<or> mflag w q g"
  "mflag (clear_mflag p f w) q g \<longleftrightarrow> \<not> (q = p \<and> g = f) \<and> mflag w q g"
  by (auto simp: set_mflag_def clear_mflag_def)

lemma flags_levels [simp]:
  "m_flags (clear_avg m) = m_flags m" "m_flags (check_agc_levels c m) = m_flags m"
  by (simp_all add: clear_avg_def check_agc_levels_def)

lemma nt_tally_flags [simp]: "m_flags (mem (set_nt_tally f p w) q) = m_flags (mem w q)"
  by (simp add: set_nt_tally_def)

lemma talk_quiet_hit:
  assumes "hits_ok v" and "mflag w p MFLAG_TALKING"
  shows "talk_abs p (fst (quiet_hit p v w)) (snd (quiet_hit p v w)) =
     (if unat (hangover_hits v) + 1 \<ge> 40 then (False, 0, 0)
      else (True, unat (hangover_hits v) + 1, unat (hangunder_hits v)))"
    "hits_ok (fst (quiet_hit p v w))"
  using assms hits_Suc [of "hangover_hits v"]
  by (auto simp: quiet_hit_def Let_def talk_abs_def hits_ok_def hangover_def word_le_nat_alt)

lemma talk_cng:
  assumes "hits_ok v"
  shows "talk_abs p (fst (cng_frame p v w)) (snd (cng_frame p v w)) = talk_next Quiet (talk_abs p v w)"
    "hits_ok (fst (cng_frame p v w))"
proof -
  let ?v = "v\<lparr>hangunder_hits := dec_hits (hangunder_hits v)\<rparr>"
  have v: "hits_ok ?v" using assms by (auto simp: hits_ok_def)
  from talk_quiet_hit [OF v] show "talk_abs p (fst (cng_frame p v w)) (snd (cng_frame p v w)) = talk_next Quiet (talk_abs p v w)"
    "hits_ok (fst (cng_frame p v w))"
    using v by (auto simp: cng_frame_def Let_def talk_abs_def)
qed

lemma talk_quiet:
  assumes "hits_ok v" and "mflag w p MFLAG_CAN_SPEAK"
  shows "talk_abs p (fst (quiet_frame p v w)) (snd (quiet_frame p v w)) = talk_next Quiet (talk_abs p v w)"
    "hits_ok (fst (quiet_frame p v w))"
proof -
  let ?v = "v\<lparr>hangunder_hits := dec_hits (hangunder_hits v)\<rparr>"
  have v: "hits_ok ?v" using assms by (auto simp: hits_ok_def)
  from talk_quiet_hit [OF v] show "talk_abs p (fst (quiet_frame p v w)) (snd (quiet_frame p v w)) = talk_next Quiet (talk_abs p v w)"
    "hits_ok (fst (quiet_frame p v w))"
    using v assms(2) by (auto simp: quiet_frame_def Let_def talk_abs_def)
qed

lemma start_talking_flag [simp]: "mflag (start_talking p w) p MFLAG_TALKING"
  by (simp add: start_talking_def Let_def)

lemma talk_loud:
  assumes "hits_ok v" and "noise_gate_check (conf w) (mem w p)"
  shows "talk_abs p (fst (snd (loud_frame env p v w))) (snd (snd (loud_frame env p v w))) =
      talk_next (loudness_of (conf w) (mem w p)) (talk_abs p v w)"
    "hits_ok (fst (snd (loud_frame env p v w)))"
  using assms hits_Suc [of "hangunder_hits v"]
  by (auto simp: loud_frame_def Let_def talk_abs_def loudness_of_def hits_ok_def hangunder_def word_le_nat_alt)

lemma talk_detect:
  assumes "hits_ok v" and "mflag w p MFLAG_CAN_SPEAK" and "detect_talking env p v w = (fl, v', w')"
  shows "talk_abs p v' w' = talk_next (loudness_of (conf w) (mem w p)) (talk_abs p v w) \<and> hits_ok v'"
proof (cases "noise_gate_check (conf w) (mem w p)")
  case True
  then show ?thesis using assms talk_loud [OF assms(1) True, of env]
    by (auto simp: detect_talking_def talk_abs_def split: prod.splits)
next
  case False
  then show ?thesis using assms talk_quiet [OF assms(1,2)]
    by (auto simp: detect_talking_def talk_abs_def loudness_of_def split: prod.splits)
qed

section \<open>Levels of a frame\<close>

lemma scale_samples_ok:
  assumes "n \<le> length d"
  shows "\<exists>d'. scale_samples r d n = Inr d' \<and> length d' = length d"
  using assms by (simp add: scale_samples_def)

lemma change_volume_ok:
  assumes "n \<le> length d"
  shows "\<exists>d'. switch_change_sln_volume d n l = Inr d' \<and> length d' = length d"
    "\<exists>d'. switch_change_sln_volume_granular d n l = Inr d' \<and> length d' = length d"
  using scale_samples_ok [OF assms]
  by (auto simp: switch_change_sln_volume_def switch_change_sln_volume_granular_def Let_def
      switch_normalize_volume_def switch_normalize_volume_granular_def)

lemma frame_volume_ok:
  assumes "unat (fr_datalen fr) div 2 \<le> length (fr_data fr)"
  shows "\<exists>d1 d2. switch_change_sln_volume (fr_data fr) (unat (fr_datalen fr) div 2) (m_volume_in_level m) = Inr d1 \<and>
    switch_change_sln_volume_granular d1 (unat (fr_datalen fr) div 2) (m_agc_volume_in_level m) = Inr d2 \<and>
    length d2 = length (fr_data fr) \<and> frame_volume m fr = Inr (fr\<lparr>fr_data := d2\<rparr>)"
proof -
  from change_volume_ok(1) [OF assms] obtain d1
    where d1: "switch_change_sln_volume (fr_data fr) (unat (fr_datalen fr) div 2) (m_volume_in_level m) = Inr d1"
      "length d1 = length (fr_data fr)" by blast
  with assms have "unat (fr_datalen fr) div 2 \<le> length d1" by simp
  from change_volume_ok(2) [OF this] obtain d2
    where "switch_change_sln_volume_granular d1 (unat (fr_datalen fr) div 2) (m_agc_volume_in_level m) = Inr d2"
      "length d2 = length d1" by blast
  with d1 show ?thesis by (simp add: frame_volume_def Let_def)
qed

lemma energy_mono:
  "j + n \<le> length data \<Longrightarrow>
   energy_loop n 1 j data e = Inr (e + word_of_int (\<Sum>x\<leftarrow>take n (drop j data). \<bar>sint x\<bar>))"
proof (induction n arbitrary: j e)
  case (Suc n)
  then have "take (Suc n) (drop j data) = data ! j # take n (drop (Suc j) data)"
    by (simp add: Cons_nth_drop_Suc [symmetric])
  with Suc show ?case by simp
qed simp

lemma frame_score_ok:
  assumes "number_of_channels impl = 1" and "unat (fr_datalen fr) div 2 \<le> length (fr_data fr)"
  shows "\<exists>s. frame_score impl fr = Inr s"
proof -
  have "unat (fr_datalen fr div 2) = unat (fr_datalen fr) div 2" by (simp add: unat_div)
  with assms show ?thesis by (simp add: frame_score_def Let_def energy_mono [unfolded One_nat_def])
qed

section \<open>The gate\<close>

lemma pass_on_effect:
  assumes "buf_inv (m_audio_buffer (mem w p))" and "buf_data (m_audio_buffer (mem w p)) = Some blk"
    and "i_resampler ie = None" and "unat (fr_datalen fr) \<le> 2 * length (fr_data fr)"
    and "buf_grown (m_audio_buffer (mem w p)) (unat (fr_datalen fr)) < 2 ^ 64"
  shows "\<exists>go w'. pass_on ie p fr w = Inr (go, w') \<and> buf_inv (m_audio_buffer (mem w' p)) \<and>
    (\<forall>q. q \<noteq> p \<longrightarrow> mem w' q = mem w q) \<and> conf w' = conf w \<and> out w' = out w \<and>
    mem w' p = (mem w p)\<lparr>m_audio_buffer := m_audio_buffer (mem w' p)\<rparr> \<and>
    (if lets_through p w \<and> (fr_datalen fr = 0 \<or> buf_fits (i_heap ie) (m_audio_buffer (mem w p)) (unat (fr_datalen fr)))
     then go \<and> buf_content (m_audio_buffer (mem w' p)) =
       buf_content (m_audio_buffer (mem w p)) @ take (unat (fr_datalen fr)) (bytes_of (fr_data fr))
     else go = (\<not> lets_through p w) \<and>
       buf_content (m_audio_buffer (mem w' p)) = buf_content (m_audio_buffer (mem w p)))"
proof (cases "lets_through p w \<and> fr_datalen fr \<noteq> 0")
  case False
  with assms show ?thesis by (auto simp: pass_on_def frame_bytes_def)
next
  case True
  let ?src = "take (unat (fr_datalen fr)) (bytes_of (fr_data fr))"
  have n: "length ?src = unat (fr_datalen fr)" using assms(4) by simp
  have ne: "?src \<noteq> []"
  proof
    assume "?src = []"
    then have "unat (fr_datalen fr) = 0" using n by (metis list.size(3))
    with True show False by (simp add: unat_eq_0)
  qed
  obtain b r where w: "switch_buffer_write (i_heap ie) (m_audio_buffer (mem w p)) ?src = Inr (b, r)" "buf_inv b"
    and c: "if buf_fits (i_heap ie) (m_audio_buffer (mem w p)) (unat (fr_datalen fr))
      then buf_content b = buf_content (m_audio_buffer (mem w p)) @ ?src \<and>
           r = length (buf_content (m_audio_buffer (mem w p)) @ ?src)
      else buf_content b = buf_content (m_audio_buffer (mem w p)) \<and> r = 0"
    using write_effect [OF assms(1,2), of ?src "i_heap ie"] ne assms(5) unfolding n by auto
  have "pass_on ie p fr w = Inr (r \<noteq> 0, upd_mem p (\<lambda>m. m\<lparr>m_audio_buffer := b\<rparr>) w)"
    using True assms(3,4) ne w(1) by (simp add: pass_on_def frame_bytes_def)
  moreover have "r \<noteq> 0 \<longleftrightarrow> buf_fits (i_heap ie) (m_audio_buffer (mem w p)) (unat (fr_datalen fr))"
    using c ne by (metis append_is_Nil_conv length_0_conv)
  ultimately show ?thesis using c w(2) True by auto
qed

text \<open>A frame of a member that is in the conference: no fault, and what becomes of the member.\<close>

definition reset_gain :: "switch_codec_implementation \<Rightarrow> conference_member \<Rightarrow> int" where
  "reset_gain impl m =
     (if word_of_int (m_nt_tally m) > packets_per_second impl * 3 then 0 else m_agc_volume_in_level m)"

lemma media_frame_effect:
  assumes "samples_per_packet (i_impl ie) \<noteq> 0" and "number_of_channels (i_impl ie) = 1"
    and "i_resampler ie = None" and "unat (fr_datalen fr) \<le> 2 * length (fr_data fr)"
    and "buf_inv (m_audio_buffer (mem w p))" and "buf_data (m_audio_buffer (mem w p)) = Some blk"
    and "buf_grown (m_audio_buffer (mem w p)) (unat (fr_datalen fr)) < 2 ^ 64"
  shows "\<exists>fl go v' w' w1 d1 d2.
    switch_change_sln_volume (fr_data fr) (unat (fr_datalen fr) div 2) (m_volume_in_level (mem w p)) = Inr d1 \<and>
    switch_change_sln_volume_granular d1 (unat (fr_datalen fr) div 2) (reset_gain (i_impl ie) (mem w p)) = Inr d2 \<and>
    media_frame ie p fr v w = Inr (fl, go, v', w') \<and> voice_rest p w1 = voice_rest p w \<and> 
    buf_inv (m_audio_buffer (mem w' p)) \<and> (\<forall>q. q \<noteq> p \<longrightarrow> mem w' q = mem w q) \<and> conf w' = conf w \<and> out w' = out w1 \<and>
    mem w' p = (mem w1 p)\<lparr>m_audio_buffer := m_audio_buffer (mem w' p)\<rparr> \<and>
    (if lets_through p w1 \<and> (fr_datalen fr = 0 \<or> buf_fits (i_heap ie) (m_audio_buffer (mem w p)) (unat (fr_datalen fr)))
     then go \<and> buf_content (m_audio_buffer (mem w' p)) =
       buf_content (m_audio_buffer (mem w p)) @ take (unat (fr_datalen fr)) (bytes_of d2)
     else go = (\<not> lets_through p w1) \<and>
       buf_content (m_audio_buffer (mem w' p)) = buf_content (m_audio_buffer (mem w p)))"
proof -
  let ?impl = "i_impl ie"
  define wa where "wa = settle_gain ?impl p w"
  have r: "voice_rest p wa = voice_rest p w" by (simp add: wa_def)
  have g: "m_agc_volume_in_level (mem wa p) = reset_gain ?impl (mem w p)"
    by (simp add: wa_def settle_gain_def reset_gain_def clear_avg_def Let_def)
  have half: "unat (fr_datalen fr) div 2 \<le> length (fr_data fr)" using assms(4) by linarith
  obtain d1 d2 where d: "switch_change_sln_volume (fr_data fr) (unat (fr_datalen fr) div 2) (m_volume_in_level (mem w p)) = Inr d1"
      "switch_change_sln_volume_granular d1 (unat (fr_datalen fr) div 2) (reset_gain ?impl (mem w p)) = Inr d2"
    and len: "length d2 = length (fr_data fr)" and fv: "frame_volume (mem wa p) fr = Inr (fr\<lparr>fr_data := d2\<rparr>)"
    using frame_volume_ok [OF half, of "mem wa p"] rest_eqD(8) [OF r] g by auto
  obtain s where s: "frame_score ?impl (fr\<lparr>fr_data := d2\<rparr>) = Inr s"
    using frame_score_ok [OF assms(2), of "fr\<lparr>fr_data := d2\<rparr>"] half len by auto
  define measured where "measured \<longleftrightarrow> mflag wa p MFLAG_CAN_SPEAK \<or> mflag wa p MFLAG_MUTE_DETECT"
  define fr' where "fr' = (if measured then fr\<lparr>fr_data := d2\<rparr> else fr)"
  define det where "det = (if measured
    then detect_talking (i_env ie) p v (upd_mem p (measure_member ?impl (conf wa) s) wa) else (False, v, wa))"
  obtain fl v' w1 where det': "det = (fl, v', w1)" by (cases det) auto
  have w1: "voice_rest p w1 = voice_rest p w"
  proof (cases measured)
    case True
    then have "w1 = snd (snd (detect_talking (i_env ie) p v (upd_mem p (measure_member ?impl (conf wa) s) wa)))"
      using det' by (simp add: det_def)
    then show ?thesis using r by simp
  next
    case False
    then show ?thesis using det' r by (simp add: det_def)
  qed
  have mf: "media_frame ie p fr v w = bindE (pass_on ie p fr' w1) (\<lambda>(go, w). Inr (fl, go, v', w))"
    using assms(1) det' fv s unfolding media_frame_def Let_def wa_def [symmetric]
    by (auto simp: measured_def [symmetric] det_def fr'_def)
  have "buf_inv (m_audio_buffer (mem w1 p))" "buf_data (m_audio_buffer (mem w1 p)) = Some blk"
    "unat (fr_datalen fr') \<le> 2 * length (fr_data fr')" "fr_datalen fr' = fr_datalen fr"
    "buf_grown (m_audio_buffer (mem w1 p)) (unat (fr_datalen fr')) < 2 ^ 64"
    using assms(4-7) rest_eqD(6) [OF w1] len by (simp_all add: fr'_def)
  note po = pass_on_effect [OF this(1,2) assms(3) this(3,5), unfolded this(4) rest_eqD(6) [OF w1]]
  have "fr_data fr' = d2" if "lets_through p w1"
    using that rest_eqD(9) [OF w1, of MFLAG_CAN_SPEAK p] rest_eqD(9) [OF r, of MFLAG_CAN_SPEAK p]
    by (simp add: lets_through_def fr'_def measured_def)
  with po mf d w1 rest_eqD(1,2) [OF w1] show ?thesis
    apply -
    apply (erule exE)+
    subgoal for go w' by (rule exI [of _ fl], rule exI [of _ go], rule exI [of _ v'], rule exI [of _ w'], rule exI [of _ w1]) auto
    done
qed

lemma floor_change_mem [simp]: "mem (floor_change p ch w) = mem w"
  by (auto simp: floor_change_def Let_def upd_conf_def fire_member_def emit_def split: prod.split)

lemma floor_change_conf:
  "conf (floor_change p ch w) = (if takes_floor p ch w then (conf w)\<lparr>c_floor_holder := Some p\<rparr> else conf w)"
  by (simp add: floor_change_def Let_def upd_conf_def fire_member_def emit_def split: prod.split)

text \<open>
  C4. A frame of media from a member of the conference is taken without a fault, and afterwards
  the audio waiting for the mixer is what waited before, followed by the frame, with the member's
  volume and then the automatic gain applied, exactly when the member talks (or its threshold is
  zero), may speak, no moderator is waited for, and the buffer has or gets the room.  In every
  other case nothing is added; a member that is muted is never heard.  The loop ends only when the
  buffer had no room.  The buffers of the others and their state do not change.
\<close>

theorem voice_gate:
  assumes "m_conference (mem w p)" and "m_session (mem w p) = Some ch" and "\<not> fr_cng fr"
    and "samples_per_packet (i_impl ie) \<noteq> 0" and "number_of_channels (i_impl ie) = 1" and "i_resampler ie = None"
    and "unat (fr_datalen fr) \<le> 2 * length (fr_data fr)"
    and "buf_inv (m_audio_buffer (mem w p))" and "buf_data (m_audio_buffer (mem w p)) = Some blk"
    and "buf_grown (m_audio_buffer (mem w p)) (unat (fr_datalen fr)) < 2 ^ 64"
  shows "\<exists>go v' w' d1 d2.
    switch_change_sln_volume (fr_data fr) (unat (fr_datalen fr) div 2) (m_volume_in_level (mem w p)) = Inr d1 \<and>
    switch_change_sln_volume_granular d1 (unat (fr_datalen fr) div 2) (reset_gain (i_impl ie) (mem w p)) = Inr d2 \<and>
    input_frame ie p fr v w = Inr (go, v', w') \<and> buf_inv (m_audio_buffer (mem w' p)) \<and>
    (let speaks = (mflag w' p MFLAG_TALKING \<or> m_energy_level (mem w p) = 0) \<and> mflag w p MFLAG_CAN_SPEAK \<and>
                  \<not> cflag w CFLAG_WAIT_MOD;
         room = (fr_datalen fr = 0 \<or> buf_fits (i_heap ie) (m_audio_buffer (mem w p)) (unat (fr_datalen fr)))
     in buf_content (m_audio_buffer (mem w' p)) = buf_content (m_audio_buffer (mem w p)) @
          (if speaks \<and> room then take (unat (fr_datalen fr)) (bytes_of d2) else []) \<and>
        (go \<longleftrightarrow> (speaks \<longrightarrow> room))) \<and>
    (\<forall>q. q \<noteq> p \<longrightarrow> mem w' q = mem w q)"
proof -
  obtain fl go v' w1 w2 d1 d2 where e:
    "switch_change_sln_volume (fr_data fr) (unat (fr_datalen fr) div 2) (m_volume_in_level (mem w p)) = Inr d1"
    "switch_change_sln_volume_granular d1 (unat (fr_datalen fr) div 2) (reset_gain (i_impl ie) (mem w p)) = Inr d2"
    "media_frame ie p fr v w = Inr (fl, go, v', w2)" "voice_rest p w1 = voice_rest p w"
    "buf_inv (m_audio_buffer (mem w2 p))" "\<forall>q. q \<noteq> p \<longrightarrow> mem w2 q = mem w q"
    "mem w2 p = (mem w1 p)\<lparr>m_audio_buffer := m_audio_buffer (mem w2 p)\<rparr>"
    "if lets_through p w1 \<and> (fr_datalen fr = 0 \<or> buf_fits (i_heap ie) (m_audio_buffer (mem w p)) (unat (fr_datalen fr)))
     then go \<and> buf_content (m_audio_buffer (mem w2 p)) =
       buf_content (m_audio_buffer (mem w p)) @ take (unat (fr_datalen fr)) (bytes_of d2)
     else go = (\<not> lets_through p w1) \<and>
       buf_content (m_audio_buffer (mem w2 p)) = buf_content (m_audio_buffer (mem w p))"
    using media_frame_effect [OF assms(4-10), of v] by blast
  note r = rest_eqD [OF e(4)]
  have fl: "m_flags (mem w2 p) = m_flags (mem w1 p)" "m_session (mem w2 p) = Some ch"
    using arg_cong [OF e(7), of m_flags] arg_cong [OF e(7), of m_session] r(3) assms(2) by simp_all
  have lt: "lets_through p w1 \<longleftrightarrow>
    (mflag w2 p MFLAG_TALKING \<or> m_energy_level (mem w p) = 0) \<and> mflag w p MFLAG_CAN_SPEAK \<and> \<not> cflag w CFLAG_WAIT_MOD"
    using r(9) [of MFLAG_CAN_SPEAK p] by (simp add: lets_through_def fl r(1,7))
  define w' where "w' = (if go \<and> fl then floor_change p ch w2 else w2)"
  have m: "mem w' = mem w2" by (simp add: w'_def)
  have "input_frame ie p fr v w = Inr (go, v', w')"
    using assms(1,3) e(3) fl(2) by (simp add: input_frame_def member_channel_def w'_def)
  with e(1,2,5,6,8) m lt show ?thesis
    by (intro exI [of _ go] exI [of _ v'] exI [of _ w'] exI [of _ d1] exI [of _ d2]) (auto simp: Let_def)
qed

section \<open>Membership\<close>

lemma rest_kept:
  assumes r: "voice_rest p w' = voice_rest p w"
  shows "conf_kept w' = conf_kept w"
  by (simp add: conf_kept_def rest_eqD(1,3-5) [OF r] rest_eqD(9) [OF r])

lemma pass_on_keeps:
  assumes "pass_on ie p fr w = Inr (go, w')"
  shows "conf_kept w' = conf_kept w" and "m_conference (mem w' q) = m_conference (mem w q)"
  using assms by (auto simp: pass_on_def bindE_eq_Inr split: if_splits intro: kept_upd_mem)

lemma media_frame_parts:
  assumes "media_frame ie p fr v w = Inr (fl, go, v', w')"
  shows "\<exists>fr' w1. pass_on ie p fr' w1 = Inr (go, w') \<and> voice_rest p w1 = voice_rest p w \<and>
    (if mflag w p MFLAG_CAN_SPEAK \<or> mflag w p MFLAG_MUTE_DETECT
     then \<exists>s. frame_volume (mem (settle_gain (i_impl ie) p w) p) fr = Inr fr' \<and> frame_score (i_impl ie) fr' = Inr s \<and>
       detect_talking (i_env ie) p v (upd_mem p (measure_member (i_impl ie) (conf w) s) (settle_gain (i_impl ie) p w)) =
         (fl, v', w1)
     else fr' = fr \<and> \<not> fl \<and> v' = v \<and> w1 = settle_gain (i_impl ie) p w)"
proof -
  let ?wa = "settle_gain (i_impl ie) p w"
  have r: "voice_rest p ?wa = voice_rest p w" by simp
  have m: "mflag ?wa p f = mflag w p f" if "f \<in> {MFLAG_CAN_SPEAK, MFLAG_MUTE_DETECT}" for f
    using rest_eqD(9) [OF r, of f p] that by auto
  show ?thesis
  proof (cases "mflag w p MFLAG_CAN_SPEAK \<or> mflag w p MFLAG_MUTE_DETECT")
    case True
    with assms obtain fr' s w1 where d:
      "frame_volume (mem ?wa p) fr = Inr fr'" "frame_score (i_impl ie) fr' = Inr s"
      "detect_talking (i_env ie) p v (upd_mem p (measure_member (i_impl ie) (conf ?wa) s) ?wa) = (fl, v', w1)"
      "pass_on ie p fr' w1 = Inr (go, w')"
      unfolding media_frame_def Let_def by (auto simp: bindE_eq_Inr m split: if_split_asm)
    then have "voice_rest p w1 = voice_rest p w"
      using rest_detect [of p "i_env ie" v "upd_mem p (measure_member (i_impl ie) (conf ?wa) s) ?wa"] r by simp
    with d True show ?thesis unfolding rest_eqD(1) [OF r] by auto
  next
    case False
    with assms have "pass_on ie p fr ?wa = Inr (go, w')" "\<not> fl" "v' = v"
      unfolding media_frame_def Let_def by (auto simp: bindE_eq_Inr m split: if_split_asm)
    then show ?thesis using False r by auto
  qed
qed

lemma media_frame_keeps:
  assumes "media_frame ie p fr v w = Inr (fl, go, v', w')"
  shows "conf_kept w' = conf_kept w" and "m_conference (mem w' p) = m_conference (mem w p)"
proof -
  from media_frame_parts [OF assms] obtain fr' w1
    where p: "pass_on ie p fr' w1 = Inr (go, w')" and r: "voice_rest p w1 = voice_rest p w" by blast
  show "conf_kept w' = conf_kept w" "m_conference (mem w' p) = m_conference (mem w p)"
    using pass_on_keeps [OF p] rest_kept [OF r] rest_eqD(5) [OF r] by simp_all
qed

lemma conf_inv_floor:
  assumes "conf_inv w" and "m_conference (mem w p)"
  shows "conf_inv (floor_change p ch w)"
  using assms unfolding conf_inv_def floor_change_mem floor_change_conf by (cases "takes_floor p ch w") auto

lemma input_frame_inv:
  assumes "input_frame ie p fr v w = Inr (go, v', w')" and "conf_inv w"
  shows "conf_inv w'"
proof (cases "fr_cng fr")
  case True
  with assms(1) have "w' = snd (cng_frame p v w)" by (auto simp: input_frame_def split: if_splits)
  then show ?thesis using rest_kept [OF rest_cng] assms(2) kept_inv by blast
next
  case False
  with assms(1) obtain fl go1 w2 where mf: "m_conference (mem w p)" "media_frame ie p fr v w = Inr (fl, go1, v', w2)"
    and w': "w' = w2 \<or> (\<exists>ch. w' = floor_change p ch w2)"
    by (auto simp: input_frame_def bindE_eq_Inr split: if_splits)
  have "conf_inv w2" "m_conference (mem w2 p)"
    using kept_inv [OF media_frame_keeps(1) [OF mf(2)] assms(2)] media_frame_keeps(2) [OF mf(2)] mf(1) by simp_all
  with w' show ?thesis using conf_inv_floor by blast
qed

section \<open>Events about talking\<close>

definition talk_action :: "conf_header \<Rightarrow> string list" where
  "talk_action h =
     (case h of Hdr n a \<Rightarrow> if n = ''Action'' \<and> (a = ''start-talking'' \<or> a = ''stop-talking'') then [a] else []
              | Channel_data b \<Rightarrow> [])"

definition talk_actions :: "conf_out list \<Rightarrow> string list" where
  "talk_actions es = concat (map (\<lambda>e. case e of Fired_maint hs \<Rightarrow> concat (map talk_action hs) | _ \<Rightarrow> []) es)"

definition talk_change :: "bool \<Rightarrow> bool \<Rightarrow> string list" where
  "talk_change t t' = (if t = t' then [] else if t' then [''start-talking''] else [''stop-talking''])"

lemma talk_action_data: "concat (map talk_action (conference_add_event_member_data w p)) = []"
  by (auto simp: conference_add_event_member_data_def conference_add_event_data_def talk_action_def Let_def
      split: option.splits)

lemma actions_fire [simp]:
  "talk_actions (out (fire_member p hs w)) = talk_actions (out w) @ concat (map talk_action hs)"
  by (simp add: fire_member_def emit_def talk_actions_def talk_action_data)

lemma actions_fire_if [simp]:
  "talk_actions (out (fire_if f p a w)) =
     talk_actions (out w) @ (if test_eflag w f then talk_action (Hdr ''Action'' a) else [])"
  by (simp add: fire_if_def)

lemma out_flags [simp]: "out (set_mflag p f w) = out w" "out (clear_mflag p f w) = out w"
  "conf (set_mflag p f w) = conf w" "conf (clear_mflag p f w) = conf w"
  by (simp_all add: set_mflag_def clear_mflag_def)

lemma nt_tally_out [simp]: "out (set_nt_tally f p w) = out w" "conf (set_nt_tally f p w) = conf w"
  by (simp_all add: set_nt_tally_def)

text \<open>A conference that tells both.\<close>

abbreviation tells :: "conf_world \<Rightarrow> bool" where
  "tells w \<equiv> test_eflag w EFLAG_START_TALKING \<and> test_eflag w EFLAG_STOP_TALKING"

lemma actions_quiet_hit:
  assumes "tells w" and "mflag w p MFLAG_TALKING"
  shows "talk_actions (out (snd (quiet_hit p v w))) =
    talk_actions (out w) @ talk_change True (mflag (snd (quiet_hit p v w)) p MFLAG_TALKING)"
  using assms by (simp add: quiet_hit_def Let_def talk_change_def talk_action_def)

lemma actions_cng:
  assumes "tells w"
  shows "talk_actions (out (snd (cng_frame p v w))) =
    talk_actions (out w) @ talk_change (mflag w p MFLAG_TALKING) (mflag (snd (cng_frame p v w)) p MFLAG_TALKING)"
proof -
  let ?w = "if c_agc_level (conf w) = 0 then w else upd_mem p (\<lambda>m. m\<lparr>m_nt_tally := m_nt_tally m + 1\<rparr>) w"
  have "tells ?w" using assms by simp
  from actions_quiet_hit [OF this, of p "v\<lparr>hangunder_hits := dec_hits (hangunder_hits v)\<rparr>"]
  show ?thesis by (auto simp: cng_frame_def Let_def talk_change_def)
qed

lemma actions_detect:
  assumes "tells w" and "mflag w p MFLAG_CAN_SPEAK" and "detect_talking env p v w = (fl, v', w')"
  shows "talk_actions (out w') =
    talk_actions (out w) @ talk_change (mflag w p MFLAG_TALKING) (mflag w' p MFLAG_TALKING)"
proof (cases "noise_gate_check (conf w) (mem w p)")
  case True
  then show ?thesis using assms
    by (auto simp: detect_talking_def loud_frame_def start_talking_def Let_def talk_change_def talk_action_def
        split: if_splits)
next
  case False
  have "tells (set_nt_tally (\<lambda>n. n + 1) p w)" using assms by simp
  note actions_quiet_hit [OF this, of p "v\<lparr>hangunder_hits := dec_hits (hangunder_hits v)\<rparr>"]
  then show ?thesis using False assms(2,3)
    by (auto simp: detect_talking_def quiet_frame_def Let_def talk_change_def split: prod.splits if_splits)
qed

section \<open>Talking without automatic gain\<close>

text \<open>The loudness of a frame: its mean amplitude against the threshold of the member.\<close>

definition frame_loudness :: "int \<Rightarrow> switch_frame \<Rightarrow> loudness" where
  "frame_loudness level fr =
     (if fr_cng fr then Quiet
      else let mean = (\<Sum>x\<leftarrow>fr_data fr. \<bar>sint x\<bar>) div int (length (fr_data fr)) in
           if mean \<le> level then Quiet else if mean \<ge> level + 400 then Loud else Over)"

definition frame_ok :: "switch_frame \<Rightarrow> bool" where
  "frame_ok fr \<longleftrightarrow> fr_cng fr \<or> unat (fr_datalen fr) = 2 * length (fr_data fr) \<and> length (fr_data fr) \<le> 65536"

lemma amplitude_bounds:
  "0 \<le> (\<Sum>x\<leftarrow>xs. \<bar>sint (x :: int16)\<bar>)" "(\<Sum>x\<leftarrow>xs. \<bar>sint (x :: int16)\<bar>) \<le> 32768 * int (length xs)"
proof (induction xs)
  case (Cons x xs)
  have "\<bar>sint x\<bar> \<le> 32768" using sint16_range [of x] by linarith
  with Cons show "0 \<le> (\<Sum>x\<leftarrow>x # xs. \<bar>sint x\<bar>)" "(\<Sum>x\<leftarrow>x # xs. \<bar>sint x\<bar>) \<le> 32768 * int (length (x # xs))"
    by simp_all
qed simp_all

lemma frame_score_mean:
  assumes "number_of_channels impl = 1" and "frame_ok fr" and "\<not> fr_cng fr" and "frame_score impl fr = Inr s"
  shows "uint s = (\<Sum>x\<leftarrow>fr_data fr. \<bar>sint x\<bar>) div int (length (fr_data fr))"
proof -
  let ?S = "\<Sum>x\<leftarrow>fr_data fr. \<bar>sint x\<bar>"
  have n: "unat (fr_datalen fr div 2) = length (fr_data fr)"
    using assms(2,3) by (simp add: frame_ok_def unat_div)
  have "?S < 2 ^ 32" using amplitude_bounds(2) [of "fr_data fr"] assms(2,3) by (auto simp: frame_ok_def)
  then have S: "uint (word_of_int ?S :: uint32) = ?S"
    using amplitude_bounds(1) [of "fr_data fr"] by (simp add: uint_word_of_int)
  show ?thesis
  proof (cases "fr_datalen fr div 2 = 0")
    case True
    then have "fr_data fr = []" using n by simp
    with assms(4) True show ?thesis by (simp add: frame_score_def)
  next
    case False
    with assms(4) have "s = word_of_int ?S div (fr_datalen fr div 2)"
      using energy_mono [of 0 "length (fr_data fr)" "fr_data fr" 0]
      by (simp add: frame_score_def Let_def assms(1) n)
    moreover have "uint (fr_datalen fr div 2) = int (length (fr_data fr))" by (metis n uint_nat)
    ultimately show ?thesis by (simp add: uint_div S)
  qed
qed

definition steady :: "ptr \<Rightarrow> int \<Rightarrow> conf_world \<Rightarrow> bool" where
  "steady p e w \<longleftrightarrow>
     c_agc_level (conf w) = 0 \<and> m_agc_volume_in_level (mem w p) = 0 \<and> m_avg_score (mem w p) = 0 \<and>
     m_volume_in_level (mem w p) = 0 \<and> m_energy_level (mem w p) = e \<and> mflag w p MFLAG_CAN_SPEAK \<and> tells w"

lemma loudness_of_steady:
  assumes "c_agc_level c = 0" and "m_energy_level m = e" and "0 \<le> e" and "e < 2 ^ 31"
  shows "loudness_of c m = (if uint (m_score m) \<le> e then Quiet else if uint (m_score m) \<ge> e + 400 then Loud else Over)"
proof -
  have e: "uint (word_of_int e :: uint32) = e" using assms(3,4) by (simp add: uint_word_of_int)
  have "uint (m_score m - word_of_int e) = uint (m_score m) - e" if "e < uint (m_score m)"
    using that e by (simp add: uint_sub_if_size)
  then show ?thesis
    by (auto simp: loudness_of_def noise_gate_check_def assms word_less_def word_le_def e diff_level_def)
qed

lemma steady_mem:
  assumes "steady p e w" and "\<And>m. m_agc_volume_in_level m = 0 \<Longrightarrow> m_avg_score m = 0 \<Longrightarrow>
      m_agc_volume_in_level (f m) = 0 \<and> m_avg_score (f m) = 0 \<and> m_volume_in_level (f m) = m_volume_in_level m \<and>
      m_energy_level (f m) = m_energy_level m \<and> m_flags (f m) = m_flags m"
  shows "steady p e (upd_mem p f w)"
  using assms by (simp add: steady_def)

lemma steady_flags [simp]:
  "steady p e (set_mflag p MFLAG_TALKING w) = steady p e w" "steady p e (clear_mflag p MFLAG_TALKING w) = steady p e w"
  "steady p e (set_mflag p MFLAG_INDICATE_MUTE_DETECT w) = steady p e w"
  by (auto simp: steady_def set_mflag_def clear_mflag_def)

lemma steady_fire [simp]: "steady p e (fire_if f q a w) = steady p e w" "steady p e (fire_member q hs w) = steady p e w"
  by (simp_all add: steady_def fire_member_def emit_def)

lemma steady_nt_tally [simp]: "steady p e (set_nt_tally f p w) = steady p e w"
  by (auto simp: set_nt_tally_def steady_def)

lemma steady_quiet_hit: "steady p e w \<Longrightarrow> steady p e (snd (quiet_hit p v w))"
  by (auto simp: quiet_hit_def Let_def clear_avg_def check_agc_levels_def intro!: steady_mem)

lemma steady_cng: "steady p e w \<Longrightarrow> steady p e (snd (cng_frame p v w))"
  by (auto simp: cng_frame_def Let_def intro!: steady_quiet_hit steady_mem)

lemma steady_detect:
  assumes "steady p e w" and "detect_talking env p v w = (fl, v', w')"
  shows "steady p e w'"
proof -
  have "steady p e (snd (snd (loud_frame env p v w)))"
    using assms(1) by (auto simp: loud_frame_def start_talking_def Let_def intro!: steady_mem)
  moreover have "steady p e (snd (quiet_frame p v w))"
    using assms(1) by (auto simp: quiet_frame_def Let_def intro!: steady_quiet_hit)
  ultimately show ?thesis using assms(2)
    by (auto simp: detect_talking_def intro!: steady_mem split: prod.splits if_splits)
qed

lemma steady_settle: "steady p e w \<Longrightarrow> steady p e (settle_gain impl p w)"
  by (auto simp: settle_gain_def Let_def clear_avg_def intro!: steady_mem)

lemma measure_steady:
  assumes "c_agc_level c = 0"
  shows "m_score (measure_member impl c s m) = s" "m_flags (measure_member impl c s m) = m_flags m"
    "m_agc_volume_in_level (measure_member impl c s m) = m_agc_volume_in_level m"
    "m_avg_score (measure_member impl c s m) = m_avg_score m"
    "m_volume_in_level (measure_member impl c s m) = m_volume_in_level m"
    "m_energy_level (measure_member impl c s m) = m_energy_level m"
  using assms by (simp_all add: measure_member_def agc_frame_def Let_def)

lemma settle_talk:
  "mflag (settle_gain impl p w) q f = mflag w q f" "out (settle_gain impl p w) = out w" "conf (settle_gain impl p w) = conf w"
  by (simp_all add: settle_gain_def Let_def)

lemma pass_on_frame:
  assumes "pass_on ie p fr w = Inr (go, w')"
  shows "out w' = out w" "conf w' = conf w" "m_flags (mem w' q) = m_flags (mem w q)" "steady p e w' = steady p e w"
    "m_session (mem w' q) = m_session (mem w q)" "m_conference (mem w' q) = m_conference (mem w q)"
  using assms by (auto simp: pass_on_def bindE_eq_Inr steady_def split: if_splits)

lemma floor_change_frame:
  "talk_actions (out (floor_change p ch w)) = talk_actions (out w)" "steady p e (floor_change p ch w) = steady p e w"
  by (auto simp: floor_change_def Let_def upd_conf_def talk_action_def steady_def fire_member_def emit_def
      talk_actions_def talk_action_data split: prod.split)

lemma steady_volume: "steady p e w \<Longrightarrow> frame_volume (mem w p) fr = Inr fr' \<Longrightarrow> fr' = fr"
  by (simp add: steady_def frame_volume_def switch_change_sln_volume_def switch_change_sln_volume_granular_def Let_def)

lemma steady_frame:
  assumes "steady p e w" and "0 \<le> e" and "e < 2 ^ 31" and "hits_ok v" and "frame_ok fr"
    and "number_of_channels (i_impl ie) = 1" and "input_frame ie p fr v w = Inr (go, v', w')"
  shows "steady p e w' \<and> hits_ok v' \<and> talk_abs p v' w' = talk_next (frame_loudness e fr) (talk_abs p v w) \<and>
    talk_actions (out w') = talk_actions (out w) @ talk_change (mflag w p MFLAG_TALKING) (mflag w' p MFLAG_TALKING)"
proof (cases "fr_cng fr")
  case True
  with assms(7) have "cng_frame p v w = (v', w')" by (auto simp: input_frame_def split: if_splits)
  moreover have "tells w" using assms(1) by (simp add: steady_def)
  ultimately show ?thesis
    using True steady_cng [OF assms(1), of v] talk_cng [OF assms(4), of p w] actions_cng [of w p v]
    by (simp add: frame_loudness_def)
next
  case False
  with assms(7) obtain fl go1 w2 where mf: "media_frame ie p fr v w = Inr (fl, go1, v', w2)"
    and w': "w' = w2 \<or> (\<exists>ch. w' = floor_change p ch w2)"
    by (auto simp: input_frame_def bindE_eq_Inr split: if_splits)
  let ?ws = "settle_gain (i_impl ie) p w"
  have st: "steady p e ?ws" using assms(1) by (rule steady_settle)
  have c0: "c_agc_level (conf w) = 0" "mflag w p MFLAG_CAN_SPEAK" using assms(1) by (simp_all add: steady_def)
  obtain s w1 where d: "pass_on ie p fr w1 = Inr (go1, w2)" "frame_score (i_impl ie) fr = Inr s"
    "detect_talking (i_env ie) p v (upd_mem p (measure_member (i_impl ie) (conf w) s) ?ws) = (fl, v', w1)"
    using media_frame_parts [OF mf] c0(2) steady_volume [OF st] by auto
  let ?wm = "upd_mem p (measure_member (i_impl ie) (conf w) s) ?ws"
  have sm: "steady p e ?wm" using st c0(1) by (intro steady_mem) (simp_all add: measure_steady)
  have "uint (m_score (mem ?wm p)) = (\<Sum>x\<leftarrow>fr_data fr. \<bar>sint x\<bar>) div int (length (fr_data fr))"
    using frame_score_mean [OF assms(6,5) False d(2)] by (simp add: measure_steady [OF c0(1)])
  then have "loudness_of (conf ?wm) (mem ?wm p) = frame_loudness e fr"
    using loudness_of_steady [of "conf ?wm" "mem ?wm p" e] sm assms(2,3) False
    unfolding steady_def frame_loudness_def Let_def by (simp only: if_False)
  moreover have "talk_abs p v ?wm = talk_abs p v w" "mflag ?wm p MFLAG_TALKING = mflag w p MFLAG_TALKING" "out ?wm = out w"
    using c0(1) by (simp_all add: talk_abs_def measure_steady settle_talk)
  moreover have "mflag ?wm p MFLAG_CAN_SPEAK" "tells ?wm" using sm by (simp_all add: steady_def)
  ultimately have "talk_abs p v' w1 = talk_next (frame_loudness e fr) (talk_abs p v w)" "hits_ok v'"
    "talk_actions (out w1) = talk_actions (out w) @ talk_change (mflag w p MFLAG_TALKING) (mflag w1 p MFLAG_TALKING)"
    using talk_detect [OF assms(4) _ d(3)] actions_detect [OF _ _ d(3)] by simp_all
  moreover have "steady p e w1" using sm d(3) by (rule steady_detect)
  ultimately have "steady p e w2 \<and> hits_ok v' \<and> talk_abs p v' w2 = talk_next (frame_loudness e fr) (talk_abs p v w) \<and>
    talk_actions (out w2) = talk_actions (out w) @ talk_change (mflag w p MFLAG_TALKING) (mflag w2 p MFLAG_TALKING)"
    by (simp add: talk_abs_def pass_on_frame [OF d(1)])
  with w' show ?thesis by (auto simp: talk_abs_def floor_change_frame)
qed

lemma input_frame_session:
  assumes "input_frame ie p fr v w = Inr (go, v', w')"
  shows "m_session (mem w' p) = m_session (mem w p)" "m_conference (mem w' p) = m_conference (mem w p)"
    "f \<notin> {MFLAG_TALKING, MFLAG_INDICATE_MUTE_DETECT} \<Longrightarrow> mflag w' p f = mflag w p f"
proof -
  obtain w1 where r: "voice_rest p w1 = voice_rest p w" and m: "m_flags (mem w' p) = m_flags (mem w1 p)"
    "m_session (mem w' p) = m_session (mem w1 p)" "m_conference (mem w' p) = m_conference (mem w1 p)"
  proof (cases "fr_cng fr")
    case True
    with assms have "w' = snd (cng_frame p v w)" by (auto simp: input_frame_def split: if_splits)
    with that [of w'] rest_cng show ?thesis by simp
  next
    case False
    with assms obtain fl go1 w2 where mf: "media_frame ie p fr v w = Inr (fl, go1, v', w2)"
      and w': "mem w' = mem w2"
      by (auto simp: input_frame_def bindE_eq_Inr split: if_splits)
    from media_frame_parts [OF mf] obtain fr' w1 where
        "pass_on ie p fr' w1 = Inr (go1, w2)" "voice_rest p w1 = voice_rest p w"
      by blast
    with that [of w1] w' pass_on_frame(3,5,6) show ?thesis by metis
  qed
  show "m_session (mem w' p) = m_session (mem w p)" "m_conference (mem w' p) = m_conference (mem w p)"
    using m(2,3) rest_eqD(3,5) [OF r] by simp_all
  show "mflag w' p f = mflag w p f" if "f \<notin> {MFLAG_TALKING, MFLAG_INDICATE_MUTE_DETECT}"
    using m(1) rest_eqD(9) [OF r that] by simp
qed

definition given :: "switch_frame \<Rightarrow> frame_read" where
  "given fr w = (SWITCH_STATUS_SUCCESS, fr, w)"

fun alternate :: "bool \<Rightarrow> nat \<Rightarrow> string list" where
  "alternate t 0 = []"
| "alternate t (Suc n) = (if t then ''stop-talking'' else ''start-talking'') # alternate (\<not> t) n"

lemma alternate_change: "talk_change t t' @ alternate t' n = alternate t (if t = t' then n else Suc n)"
  by (auto simp: talk_change_def)

lemma steady_loop:
  assumes "steady p e w" and "0 \<le> e" and "e < 2 ^ 31" and "hits_ok v" and "\<forall>fr\<in>set frs. frame_ok fr"
    and "number_of_channels (i_impl ie) = 1" and "m_session (mem w p) = Some ch"
    and "switch_channel_test_app_flag_key ''mod_conference.c'' ch CF_APP_TAGGED = 0"
    and "input_loop ie p (map given frs) v w = Inr (True, v', w')"
  shows "talk_abs p v' w' = fold talk_next (map (frame_loudness e) frs) (talk_abs p v w) \<and>
    (\<exists>n. talk_actions (out w') = talk_actions (out w) @ alternate (mflag w p MFLAG_TALKING) n \<and>
      (mflag w' p MFLAG_TALKING \<longleftrightarrow> mflag w p MFLAG_TALKING \<noteq> odd n))"
  using assms(1,4,5,7,9)
proof (induction frs arbitrary: v w)
  case Nil
  then show ?case by (auto intro: exI [of _ 0])
next
  case (Cons fr frs)
  have g: "given fr w = (SWITCH_STATUS_SUCCESS, fr, w)" by (simp add: given_def)
  from Cons.prems(4,5) assms(8) obtain v1 w1 where f: "input_frame ie p fr v w = Inr (True, v1, w1)"
    and l: "input_loop ie p (map given frs) v1 w1 = Inr (True, v', w')"
    by (auto simp: g member_channel_def bindE_eq_Inr SWITCH_READ_ACCEPTABLE_def split: if_splits)
  have "frame_ok fr" using Cons.prems(3) by simp
  note s = steady_frame [OF Cons.prems(1) assms(2,3) Cons.prems(2) this assms(6) f]
  obtain n where ih: "talk_abs p v' w' = fold talk_next (map (frame_loudness e) frs) (talk_abs p v1 w1)"
      "talk_actions (out w') = talk_actions (out w1) @ alternate (mflag w1 p MFLAG_TALKING) n"
      "mflag w' p MFLAG_TALKING \<longleftrightarrow> mflag w1 p MFLAG_TALKING \<noteq> odd n"
    using Cons.IH [of w1 v1] s Cons.prems(3,4) input_frame_session(1) [OF f] l by auto
  let ?n = "if mflag w p MFLAG_TALKING = mflag w1 p MFLAG_TALKING then n else Suc n"
  have "talk_actions (out w') = talk_actions (out w) @ alternate (mflag w p MFLAG_TALKING) ?n"
    using ih(2) s alternate_change by simp
  moreover have "mflag w' p MFLAG_TALKING \<longleftrightarrow> mflag w p MFLAG_TALKING \<noteq> odd ?n" using ih(3) by auto
  ultimately show ?case using ih(1) s by (intro conjI exI [of _ ?n]) simp_all
qed

subsection \<open>What the machine does\<close>

lemma talk_quiet_run:
  "set ls \<subseteq> {Quiet} \<Longrightarrow> fst (fold talk_next ls (t, q, k)) \<Longrightarrow> t \<and> q + length ls < 40 \<or> ls = [] \<and> t"
proof (induction ls arbitrary: t q k)
  case (Cons l ls)
  then show ?case by (cases t) (force split: if_splits)+
qed simp

lemma talk_over_run:
  assumes "Quiet \<notin> set ls" and "fst s \<or> 5 \<le> length ls + snd (snd s)"
  shows "fst (fold talk_next ls s) \<or> ls = [] \<and> \<not> fst s"
  using assms
proof (induction ls arbitrary: s)
  case (Cons l ls)
  obtain t q k where s: "s = (t, q, k)" by (cases s) auto
  have "fst (talk_next l s) \<or> 5 \<le> length ls + snd (snd (talk_next l s))"
    using Cons.prems by (cases l) (auto simp: s)
  moreover have "fst (talk_next l s)" if "ls = []"
    using Cons.prems that by (cases l) (auto simp: s)
  ultimately show ?case using Cons.IH [of "talk_next l s"] Cons.prems(1) by (cases "ls = []") auto
qed simp

lemma talk_pause:
  "t \<Longrightarrow> q + length (filter ((=) Quiet) ls) < 40 \<Longrightarrow> fst (fold talk_next ls (t, q, k))"
proof (induction ls arbitrary: t q k)
  case (Cons l ls)
  then show ?case
  proof (cases l)
    case Quiet
    with Cons.prems have "q + 1 < 40" by simp
    with Quiet Cons show ?thesis by simp
  qed (use Cons in \<open>auto split: if_splits\<close>)
qed simp

lemma talk_few_over:
  "\<not> t \<Longrightarrow> Loud \<notin> set ls \<Longrightarrow> k + length (filter ((=) Over) ls) < 5 \<Longrightarrow> \<not> fst (fold talk_next ls (t, q, k))"
proof (induction ls arbitrary: t q k)
  case (Cons l ls)
  then show ?case by (cases l) auto
qed simp

lemma fold_last_part:
  "n \<le> length ls \<Longrightarrow> fold f ls s = fold f (drop (length ls - n) ls) (fold f (take (length ls - n) ls) s)"
  by (metis append_take_drop_id comp_apply fold_append)

text \<open>
  C11. A member that may speak, in a conference without automatic gain that tells of talking, and
  any sequence of frames: the events say start and stop in turns, beginning with start, and the
  member is marked as talking exactly when the last one was a start.  A frame far over the
  threshold, or five frames in a row that are not quiet, make it talk; fewer than five frames
  over the threshold and none far over it do not; once it talks, pauses of fewer than forty quiet
  frames in all do not end it, and forty quiet frames in a row do.  Comfort noise counts as quiet.
\<close>

theorem talking_hysteresis:
  assumes "c_agc_level (conf w) = 0" and "m_agc_volume_in_level (mem w p) = 0" and "m_avg_score (mem w p) = 0"
    and "m_volume_in_level (mem w p) = 0" and "0 \<le> m_energy_level (mem w p)" and "m_energy_level (mem w p) < 2 ^ 31"
    and "mflag w p MFLAG_CAN_SPEAK" and "test_eflag w EFLAG_START_TALKING" and "test_eflag w EFLAG_STOP_TALKING"
    and "\<forall>fr\<in>set frs. frame_ok fr" and "number_of_channels (i_impl ie) = 1" and "m_session (mem w p) = Some ch"
    and "switch_channel_test_app_flag_key ''mod_conference.c'' ch CF_APP_TAGGED = 0"
    and "conference_loop_input ie p (map given frs) w = Inr (True, v, w')"
  defines "ls \<equiv> map (frame_loudness (m_energy_level (mem w p))) frs"
  shows "(\<exists>n. talk_actions (out w') = talk_actions (out w) @ alternate False n \<and> (mflag w' p MFLAG_TALKING \<longleftrightarrow> odd n)) \<and>
    (5 \<le> length ls \<and> Quiet \<notin> set (drop (length ls - 5) ls) \<longrightarrow> mflag w' p MFLAG_TALKING) \<and>
    (Loud \<notin> set ls \<and> length (filter ((=) Over) ls) < 5 \<longrightarrow> \<not> mflag w' p MFLAG_TALKING) \<and>
    (\<forall>as bs. ls = as @ Loud # bs \<and> length (filter ((=) Quiet) bs) < 40 \<longrightarrow> mflag w' p MFLAG_TALKING) \<and>
    (40 \<le> length ls \<and> set (drop (length ls - 40) ls) \<subseteq> {Quiet} \<longrightarrow> \<not> mflag w' p MFLAG_TALKING)"
proof -
  let ?w = "clear_mflag p MFLAG_TALKING w" and ?T = "mflag w' p MFLAG_TALKING"
  have st: "steady p (m_energy_level (mem w p)) ?w" using assms(1-4,7-9) by (simp add: steady_def [of _ _ w])
  have s: "m_session (mem ?w p) = Some ch" using assms(12) by (simp add: clear_mflag_def)
  have l: "input_loop ie p (map given frs) no_hits ?w = Inr (True, v, w')"
    using assms(12,14) by (simp add: conference_loop_input_def member_channel_def)
  have a: "talk_abs p no_hits ?w = (False, 0, 0)" by (simp add: talk_abs_def)
  note r = steady_loop [OF st assms(5,6) no_hits_simps(3) assms(10,11) s assms(13) l, unfolded a, folded ls_def]
  have T: "?T = fst (fold talk_next ls (False, 0, 0))"
    using arg_cong [OF conjunct1 [OF r], of fst] by (simp add: talk_abs_def)
  have 1: "?T" if "5 \<le> length ls" "Quiet \<notin> set (drop (length ls - 5) ls)"
    using talk_over_run [OF that(2)] that(1) unfolding T fold_last_part [OF that(1)] by fastforce
  have 2: "\<not> ?T" if "Loud \<notin> set ls" "length (filter ((=) Over) ls) < 5"
    using talk_few_over [of False ls 0 0] that by (simp add: T)
  have 3: "?T" if "ls = as @ Loud # bs" "length (filter ((=) Quiet) bs) < 40" for as bs
    using talk_pause [of True 0 bs 0] that(2) by (simp add: T that(1))
  have 4: "\<not> ?T" if "40 \<le> length ls" "set (drop (length ls - 40) ls) \<subseteq> {Quiet}"
  proof
    assume ?T
    obtain t q k where e: "fold talk_next (take (length ls - 40) ls) (False, 0, 0) = (t, q, k)" by (metis prod_cases3)
    from \<open>?T\<close> have "fst (fold talk_next (drop (length ls - 40) ls) (t, q, k))"
      unfolding T fold_last_part [OF that(1)] e .
    from talk_quiet_run [OF that(2) this] that(1) show False by auto
  qed
  have "\<exists>n. talk_actions (out w') = talk_actions (out w) @ alternate False n \<and> (?T \<longleftrightarrow> odd n)" using r by auto
  with 1 2 3 4 show ?thesis by blast
qed

section \<open>Muted members\<close>

lemma muted_detect:
  assumes "mflag w p MFLAG_TALKING" and "\<not> mflag w p MFLAG_CAN_SPEAK"
  shows "m_flags (mem (snd (snd (detect_talking env p v w))) p) = m_flags (mem w p)"
proof -
  have t: "m_flags (mem (set_nt_tally f p w) p) = m_flags (mem w p)" for f by (simp add: set_nt_tally_def)
  have "m_flags (mem (snd (snd (loud_frame env p v w))) p) = m_flags (mem w p)"
    using assms by (simp add: loud_frame_def start_talking_def t Let_def)
  moreover have "m_flags (mem (snd (quiet_frame p v w)) p) = m_flags (mem w p)"
    using assms by (simp add: quiet_frame_def t Let_def)
  ultimately show ?thesis by (simp add: detect_talking_def split_beta)
qed

lemma muted_keeps_flags:
  assumes "input_frame ie p fr v w = Inr (go, v', w')" and "\<not> fr_cng fr"
    and "mflag w p MFLAG_TALKING" and "\<not> mflag w p MFLAG_CAN_SPEAK"
  shows "m_flags (mem w' p) = m_flags (mem w p)"
proof -
  obtain fl go1 w2 where mf: "media_frame ie p fr v w = Inr (fl, go1, v', w2)" and w': "mem w' = mem w2"
    using assms(1,2) by (auto simp: input_frame_def bindE_eq_Inr split: if_splits)
  let ?ws = "settle_gain (i_impl ie) p w"
  have flags: "m_flags (mem (upd_mem p (measure_member (i_impl ie) c s) ?ws) p) = m_flags (mem w p)" for c s
    by (simp add: measure_member_def agc_frame_def agc_average_def check_agc_levels_def clear_avg_def settle_gain_def Let_def)
  have det: "m_flags (mem w1 p) = m_flags (mem w p)"
    if "detect_talking env p v wm = (fl, v', w1)" "m_flags (mem wm p) = m_flags (mem w p)" for env wm w1
    using muted_detect [of wm p env v] that assms(3,4) by simp
  have settle: "m_flags (mem ?ws p) = m_flags (mem w p)" by (simp add: settle_gain_def clear_avg_def Let_def)
  from media_frame_parts [OF mf] obtain fr' w1 where "pass_on ie p fr' w1 = Inr (go1, w2)" "m_flags (mem w1 p) = m_flags (mem w p)"
    using det [OF _ flags] settle by (auto split: if_splits)
  then show ?thesis using w' pass_on_frame(3) by metis
qed

lemma muted_run_keeps_flags:
  assumes "input_loop ie p (map given frs) v w = Inr (go, v', w')" and "\<forall>fr\<in>set frs. \<not> fr_cng fr"
    and "mflag w p MFLAG_TALKING" and "\<not> mflag w p MFLAG_CAN_SPEAK"
  shows "m_flags (mem w' p) = (if go then m_flags (mem w p) else m_flags (mem w p) - {MFLAG_ITHREAD})"
  using assms
proof (induction frs arbitrary: v w)
  case (Cons fr frs)
  have g: "given fr w = (SWITCH_STATUS_SUCCESS, fr, w)" by (simp add: given_def)
  have e: "m_flags (mem (input_end p x) p) = m_flags (mem x p) - {MFLAG_ITHREAD}" for x
    by (simp add: input_end_def clear_mflag_def)
  consider "\<not> go" "w' = input_end p w" | "input_loop ie p (map given frs) v w = Inr (go, v', w')"
    | v1 w1 where "input_frame ie p fr v w = Inr (False, v1, w1)" "\<not> go" "w' = input_end p w1"
    | v1 w1 where "input_frame ie p fr v w = Inr (True, v1, w1)" "input_loop ie p (map given frs) v1 w1 = Inr (go, v', w')"
    using Cons.prems(1) by (auto simp: g bindE_eq_Inr split: if_splits)
  then show ?case
  proof cases
    case 2
    with Cons.IH Cons.prems(2-4) show ?thesis by simp
  next
    case (3 v1 w1)
    with muted_keeps_flags [OF 3(1)] Cons.prems(2-4) show ?thesis by (simp add: e)
  next
    case (4 v1 w1)
    have "m_flags (mem w1 p) = m_flags (mem w p)" using muted_keeps_flags [OF 4(1)] Cons.prems(2-4) by simp
    with Cons.IH [OF 4(2)] Cons.prems(2-4) show ?thesis by simp
  qed (simp add: e)
qed simp

lemma gain_off_score:
  assumes "c_agc_level (conf w) = 0" and "m_agc_volume_in_level (mem w p) = 0" and "m_volume_in_level (mem w p) = 0"
  shows "frame_volume (mem (settle_gain impl p w) p) fr = Inr fr"
  using assms by (simp add: settle_gain_def clear_avg_def frame_volume_def switch_change_sln_volume_def
      switch_change_sln_volume_granular_def Let_def)

text \<open>
  C36. A member that is muted and only watched for talking (mute detection), on whose audio no gain
  or volume acts, takes the floor all the same with a frame well above its threshold when the
  floor is free or its holder is not talking, although nobody hears it.  From then on, however
  many frames of media it sends, silence included, its input loop leaves its flags as they are
  (the one of the input thread apart, when the loop ends): it stays marked as talking.
\<close>

theorem muted_member_takes_floor:
  assumes "m_conference (mem w p)" and "m_session (mem w p) = Some ch" and "\<not> fr_cng fr"
    and "samples_per_packet (i_impl ie) \<noteq> 0" and "number_of_channels (i_impl ie) = 1" and "frame_ok fr"
    and "c_agc_level (conf w) = 0" and "m_agc_volume_in_level (mem w p) = 0" and "m_volume_in_level (mem w p) = 0"
    and "0 \<le> m_energy_level (mem w p)" and "m_energy_level (mem w p) < 2 ^ 31"
    and "frame_loudness (m_energy_level (mem w p)) fr = Loud"
    and "mflag w p MFLAG_MUTE_DETECT" and "\<not> mflag w p MFLAG_CAN_SPEAK" and "\<not> cflag w CFLAG_VID_FLOOR"
    and "\<forall>h. c_floor_holder (conf w) = Some h \<longrightarrow> h \<noteq> p \<and> \<not> mflag w h MFLAG_TALKING"
  shows "\<exists>v' w'. input_frame ie p fr v w = Inr (True, v', w') \<and> c_floor_holder (conf w') = Some p \<and>
    m_audio_buffer (mem w' p) = m_audio_buffer (mem w p) \<and>
    (\<forall>frs v2 go v3 w3. (\<forall>fr2\<in>set frs. \<not> fr_cng fr2) \<and> input_loop ie p (map given frs) v2 w' = Inr (go, v3, w3) \<longrightarrow>
       mflag w3 p MFLAG_TALKING \<and> m_flags (mem w3 p) - {MFLAG_ITHREAD} = m_flags (mem w' p) - {MFLAG_ITHREAD})"
proof -
  let ?impl = "i_impl ie" and ?ws = "settle_gain (i_impl ie) p w"
  have n: "unat (fr_datalen fr) div 2 \<le> length (fr_data fr)" using assms(3,6) by (simp add: frame_ok_def)
  obtain s where s: "frame_score ?impl fr = Inr s" using frame_score_ok [OF assms(5) n] by blast
  let ?wm = "upd_mem p (measure_member ?impl (conf w) s) ?ws"
  have r0: "voice_rest p ?wm = voice_rest p w" by simp
  have e: "m_energy_level (mem ?wm p) = m_energy_level (mem w p)" "conf ?wm = conf w"
    by (rule rest_eqD(7) [OF r0], rule rest_eqD(1) [OF r0])
  have "uint (m_score (mem ?wm p)) = (\<Sum>x\<leftarrow>fr_data fr. \<bar>sint x\<bar>) div int (length (fr_data fr))"
    using frame_score_mean [OF assms(5,6,3) s] by (simp add: measure_steady [OF assms(7)])
  then have "loudness_of (conf ?wm) (mem ?wm p) = Loud"
    using loudness_of_steady [of "conf ?wm" "mem ?wm p", OF _ e(1) assms(10,11)] assms(3,7,12) e(2)
    unfolding frame_loudness_def Let_def by (simp split: if_splits)
  then have loud: "noise_gate_check (conf ?wm) (mem ?wm p)"
    "m_score (mem ?wm p) - word_of_int (m_energy_level (mem ?wm p)) \<ge> diff_level"
    by (auto simp: loudness_of_def split: if_splits)
  obtain fl v' w1 where d: "detect_talking (i_env ie) p v ?wm = (fl, v', w1)" by (metis prod_cases3)
  have "fl" using d loud by (simp add: detect_talking_def loud_frame_def Let_def)
  have t: "mflag w1 p MFLAG_TALKING" using d loud by (auto simp: detect_talking_def loud_frame_def Let_def)
  have r: "voice_rest p w1 = voice_rest p w" using rest_detect [of p "i_env ie" v ?wm] r0 by (simp only: d snd_conv)
  have mute: "\<not> mflag w1 p MFLAG_CAN_SPEAK" using rest_eqD(9) [OF r, of MFLAG_CAN_SPEAK p] assms(14) by simp
  have "media_frame ie p fr v w = Inr (fl, True, v', w1)"
    using assms(4,13) s d mute gain_off_score [OF assms(7-9), of ?impl fr]
    by (simp add: media_frame_def settle_talk pass_on_def lets_through_def Let_def)
  then have f: "input_frame ie p fr v w = Inr (True, v', floor_change p ch w1)"
    using assms(1-3) \<open>fl\<close> rest_eqD(3) [OF r] by (simp add: input_frame_def member_channel_def)
  have "takes_floor p ch w1"
    using assms(15,16) rest_eqD(1) [OF r] rest_eqD(2) [OF r] by (auto simp: takes_floor_def split: option.split)
  then have "c_floor_holder (conf (floor_change p ch w1)) = Some p" by (simp add: floor_change_conf)
  moreover have "mflag w3 p MFLAG_TALKING \<and> m_flags (mem w3 p) - {MFLAG_ITHREAD} = m_flags (mem (floor_change p ch w1) p) - {MFLAG_ITHREAD}"
    if "\<forall>fr2\<in>set frs. \<not> fr_cng fr2" "input_loop ie p (map given frs) v2 (floor_change p ch w1) = Inr (go, v3, w3)" for frs v2 go v3 w3
    using muted_run_keeps_flags [OF that(2,1)] t mute by (auto split: if_splits)
  ultimately show ?thesis using f rest_eqD(6) [OF r] by fastforce
qed

lemma agc_low_target_only_raises:
  assumes "0 < c_agc_level c" and "c_agc_level c < 100" and "m_avg_score m \<noteq> 0" and "m_avg_score m \<le> 32768"
  shows "m_agc_volume_in_level (check_agc_levels c m) = switch_normalize_volume_granular (m_agc_volume_in_level m + 1)"
proof -
  have "(c_agc_level c - 100) mod 2 ^ 32 = (2 ^ 32 + (c_agc_level c - 100)) mod 2 ^ 32"
    by (rule mod_add_self1 [symmetric])
  also have "\<dots> = 2 ^ 32 + (c_agc_level c - 100)" using assms(1,2) by (intro mod_pos_pos_trivial) simp_all
  finally have "uint (word_of_int (c_agc_level c - 100) :: uint32) = 4294967296 + (c_agc_level c - 100)"
    unfolding uint_word_of_int by simp
  moreover have "uint (m_avg_score m) \<le> 32768" using assms(4) by (simp add: word_le_def)
  ultimately have "m_avg_score m < word_of_int (c_agc_level c - 100)"
    unfolding word_less_def using assms(1) by linarith
  with assms(3) show ?thesis by (simp add: check_agc_levels_def clear_avg_def)
qed

section \<open>An example\<close>

definition voice_env :: input_env where
  "voice_env = \<lparr>i_env = plain_env, i_heap = \<lparr>realloc_ok = \<lambda>n. n < 2 ^ 40, junk = \<lambda>_. 0\<rparr>,
     i_session = \<lparr>in_session_thread = True, session_running = True, session_started = True, codecs_set = True, time_now = 0\<rparr>,
     i_impl = \<lparr>actual_samples_per_second = 8000, samples_per_packet = 160, number_of_channels = 1\<rparr>,
     i_resampler = None, i_frame_size = 320\<rparr>"

text \<open>A caller with a threshold of 300, in a conference that tells of talking.\<close>

definition voice_world :: "member_flag_t set \<Rightarrow> conf_world" where
  "voice_world fl = \<lparr>conf = plain_conf\<lparr>c_members := [2], c_count := 1, c_eflags := {EFLAG_START_TALKING, EFLAG_STOP_TALKING}\<rparr>,
     mem = (\<lambda>p. (caller (of_nat p) fl (Some (blank_channel\<lparr>ch_state := CS_EXECUTE, running_state := CS_EXECUTE\<rparr>)))
                  \<lparr>m_conference := True, m_energy_level := 300\<rparr>),
     out = [], EC = 0, id_pool = 1\<rparr>"

abbreviation loud :: switch_frame where
  "loud \<equiv> \<lparr>fr_cng = False, fr_data = [1000, 1000], fr_datalen = 4\<rparr>"

abbreviation speaker :: "member_flag_t set" where
  "speaker \<equiv> {MFLAG_RUNNING, MFLAG_CAN_SPEAK, MFLAG_CAN_HEAR, MFLAG_INTREE}"

lemma voice_world_facts:
  "m_session (mem (voice_world fl) p) = Some (blank_channel\<lparr>ch_state := CS_EXECUTE, running_state := CS_EXECUTE\<rparr>)"
  "m_conference (mem (voice_world fl) p)" "m_energy_level (mem (voice_world fl) p) = 300"
  "m_agc_volume_in_level (mem (voice_world fl) p) = 0" "m_volume_in_level (mem (voice_world fl) p) = 0"
  "m_avg_score (mem (voice_world fl) p) = 0" "m_flags (mem (voice_world fl) p) = fl"
  "m_audio_buffer (mem (voice_world fl) p) = plain_buffer" "c_agc_level (conf (voice_world fl)) = 0"
  "c_flags (conf (voice_world fl)) = {}" "c_floor_holder (conf (voice_world fl)) = None"
  "c_eflags (conf (voice_world fl)) = {EFLAG_START_TALKING, EFLAG_STOP_TALKING}" "out (voice_world fl) = []"
  "m_nt_tally (mem (voice_world fl) p) = 0"
  by (simp_all add: voice_world_def caller_def plain_conf_def)

lemma plain_buffer_facts:
  "buf_inv plain_buffer" "buf_data plain_buffer = Some []" "buf_grown plain_buffer 4 < 2 ^ 64" "buf_content plain_buffer = []"
  "buf_fits (i_heap voice_env) plain_buffer 4"
  by (simp_all add: plain_buffer_def buf_inv_def buf_grown_def buf_content_def buf_fits_def voice_env_def buf_dynamic_def
      SWITCH_BUFFER_FLAG_DYNAMIC_def)

lemma voice_env_facts:
  "samples_per_packet (i_impl voice_env) \<noteq> 0" "number_of_channels (i_impl voice_env) = 1" "i_resampler voice_env = None"
  by (simp_all add: voice_env_def)

lemma loud_is_loud: "frame_ok loud" "frame_loudness 300 loud = Loud"
  by (simp_all add: frame_ok_def frame_loudness_def)

abbreviation silent :: switch_frame where
  "silent \<equiv> \<lparr>fr_cng = False, fr_data = [0, 0], fr_datalen = 4\<rparr>"

lemma loud_taken:
  assumes "fr \<in> {loud, silent}" and "m_audio_buffer (mem w p) = plain_buffer" and "m_conference (mem w p)" and "m_session (mem w p) = Some ch"
  shows "\<exists>v' w'. input_frame voice_env p fr v w = Inr (True, v', w')"
proof -
  have fr: "\<not> fr_cng fr" "unat (fr_datalen fr) \<le> 2 * length (fr_data fr)" "unat (fr_datalen fr) = 4" using assms(1) by auto
  moreover have "buf_inv (m_audio_buffer (mem w p))" "buf_data (m_audio_buffer (mem w p)) = Some []"
    "buf_grown (m_audio_buffer (mem w p)) (unat (fr_datalen fr)) < 2 ^ 64"
    using plain_buffer_facts by (simp_all add: assms(2) fr(3))
  ultimately obtain fl go v' w' w1 where mf: "media_frame voice_env p fr v w = Inr (fl, go, v', w')"
      "voice_rest p w1 = voice_rest p w" "mem w' p = (mem w1 p)\<lparr>m_audio_buffer := m_audio_buffer (mem w' p)\<rparr>" "go"
    using media_frame_effect [of voice_env fr w p "[]" v, OF voice_env_facts] plain_buffer_facts(5) assms(2) fr
    by (auto split: if_splits)
  have "m_session (mem w' p) = Some ch" using arg_cong [OF mf(3), of m_session] rest_eqD(3) [OF mf(2)] assms(4) by simp
  then show ?thesis using assms(3) fr(1) mf(1,4) by (cases fl) (simp_all add: input_frame_def member_channel_def)
qed

lemma loud_talks:
  assumes "input_frame voice_env 2 loud no_hits (voice_world speaker) = Inr (go, v', w')"
  shows "mflag w' 2 MFLAG_TALKING"
proof -
  have "steady 2 300 (voice_world speaker)" by (simp add: steady_def voice_world_facts)
  from steady_frame [OF this _ _ no_hits_simps(3) loud_is_loud(1) voice_env_facts(2) assms] loud_is_loud(2)
  have "talk_abs 2 v' w' = (True, 0, 0)" by (simp add: talk_abs_def)
  then show ?thesis by (simp add: talk_abs_def)
qed

theorem voice_gate_witness:
  "\<exists>v' w'. input_frame voice_env 2 loud no_hits (voice_world speaker) = Inr (True, v', w') \<and>
    buf_content (m_audio_buffer (mem w' 2)) = [232, 3, 232, 3]"
proof -
  let ?w = "voice_world speaker"
  have "unat (fr_datalen loud) \<le> 2 * length (fr_data loud)" "\<not> fr_cng loud" by simp_all
  moreover have "buf_inv (m_audio_buffer (mem ?w 2))" "buf_data (m_audio_buffer (mem ?w 2)) = Some []"
    "buf_grown (m_audio_buffer (mem ?w 2)) (unat (fr_datalen loud)) < 2 ^ 64"
    using plain_buffer_facts by (simp_all add: voice_world_facts)
  ultimately obtain go v' w' d1 d2 where w:
    "switch_change_sln_volume [1000, 1000] 2 0 = Inr d1" "switch_change_sln_volume_granular d1 2 0 = Inr d2"
    "input_frame voice_env 2 loud no_hits ?w = Inr (go, v', w')" "go"
    "mflag w' 2 MFLAG_TALKING \<longrightarrow> buf_content (m_audio_buffer (mem w' 2)) = take 4 (bytes_of d2)"
    using voice_gate [of ?w 2 _ loud voice_env "[]" no_hits, OF voice_world_facts(2,1) _ voice_env_facts]
      plain_buffer_facts(4,5)
    by (auto simp: voice_world_facts Let_def reset_gain_def)
  have "d2 = [1000, 1000]" using w(1,2) by (simp add: switch_change_sln_volume_def switch_change_sln_volume_granular_def)
  with w loud_talks [OF w(3)] show ?thesis by (auto simp: bytes_of_def bytes_of_sample_def drop_bit_eq_div)
qed

abbreviation in_call :: switch_channel where
  "in_call \<equiv> blank_channel\<lparr>ch_state := CS_EXECUTE, running_state := CS_EXECUTE\<rparr>"

lemma in_call_ready: "switch_channel_test_ready (i_session voice_env) in_call True False"
  by (simp add: switch_channel_test_ready_def voice_env_def blank_channel_def switch_channel_test_flag_def
      switch_channel_state_change_pending_def SWITCH_CAUSE_NONE_def state_order)

lemma loud_loop:
  "\<exists>v w'. conference_loop_input voice_env 2 [given loud] (voice_world speaker) = Inr (True, v, w')"
  "switch_channel_test_app_flag_key ''mod_conference.c'' in_call CF_APP_TAGGED = 0"
proof -
  let ?c = "clear_mflag 2 MFLAG_TALKING (voice_world speaker)"
  have c: "m_audio_buffer (mem ?c 2) = plain_buffer" "m_conference (mem ?c 2)" "m_session (mem ?c 2) = Some in_call"
    "mflag ?c 2 MFLAG_RUNNING"
    by (simp_all add: clear_mflag_def voice_world_facts)
  obtain v w' where f: "input_frame voice_env 2 loud no_hits ?c = Inr (True, v, w')"
    using loud_taken [OF _ c(1-3)] by blast
  show t: "switch_channel_test_app_flag_key ''mod_conference.c'' in_call CF_APP_TAGGED = 0"
    by (simp add: switch_channel_test_app_flag_key_def blank_channel_def)
  have g: "given loud ?c = (SWITCH_STATUS_SUCCESS, loud, ?c)" by (simp add: given_def)
  show "\<exists>v w'. conference_loop_input voice_env 2 [given loud] (voice_world speaker) = Inr (True, v, w')"
    using c(4) f t in_call_ready
    by (simp add: conference_loop_input_def member_channel_def voice_world_facts c(3) g SWITCH_READ_ACCEPTABLE_def)
qed

theorem talking_hysteresis_witness:
  "\<exists>v w'. conference_loop_input voice_env 2 [given loud] (voice_world speaker) = Inr (True, v, w') \<and>
    mflag w' 2 MFLAG_TALKING"
proof -
  let ?w = "voice_world speaker"
  obtain v w' where l: "conference_loop_input voice_env 2 (map given [loud]) ?w = Inr (True, v, w')" using loud_loop(1) by auto
  note talking_hysteresis [of ?w 2 "[loud]" voice_env in_call v w', OF _ _ _ _ _ _ _ _ _ _ voice_env_facts(2) _ loud_loop(2) l]
  then have "\<forall>as bs. [Loud] = as @ Loud # bs \<and> length (filter ((=) Quiet) bs) < 40 \<longrightarrow> mflag w' 2 MFLAG_TALKING"
    using loud_is_loud by (simp add: voice_world_facts)
  from this [rule_format, of "[]" "[]"] show ?thesis using l by auto
qed

theorem muted_member_takes_floor_witness:
  "\<exists>v' w' v3 w3. input_frame voice_env 2 loud no_hits (voice_world {MFLAG_MUTE_DETECT, MFLAG_RUNNING}) = Inr (True, v', w') \<and>
    c_floor_holder (conf w') = Some 2 \<and>
    input_loop voice_env 2 (map given [silent]) v' w' = Inr (True, v3, w3) \<and> mflag w3 2 MFLAG_TALKING"
proof -
  let ?w = "voice_world {MFLAG_MUTE_DETECT, MFLAG_RUNNING}"
  obtain v' w' where f: "input_frame voice_env 2 loud no_hits ?w = Inr (True, v', w')" "c_floor_holder (conf w') = Some 2"
      "m_audio_buffer (mem w' 2) = plain_buffer"
    and later: "\<forall>frs v2 go v3 w3. (\<forall>fr\<in>set frs. \<not> fr_cng fr) \<and>
      input_loop voice_env 2 (map given frs) v2 w' = Inr (go, v3, w3) \<longrightarrow> mflag w3 2 MFLAG_TALKING"
    using muted_member_takes_floor [of ?w 2 _ loud voice_env no_hits,
        OF voice_world_facts(2,1) _ voice_env_facts(1,2) loud_is_loud(1)] loud_is_loud(2)
    by (auto simp: voice_world_facts)
  have k: "m_session (mem w' 2) = Some in_call" "m_conference (mem w' 2)" "mflag w' 2 MFLAG_RUNNING"
    using input_frame_session [OF f(1)] by (simp_all add: voice_world_facts)
  obtain v3 w3 where s: "input_frame voice_env 2 silent v' w' = Inr (True, v3, w3)"
    using loud_taken [OF _ f(3) k(2,1)] by blast
  have "input_loop voice_env 2 (map given [silent]) v' w' = Inr (True, v3, w3)"
    using k s in_call_ready loud_loop(2) by (simp add: member_channel_def given_def SWITCH_READ_ACCEPTABLE_def)
  moreover from this have "mflag w3 2 MFLAG_TALKING" using later [rule_format, of "[silent]" v' True v3 w3] by simp
  ultimately show ?thesis using f(1,2) by blast
qed

end
