(* ===== verification/Collect_Digits.thy ===== *)
theory Collect_Digits
  imports Conference_Voice
begin

text \<open>
  Collecting digits from a caller: \<open>switch_ivr_collect_digits_count\<close> of \<^verbatim>\<open>switch_ivr.c\<close>.  The
  caller's buffer is the string it holds and its size.  Every turn of the loop comes with what it
  finds: what other threads did to the channel since the last turn (digits that arrived, a
  hangup), the readings of the clock, and the status of reading a frame.  The silence that is
  written on request is left out; whether its codec can be set up is an argument.

  The loop may wait for ever, so its value is \<open>None\<close> when the turns given are used up.
  \<open>collect_digits_ends\<close> says how many turns are enough when a timeout is set.
\<close>

section \<open>The loop\<close>

record collect_turn =
  ct_others :: "switch_channel \<Rightarrow> switch_channel"
  ct_now :: int
  ct_later :: int
  ct_read :: switch_status_t

record collect_args =
  ca_buflen :: nat
  ca_maxdigits :: nat
  ca_terminators :: string
  ca_want_term :: bool
  ca_first_timeout :: nat
  ca_digit_timeout :: nat
  ca_abs_timeout :: nat

record collect_vars =
  cv_buf :: string
  cv_status :: switch_status_t
  cv_digit_started :: int
  cv_eff_timeout :: nat

record collect_result =
  cr_status :: switch_status_t
  cr_buf :: string
  cr_term :: "char option"
  cr_channel :: switch_channel

definition CF_SERVICE :: switch_channel_flag_t where
  "CF_SERVICE = 10"

definition is_terminator :: "collect_args \<Rightarrow> char \<Rightarrow> bool" where
  "is_terminator a d \<longleftrightarrow> d \<in> set (ca_terminators a) \<and> ca_want_term a"

text \<open>
  The inner loop takes at most \<open>n\<close> digits off the queue.  The Boolean says whether the routine
  returns.  A digit needs two bytes, its own and that of the NUL behind it.
\<close>

fun collect_queue ::
    "dtmf_limits \<Rightarrow> collect_args \<Rightarrow> nat \<Rightarrow> string \<Rightarrow> switch_channel \<Rightarrow>
       (bool \<times> string \<times> char option \<times> switch_channel) outcome" where
  "collect_queue l a 0 buf c = Inr (False, buf, None, c)"
| "collect_queue l a (Suc n) buf c =
     (case switch_channel_dequeue_dtmf l c of
        (_, None, c, _) \<Rightarrow> Inr (False, buf, None, c)
      | (_, Some d, c, _) \<Rightarrow>
          if is_terminator a (digit d) then Inr (True, buf, Some (digit d), c)
          else if length buf + 2 > ca_buflen a then Inl OutOfBounds
          else let buf = buf @ [digit d] in
               if length buf \<ge> ca_buflen a \<or> length buf \<ge> ca_maxdigits a then Inr (True, buf, None, c)
               else collect_queue l a n buf c)"

definition collect_stop :: "collect_vars \<Rightarrow> switch_status_t \<Rightarrow> switch_channel \<Rightarrow> collect_result" where
  "collect_stop v st c = \<lparr>cr_status = st, cr_buf = cv_buf v, cr_term = None, cr_channel = c\<rparr>"

text \<open>One turn: the routine returns, or goes on with its variables.\<close>

definition collect_step ::
    "dtmf_limits \<Rightarrow> session_view \<Rightarrow> collect_args \<Rightarrow> int \<Rightarrow> collect_turn \<Rightarrow> collect_vars \<Rightarrow> switch_channel \<Rightarrow>
       (collect_result + collect_vars \<times> switch_channel) outcome" where
  "collect_step l sv a started t v c =
     (let c = ct_others t c in
      if \<not> switch_channel_test_ready sv c True False then Inr (Inl (collect_stop v (cv_status v) c))
      else if ca_abs_timeout a \<noteq> 0 \<and> unat (elapsed_ms (ct_now t) started) \<ge> ca_abs_timeout a
        then Inr (Inl (collect_stop v SWITCH_STATUS_TIMEOUT c))
      else if cv_eff_timeout v \<noteq> 0 \<and> unat (elapsed_ms (ct_now t) (cv_digit_started v)) \<ge> cv_eff_timeout v
        then Inr (Inl (collect_stop v SWITCH_STATUS_TIMEOUT c))
      else
        let hit = switch_channel_has_dtmf c \<noteq> 0;
            v = (if hit \<and> cv_eff_timeout v \<noteq> 0
                 then v\<lparr>cv_eff_timeout := ca_digit_timeout a, cv_digit_started := ct_later t\<rparr> else v)
        in bindE (if hit then collect_queue l a (ca_maxdigits a + 1) (cv_buf v) c
                  else Inr (False, cv_buf v, None, c)) (\<lambda>(fin, buf, term, c).
           if fin then Inr (Inl \<lparr>cr_status = SWITCH_STATUS_SUCCESS, cr_buf = buf, cr_term = term, cr_channel = c\<rparr>)
           else let v = v\<lparr>cv_buf := buf\<rparr> in
                if switch_channel_test_flag c CF_SERVICE \<noteq> 0 then Inr (Inr (v, c))
                else let v = v\<lparr>cv_status := ct_read t\<rparr> in
                     if \<not> SWITCH_READ_ACCEPTABLE (ct_read t) then Inr (Inl (collect_stop v (ct_read t) c))
                     else Inr (Inr (v, c))))"

fun collect_loop ::
    "dtmf_limits \<Rightarrow> session_view \<Rightarrow> collect_args \<Rightarrow> int \<Rightarrow> collect_turn list \<Rightarrow> collect_vars \<Rightarrow> switch_channel \<Rightarrow>
       collect_result option outcome" where
  "collect_loop l sv a started [] v c = Inr None"
| "collect_loop l sv a started (t # ts) v c =
     bindE (collect_step l sv a started t v c) (\<lambda>r.
       case r of Inl res \<Rightarrow> Inr (Some res) | Inr (v, c) \<Rightarrow> collect_loop l sv a started ts v c)"

text \<open>The timeouts: either one stands in for the other.\<close>

definition set_timeouts :: "collect_args \<Rightarrow> collect_args \<times> nat" where
  "set_timeouts a =
     (let first = ca_first_timeout a; dig = ca_digit_timeout a in
      if dig \<noteq> 0 \<and> first \<noteq> 0 then (a, first)
      else if dig \<noteq> 0 then (a\<lparr>ca_first_timeout := dig\<rparr>, dig)
      else if first \<noteq> 0 then (a\<lparr>ca_digit_timeout := first\<rparr>, first)
      else (a, 0))"

text \<open>\<open>started\<close> and \<open>digit_started\<close> are the readings of the clock before the loop.\<close>

definition switch_ivr_collect_digits_count ::
    "dtmf_limits \<Rightarrow> session_view \<Rightarrow> bool \<Rightarrow> int \<Rightarrow> int \<Rightarrow> collect_turn list \<Rightarrow> collect_args \<Rightarrow> string \<Rightarrow> switch_channel \<Rightarrow>
       collect_result option outcome" where
  "switch_ivr_collect_digits_count l sv silence_ok started digit_started ts a buf c =
     (if \<not> silence_ok
      then Inr (Some \<lparr>cr_status = SWITCH_STATUS_FALSE, cr_buf = buf, cr_term = None, cr_channel = c\<rparr>)
      else let before = takeWhile (\<lambda>d. \<not> is_terminator a d) buf in
           if length before < length buf
           then Inr (Some \<lparr>cr_status = SWITCH_STATUS_SUCCESS, cr_buf = before,
                           cr_term = Some (buf ! length before), cr_channel = c\<rparr>)
           else let (a, eff) = set_timeouts a in
                collect_loop l sv a started ts
                  \<lparr>cv_buf = buf, cv_status = SWITCH_STATUS_FALSE, cv_digit_started = digit_started,
                   cv_eff_timeout = eff\<rparr> c)"

section \<open>It ends\<close>

text \<open>
  The clock goes on by a millisecond or more from turn to turn; \<open>prev\<close> is its last reading.
\<close>

fun paced :: "int \<Rightarrow> collect_turn list \<Rightarrow> bool" where
  "paced prev [] = True"
| "paced prev (t # ts) \<longleftrightarrow> prev + 1000 \<le> ct_now t \<and> ct_now t \<le> ct_later t \<and> paced (ct_later t) ts"

lemma collect_queue_ok:
  assumes "length buf < ca_maxdigits a" and "ca_maxdigits a < ca_buflen a"
  shows "\<exists>fin buf' term c'. collect_queue l a n buf c = Inr (fin, buf', term, c') \<and> length buf' \<le> ca_maxdigits a \<and>
    (\<not> fin \<longrightarrow> length buf' < ca_maxdigits a \<and> length buf \<le> length buf' \<and>
              (0 < n \<and> dtmf_queue c \<noteq> [] \<longrightarrow> length buf < length buf'))"
  using assms
proof (induction n arbitrary: buf c)
  case 0
  then show ?case by auto
next
  case (Suc n)
  show ?case
  proof (cases "dtmf_queue c")
    case Nil
    with Suc.prems show ?thesis by (auto simp: switch_channel_dequeue_dtmf_def)
  next
    case (Cons d q)
    obtain d' c' acts where d: "switch_channel_dequeue_dtmf l c = (SWITCH_STATUS_SUCCESS, Some d', c', acts)"
      using Cons by (auto simp: switch_channel_dequeue_dtmf_def Let_def)
    show ?thesis
    proof (cases "is_terminator a (digit d') \<or> ca_maxdigits a \<le> length (buf @ [digit d'])")
      case True
      with d Suc.prems show ?thesis by (auto simp: Let_def)
    next
      case False
      with Suc.IH [of "buf @ [digit d']" c'] Suc.prems(2) obtain fin buf' tm c2
        where "collect_queue l a n (buf @ [digit d']) c' = Inr (fin, buf', tm, c2)" "length buf' \<le> ca_maxdigits a"
          "\<not> fin \<longrightarrow> length buf' < ca_maxdigits a \<and> length (buf @ [digit d']) \<le> length buf'" by auto
      with d False Suc.prems show ?thesis by (auto simp: Let_def)
    qed
  qed
qed

lemma elapsed_ms_exact:
  assumes "since \<le> now" and "now < since + 1000 * 2 ^ 32"
  shows "uint (elapsed_ms now since) = (now - since) div 1000"
proof -
  have "0 \<le> (now - since) div 1000" "(now - since) div 1000 < 2 ^ 32" using assms by auto
  then show ?thesis using assms by (auto simp: elapsed_ms_def sgn_if uint_word_of_int)
qed

text \<open>What is left of the patience of the loop: digits still wanted, and time until the next one.\<close>

definition patience :: "collect_args \<Rightarrow> nat \<Rightarrow> collect_vars \<Rightarrow> int \<Rightarrow> nat" where
  "patience a T v prev =
     (ca_maxdigits a - length (cv_buf v)) * (T + 1) + (T - nat ((prev - cv_digit_started v) div 1000))"

lemma patience_waiting:
  assumes "length (cv_buf v') = length (cv_buf v)" "cv_digit_started v' = cv_digit_started v"
    and "cv_digit_started v \<le> prev" "prev + 1000 \<le> now" "now \<le> later" "(now - cv_digit_started v) div 1000 < int T"
  shows "patience a T v' later < patience a T v prev"
proof -
  let ?s = "cv_digit_started v"
  have "(prev - ?s + 1000) div 1000 \<le> (now - ?s) div 1000" using assms(4) by (intro zdiv_mono1) auto
  then have "(prev - ?s) div 1000 + 1 \<le> (now - ?s) div 1000" by simp
  moreover have "(now - ?s) div 1000 \<le> (later - ?s) div 1000" using assms(5) by (intro zdiv_mono1) auto
  moreover have "0 \<le> (prev - ?s) div 1000" using assms(3) by simp
  ultimately have "T - nat ((later - ?s) div 1000) < T - nat ((prev - ?s) div 1000)" using assms(6) by linarith
  then show ?thesis unfolding patience_def assms(1,2) by (rule add_strict_left_mono)
qed

lemma patience_digit:
  assumes "length (cv_buf v) < length (cv_buf v')" "length (cv_buf v') < ca_maxdigits a"
  shows "patience a T v' later < patience a T v prev"
proof -
  have "(ca_maxdigits a - length (cv_buf v') + 1) * (T + 1) \<le> (ca_maxdigits a - length (cv_buf v)) * (T + 1)"
    using assms by (intro mult_le_mono1) linarith
  moreover have "(ca_maxdigits a - length (cv_buf v') + 1) * (T + 1) = (ca_maxdigits a - length (cv_buf v')) * (T + 1) + (T + 1)"
    by (simp add: algebra_simps)
  ultimately show ?thesis unfolding patience_def by linarith
qed

text \<open>Every turn returns within bounds or uses up some of the patience.\<close>

lemma collect_step_progress:
  assumes v: "length (cv_buf v) < ca_maxdigits a" "0 < cv_eff_timeout v" "cv_eff_timeout v \<le> T" "cv_digit_started v \<le> prev"
    and a: "ca_maxdigits a < ca_buflen a" "0 < ca_digit_timeout a" "ca_digit_timeout a \<le> T"
    and t: "prev + 1000 \<le> ct_now t" "ct_now t \<le> ct_later t" "ct_later t < cv_digit_started v + 1000 * 2 ^ 32"
  shows "(\<exists>r. collect_step l sv a started t v c = Inr (Inl r) \<and> length (cr_buf r) \<le> ca_maxdigits a) \<or>
    (\<exists>v' c'. collect_step l sv a started t v c = Inr (Inr (v', c')) \<and> length (cv_buf v') < ca_maxdigits a \<and>
       0 < cv_eff_timeout v' \<and> cv_eff_timeout v' \<le> T \<and> cv_digit_started v \<le> cv_digit_started v' \<and>
       cv_digit_started v' \<le> ct_later t \<and> patience a T v' (ct_later t) < patience a T v prev)"
proof -
  let ?c = "ct_others t c"
  define out where "out \<longleftrightarrow> \<not> switch_channel_test_ready sv ?c True False \<or>
    ca_abs_timeout a \<noteq> 0 \<and> unat (elapsed_ms (ct_now t) started) \<ge> ca_abs_timeout a \<or>
    unat (elapsed_ms (ct_now t) (cv_digit_started v)) \<ge> cv_eff_timeout v"
  consider "out" | "\<not> out" "dtmf_queue ?c = []" | "\<not> out" "dtmf_queue ?c \<noteq> []" by blast
  then show ?thesis
  proof cases
    case 1
    then obtain st where "collect_step l sv a started t v c = Inr (Inl (collect_stop v st ?c))"
      using v(2) unfolding collect_step_def out_def Let_def by (metis less_numeral_extra(3))
    with v(1) show ?thesis by (simp add: collect_stop_def)
  next
    case 2
    have e: "uint (elapsed_ms (ct_now t) (cv_digit_started v)) = (ct_now t - cv_digit_started v) div 1000"
      using v(4) t by (intro elapsed_ms_exact) auto
    have "unat (elapsed_ms (ct_now t) (cv_digit_started v)) < T" using 2(1) v(3) by (simp add: out_def)
    then have "uint (elapsed_ms (ct_now t) (cv_digit_started v)) < int T" unfolding uint_nat of_nat_less_iff .
    then have less: "patience a T v' (ct_later t) < patience a T v prev"
      if "length (cv_buf v') = length (cv_buf v)" "cv_digit_started v' = cv_digit_started v" for v'
      using patience_waiting [OF that v(4) t(1,2)] e by simp
    have "collect_step l sv a started t v c =
        (if switch_channel_test_flag ?c CF_SERVICE \<noteq> 0 then Inr (Inr (v, ?c))
         else if SWITCH_READ_ACCEPTABLE (ct_read t) then Inr (Inr (v\<lparr>cv_status := ct_read t\<rparr>, ?c))
         else Inr (Inl (collect_stop v (ct_read t) ?c)))"
      using 2 v(2) unfolding out_def by (auto simp: collect_step_def collect_stop_def switch_channel_has_dtmf_def Let_def)
    with v t(1,2) less [of v] less [of "v\<lparr>cv_status := ct_read t\<rparr>"] show ?thesis by (simp add: collect_stop_def)
  next
    case 3
    obtain fin buf' tm c' where q: "collect_queue l a (ca_maxdigits a + 1) (cv_buf v) ?c = Inr (fin, buf', tm, c')"
      "length buf' \<le> ca_maxdigits a" "\<not> fin \<longrightarrow> length buf' < ca_maxdigits a \<and> length (cv_buf v) < length buf'"
      using collect_queue_ok [OF v(1) a(1), of l "ca_maxdigits a + 1" ?c] 3(2) by auto
    have less: "patience a T v' (ct_later t) < patience a T v prev" if "\<not> fin" "cv_buf v' = buf'" for v'
      using patience_digit [of v v' a] that q(3) by simp
    define v1 where "v1 = v\<lparr>cv_eff_timeout := ca_digit_timeout a, cv_digit_started := ct_later t, cv_buf := buf'\<rparr>"
    have "collect_step l sv a started t v c =
        (if fin then Inr (Inl \<lparr>cr_status = SWITCH_STATUS_SUCCESS, cr_buf = buf', cr_term = tm, cr_channel = c'\<rparr>)
         else if switch_channel_test_flag c' CF_SERVICE \<noteq> 0 then Inr (Inr (v1, c'))
         else if SWITCH_READ_ACCEPTABLE (ct_read t) then Inr (Inr (v1\<lparr>cv_status := ct_read t\<rparr>, c'))
         else Inr (Inl (collect_stop v1 (ct_read t) c')))"
      using 3 v(2) q(1) unfolding out_def
      by (auto simp: collect_step_def collect_stop_def switch_channel_has_dtmf_def Let_def v1_def)
    with v t a q(2,3) less [of v1] less [of "v1\<lparr>cv_status := ct_read t\<rparr>"] show ?thesis by (simp add: collect_stop_def v1_def)
  qed
qed

lemma collect_loop_ends:
  assumes "length (cv_buf v) < ca_maxdigits a" "0 < cv_eff_timeout v" "cv_eff_timeout v \<le> T" "cv_digit_started v \<le> prev"
    and a: "ca_maxdigits a < ca_buflen a" "0 < ca_digit_timeout a" "ca_digit_timeout a \<le> T"
    and "paced prev ts" "\<forall>t\<in>set ts. ct_later t < s + 1000 * 2 ^ 32" "s \<le> cv_digit_started v" "patience a T v prev < length ts"
  shows "\<exists>r. collect_loop l sv a started ts v c = Inr (Some r) \<and> length (cr_buf r) \<le> ca_maxdigits a"
  using assms(1-4,8-)
proof (induction ts arbitrary: v c prev)
  case Nil
  then show ?case by simp
next
  case (Cons t ts)
  have t: "prev + 1000 \<le> ct_now t" "ct_now t \<le> ct_later t" "ct_later t < cv_digit_started v + 1000 * 2 ^ 32"
    using Cons.prems by auto
  from collect_step_progress [OF Cons.prems(1-4) a t, of l sv started c] show ?case
  proof
    assume "\<exists>r. collect_step l sv a started t v c = Inr (Inl r) \<and> length (cr_buf r) \<le> ca_maxdigits a"
    then show ?thesis by auto
  next
    assume "\<exists>v' c'. collect_step l sv a started t v c = Inr (Inr (v', c')) \<and> length (cv_buf v') < ca_maxdigits a \<and>
       0 < cv_eff_timeout v' \<and> cv_eff_timeout v' \<le> T \<and> cv_digit_started v \<le> cv_digit_started v' \<and>
       cv_digit_started v' \<le> ct_later t \<and> patience a T v' (ct_later t) < patience a T v prev"
    then obtain v' c' where v': "collect_step l sv a started t v c = Inr (Inr (v', c'))" "length (cv_buf v') < ca_maxdigits a"
       "0 < cv_eff_timeout v'" "cv_eff_timeout v' \<le> T" "cv_digit_started v \<le> cv_digit_started v'"
       "cv_digit_started v' \<le> ct_later t" "patience a T v' (ct_later t) < patience a T v prev" by blast
    with Cons.IH [of v' "ct_later t" c'] Cons.prems show ?thesis by auto
  qed
qed

text \<open>
  Collecting digits comes to an end whatever the caller and the other threads do: with a
  timeout set, a buffer with room for the digits wanted, and a clock that goes on by a
  millisecond or more per turn and does not run for the 49 days after which a count of
  milliseconds wraps, the routine returns within (digits still wanted) times (timeout + 1) + timeout + 1
  turns, never writes outside of the buffer, and gives back no more digits than were asked for.
\<close>

lemma collect_digits_ends:
  fixes a :: collect_args
  defines "T \<equiv> max (ca_first_timeout a) (ca_digit_timeout a)"
  assumes "ca_first_timeout a \<noteq> 0 \<or> ca_digit_timeout a \<noteq> 0" and "length buf < ca_maxdigits a" and "ca_maxdigits a < ca_buflen a"
    and "paced digit_started ts" and "\<forall>t\<in>set ts. ct_later t < digit_started + 1000 * 2 ^ 32"
    and "(ca_maxdigits a - length buf) * (T + 1) + T < length ts"
  shows "\<exists>r. switch_ivr_collect_digits_count l sv silence_ok started digit_started ts a buf c = Inr (Some r) \<and>
    length (cr_buf r) \<le> ca_maxdigits a"
proof -
  obtain a' eff where s: "set_timeouts a = (a', eff)" by fastforce
  then have a': "ca_maxdigits a' = ca_maxdigits a" "ca_buflen a' = ca_buflen a" "0 < eff" "eff \<le> T"
    "0 < ca_digit_timeout a'" "ca_digit_timeout a' \<le> T"
    using assms(2) by (auto simp: set_timeouts_def T_def Let_def split: if_splits)
  let ?v = "\<lparr>cv_buf = buf, cv_status = SWITCH_STATUS_FALSE, cv_digit_started = digit_started, cv_eff_timeout = eff\<rparr>"
  have "\<exists>r. collect_loop l sv a' started ts ?v c = Inr (Some r) \<and> length (cr_buf r) \<le> ca_maxdigits a'"
    using assms(3-7) a' by (intro collect_loop_ends [where prev = digit_started and s = digit_started]) (auto simp: patience_def)
  moreover have "length (takeWhile (\<lambda>d. \<not> is_terminator a d) buf) \<le> ca_maxdigits a"
    using assms(3) length_takeWhile_le [of _ buf] by (meson le_trans less_imp_le)
  ultimately show ?thesis using assms(3) by (auto simp: switch_ivr_collect_digits_count_def s a' Let_def)
qed

end
