(* ===== verification/Conference_Mix.thy ===== *)
theory Conference_Mix
  imports Conference_Commands
begin

text \<open>
  The conference thread of \<^verbatim>\<open>mod_conference.c\<close>, \<open>conference_thread_run\<close>: one
  turn of its loop reads a frame of every member, plays music, files and comfort noise, adds
  everything up in 32 bits and writes to every member the sum without its own voice and
  without the voices its relationships shut out, clipped to 16 bits.

  The sources of a turn (the clock, what files and the speech engine deliver, the memory of
  \<open>realloc\<close>) are parameters.  \<open>x_samples\<close> is the number of samples of a packet, which the
  code computes from rate and interval in floating point.
\<close>

section \<open>State and parameters of the thread\<close>

definition SWITCH_RECOMMENDED_BUFFER_SIZE :: nat where
  "SWITCH_RECOMMENDED_BUFFER_SIZE = 4096"

definition SWITCH_CAUSE_ORIGINATOR_CANCEL :: switch_call_cause_t where
  "SWITCH_CAUSE_ORIGINATOR_CANCEL = 487"

text \<open>
  \<open>x_file_read n k\<close>: the samples \<open>switch_core_file_read\<close> delivers for a request of
  \<open>k\<close>; \<open>x_tts_read k\<close>: those of the speech engine, \<open>None\<close> when it fails.
\<close>

record mix_env =
  x_env :: conf_env
  x_samples :: nat
  x_heap :: heap
  x_file_read :: "conference_file_node \<Rightarrow> nat \<Rightarrow> int16 list"
  x_tts_read :: "nat \<Rightarrow> int16 list option"
  x_seed :: int16
  x_running :: bool
  x_timer_ok :: bool

record mix_state =
  x_world :: conf_world
  x_file_frame :: "int16 list"
  x_async_frame :: "int16 list"

type_synonym int32 = "32 word"

definition x_bytes :: "mix_env \<Rightarrow> nat" where
  "x_bytes env = 2 * x_samples env"

section \<open>Reading the members\<close>

text \<open>\<open>ready\<close> is a \<open>uint8_t\<close>.\<close>

definition read_member :: "mix_env \<Rightarrow> ptr \<Rightarrow> conf_world \<times> uint8 \<Rightarrow> (conf_world \<times> uint8) outcome" where
  "read_member env p s =
     (let (w, ready) = s;
          w = clear_mflag p MFLAG_HAS_AUDIO (upd_mem p (\<lambda>m. m\<lparr>m_read := 0\<rparr>) w);
          b = m_audio_buffer (mem w p)
      in if switch_buffer_inuse b \<ge> x_bytes env then
           bindE (switch_buffer_read b (x_bytes env)) (\<lambda>(b, got).
             if length got = 0 then Inr (upd_mem p (\<lambda>m. m\<lparr>m_audio_buffer := b\<rparr>) w, ready)
             else bindE (mem_write (m_frame (mem w p)) 0 got) (\<lambda>frame.
               Inr (set_mflag p MFLAG_HAS_AUDIO
                      (upd_mem p (\<lambda>m. m\<lparr>m_audio_buffer := b, m_frame := frame,
                                        m_read := of_nat (length got)\<rparr>) w),
                    ready + 1)))
         else Inr (w, ready))"

fun read_members :: "mix_env \<Rightarrow> ptr list \<Rightarrow> conf_world \<times> uint8 \<Rightarrow> (conf_world \<times> uint8) outcome" where
  "read_members env [] s = Inr s"
| "read_members env (p # ps) s = bindE (read_member env p s) (read_members env ps)"

definition with_session :: "conf_world \<Rightarrow> ptr list" where
  "with_session w = filter (\<lambda>p. m_session (mem w p) \<noteq> None) (c_members (conf w))"

definition members_with_video :: "conf_world \<Rightarrow> nat" where
  "members_with_video w =
     length (filter (\<lambda>p. switch_channel_test_flag (the (m_session (mem w p))) CF_VIDEO \<noteq> 0) (with_session w))"

definition nomoh_members :: "conf_world \<Rightarrow> nat" where
  "nomoh_members w = length (filter (\<lambda>p. mflag w p MFLAG_NOMOH) (with_session w))"

text \<open>The first and the last member that bridge their video.\<close>

definition video_bridge_members :: "conf_world \<Rightarrow> (ptr \<times> ptr) option" where
  "video_bridge_members w =
     (case filter (\<lambda>p. mflag w p MFLAG_VIDEO_BRIDGE) (with_session w) of
        a # b # bs \<Rightarrow> Some (a, last (b # bs)) | _ \<Rightarrow> None)"

section \<open>Music, silence, recording, video\<close>

definition idle_music :: "mix_env \<Rightarrow> nat \<Rightarrow> conf_world \<Rightarrow> conf_world outcome" where
  "idle_music env nomoh w =
     (let c = conf w in
      if c_perpetual_sound c \<noteq> None \<and> c_async_fnode c = None
      then play (x_env env) (c_perpetual_sound c) CONF_DEFAULT_LEADIN None True w
      else if c_moh_sound c \<noteq> None \<and> ((nomoh = 0 \<and> c_count c = 1) \<or> cflag w CFLAG_WAIT_MOD) \<and>
              c_async_fnode c = None
      then play (x_env env) (c_moh_sound c) CONF_DEFAULT_LEADIN None True w
      else Inr w)"

definition recently_active :: "conf_env \<Rightarrow> conf_world \<Rightarrow> ptr \<Rightarrow> bool" where
  "recently_active env w p \<longleftrightarrow>
     (let m = mem w p; limit = int (unat (c_terminate_on_silence (conf w))) in
      epoch_time_now env - m_join_time m \<le> limit \<or>
      (m_last_talking m \<noteq> 0 \<and> epoch_time_now env - m_last_talking m \<le> limit))"

definition check_silence :: "mix_env \<Rightarrow> conf_world \<Rightarrow> conf_world" where
  "check_silence env w =
     (if c_terminate_on_silence (conf w) \<noteq> 0 \<and> c_count (conf w) > 1 \<and>
         \<not> list_ex (recently_active (x_env env) w) (c_members (conf w))
      then set_cflag CFLAG_DESTRUCT w else w)"

definition auto_record_step :: "mix_env \<Rightarrow> conf_world \<Rightarrow> conf_world outcome" where
  "auto_record_step env w =
     (case c_auto_record (conf w) of
        None \<Rightarrow> Inr w
      | Some file \<Rightarrow>
          if c_is_recording (conf w) \<or> c_count (conf w) \<le> 1 then Inr w
          else
            let w = upd_conf (\<lambda>c. c\<lparr>c_is_recording := True, c_record_count := s32 (c_record_count c + 1)\<rparr>) w
            in case c_members (conf w) of
                 [] \<Rightarrow> Inr w
               | p # _ \<Rightarrow> bindE (member_channel w p) (\<lambda>ch.
                   Inr (emit (Launch_record (expand_variables (x_env env) ch file)) w)))"

definition video_step :: "nat \<Rightarrow> (ptr \<times> ptr) option \<Rightarrow> conf_world \<Rightarrow> conf_world" where
  "video_step with_video bridge w =
     (if with_video \<noteq> 0 \<and> c_video_running (conf w) \<noteq> 1 then
        if \<not> cflag w CFLAG_VIDEO_BRIDGE then emit Launch_video w
        else case bridge of None \<Rightarrow> w | Some (a, b) \<Rightarrow> emit (Launch_video_bridge a b) w
      else w)"

section \<open>Files\<close>

text \<open>
  What the turn knows about file audio: the length of the last read and whether there is any.
\<close>

record file_info =
  file_sample_len :: nat
  has_file_data :: bool

definition play_file_done :: "conference_file_node \<Rightarrow> conf_world \<Rightarrow> conf_world" where
  "play_file_done n w =
     (if test_eflag w EFLAG_PLAY_FILE
      then fire_conf ([Hdr ''Action'' ''play-file-done''] @
             (case fn_file n of None \<Rightarrow> [] | Some f \<Rightarrow> [Hdr ''File'' f]) @ [Hdr ''Async'' ''true'']) w
      else w)"

definition conf_file_step :: "mix_env \<Rightarrow> mix_state \<Rightarrow> (mix_state \<times> file_info) outcome" where
  "conf_file_step env s =
     (let w = x_world s; info = \<lparr>file_sample_len = x_samples env, has_file_data = False\<rparr> in
      case c_fnode (conf w) of
        [] \<Rightarrow> Inr (s, info)
      | n # ns \<Rightarrow>
          if fn_leadin n \<noteq> 0 then
            Inr (s\<lparr>x_world := upd_conf (\<lambda>c. c\<lparr>c_fnode := n\<lparr>fn_leadin := fn_leadin n - 1\<rparr> # ns\<rparr>) w\<rparr>, info)
          else if fn_done n = 0 then
            let got = (case fn_type n of
                         NODE_TYPE_SPEECH \<Rightarrow> (case x_tts_read env (x_samples env) of None \<Rightarrow> [] | Some xs \<Rightarrow> xs)
                       | NODE_TYPE_FILE \<Rightarrow> x_file_read env n (x_samples env))
            in bindE (mem_write (x_file_frame s) 0 got) (\<lambda>frame.
                 let s = s\<lparr>x_file_frame := frame\<rparr> in
                 if length got = 0 then
                   Inr (s\<lparr>x_world := upd_conf (\<lambda>c. c\<lparr>c_fnode := bump n # ns\<rparr>) (play_file_done n w)\<rparr>,
                        \<lparr>file_sample_len = 0, has_file_data = False\<rparr>)
                 else Inr (s, \<lparr>file_sample_len = length got, has_file_data = True\<rparr>))
          else Inr (s, info))"

text \<open>
  The second file.  Its read overwrites the length of the first: when it ends, the length is 0
  although the frame of the first file is still to be played.
\<close>

definition async_file_step :: "mix_env \<Rightarrow> mix_state \<times> file_info \<Rightarrow> (mix_state \<times> file_info) outcome" where
  "async_file_step env si =
     (let (s, info) = si; w = x_world s in
      case c_async_fnode (conf w) of
        None \<Rightarrow> Inr (s, info)
      | Some n \<Rightarrow>
          if fn_leadin n \<noteq> 0 then
            Inr (s\<lparr>x_world := upd_conf (\<lambda>c. c\<lparr>c_async_fnode := Some (n\<lparr>fn_leadin := fn_leadin n - 1\<rparr>)\<rparr>) w\<rparr>, info)
          else if fn_done n = 0 then
            let got = x_file_read env n (x_samples env); k = length got
            in bindE (mem_write (x_async_frame s) 0 got) (\<lambda>aframe.
                 let s = s\<lparr>x_async_frame := aframe\<rparr> in
                 if k = 0 then
                   Inr (s\<lparr>x_world := upd_conf (\<lambda>c. c\<lparr>c_async_fnode := Some (bump n)\<rparr>) (play_file_done n w)\<rparr>,
                        info\<lparr>file_sample_len := 0\<rparr>)
                 else if has_file_data info then
                   bindE (mem_read (x_file_frame s) 0 k) (\<lambda>old.
                     bindE (mem_write (x_file_frame s) 0 (map2 add_samples old got)) (\<lambda>frame.
                       Inr (s\<lparr>x_file_frame := frame\<rparr>, info\<lparr>file_sample_len := k\<rparr>)))
                 else
                   bindE (mem_write (x_file_frame s) 0 got) (\<lambda>frame.
                     Inr (s\<lparr>x_file_frame := frame\<rparr>, \<lparr>file_sample_len = k, has_file_data = True\<rparr>)))
          else Inr (s, info))"

definition waste_step :: "mix_env \<Rightarrow> mix_state \<times> file_info \<Rightarrow> (mix_state \<times> file_info) outcome" where
  "waste_step env si =
     (let (s, info) = si; w = x_world s; level = c_comfort_noise_level (conf w) in
      if cflag w CFLAG_WASTE_BANDWIDTH \<and> \<not> has_file_data info then
        bindE (if level \<noteq> 0
               then switch_generate_sln_silence (x_seed env) (x_file_frame s) (x_samples env) (word_of_int level)
               else mem_write (x_file_frame s) 0 (replicate (x_samples env) 0xFFFF)) (\<lambda>frame.
          Inr (s\<lparr>x_file_frame := frame\<rparr>, \<lparr>file_sample_len = x_samples env, has_file_data = True\<rparr>))
      else Inr (s, info))"

section \<open>Mixing\<close>

definition sample_at :: "conf_world \<Rightarrow> ptr \<Rightarrow> nat \<Rightarrow> int32" where
  "sample_at w p x = scast (samples_of (m_frame (mem w p)) ! x)"

definition file_main_frame :: "mix_env \<Rightarrow> int16 list \<Rightarrow> file_info \<Rightarrow> int32 list" where
  "file_main_frame env frame info =
     (if has_file_data info \<and> file_sample_len info \<noteq> 0
      then map (\<lambda>x. if x \<le> file_sample_len info then scast (frame ! x) else 255) [0..<x_samples env]
      else replicate (x_samples env) 0)"

definition heard :: "conf_world \<Rightarrow> ptr \<Rightarrow> bool" where
  "heard w p \<longleftrightarrow> mflag w p MFLAG_RUNNING \<and> mflag w p MFLAG_HAS_AUDIO"

definition add_member_audio :: "conf_world \<Rightarrow> ptr \<Rightarrow> int32 list \<Rightarrow> int32 list" where
  "add_member_audio w p main_frame =
     (if heard w p
      then map (\<lambda>x. if x < unat (m_read (mem w p)) div 2 then main_frame ! x + sample_at w p x else main_frame ! x)
             [0..<length main_frame]
      else main_frame)"

definition main_frame :: "mix_env \<Rightarrow> int16 list \<Rightarrow> file_info \<Rightarrow> conf_world \<Rightarrow> int32 list" where
  "main_frame env frame info w =
     fold (add_member_audio w) (c_members (conf w)) (file_main_frame env frame info)"

text \<open>A relationship of \<open>p\<close> that shuts out its voice for \<open>q\<close>, or one of \<open>q\<close> that does not hear \<open>p\<close>.\<close>

definition no_speak :: "conf_world \<Rightarrow> ptr \<Rightarrow> ptr \<Rightarrow> bool" where
  "no_speak w p q \<longleftrightarrow>
     list_ex (\<lambda>r. (rel_id r = m_id (mem w q) \<or> rel_id r = 0) \<and> RFLAG_CAN_SPEAK \<notin> rel_flags r)
       (m_relationships (mem w p))"

definition no_hear :: "conf_world \<Rightarrow> ptr \<Rightarrow> ptr \<Rightarrow> bool" where
  "no_hear w q p \<longleftrightarrow>
     list_ex (\<lambda>r. (rel_id r = m_id (mem w p) \<or> rel_id r = 0) \<and> RFLAG_CAN_HEAR \<notin> rel_flags r)
       (m_relationships (mem w q))"

text \<open>The samples of the members shut out are taken off one after the other.\<close>

definition take_off :: "conf_world \<Rightarrow> ptr \<Rightarrow> nat \<Rightarrow> ptr \<Rightarrow> int32 \<Rightarrow> int32" where
  "take_off w q x p z =
     (if p \<noteq> q \<and> mflag w p MFLAG_HAS_AUDIO \<and> (no_speak w p q \<or> no_hear w q p)
      then z - sample_at w p x else z)"

definition write_sample :: "conf_world \<Rightarrow> int32 list \<Rightarrow> ptr \<Rightarrow> nat \<Rightarrow> int16" where
  "write_sample w main q x =
     (let z = main ! x;
          z = (if mflag w q MFLAG_HAS_AUDIO \<and> x \<le> unat (m_read (mem w q)) div 2 then z - sample_at w q x else z);
          z = (if c_relationship_total (conf w) \<noteq> 0
               then fold (take_off w q x) (c_members (conf w)) z else z)
      in word_of_int (switch_normalize_to_16bit (sint z)))"

definition write_frame :: "mix_env \<Rightarrow> conf_world \<Rightarrow> int32 list \<Rightarrow> ptr \<Rightarrow> int16 list" where
  "write_frame env w main q = map (write_sample w main q) [0..<x_samples env]"

definition gets_audio :: "conf_world \<Rightarrow> ptr \<Rightarrow> bool" where
  "gets_audio w q \<longleftrightarrow>
     mflag w q MFLAG_RUNNING \<and>
     (mflag w q MFLAG_CAN_HEAR \<or> mflag w q MFLAG_WASTE_BANDWIDTH \<or> cflag w CFLAG_WASTE_BANDWIDTH)"

text \<open>
  Writing to the members in turn.  A write that does not fit ends the thread: the Boolean says
  whether it goes on.
\<close>

fun write_members :: "mix_env \<Rightarrow> int32 list \<Rightarrow> ptr list \<Rightarrow> conf_world \<Rightarrow> (bool \<times> conf_world) outcome" where
  "write_members env main [] w = Inr (True, w)"
| "write_members env main (q # qs) w =
     (if gets_audio w q then
        bindE (switch_buffer_write (x_heap env) (m_mux_buffer (mem w q)) (bytes_of (write_frame env w main q)))
          (\<lambda>(b, n).
            let w = upd_mem q (\<lambda>m. m\<lparr>m_mux_buffer := b\<rparr>) w
            in if n = 0 then Inr (False, w) else write_members env main qs w)
      else write_members env main qs w)"

text \<open>The score of the conference for the automatic gain control.\<close>

definition loop_counts :: "conf_world \<Rightarrow> conf_world" where
  "loop_counts w =
     upd_conf (\<lambda>c. c\<lparr>c_member_loop_count := int (length (c_members c)),
       c_mux_loop_count := (if c_agc_level c \<noteq> 0
         then int (length (filter (\<lambda>p. heard w p \<and> mflag w p MFLAG_TALKING \<and> mflag w p MFLAG_CAN_SPEAK)
                (c_members c))) else 0)\<rparr>) w"

definition agc_step :: "mix_env \<Rightarrow> int32 list \<Rightarrow> conf_world \<Rightarrow> conf_world outcome" where
  "agc_step env main w =
     (let c = conf w; divisor = (let d = c_rate c div 8000 in if d = 0 then 1 else d) in
      if c_agc_level c \<noteq> 0 \<and> c_members c \<noteq> [] then
        let conf_energy = sum_list (map (\<lambda>z. word_of_int (switch_normalize_to_16bit \<bar>sint z\<bar>)) main) :: uint32;
            per = of_nat (x_samples env) div divisor
        in if per = 0 then Inl DivideByZero
           else
             let score = conf_energy div per div of_nat (length (c_members c));
                 tally = c_avg_tally c + score; itt = c_avg_itt c + 1
             in if itt = 0 then Inl DivideByZero
                else Inr (upd_conf (\<lambda>c. c\<lparr>c_score := score, c_avg_tally := tally, c_avg_itt := itt,
                                       c_avg_score := tally div itt\<rparr>) w)
      else Inr w)"

text \<open>
  The frames on the stack hold 2048 samples; a packet that has more runs over them.
\<close>

definition mix_step :: "mix_env \<Rightarrow> int16 list \<Rightarrow> file_info \<Rightarrow> conf_world \<Rightarrow> (bool \<times> conf_world) outcome" where
  "mix_step env frame info w =
     (if x_samples env > SWITCH_RECOMMENDED_BUFFER_SIZE div 2 then Inl OutOfBounds
      else let main = main_frame env frame info w in
           bindE (agc_step env main (loop_counts w)) (\<lambda>w. write_members env main (c_members (conf w)) w))"

section \<open>One turn, and the loop\<close>

definition close_done_files :: "conf_world \<Rightarrow> conf_world" where
  "close_done_files w =
     (let w = (case c_async_fnode (conf w) of
                 Some n \<Rightarrow> if fn_done n \<noteq> 0
                           then upd_conf (\<lambda>c. c\<lparr>c_async_fnode := None\<rparr>) (emit (Close_file n) w) else w
               | None \<Rightarrow> w)
      in case c_fnode (conf w) of
           n # ns \<Rightarrow> if fn_done n \<noteq> 0
                     then upd_conf (\<lambda>c. c\<lparr>c_fnode := ns\<rparr>) (close_nodes [n] w) else w
         | [] \<Rightarrow> w)"

definition file_steps :: "mix_env \<Rightarrow> mix_state \<Rightarrow> (mix_state \<times> file_info) outcome" where
  "file_steps env s = bindE (bindE (conf_file_step env s) (async_file_step env)) (waste_step env)"

definition conference_turn :: "mix_env \<Rightarrow> mix_state \<Rightarrow> (bool \<times> mix_state) outcome" where
  "conference_turn env s =
     (let w = x_world s; nomoh = nomoh_members w; video = members_with_video w; bridge = video_bridge_members w in
      bindE (read_members env (c_members (conf w)) (w, 0)) (\<lambda>(w, ready).
      bindE (idle_music env nomoh w) (\<lambda>w.
      bindE (auto_record_step env (check_silence env w)) (\<lambda>w.
      bindE (file_steps env (s\<lparr>x_world := video_step video bridge w\<rparr>)) (\<lambda>(s, info).
      bindE (if ready \<noteq> 0 \<or> has_file_data info
             then mix_step env (x_file_frame s) info (x_world s) else Inr (True, x_world s)) (\<lambda>(go, w).
        Inr (go, s\<lparr>x_world := if go then close_done_files w else w\<rparr>)))))))"

fun conference_loop :: "mix_env list \<Rightarrow> mix_state \<Rightarrow> (bool \<times> mix_state) outcome" where
  "conference_loop [] s = Inr (True, s)"
| "conference_loop (env # envs) s =
     (if \<not> x_running env \<or> cflag (x_world s) CFLAG_DESTRUCT then Inr (False, s)
      else if \<not> x_timer_ok env then Inr (False, s\<lparr>x_world := set_cflag CFLAG_DESTRUCT (x_world s)\<rparr>)
      else bindE (conference_turn env s) (\<lambda>(go, s). if go then conference_loop envs s else Inr (False, s)))"

text \<open>
  After the loop: pending calls are cancelled, the conference is announced as inactive, files
  are closed, and every caller that does not want to stay is hung up.
\<close>

definition switch_is_number :: "string \<Rightarrow> bool" where
  "switch_is_number str =
     (let str = (case str of c # cs \<Rightarrow> if c = CHR ''-'' \<or> c = CHR ''+'' then cs else str | [] \<Rightarrow> [])
      in list_all (\<lambda>c. c = CHR ''.'' \<or> c_isdigit c) str)"

definition switch_false :: "string option \<Rightarrow> bool" where
  "switch_false expr =
     (case expr of
        None \<Rightarrow> False
      | Some e \<Rightarrow>
          strcasecmp_eq e ''no'' \<or> strcasecmp_eq e ''off'' \<or> strcasecmp_eq e ''false'' \<or>
          strcasecmp_eq e ''disabled'' \<or> strcasecmp_eq e ''inactive'' \<or> strcasecmp_eq e ''disallow'' \<or>
          (switch_is_number e \<and> atoi e = 0))"

fun release_members :: "conf_env \<Rightarrow> ptr list \<Rightarrow> conf_world \<Rightarrow> conf_world outcome" where
  "release_members env [] w = Inr w"
| "release_members env (p # ps) w =
     bindE (if mflag w p MFLAG_NOCHANNEL then Inr w
            else bindE (member_channel w p) (\<lambda>ch.
              Inr (if switch_false (get_variable env ch ''hangup_after_conference'') then w
                   else emit (Hangup_channel p (if cflag w CFLAG_ANSWERED then SWITCH_CAUSE_NORMAL_CLEARING
                                                else c_bridge_hangup_cause (conf w))) w)))
       (\<lambda>w. release_members env ps (clear_mflag p MFLAG_RUNNING w))"

definition conference_thread_end :: "conf_env \<Rightarrow> conf_world \<Rightarrow> conf_world outcome" where
  "conference_thread_end env w =
     (let w = (if cflag w CFLAG_OUTCALL
               then upd_conf (\<lambda>c. c\<lparr>c_cancel_cause := SWITCH_CAUSE_ORIGINATOR_CANCEL\<rparr>) w else w);
          c = conf w;
          w = (emit (Fired_presence
            [Hdr ''proto'' ''conf'', Hdr ''login'' (c_name c), Hdr ''from'' (c_name c @ ''@'' @ c_domain c),
             Hdr ''status'' ''Inactive'', Hdr ''rpid'' ''idle'', Hdr ''event_type'' ''presence'',
             Hdr ''alt_event_type'' ''dialog'', Hdr ''event_count'' (show_int (EC w)),
             Hdr ''unique-id'' (c_name c), Hdr ''channel-state'' ''CS_HANGUP'',
             Hdr ''answer-state'' ''terminated'', Hdr ''call-direction'' ''inbound'']) w)\<lparr>EC := s32 (EC w + 1)\<rparr>;
          w = snd (conference_stop_file (snd (conference_stop_file w FILE_STOP_ASYNC)) FILE_STOP_ALL);
          w = upd_conf (\<lambda>c. c\<lparr>c_fnode := []\<rparr>) (close_nodes (c_fnode (conf w)) w);
          w = (case c_async_fnode (conf w) of
                 None \<Rightarrow> w | Some n \<Rightarrow> upd_conf (\<lambda>c. c\<lparr>c_async_fnode := None\<rparr>) (emit (Close_file n) w))
      in bindE (release_members env (c_members (conf w)) w) (\<lambda>w.
           let w = clear_cflag CFLAG_RUNNING w
           in Inr (if c_sh (conf w) then upd_conf (\<lambda>c. c\<lparr>c_sh := False\<rparr>) (emit Close_speech w) else w)))"

section \<open>Sums of voices\<close>

lemma scast_of_sint: "(scast (s :: int16) :: int32) = word_of_int (sint s)"
  by (rule scast_eq)

lemma sum_list_word_of_int: "sum_list (map (\<lambda>x. word_of_int (f x)) xs) = (word_of_int (sum_list (map f xs)) :: int32)"
  by (induction xs) simp_all

lemma sum_list_bound:
  "(\<And>x. x \<in> set xs \<Longrightarrow> \<bar>f x\<bar> \<le> (b :: int)) \<Longrightarrow> \<bar>sum_list (map f xs)\<bar> \<le> int (length xs) * b"
  by (induction xs) (force simp: algebra_simps)+

lemma sint_sum:
  assumes "\<bar>a\<bar> \<le> 32768" and "\<And>x. x \<in> set xs \<Longrightarrow> \<bar>f x\<bar> \<le> 32768" and "length xs < 65535"
  shows "sint (word_of_int a + sum_list (map (\<lambda>x. word_of_int (f x)) xs) :: int32) = a + sum_list (map f xs)"
proof -
  have "\<bar>sum_list (map f xs)\<bar> \<le> int (length xs) * 32768" using assms(2) by (rule sum_list_bound)
  then have r: "- (2 ^ 31) \<le> a + sum_list (map f xs)" "a + sum_list (map f xs) < 2 ^ 31"
    using assms(1,3) by auto
  have "word_of_int a + sum_list (map (\<lambda>x. word_of_int (f x)) xs) = (word_of_int (a + sum_list (map f xs)) :: int32)"
    by (simp add: sum_list_word_of_int)
  moreover have "sint (word_of_int n :: int32) = n" if "- (2 ^ 31) \<le> n" and "n < 2 ^ 31" for n
    using that by (simp add: sint_sbintrunc' signed_take_bit_int_eq_self)
  ultimately show ?thesis using r by (simp only:)
qed

lemma nth_add_members:
  "x < length f \<Longrightarrow> fold (add_member_audio w) ps f ! x =
     f ! x + sum_list (map (\<lambda>p. if heard w p \<and> x < unat (m_read (mem w p)) div 2 then sample_at w p x else 0) ps)"
proof (induction ps arbitrary: f)
  case (Cons p ps)
  have "x < length (add_member_audio w p f)" using Cons.prems by (simp add: add_member_audio_def)
  from Cons.IH [OF this] show ?case using Cons.prems by (auto simp: add_member_audio_def)
qed simp

lemma fold_take_off:
  "fold (take_off w q x) ps z = z - sum_list (map (\<lambda>p. if p \<noteq> q \<and> mflag w p MFLAG_HAS_AUDIO \<and>
      (no_speak w p q \<or> no_hear w q p) then sample_at w p x else 0) ps)"
  by (induction ps arbitrary: z) (auto simp: take_off_def)

lemma sum_list_own:
  "distinct ps \<Longrightarrow> q \<in> set ps \<Longrightarrow> sum_list (map (\<lambda>p. if p = q then (f p :: int32) else 0) ps) = f q"
proof (induction ps)
  case (Cons p ps)
  have "sum_list (map (\<lambda>p. if p = q then f p else 0) ps) = 0" if "q \<notin> set ps"
    using that by (induction ps) auto
  with Cons show ?case by auto
qed simp

lemma sum_list_map_diff:
  "sum_list (map f xs) - sum_list (map g xs) = sum_list (map (\<lambda>x. f x - (g x :: int32)) xs)"
  by (induction xs) (auto simp: algebra_simps)

lemma sum_list_map_if: "sum_list (map (\<lambda>p. if P p then f p else (0 :: int32)) ps) = sum_list (map f (filter P ps))"
  by (induction ps) auto

section \<open>What a member is sent\<close>

definition file_value :: "int16 list \<Rightarrow> file_info \<Rightarrow> nat \<Rightarrow> int" where
  "file_value frame info x =
     (if has_file_data info \<and> file_sample_len info \<noteq> 0
      then (if x \<le> file_sample_len info then sint (frame ! x) else 255) else 0)"

definition shut_out :: "conf_world \<Rightarrow> ptr \<Rightarrow> ptr \<Rightarrow> bool" where
  "shut_out w q p \<longleftrightarrow> c_relationship_total (conf w) \<noteq> 0 \<and> (no_speak w p q \<or> no_hear w q p)"

definition voice :: "conf_world \<Rightarrow> ptr \<Rightarrow> nat \<Rightarrow> int" where
  "voice w p x = sint (samples_of (m_frame (mem w p)) ! x)"

lemma voice_bound: "\<bar>voice w p x\<bar> \<le> 32768"
  using sint16_range [of "samples_of (m_frame (mem w p)) ! x"] by (auto simp: voice_def)

lemma sample_at_voice: "sample_at w p x = word_of_int (voice w p x)"
  by (simp only: sample_at_def voice_def scast_of_sint)

lemma file_value_bound: "\<bar>file_value frame info x\<bar> \<le> 32768"
  using sint16_range [of "frame ! x"] by (auto simp: file_value_def)

lemma nth_file_main_frame:
  "x < x_samples env \<Longrightarrow> file_main_frame env frame info ! x = word_of_int (file_value frame info x)"
  by (auto simp: file_main_frame_def file_value_def scast_eq [symmetric])

text \<open>
  Every member whose frame holds audio has a whole packet in it, and the audio of a member
  that has stopped is not in the sum: the members heard are those that run.
\<close>

definition frames_full :: "mix_env \<Rightarrow> conf_world \<Rightarrow> bool" where
  "frames_full env w \<longleftrightarrow>
     (\<forall>p\<in>set (c_members (conf w)). mflag w p MFLAG_HAS_AUDIO \<longrightarrow> unat (m_read (mem w p)) = x_bytes env)"

lemma write_sample_word:
  assumes "x < x_samples env" and "distinct (c_members (conf w))" and "q \<in> set (c_members (conf w))"
    and "mflag w q MFLAG_RUNNING" and "frames_full env w"
  shows "write_sample w (main_frame env frame info w) q x =
    word_of_int (switch_normalize_to_16bit (sint (word_of_int (file_value frame info x) +
      sum_list (map (\<lambda>p. (if heard w p \<and> p \<noteq> q then sample_at w p x else 0) -
        (if p \<noteq> q \<and> mflag w p MFLAG_HAS_AUDIO \<and> shut_out w q p then sample_at w p x else 0))
      (c_members (conf w))) :: int32)))"
proof -
  let ?ms = "c_members (conf w)"
  let ?all = "\<lambda>p. if heard w p then sample_at w p x else 0"
  let ?own = "\<lambda>p. if p = q then (if mflag w p MFLAG_HAS_AUDIO then sample_at w p x else 0) else 0"
  let ?off = "\<lambda>p. if p \<noteq> q \<and> mflag w p MFLAG_HAS_AUDIO \<and> shut_out w q p then sample_at w p x else 0"
  have full: "x < unat (m_read (mem w p)) div 2" if "p \<in> set ?ms" "mflag w p MFLAG_HAS_AUDIO" for p
    using that assms(1,5) by (auto simp: frames_full_def x_bytes_def)
  have "main_frame env frame info w ! x = word_of_int (file_value frame info x) +
      sum_list (map (\<lambda>p. if heard w p \<and> x < unat (m_read (mem w p)) div 2 then sample_at w p x else 0) ?ms)"
    unfolding main_frame_def
    by (subst nth_add_members)
      (simp_all add: assms(1) nth_file_main_frame, simp add: assms(1) file_main_frame_def)
  also have "map (\<lambda>p. if heard w p \<and> x < unat (m_read (mem w p)) div 2 then sample_at w p x else 0) ?ms = map ?all ?ms"
    using full by (auto simp: heard_def)
  finally have main: "main_frame env frame info w ! x = word_of_int (file_value frame info x) + sum_list (map ?all ?ms)" .
  have own: "(if mflag w q MFLAG_HAS_AUDIO \<and> x \<le> unat (m_read (mem w q)) div 2 then sample_at w q x else 0) =
      sum_list (map ?own ?ms)"
    using full [OF assms(3)] by (subst sum_list_own [OF assms(2,3)]) auto
  have off: "(if c_relationship_total (conf w) \<noteq> 0 then fold (take_off w q x) ?ms z else z) = z - sum_list (map ?off ?ms)" for z
  proof (cases "c_relationship_total (conf w) = 0")
    case True
    then have "sum_list (map ?off ?ms) = 0" by (simp add: shut_out_def)
    with True show ?thesis by simp
  qed (simp add: fold_take_off shut_out_def cong: map_cong)
  have "sum_list (map ?all ?ms) - sum_list (map ?own ?ms) - sum_list (map ?off ?ms) =
      sum_list (map (\<lambda>p. (if heard w p \<and> p \<noteq> q then sample_at w p x else 0) - ?off p) ?ms)"
    using assms(4) unfolding sum_list_map_diff by (intro arg_cong [of _ _ sum_list] map_cong) (auto simp: heard_def)
  moreover have "write_sample w (main_frame env frame info w) q x =
      word_of_int (switch_normalize_to_16bit (sint (main_frame env frame info w ! x - sum_list (map ?own ?ms) -
        sum_list (map ?off ?ms))))"
    unfolding write_sample_def Let_def off own [symmetric] by simp
  ultimately show ?thesis unfolding main by (simp add: algebra_simps)
qed

lemma write_sample_sum:
  assumes "x < x_samples env" and "distinct (c_members (conf w))" and "q \<in> set (c_members (conf w))"
    and "mflag w q MFLAG_RUNNING" and "frames_full env w" and "length (c_members (conf w)) < 65535"
    and "\<forall>p\<in>set (c_members (conf w)). mflag w p MFLAG_HAS_AUDIO \<longrightarrow> mflag w p MFLAG_RUNNING"
  shows "sint (write_sample w (main_frame env frame info w) q x) =
    switch_normalize_to_16bit (file_value frame info x +
      sum_list (map (\<lambda>p. voice w p x)
        (filter (\<lambda>p. p \<noteq> q \<and> mflag w p MFLAG_HAS_AUDIO \<and> \<not> shut_out w q p) (c_members (conf w)))))"
proof -
  let ?P = "\<lambda>p. p \<noteq> q \<and> mflag w p MFLAG_HAS_AUDIO \<and> \<not> shut_out w q p"
  have "sum_list (map (\<lambda>p. (if heard w p \<and> p \<noteq> q then sample_at w p x else 0) -
        (if p \<noteq> q \<and> mflag w p MFLAG_HAS_AUDIO \<and> shut_out w q p then sample_at w p x else 0)) (c_members (conf w))) =
      sum_list (map (\<lambda>p. if ?P p then sample_at w p x else 0) (c_members (conf w)))"
    using assms(7) by (intro arg_cong [of _ _ sum_list] map_cong) (auto simp: heard_def)
  also have "\<dots> = sum_list (map (\<lambda>p. word_of_int (voice w p x)) (filter ?P (c_members (conf w))))"
    by (simp add: sum_list_map_if sample_at_voice)
  finally have s: "sum_list (map (\<lambda>p. (if heard w p \<and> p \<noteq> q then sample_at w p x else 0) -
        (if p \<noteq> q \<and> mflag w p MFLAG_HAS_AUDIO \<and> shut_out w q p then sample_at w p x else 0)) (c_members (conf w))) =
      sum_list (map (\<lambda>p. word_of_int (voice w p x)) (filter ?P (c_members (conf w))))" .
  have "length (filter ?P (c_members (conf w))) < 65535"
    using assms(6) length_filter_le [of ?P "c_members (conf w)"] by linarith
  then show ?thesis
    unfolding write_sample_word [OF assms(1-5)] s sint_clipped
    by (subst sint_sum) (auto intro: voice_bound file_value_bound)
qed

section \<open>Delivery\<close>

text \<open>
  The frame sent to a member and whether one is sent depend only on the part of the world that
  \<open>mix_view\<close> shows; writing to buffers and keeping scores does not change it.
\<close>

definition mix_view :: "conf_world \<Rightarrow> ptr list \<times> bool \<times> conf_flag_t set \<times>
    (ptr \<Rightarrow> uint32 \<times> member_flag_t set \<times> switch_byte_t list \<times> uint32 \<times> conference_relationship list)" where
  "mix_view w = (c_members (conf w), c_relationship_total (conf w) = 0, c_flags (conf w),
     \<lambda>p. (m_id (mem w p), m_flags (mem w p), m_frame (mem w p), m_read (mem w p), m_relationships (mem w p)))"

lemma mix_viewD:
  assumes "mix_view w' = mix_view w"
  shows "c_members (conf w') = c_members (conf w)"
    "c_relationship_total (conf w') = 0 \<longleftrightarrow> c_relationship_total (conf w) = 0"
    "c_flags (conf w') = c_flags (conf w)" "m_id (mem w' p) = m_id (mem w p)"
    "m_flags (mem w' p) = m_flags (mem w p)" "m_frame (mem w' p) = m_frame (mem w p)"
    "m_read (mem w' p) = m_read (mem w p)" "m_relationships (mem w' p) = m_relationships (mem w p)"
proof -
  show "c_members (conf w') = c_members (conf w)"
    "c_relationship_total (conf w') = 0 \<longleftrightarrow> c_relationship_total (conf w) = 0"
    "c_flags (conf w') = c_flags (conf w)"
    using assms by (simp_all only: mix_view_def prod.inject)
  have "(\<lambda>p. (m_id (mem w' p), m_flags (mem w' p), m_frame (mem w' p), m_read (mem w' p), m_relationships (mem w' p))) =
      (\<lambda>p. (m_id (mem w p), m_flags (mem w p), m_frame (mem w p), m_read (mem w p), m_relationships (mem w p)))"
    using assms by (simp only: mix_view_def prod.inject)
  from fun_cong [OF this, of p]
  show "m_id (mem w' p) = m_id (mem w p)" "m_flags (mem w' p) = m_flags (mem w p)"
    "m_frame (mem w' p) = m_frame (mem w p)" "m_read (mem w' p) = m_read (mem w p)"
    "m_relationships (mem w' p) = m_relationships (mem w p)"
    by (simp_all only: prod.inject)
qed

lemma write_frame_view:
  assumes "mix_view w' = mix_view w"
  shows "write_frame env w' main q = write_frame env w main q" "gets_audio w' q = gets_audio w q"
proof -
  note v = mix_viewD [OF assms]
  have "sample_at w' p x = sample_at w p x" for p x by (simp only: sample_at_def v)
  moreover have "no_speak w' p q = no_speak w p q" "no_hear w' p q = no_hear w p q" for p q
    by (simp_all only: no_speak_def no_hear_def v)
  ultimately have "take_off w' q x = take_off w q x" for x
    by (simp only: take_off_def fun_eq_iff v) simp
  then have "write_sample w' main q x = write_sample w main q x" for x
    by (simp only: write_sample_def v \<open>\<And>p x. sample_at w' p x = sample_at w p x\<close>)
  then show "write_frame env w' main q = write_frame env w main q" by (simp add: write_frame_def)
  show "gets_audio w' q = gets_audio w q" by (simp only: gets_audio_def v)
qed

lemma view_mux [simp]: "mix_view (upd_mem q (\<lambda>m. m\<lparr>m_mux_buffer := b\<rparr>) w) = mix_view w"
  by (simp add: mix_view_def upd_mem_def fun_eq_iff)

lemma mux_upd: "m_mux_buffer (mem (upd_mem q (\<lambda>m. m\<lparr>m_mux_buffer := b\<rparr>) w) p) =
    (if p = q then b else m_mux_buffer (mem w p))"
  by (simp add: upd_mem_def)

lemma view_upd_conf:
  assumes "c_members (f (conf w)) = c_members (conf w)" and "c_flags (f (conf w)) = c_flags (conf w)"
    and "c_relationship_total (f (conf w)) = c_relationship_total (conf w)"
  shows "mix_view (upd_conf f w) = mix_view w"
  by (simp add: mix_view_def upd_conf_def assms)

lemma mem_upd_conf [simp]: "mem (upd_conf f w) = mem w"
  by (simp add: upd_conf_def)

lemma agc_step_view:
  assumes "agc_step env main w = Inr w'"
  shows "mix_view w' = mix_view w \<and> mem w' = mem w"
proof -
  have "w' = w \<or> (\<exists>a b c d. w' = upd_conf (\<lambda>k. k\<lparr>c_score := a, c_avg_tally := b, c_avg_itt := c, c_avg_score := d\<rparr>) w)"
    using assms unfolding agc_step_def Let_def
    by (simp only: split: if_splits) (simp_all only: sum.inject sum.distinct simp_thms, blast+)
  then show ?thesis by (auto intro!: view_upd_conf)
qed

lemma view_scores:
  assumes "agc_step env main (loop_counts w) = Inr w'"
  shows "mix_view w' = mix_view w" "mem w' = mem w"
proof -
  have "mix_view (loop_counts w) = mix_view w" "mem (loop_counts w) = mem w"
    by (simp_all add: loop_counts_def view_upd_conf)
  with agc_step_view [OF assms] show "mix_view w' = mix_view w" "mem w' = mem w" by simp_all
qed

lemma write_members_other:
  "write_members env main qs w = Inr (go, w') \<Longrightarrow> q \<notin> set qs \<or> \<not> gets_audio w q \<Longrightarrow>
     m_mux_buffer (mem w' q) = m_mux_buffer (mem w q)"
proof (induction qs arbitrary: w)
  case (Cons p ps)
  show ?case
  proof (cases "gets_audio w p")
    case False
    with Cons show ?thesis by auto
  next
    case True
    then obtain b where
      "w' = upd_mem p (\<lambda>m. m\<lparr>m_mux_buffer := b\<rparr>) w \<or>
       write_members env main ps (upd_mem p (\<lambda>m. m\<lparr>m_mux_buffer := b\<rparr>) w) = Inr (go, w')"
      using Cons.prems(1) by (auto simp: bindE_eq_Inr Let_def split: if_splits)
    moreover have "q \<noteq> p" using True Cons.prems(2) by auto
    moreover have "q \<notin> set ps \<or> \<not> gets_audio (upd_mem p (\<lambda>m. m\<lparr>m_mux_buffer := b\<rparr>) w) q"
      using Cons.prems(2) write_frame_view(2) [OF view_mux] by auto
    ultimately show ?thesis using Cons.IH by (auto simp: mux_upd)
  qed
qed simp

definition mux_ready :: "mix_env \<Rightarrow> conf_world \<Rightarrow> ptr \<Rightarrow> bool" where
  "mux_ready env w q \<longleftrightarrow>
     (let b = m_mux_buffer (mem w q) in
      buf_inv b \<and> buf_data b \<noteq> None \<and> (buf_dynamic b \<longrightarrow> buf_grown b (x_bytes env) < 2 ^ 64))"

lemma write_members_delivers:
  assumes "write_members env main qs w = Inr (True, w')" and "distinct qs" and "q \<in> set qs"
    and "gets_audio w q" and "mux_ready env w q" and "0 < x_samples env"
  shows "buf_content (m_mux_buffer (mem w' q)) =
      buf_content (m_mux_buffer (mem w q)) @ bytes_of (write_frame env w main q) \<and>
    buf_inv (m_mux_buffer (mem w' q)) \<and> buf_data (m_mux_buffer (mem w' q)) \<noteq> None"
  using assms(1-5)
proof (induction qs arbitrary: w)
  case (Cons p ps)
  show ?case
  proof (cases "gets_audio w p")
    case False
    with Cons show ?thesis by auto
  next
    case True
    define src where "src = bytes_of (write_frame env w main p)"
    obtain b n where wr: "switch_buffer_write (x_heap env) (m_mux_buffer (mem w p)) src = Inr (b, n)"
      and n: "n \<noteq> 0" and rest: "write_members env main ps (upd_mem p (\<lambda>m. m\<lparr>m_mux_buffer := b\<rparr>) w) = Inr (True, w')"
      using Cons.prems(1) True by (auto simp: bindE_eq_Inr Let_def src_def split: if_splits)
    let ?w = "upd_mem p (\<lambda>m. m\<lparr>m_mux_buffer := b\<rparr>) w"
    show ?thesis
    proof (cases "p = q")
      case False
      have "mux_ready env ?w q" using Cons.prems(5) False by (simp add: mux_ready_def mux_upd)
      with Cons.IH [OF rest] Cons.prems False show ?thesis
        by (simp add: mux_upd write_frame_view [OF view_mux])
    next
      case eq: True
      have "src \<noteq> []" "length src = x_bytes env"
        using assms(6) by (auto simp: src_def write_frame_def x_bytes_def simp flip: length_greater_0_conv)
      moreover obtain d where "buf_inv (m_mux_buffer (mem w p))" "buf_data (m_mux_buffer (mem w p)) = Some d"
        "buf_dynamic (m_mux_buffer (mem w p)) \<Longrightarrow> buf_grown (m_mux_buffer (mem w p)) (length src) < 2 ^ 64"
        using Cons.prems(5) eq \<open>length src = x_bytes env\<close> by (auto simp: mux_ready_def Let_def)
      ultimately have "buf_content b = buf_content (m_mux_buffer (mem w p)) @ src \<and> buf_inv b \<and> buf_data b \<noteq> None"
        using write_effect [of "m_mux_buffer (mem w p)" d src "x_heap env"] wr n by (auto simp: same_config_def split: if_splits)
      moreover have "m_mux_buffer (mem w' q) = m_mux_buffer (mem ?w q)"
        using write_members_other [OF rest] Cons.prems(2) eq by simp
      ultimately show ?thesis using eq by (simp add: mux_upd src_def)
    qed
  qed
qed simp

lemma write_members_mem:
  "write_members env main qs w = Inr (go, w') \<Longrightarrow> mem w' q = (mem w q)\<lparr>m_mux_buffer := m_mux_buffer (mem w' q)\<rparr>"
proof (induction qs arbitrary: w)
  case (Cons p ps)
  show ?case
  proof (cases "gets_audio w p")
    case False
    with Cons show ?thesis by auto
  next
    case True
    with Cons.prems obtain b where
      "w' = upd_mem p (\<lambda>m. m\<lparr>m_mux_buffer := b\<rparr>) w \<or>
       write_members env main ps (upd_mem p (\<lambda>m. m\<lparr>m_mux_buffer := b\<rparr>) w) = Inr (go, w')"
      by (auto simp: bindE_eq_Inr Let_def split: if_splits)
    then show ?thesis
    proof
      assume "write_members env main ps (upd_mem p (\<lambda>m. m\<lparr>m_mux_buffer := b\<rparr>) w) = Inr (go, w')"
      from Cons.IH [OF this] show ?thesis by (cases "q = p") (simp_all add: upd_mem_def)
    qed (simp add: upd_mem_def)
  qed
qed simp

lemma write_members_succeeds:
  assumes "\<forall>q\<in>set qs. gets_audio w q \<longrightarrow> mux_ready env w q \<and> buf_fits (x_heap env) (m_mux_buffer (mem w q)) (x_bytes env)"
    and "distinct qs" and "0 < x_samples env"
  shows "\<exists>w'. write_members env main qs w = Inr (True, w')"
  using assms(1,2)
proof (induction qs arbitrary: w)
  case (Cons p ps)
  show ?case
  proof (cases "gets_audio w p")
    case False
    with Cons show ?thesis by simp
  next
    case True
    define src where "src = bytes_of (write_frame env w main p)"
    have src: "src \<noteq> []" "length src = x_bytes env"
      using assms(3) by (auto simp: src_def write_frame_def x_bytes_def simp flip: length_greater_0_conv)
    obtain d where d: "buf_data (m_mux_buffer (mem w p)) = Some d"
      using Cons.prems(1) True by (auto simp: mux_ready_def Let_def)
    have "0 < x_bytes env" using assms(3) by (simp add: x_bytes_def)
    moreover have "mux_ready env w p" "buf_fits (x_heap env) (m_mux_buffer (mem w p)) (x_bytes env)"
      using Cons.prems(1) True by simp_all
    ultimately obtain b where "switch_buffer_write (x_heap env) (m_mux_buffer (mem w p)) src =
        Inr (b, length (buf_content (m_mux_buffer (mem w p)) @ src))"
      using write_effect [of "m_mux_buffer (mem w p)" d src "x_heap env"] d src by (auto simp: mux_ready_def Let_def)
    moreover have "\<exists>w'. write_members env main ps (upd_mem p (\<lambda>m. m\<lparr>m_mux_buffer := b\<rparr>) w) = Inr (True, w')"
      using Cons.prems by (intro Cons.IH) (auto simp: write_frame_view [OF view_mux] mux_ready_def mux_upd)
    ultimately show ?thesis using True src(1) by (auto simp: Let_def src_def bytes_of_def)
  qed
qed simp

text \<open>The two divisions of the gain control are defined.\<close>

definition agc_safe :: "mix_env \<Rightarrow> conf_world \<Rightarrow> bool" where
  "agc_safe env w \<longleftrightarrow>
     c_agc_level (conf w) = 0 \<or>
     (c_avg_itt (conf w) + 1 \<noteq> 0 \<and>
      (of_nat (x_samples env) :: uint32) div (let d = c_rate (conf w) div 8000 in if d = 0 then 1 else d) \<noteq> 0)"

lemma agc_step_succeeds: "agc_safe env w \<Longrightarrow> \<exists>w'. agc_step env main (loop_counts w) = Inr w'"
  by (auto simp: agc_safe_def agc_step_def loop_counts_def upd_conf_def Let_def)

lemma mix_step_effect:
  assumes "0 < x_samples env" and "x_samples env \<le> 2048" and "agc_safe env w"
    and "distinct (c_members (conf w))" and "length (c_members (conf w)) < 65535"
    and "frames_full env w"
    and "\<forall>p\<in>set (c_members (conf w)). mflag w p MFLAG_HAS_AUDIO \<longrightarrow> mflag w p MFLAG_RUNNING"
    and "\<forall>q\<in>set (c_members (conf w)). gets_audio w q \<longrightarrow>
           mux_ready env w q \<and> buf_fits (x_heap env) (m_mux_buffer (mem w q)) (x_bytes env)"
  shows "\<exists>w'. mix_step env frame info w = Inr (True, w') \<and>
    (\<forall>q. mem w' q = (mem w q)\<lparr>m_mux_buffer := m_mux_buffer (mem w' q)\<rparr>) \<and>
    (\<forall>q\<in>set (c_members (conf w)).
      if gets_audio w q
      then buf_inv (m_mux_buffer (mem w' q)) \<and> buf_data (m_mux_buffer (mem w' q)) \<noteq> None \<and> (\<exists>fr. buf_content (m_mux_buffer (mem w' q)) = buf_content (m_mux_buffer (mem w q)) @ bytes_of fr \<and>
        length fr = x_samples env \<and>
        (\<forall>x<x_samples env. sint (fr ! x) = switch_normalize_to_16bit (file_value frame info x +
          sum_list (map (\<lambda>p. voice w p x)
            (filter (\<lambda>p. p \<noteq> q \<and> mflag w p MFLAG_HAS_AUDIO \<and> \<not> shut_out w q p) (c_members (conf w)))))))
      else m_mux_buffer (mem w' q) = m_mux_buffer (mem w q))"
proof -
  define main where "main = main_frame env frame info w"
  obtain w2 where a: "agc_step env main (loop_counts w) = Inr w2"
    using agc_step_succeeds [OF assms(3)] by blast
  note v = view_scores [OF a]
  note vd = mix_viewD [OF v(1)] and wf = write_frame_view [OF v(1)]
  obtain w' where wm: "write_members env main (c_members (conf w2)) w2 = Inr (True, w')"
    using write_members_succeeds [of "c_members (conf w2)" w2 env main] assms(1,4,8)
    by (auto simp: vd wf mux_ready_def v)
  have "mix_step env frame info w = Inr (True, w')"
    using assms(2) a wm by (simp add: mix_step_def SWITCH_RECOMMENDED_BUFFER_SIZE_def main_def)
  moreover have "if gets_audio w q
      then buf_content (m_mux_buffer (mem w' q)) = buf_content (m_mux_buffer (mem w q)) @ bytes_of (write_frame env w main q) \<and>
        buf_inv (m_mux_buffer (mem w' q)) \<and> buf_data (m_mux_buffer (mem w' q)) \<noteq> None
      else m_mux_buffer (mem w' q) = m_mux_buffer (mem w q)" if "q \<in> set (c_members (conf w))" for q
    using that write_members_delivers [OF wm, of q] write_members_other [OF wm, of q] assms(1,4,8)
    by (auto simp: vd wf v mux_ready_def)
  moreover have "sint (write_frame env w main q ! x) = switch_normalize_to_16bit (file_value frame info x +
      sum_list (map (\<lambda>p. voice w p x)
        (filter (\<lambda>p. p \<noteq> q \<and> mflag w p MFLAG_HAS_AUDIO \<and> \<not> shut_out w q p) (c_members (conf w)))))"
    if "x < x_samples env" "q \<in> set (c_members (conf w))" "gets_audio w q" for x q
    using that assms(4-7) unfolding main_def
    by (simp add: write_frame_def write_sample_sum gets_audio_def)
  moreover have "mem w' q = (mem w q)\<lparr>m_mux_buffer := m_mux_buffer (mem w' q)\<rparr>" for q
    using write_members_mem [OF wm, of q] by (simp add: v)
  moreover have "length (write_frame env w main q) = x_samples env" for q by (simp add: write_frame_def)
  ultimately show ?thesis by (intro exI [of _ w'] conjI ballI allI) (auto intro!: exI [of _ "write_frame env w main _"])
qed

text \<open>
  C1. Mix minus.  A turn that mixes, with room in the output buffers, ends normally; every
  member that runs and may hear gets appended to its output buffer one packet whose samples are
  the audio of the files plus the voices of all other members that have audio and are not shut
  out by a relationship, clipped once to 16 bits, and the buffers of the others stay as they
  are.  No sum overflows with fewer than 65535 members.  It is assumed that the members with
  audio are running; what happens otherwise is the next property.
\<close>

theorem mix_minus_own_voice:
  assumes "0 < x_samples env" and "x_samples env \<le> 2048" and "agc_safe env w"
    and "distinct (c_members (conf w))" and "length (c_members (conf w)) < 65535"
    and "frames_full env w"
    and "\<forall>p\<in>set (c_members (conf w)). mflag w p MFLAG_HAS_AUDIO \<longrightarrow> mflag w p MFLAG_RUNNING"
    and "\<forall>q\<in>set (c_members (conf w)). gets_audio w q \<longrightarrow>
           mux_ready env w q \<and> buf_fits (x_heap env) (m_mux_buffer (mem w q)) (x_bytes env)"
  shows "\<exists>w'. mix_step env frame info w = Inr (True, w') \<and>
    (\<forall>q\<in>set (c_members (conf w)).
      if gets_audio w q
      then \<exists>fr. buf_content (m_mux_buffer (mem w' q)) = buf_content (m_mux_buffer (mem w q)) @ bytes_of fr \<and>
        length fr = x_samples env \<and>
        (\<forall>x<x_samples env. sint (fr ! x) = switch_normalize_to_16bit (file_value frame info x +
          sum_list (map (\<lambda>p. voice w p x)
            (filter (\<lambda>p. p \<noteq> q \<and> mflag w p MFLAG_HAS_AUDIO \<and> \<not> shut_out w q p) (c_members (conf w))))))
      else m_mux_buffer (mem w' q) = m_mux_buffer (mem w q))"
proof -
  from mix_step_effect [OF assms, of frame info] obtain w' where "mix_step env frame info w = Inr (True, w')" and
    "\<forall>q\<in>set (c_members (conf w)).
      if gets_audio w q
      then buf_inv (m_mux_buffer (mem w' q)) \<and> buf_data (m_mux_buffer (mem w' q)) \<noteq> None \<and> (\<exists>fr.
        buf_content (m_mux_buffer (mem w' q)) = buf_content (m_mux_buffer (mem w q)) @ bytes_of fr \<and>
        length fr = x_samples env \<and>
        (\<forall>x<x_samples env. sint (fr ! x) = switch_normalize_to_16bit (file_value frame info x +
          sum_list (map (\<lambda>p. voice w p x)
            (filter (\<lambda>p. p \<noteq> q \<and> mflag w p MFLAG_HAS_AUDIO \<and> \<not> shut_out w q p) (c_members (conf w)))))))
      else m_mux_buffer (mem w' q) = m_mux_buffer (mem w q)" by blast
  then show ?thesis by (intro exI [of _ w'] conjI ballI) (auto dest!: bspec)
qed

text \<open>
  C35. A member that has stopped running but still has audio is not added to the sum, yet it
  is taken off for those it is shut out for: when nobody else has audio, they are sent the
  audio of the files minus its voice, that is its voice upside down.
\<close>

theorem stopped_voice_inverted:
  assumes "x < x_samples env" and "distinct (c_members (conf w))" and "q \<in> set (c_members (conf w))"
    and "mflag w q MFLAG_RUNNING" and "frames_full env w" and "p \<in> set (c_members (conf w))" and "p \<noteq> q"
    and "mflag w p MFLAG_HAS_AUDIO" and "\<not> mflag w p MFLAG_RUNNING" and "shut_out w q p"
    and "\<forall>r\<in>set (c_members (conf w)). r \<noteq> p \<and> r \<noteq> q \<longrightarrow> \<not> mflag w r MFLAG_HAS_AUDIO"
  shows "sint (write_sample w (main_frame env frame info w) q x) =
    switch_normalize_to_16bit (file_value frame info x - voice w p x)"
proof -
  let ?ms = "c_members (conf w)"
  have "map (\<lambda>r. (if heard w r \<and> r \<noteq> q then sample_at w r x else 0) -
        (if r \<noteq> q \<and> mflag w r MFLAG_HAS_AUDIO \<and> shut_out w q r then sample_at w r x else 0)) ?ms =
      map (\<lambda>r. if r = p then - sample_at w r x else 0) ?ms"
    using assms(7-11) by (intro map_cong) (auto simp: heard_def)
  from arg_cong [OF this, of sum_list] have s: "sum_list (map (\<lambda>r. (if heard w r \<and> r \<noteq> q then sample_at w r x else 0) -
        (if r \<noteq> q \<and> mflag w r MFLAG_HAS_AUDIO \<and> shut_out w q r then sample_at w r x else 0)) ?ms) = - sample_at w p x"
    by (simp only: sum_list_own [OF assms(2,6), of "\<lambda>r. - sample_at w r x"])
  have "sint (word_of_int (file_value frame info x) + - sample_at w p x) = file_value frame info x - voice w p x"
    using sint_sum [of "file_value frame info x" "[()]" "\<lambda>_. - voice w p x"]
    by (simp add: sample_at_voice voice_bound file_value_bound)
  then show ?thesis unfolding write_sample_word [OF assms(1-5)] s sint_clipped by simp
qed

section \<open>The count of ready members\<close>

text \<open>A packet of the member waits in its buffer, and its frame has room for it.\<close>

definition packet_waits :: "mix_env \<Rightarrow> conf_world \<Rightarrow> ptr \<Rightarrow> bool" where
  "packet_waits env w p \<longleftrightarrow>
     buf_inv (m_audio_buffer (mem w p)) \<and> x_bytes env \<le> switch_buffer_inuse (m_audio_buffer (mem w p)) \<and>
     x_bytes env \<le> length (m_frame (mem w p))"

lemma read_member_takes:
  assumes "packet_waits env w p" and "0 < x_samples env"
  shows "\<exists>w'. read_member env p (w, r) = Inr (w', r + 1) \<and> conf w' = conf w \<and>
    (\<forall>q. m_mux_buffer (mem w' q) = m_mux_buffer (mem w q)) \<and> (\<forall>q. q \<noteq> p \<longrightarrow> mem w' q = mem w q) \<and>
    buf_content (m_audio_buffer (mem w' p)) = drop (x_bytes env) (buf_content (m_audio_buffer (mem w p)))"
proof -
  let ?b = "m_audio_buffer (mem w p)"
  have inv: "buf_inv ?b" and used: "x_bytes env \<le> buf_used ?b" and room: "x_bytes env \<le> length (m_frame (mem w p))"
    using assms(1) by (simp_all add: packet_waits_def switch_buffer_inuse_def)
  have got: "length (take (x_bytes env) (buf_content ?b)) = x_bytes env" "x_bytes env \<noteq> 0"
    using used assms(2) by (simp_all add: length_content [OF inv] x_bytes_def)
  moreover have "buf_content ?b \<noteq> []" using got by auto
  ultimately show ?thesis
    using used room toss_effect(3) [OF inv, of "x_bytes env"]
    by (simp add: read_member_def Let_def switch_buffer_inuse_def read_effect [OF inv] clear_mflag_def set_mflag_def upd_mem_def)
qed

lemma read_members_take:
  "\<forall>p\<in>set ps. packet_waits env w p \<Longrightarrow> distinct ps \<Longrightarrow> 0 < x_samples env \<Longrightarrow>
   \<exists>w'. read_members env ps (w, r) = Inr (w', r + of_nat (length ps)) \<and> conf w' = conf w \<and>
     (\<forall>q. m_mux_buffer (mem w' q) = m_mux_buffer (mem w q)) \<and> (\<forall>q. q \<notin> set ps \<longrightarrow> mem w' q = mem w q) \<and>
     (\<forall>q\<in>set ps. buf_content (m_audio_buffer (mem w' q)) = drop (x_bytes env) (buf_content (m_audio_buffer (mem w q))))"
proof (induction ps arbitrary: w r)
  case (Cons p ps)
  obtain w1 where w1: "read_member env p (w, r) = Inr (w1, r + 1)" "conf w1 = conf w"
      "\<forall>q. m_mux_buffer (mem w1 q) = m_mux_buffer (mem w q)" "\<forall>q. q \<noteq> p \<longrightarrow> mem w1 q = mem w q"
      "buf_content (m_audio_buffer (mem w1 p)) = drop (x_bytes env) (buf_content (m_audio_buffer (mem w p)))"
    using read_member_takes [of env w p r] Cons.prems by auto
  have "\<forall>q\<in>set ps. packet_waits env w1 q" using Cons.prems w1(4) by (auto simp: packet_waits_def)
  from Cons.IH [OF this _ Cons.prems(3), of "r + 1"] Cons.prems(2) obtain w' where
      "read_members env ps (w1, r + 1) = Inr (w', r + 1 + of_nat (length ps))" "conf w' = conf w1"
      "\<forall>q. m_mux_buffer (mem w' q) = m_mux_buffer (mem w1 q)" "\<forall>q. q \<notin> set ps \<longrightarrow> mem w' q = mem w1 q"
      "\<forall>q\<in>set ps. buf_content (m_audio_buffer (mem w' q)) = drop (x_bytes env) (buf_content (m_audio_buffer (mem w1 q)))"
    by auto
  with w1 Cons.prems(2) show ?case by (intro exI [of _ w']) (auto simp: add.assoc)
qed simp

text \<open>Nothing plays and nothing is to be recorded.\<close>

definition no_playback :: "conf_world \<Rightarrow> bool" where
  "no_playback w \<longleftrightarrow>
     c_perpetual_sound (conf w) = None \<and> c_moh_sound (conf w) = None \<and> c_auto_record (conf w) = None \<and>
     c_fnode (conf w) = [] \<and> c_async_fnode (conf w) = None \<and> \<not> cflag w CFLAG_WASTE_BANDWIDTH"

lemma check_silence_keeps:
  "mem (check_silence env w) = mem w" "no_playback (check_silence env w) = no_playback w"
  by (auto simp: check_silence_def set_cflag_def upd_conf_def no_playback_def)

lemma video_step_keeps: "mem (video_step v b w) = mem w" "no_playback (video_step v b w) = no_playback w"
  by (auto simp: video_step_def emit_def no_playback_def split: option.splits)

lemma no_playback_steps:
  assumes "no_playback w"
  shows "idle_music env n w = Inr w" "auto_record_step env w = Inr w"
    "x_world s = w \<Longrightarrow> file_steps env s = Inr (s, \<lparr>file_sample_len = x_samples env, has_file_data = False\<rparr>)"
    "close_done_files w = w"
  using assms
  by (simp_all add: no_playback_def idle_music_def auto_record_step_def file_steps_def conf_file_step_def
      async_file_step_def waste_step_def close_done_files_def Let_def)

lemma word_256: "(of_nat 256 :: uint8) = 0"
  by simp

text \<open>
  The members with audio are counted in 8 bits.  With a multiple of 256 members that all
  talk, the count is 0 and the turn takes a packet from the buffer of each of them and sends
  nothing to anyone: the audio of all is lost.
\<close>

theorem full_house_is_silent:
  assumes "length (c_members (conf (x_world s))) = 256 * k" and "distinct (c_members (conf (x_world s)))"
    and "\<forall>p\<in>set (c_members (conf (x_world s))). packet_waits env (x_world s) p"
    and "0 < x_samples env" and "no_playback (x_world s)"
  shows "\<exists>s'. conference_turn env s = Inr (True, s') \<and>
    (\<forall>q. m_mux_buffer (mem (x_world s') q) = m_mux_buffer (mem (x_world s) q)) \<and>
    (\<forall>q\<in>set (c_members (conf (x_world s))).
       buf_content (m_audio_buffer (mem (x_world s') q)) =
         drop (x_bytes env) (buf_content (m_audio_buffer (mem (x_world s) q))))"
proof -
  let ?w = "x_world s" and ?ms = "c_members (conf (x_world s))"
  obtain w where w: "read_members env ?ms (?w, 0) = Inr (w, 0 + of_nat (length ?ms))" "conf w = conf ?w"
      "\<forall>q. m_mux_buffer (mem w q) = m_mux_buffer (mem ?w q)"
      "\<forall>q\<in>set ?ms. buf_content (m_audio_buffer (mem w q)) = drop (x_bytes env) (buf_content (m_audio_buffer (mem ?w q)))"
    using read_members_take [OF assms(3,2,4), of 0] by blast
  have wrap: "(of_nat (length ?ms) :: uint8) = 0" unfolding assms(1) of_nat_mult
    by (simp only: word_256 mult_zero_left)
  define w2 where "w2 = video_step (members_with_video ?w) (video_bridge_members ?w) (check_silence env w)"
  have q: "no_playback w" "no_playback (check_silence env w)" "no_playback w2"
    using assms(5) w(2) by (simp_all add: w2_def check_silence_keeps video_step_keeps) (simp_all add: no_playback_def)
  have m: "mem w2 = mem w" by (simp add: w2_def check_silence_keeps video_step_keeps)
  have "conference_turn env s = Inr (True, s\<lparr>x_world := w2\<rparr>)"
    unfolding conference_turn_def Let_def w(1) wrap
    by (simp add: no_playback_steps [OF q(1)] no_playback_steps [OF q(2)] no_playback_steps [OF q(3)] flip: w2_def)
  with w(3,4) m show ?thesis by simp
qed

section \<open>Two files at once\<close>

text \<open>
  When the second file ends in the same turn in which the first one delivers audio, the
  packet of the first file is in the file frame and counts as file audio, but the length of the
  last read is 0 and the sum starts from silence: the packet is lost.
\<close>

theorem second_file_end_drops_first:
  assumes "c_fnode (conf (x_world s)) = n # ns" and "fn_leadin n = 0" and "fn_done n = 0" and "fn_type n = NODE_TYPE_FILE"
    and "x_file_read env n (x_samples env) = xs" and "xs \<noteq> []" and "length xs \<le> length (x_file_frame s)"
    and "c_async_fnode (conf (x_world s)) = Some a" and "fn_leadin a = 0" and "fn_done a = 0"
    and "x_file_read env a (x_samples env) = []"
  shows "\<exists>s' info. file_steps env s = Inr (s', info) \<and> has_file_data info \<and>
    take (length xs) (x_file_frame s') = xs \<and>
    file_main_frame env (x_file_frame s') info = replicate (x_samples env) 0"
  using assms
  by (simp add: file_steps_def conf_file_step_def async_file_step_def waste_step_def file_main_frame_def Let_def)

section \<open>Concrete rooms\<close>

definition talk_env :: "mix_env" where
  "talk_env = \<lparr>x_env = plain_env, x_samples = 1, x_heap = \<lparr>realloc_ok = \<lambda>_. True, junk = \<lambda>_. 0\<rparr>,
     x_file_read = \<lambda>n _. if fn_async n then [] else [77], x_tts_read = \<lambda>_. None, x_seed = 0,
     x_running = True, x_timer_ok = True\<rparr>"

definition talker :: "uint32 \<Rightarrow> member_flag_t set \<Rightarrow> switch_byte_t list \<Rightarrow> conference_member" where
  "talker i fl frame = (caller i ({MFLAG_CAN_HEAR, MFLAG_CAN_SPEAK} \<union> fl) (Some blank_channel))\<lparr>m_frame := frame, m_read := of_nat (length frame)\<rparr>"

definition talk_world :: conf_world where
  "talk_world = sample_world\<lparr>conf := plain_conf\<lparr>c_members := [1, 2]\<rparr>,
     mem := (\<lambda>p. if p = 1 then talker 1 {MFLAG_RUNNING, MFLAG_HAS_AUDIO} [100, 0] else talker 2 {MFLAG_RUNNING, MFLAG_HAS_AUDIO} [200, 0])\<rparr>"

definition no_file :: file_info where
  "no_file = \<lparr>file_sample_len = 0, has_file_data = False\<rparr>"

lemmas room_defs = talk_env_def talk_world_def talker_def no_file_def sample_world_def plain_conf_def caller_def
  plain_buffer_def x_bytes_def

lemma sample_200: "sint (samples_of [200, 0] ! 0) = 200"
  by (simp add: sample_of_bytes_def)

theorem mix_minus_own_voice_witness:
  "\<exists>w' fr. mix_step talk_env [] no_file talk_world = Inr (True, w') \<and>
     buf_content (m_mux_buffer (mem w' 1)) = bytes_of fr \<and> length fr = 1 \<and> sint (fr ! 0) = 200"
proof -
  have ready: "\<forall>q\<in>set (c_members (conf talk_world)). gets_audio talk_world q \<longrightarrow>
      mux_ready talk_env talk_world q \<and> buf_fits (x_heap talk_env) (m_mux_buffer (mem talk_world q)) (x_bytes talk_env)"
    by (simp add: room_defs mux_ready_def buf_fits_def buf_inv_def buf_grown_def buf_dynamic_def SWITCH_BUFFER_FLAG_DYNAMIC_def)
  have others: "filter (\<lambda>p. p \<noteq> 1 \<and> mflag talk_world p MFLAG_HAS_AUDIO \<and> \<not> shut_out talk_world 1 p) (c_members (conf talk_world)) = [2]"
    by (simp add: room_defs shut_out_def)
  have v: "voice talk_world 2 0 = 200" unfolding voice_def using sample_200 by (simp add: room_defs)
  have one: "1 \<in> set (c_members (conf talk_world))" "gets_audio talk_world 1" "buf_content (m_mux_buffer (mem talk_world 1)) = []"
    "x_samples talk_env = 1" "file_value [] no_file 0 = 0"
    by (simp_all add: room_defs gets_audio_def buf_content_def file_value_def)
  have hyps: "0 < x_samples talk_env" "x_samples talk_env \<le> 2048" "agc_safe talk_env talk_world"
      "distinct (c_members (conf talk_world))" "length (c_members (conf talk_world)) < 65535" "frames_full talk_env talk_world"
      "\<forall>p\<in>set (c_members (conf talk_world)). mflag talk_world p MFLAG_HAS_AUDIO \<longrightarrow> mflag talk_world p MFLAG_RUNNING"
    by (simp_all add: room_defs agc_safe_def frames_full_def)
  obtain w' where w': "mix_step talk_env [] no_file talk_world = Inr (True, w')"
    and all: "\<forall>q\<in>set (c_members (conf talk_world)).
      if gets_audio talk_world q
      then \<exists>fr. buf_content (m_mux_buffer (mem w' q)) = buf_content (m_mux_buffer (mem talk_world q)) @ bytes_of fr \<and>
        length fr = x_samples talk_env \<and>
        (\<forall>x<x_samples talk_env. sint (fr ! x) = switch_normalize_to_16bit (file_value [] no_file x +
          sum_list (map (\<lambda>p. voice talk_world p x)
            (filter (\<lambda>p. p \<noteq> q \<and> mflag talk_world p MFLAG_HAS_AUDIO \<and> \<not> shut_out talk_world q p)
              (c_members (conf talk_world))))))
      else m_mux_buffer (mem w' q) = m_mux_buffer (mem talk_world q)"
    using mix_minus_own_voice [OF hyps ready] by blast
  have "\<exists>fr. buf_content (m_mux_buffer (mem w' 1)) = bytes_of fr \<and> length fr = 1 \<and>
      (\<forall>x<1. sint (fr ! x) = switch_normalize_to_16bit (file_value [] no_file x + voice talk_world 2 x))"
    using bspec [OF all one(1)] unfolding others if_P [OF one(2)] one(3,4) append_Nil by simp
  with w' v one(5) show ?thesis by (auto simp: switch_normalize_to_16bit_def SWITCH_SMAX_def SWITCH_SMIN_def)
qed

definition shut_out_world :: conf_world where
  "shut_out_world = sample_world\<lparr>conf := plain_conf\<lparr>c_members := [1, 2], c_relationship_total := 1\<rparr>,
     mem := (\<lambda>p. if p = 1 then (talker 1 {MFLAG_RUNNING} [])\<lparr>m_relationships := [\<lparr>rel_id = 2, rel_flags = {RFLAG_CAN_SPEAK}\<rparr>]\<rparr>
                 else talker 2 {MFLAG_HAS_AUDIO} [200, 0])\<rparr>"

theorem stopped_voice_inverted_witness:
  "sint (write_sample shut_out_world (main_frame talk_env [] no_file shut_out_world) 1 0) = - 200"
proof -
  have "voice shut_out_world 2 0 = 200" unfolding voice_def using sample_200 by (simp add: room_defs shut_out_world_def)
  moreover have "file_value [] no_file 0 = 0" by (simp add: no_file_def file_value_def)
  ultimately show ?thesis
    using stopped_voice_inverted [of 0 talk_env shut_out_world 1 2 "[]" no_file]
    by (simp add: room_defs shut_out_world_def frames_full_def shut_out_def no_hear_def switch_normalize_to_16bit_def
        SWITCH_SMAX_def SWITCH_SMIN_def)
qed

definition full_house :: mix_state where
  "full_house = \<lparr>x_world = sample_world\<lparr>conf := plain_conf\<lparr>c_members := [0..<256]\<rparr>,
     mem := (\<lambda>p. (talker (of_nat p) {MFLAG_RUNNING} [0, 0])\<lparr>m_audio_buffer := plain_buffer\<lparr>
       buf_data := Some [200, 0], buf_used := 2, buf_actually_used := 2, buf_datalen := 2\<rparr>\<rparr>)\<rparr>,
     x_file_frame = [], x_async_frame = []\<rparr>"

theorem full_house_is_silent_witness:
  "\<exists>s'. conference_turn talk_env full_house = Inr (True, s') \<and>
     buf_content (m_audio_buffer (mem (x_world full_house) 7)) = [200, 0] \<and>
     buf_content (m_audio_buffer (mem (x_world s') 7)) = [] \<and>
     m_mux_buffer (mem (x_world s') 8) = plain_buffer"
proof -
  have "\<forall>p\<in>set (c_members (conf (x_world full_house))). packet_waits talk_env (x_world full_house) p"
    by (simp add: full_house_def room_defs packet_waits_def buf_inv_def switch_buffer_inuse_def)
  moreover have "buf_content (m_audio_buffer (mem (x_world full_house) 7)) = [200, 0]"
      "m_mux_buffer (mem (x_world full_house) 8) = plain_buffer" "7 \<in> set (c_members (conf (x_world full_house)))"
    by (simp_all add: full_house_def room_defs buf_content_def)
  moreover have "length (c_members (conf (x_world full_house))) = 256 * 1" "distinct (c_members (conf (x_world full_house)))"
      "no_playback (x_world full_house)" "x_bytes talk_env = 2" "x_samples talk_env = 1"
    by (simp_all add: full_house_def no_playback_def) (simp_all add: room_defs)
  ultimately show ?thesis using full_house_is_silent [of full_house 1 talk_env] by fastforce
qed

definition two_files :: mix_state where
  "two_files =
     (let n = \<lparr>fn_type = NODE_TYPE_FILE, fn_done = 0, fn_async = False, fn_leadin = 0, fn_file = Some ''a''\<rparr>
      in \<lparr>x_world = sample_world\<lparr>conf := plain_conf\<lparr>c_fnode := [n], c_async_fnode := Some (n\<lparr>fn_async := True\<rparr>)\<rparr>\<rparr>,
          x_file_frame = [0], x_async_frame = [0]\<rparr>)"

theorem second_file_end_drops_first_witness:
  "\<exists>s' info. file_steps talk_env two_files = Inr (s', info) \<and> take 1 (x_file_frame s') = [77] \<and>
     file_main_frame talk_env (x_file_frame s') info = [0]"
proof -
  obtain n a where n: "c_fnode (conf (x_world two_files)) = n # []" "fn_leadin n = 0" "fn_done n = 0"
      "fn_type n = NODE_TYPE_FILE" "x_file_read talk_env n (x_samples talk_env) = [77]"
    and a: "c_async_fnode (conf (x_world two_files)) = Some a" "fn_leadin a = 0" "fn_done a = 0"
      "x_file_read talk_env a (x_samples talk_env) = []"
    by (simp add: two_files_def talk_env_def)
  obtain s' info where "file_steps talk_env two_files = Inr (s', info)" "take 1 (x_file_frame s') = [77]"
      "file_main_frame talk_env (x_file_frame s') info = replicate (x_samples talk_env) 0"
    using second_file_end_drops_first [OF n _ _ a] by (auto simp: two_files_def)
  then show ?thesis by (auto simp: talk_env_def)
qed

end
