(* ===== verification/Conference_Output.thy ===== *)
theory Conference_Output
  imports Conference_Voice Conference_Mix
begin

text \<open>
  The output loop of a member, \<open>conference_loop_output\<close> of \<^verbatim>\<open>mod_conference.c\<close>: the keys the
  caller pressed go to the digit machine or to the other callers, a packet of the audio mixed
  for the member is written to the call leg together with the file or speech queued for the
  member alone, and the buffer is flushed when it falls behind.

  One turn of the loop is a function of what the turn finds: the clock, a message in the queue of
  the session, the samples the file or the speech engine delivers, the result of writing a frame,
  and whether the session has private events.  The digit machine of the member is kept next to
  the world; \<open>m_dmachine\<close> says whether there is one.
\<close>

section \<open>Samples per packet\<close>

text \<open>
  \<open>(uint32_t)((float)rate / (1000.0f / (float)interval))\<close>.  \<open>flt_shift x y\<close> is the number of
  binary places with which the quotient of two positive integers has 24 significant bits, and
  \<open>flt_quot\<close> that quotient rounded to them, ties to even.  Rates and intervals are below
  \<open>2 ^ 24\<close>, so their conversion is exact.
\<close>

function flt_shift :: "int \<Rightarrow> int \<Rightarrow> nat" where
  "flt_shift x y = (if x \<le> 0 \<or> y * 2 ^ 23 \<le> x then 0 else Suc (flt_shift (2 * x) y))"
  by auto

termination
  by (relation "measure (\<lambda>(x, y). nat (y * 2 ^ 23 - x))") auto

declare flt_shift.simps [simp del]

definition flt_quot :: "int \<Rightarrow> int \<Rightarrow> int \<times> nat" where
  "flt_quot x y =
     (let k = flt_shift x y; q = x * 2 ^ k div y; r = x * 2 ^ k mod y
      in (if 2 * r > y \<or> (2 * r = y \<and> odd q) then q + 1 else q, k))"

definition switch_samples_per_packet :: "uint32 \<Rightarrow> uint32 \<Rightarrow> uint32" where
  "switch_samples_per_packet rate interval =
     (if interval = 0 then 0
      else let (m, k) = flt_quot 1000 (uint interval);
               (n, l) = flt_quot (uint rate * 2 ^ k) m
           in word_of_int (n div 2 ^ l))"

section \<open>Files for one member\<close>

text \<open>
  What the turn finds.  \<open>o_message\<close> are the headers from and to and the body of a message
  event; \<open>o_file\<close> the samples a read of the file or of the speech engine delivers, at most as
  many as are asked for, none at the end or on an error; \<open>o_stale\<close> what an earlier turn left in
  the frame, as many samples as a packet has.
\<close>

record turn_input =
  o_now :: int
  o_later :: int
  o_message :: "(string option \<times> string option \<times> string option) option"
  o_file :: "int16 list"
  o_write_ok :: bool
  o_private_events :: bool
  o_seed :: int16
  o_stale :: "int16 list"

record output_env =
  o_env :: conf_env
  o_session :: session_view
  o_limits :: dtmf_limits
  o_dm_env :: "(key_binding, conf_world) dm_env"
  o_samples :: nat
  o_flush_len :: nat

definition SWITCH_CAUSE_DESTINATION_OUT_OF_ORDER :: switch_call_cause_t where
  "SWITCH_CAUSE_DESTINATION_OUT_OF_ORDER = 27"

definition mix_file :: "int16 list \<Rightarrow> int16 list \<Rightarrow> int16 list" where
  "mix_file data file = map2 add_samples data file @ drop (length file) data"

definition file_member_done :: "ptr \<Rightarrow> conference_file_node \<Rightarrow> conf_world \<Rightarrow> conf_world" where
  "file_member_done p n w =
     (if test_eflag w EFLAG_PLAY_FILE
      then emit (Fired_maint (conference_add_event_data w @ conference_add_event_member_data w p @
             [Hdr ''Action'' ''play-file-member-done''] @
             (case fn_file n of None \<Rightarrow> [] | Some f \<Rightarrow> [Hdr ''File'' f]))) w
      else w)"

definition member_add_file_data ::
    "ptr \<Rightarrow> int16 list \<Rightarrow> int16 list \<Rightarrow> conf_world \<Rightarrow> (int16 list \<times> conf_world) outcome" where
  "member_add_file_data p file data w =
     (case m_fnode (mem w p) of
        [] \<Rightarrow> Inr (data, w)
      | n # ns \<Rightarrow>
          if fn_done n \<noteq> 0 then
            Inr (data, upd_mem p (\<lambda>m. m\<lparr>m_fnode := ns\<rparr>)
                         (if fn_type n = NODE_TYPE_SPEECH then w else emit (Close_file n) w))
          else if fn_leadin n \<noteq> 0 then
            Inr (data, upd_mem p (\<lambda>m. m\<lparr>m_fnode := n\<lparr>fn_leadin := fn_leadin n - 1\<rparr> # ns\<rparr>) w)
          else if file = [] then
            Inr (data, file_member_done p n (upd_mem p (\<lambda>m. m\<lparr>m_fnode := bump n # ns\<rparr>) w))
          else if 2 * length file > SWITCH_RECOMMENDED_BUFFER_SIZE then Inl OutOfBounds
          else bindE (switch_change_sln_volume file (length file) (m_volume_out_level (mem w p))) (\<lambda>file.
                 Inr (mix_file data file, w)))"

section \<open>A turn\<close>

definition CONF_CHAT_PROTO :: string where
  "CONF_CHAT_PROTO = ''conf''"

definition output_message :: "turn_input \<Rightarrow> conf_world \<Rightarrow> conf_world" where
  "output_message i w =
     (case o_message i of
        Some (Some from, Some to, Some body) \<Rightarrow>
          let to = (if CHR ''+'' \<in> set to \<and> take 4 to \<noteq> CONF_CHAT_PROTO
                    then CONF_CHAT_PROTO @ ''+'' @ c_name (conf w) @ ''@'' @ c_domain (conf w) else to)
          in emit (Chat_message from to body) w
      | _ \<Rightarrow> w)"

definition output_answer :: "ptr \<Rightarrow> switch_channel \<Rightarrow> conf_world \<Rightarrow> conf_world" where
  "output_answer p ch w =
     (let answered = (switch_channel_test_flag ch CF_ANSWERED \<noteq> 0) in
      if direction ch = SWITCH_CALL_DIRECTION_OUTBOUND
      then (if answered \<and> \<not> cflag w CFLAG_ANSWERED then set_cflag CFLAG_ANSWERED w else w)
      else (if cflag w CFLAG_ANSWERED \<and> \<not> answered then emit (Answer_channel p) w else w))"

definition output_keys ::
    "output_env \<Rightarrow> turn_input \<Rightarrow> ptr \<Rightarrow> key_binding switch_ivr_dmachine \<Rightarrow> conf_world \<Rightarrow>
       (key_binding switch_ivr_dmachine \<times> conf_world) outcome" where
  "output_keys oe i p dm w =
     bindE (member_channel w p) (\<lambda>ch.
     if switch_channel_has_dtmf ch \<noteq> 0 then
       bindE (switch_channel_dequeue_dtmf_string (o_limits oe) ch 128) (\<lambda>(_, dtmf, ch).
       let w = set_member_channel p ch w in
       if mflag w p MFLAG_DIST_DTMF then Inr (dm, conference_send_all_dtmf w p dtmf)
       else if m_dmachine (mem w p) then
         bindE (switch_ivr_dmachine_feed (o_dm_env oe) (o_now i) (o_later i) dm dtmf w) (\<lambda>(_, s). Inr s)
       else Inr (dm, w))
     else if m_dmachine (mem w p) then
       bindE (switch_ivr_dmachine_ping (o_dm_env oe) (o_now i) dm w) (\<lambda>(_, s). Inr s)
     else Inr (dm, w))"

text \<open>Whether the buffer is to be flushed; \<open>low_count\<close> counts turns with part of a packet.\<close>

definition check_delay :: "output_env \<Rightarrow> ptr \<Rightarrow> uint32 \<Rightarrow> conf_world \<Rightarrow> uint32 \<times> conf_world" where
  "check_delay oe p low_count w =
     (let mux_used = switch_buffer_inuse (m_mux_buffer (mem w p)) in
      if mux_used = 0 then (low_count, w)
      else if mux_used < 2 * o_samples oe then
        (low_count + 1, if low_count + 1 \<ge> 5 then set_mflag p MFLAG_FLUSH_BUFFER w else w)
      else (low_count, if mux_used > o_flush_len oe then set_mflag p MFLAG_FLUSH_BUFFER w else w))"

text \<open>The Boolean says whether the loop goes on.\<close>

definition send_frame :: "turn_input \<Rightarrow> ptr \<Rightarrow> int16 list \<Rightarrow> conf_world \<Rightarrow> bool \<times> conf_world" where
  "send_frame i p data w =
     (let w = emit (Write_frame p data) w in
      if o_write_ok i then (True, w) else (False, emit (Hangup_channel p SWITCH_CAUSE_DESTINATION_OUT_OF_ORDER) w))"

definition output_mixed :: "output_env \<Rightarrow> turn_input \<Rightarrow> ptr \<Rightarrow> conf_world \<Rightarrow> (bool \<times> conf_world) outcome" where
  "output_mixed oe i p w =
     bindE (switch_buffer_read (m_mux_buffer (mem w p)) (2 * o_samples oe)) (\<lambda>(b, got).
     let w = upd_mem p (\<lambda>m. m\<lparr>m_mux_buffer := b\<rparr>) w in
     if got = [] then Inr (True, w)
     else if length got > SWITCH_RECOMMENDED_BUFFER_SIZE then Inl OutOfBounds
     else bindE (if mflag w p MFLAG_CAN_HEAR
                 then switch_change_sln_volume (samples_of got) (length got div 2) (m_volume_out_level (mem w p))
                 else Inr (replicate (length got div 2) (- 1))) (\<lambda>data.
          bindE (member_add_file_data p (o_file i) data w) (\<lambda>(data, w). Inr (send_frame i p data w))))"

definition blank_frame :: "nat \<Rightarrow> int16 list outcome" where
  "blank_frame samples =
     (if 2 * samples > SWITCH_RECOMMENDED_BUFFER_SIZE then Inl OutOfBounds else Inr (replicate samples (- 1)))"

definition silence :: "turn_input \<Rightarrow> nat \<Rightarrow> conf_world \<Rightarrow> int16 list outcome" where
  "silence i samples w =
     bindE (blank_frame samples) (\<lambda>data.
       if c_comfort_noise_level (conf w) = 0 then Inr data
       else switch_generate_sln_silence (o_seed i) (o_stale i) samples (word_of_int (c_comfort_noise_level (conf w))))"

definition output_audio ::
    "output_env \<Rightarrow> turn_input \<Rightarrow> ptr \<Rightarrow> uint32 \<Rightarrow> conf_world \<Rightarrow> (bool \<times> uint32 \<times> conf_world) outcome" where
  "output_audio oe i p low_count w =
     (let mux_used = switch_buffer_inuse (m_mux_buffer (mem w p)) in
      if mux_used \<ge> 2 * o_samples oe then
        bindE (output_mixed oe i p w) (\<lambda>(go, w). Inr (go, 0, w))
      else if m_fnode (mem w p) \<noteq> [] then
        bindE (blank_frame (o_samples oe)) (\<lambda>data.
        bindE (member_add_file_data p (o_file i) data w) (\<lambda>(data, w).
          Inr (fst (send_frame i p data w), low_count, snd (send_frame i p data w))))
      else if \<not> cflag w CFLAG_WASTE_BANDWIDTH \<and> mflag w p MFLAG_WASTE_BANDWIDTH then
        bindE (silence i (o_samples oe) w) (\<lambda>data.
          Inr (fst (send_frame i p data w), low_count, snd (send_frame i p data w)))
      else Inr (True, low_count, w))"

definition flush_mux :: "ptr \<Rightarrow> conf_world \<Rightarrow> conf_world outcome" where
  "flush_mux p w =
     (if \<not> mflag w p MFLAG_FLUSH_BUFFER then Inr w
      else bindE (if switch_buffer_inuse (m_mux_buffer (mem w p)) = 0 then Inr (m_mux_buffer (mem w p))
                  else switch_buffer_zero (m_mux_buffer (mem w p))) (\<lambda>b.
             Inr (clear_mflag p MFLAG_FLUSH_BUFFER (upd_mem p (\<lambda>m. m\<lparr>m_mux_buffer := b\<rparr>) w))))"

text \<open>Telling a caller of mute and unmute: the sound that is set, or speech.\<close>

definition indicate ::
    "conf_env \<Rightarrow> member_flag_t \<Rightarrow> (conference_obj \<Rightarrow> string option) \<Rightarrow> string \<Rightarrow> ptr \<Rightarrow> conf_world \<Rightarrow> conf_world outcome" where
  "indicate env f sound words p w =
     (if \<not> mflag w p f then Inr w
      else bindE (if zstr (sound (conf w)) then conference_member_say env w p (Some words) 0
                  else conference_member_play_file env w p (sound (conf w)) 0) (\<lambda>(_, w).
             Inr (clear_mflag p f w)))"

definition indications :: "conf_env \<Rightarrow> ptr \<Rightarrow> conf_world \<Rightarrow> conf_world outcome" where
  "indications env p w =
     bindE (indicate env MFLAG_INDICATE_MUTE c_muted_sound ''Muted'' p w) (\<lambda>w.
     bindE (indicate env MFLAG_INDICATE_MUTE_DETECT c_mute_detect_sound ''Currently Muted'' p w) (\<lambda>w.
       indicate env MFLAG_INDICATE_UNMUTE c_unmuted_sound ''Un-Muted'' p w))"

definition private_events :: "turn_input \<Rightarrow> ptr \<Rightarrow> conf_world \<Rightarrow> conf_world outcome" where
  "private_events i p w =
     (if o_private_events i then
        bindE (tag_app switch_channel_set_app_flag_key p w) (\<lambda>w.
        bindE (tag_app switch_channel_clear_app_flag_key p (emit (Parse_events p) w)) (\<lambda>w.
          Inr (set_mflag p MFLAG_FLUSH_BUFFER w)))
      else Inr (emit (Parse_messages p) w))"

text \<open>The audio of a turn, from the look at the buffer to its flushing.\<close>

definition deliver ::
    "output_env \<Rightarrow> turn_input \<Rightarrow> ptr \<Rightarrow> uint32 \<Rightarrow> conf_world \<Rightarrow> (bool \<times> uint32 \<times> conf_world) outcome" where
  "deliver oe i p low_count w =
     (let (low, w) = check_delay oe p low_count w in
      bindE (output_audio oe i p low w) (\<lambda>(go, low, w).
        if go then bindE (flush_mux p w) (\<lambda>w. Inr (True, low, w)) else Inr (False, low, w)))"

record output_vars =
  low_count :: uint32
  machine :: "key_binding switch_ivr_dmachine"

definition output_turn ::
    "output_env \<Rightarrow> ptr \<Rightarrow> turn_input \<Rightarrow> output_vars \<Rightarrow> conf_world \<Rightarrow> (bool \<times> output_vars \<times> conf_world) outcome" where
  "output_turn oe p i v w =
     bindE (member_channel w p) (\<lambda>ch.
     bindE (output_keys oe i p (machine v) (output_answer p ch (output_message i w))) (\<lambda>(dm, w).
     bindE (deliver oe i p (low_count v) w) (\<lambda>(go, low, w).
     let v = \<lparr>low_count = low, machine = dm\<rparr> in
     if \<not> go then Inr (False, v, w)
     else bindE (indications (o_env oe) p w) (\<lambda>w.
          bindE (private_events i p w) (\<lambda>w. Inr (True, v, w))))))"

text \<open>The end: the member stops, and the cause of an outbound leg is remembered.\<close>

definition output_end :: "ptr \<Rightarrow> conf_world \<Rightarrow> conf_world outcome" where
  "output_end p w =
     (let w = clear_mflag p MFLAG_RUNNING w in
      bindE (member_channel w p) (\<lambda>ch.
        Inr (if direction ch = SWITCH_CALL_DIRECTION_OUTBOUND
             then upd_conf (\<lambda>c. c\<lparr>c_bridge_hangup_cause := hangup_cause ch\<rparr>) w else w)))"

text \<open>Between two turns the other threads run: each turn comes with what they do.\<close>

fun output_loop ::
    "output_env \<Rightarrow> ptr \<Rightarrow> ((conf_world \<Rightarrow> conf_world) \<times> turn_input) list \<Rightarrow> output_vars \<Rightarrow> conf_world \<Rightarrow>
       (bool \<times> output_vars \<times> conf_world) outcome" where
  "output_loop oe p [] v w = Inr (True, v, w)"
| "output_loop oe p ((others, i) # is) v w =
     (let w = others w in
      bindE (member_channel w p) (\<lambda>ch.
      if \<not> (mflag w p MFLAG_RUNNING \<and> mflag w p MFLAG_ITHREAD \<and> switch_channel_test_ready (o_session oe) ch True False)
      then bindE (output_end p w) (\<lambda>w. Inr (False, v, w))
      else bindE (output_turn oe p i v w) (\<lambda>(go, v, w).
        if go then output_loop oe p is v w else bindE (output_end p w) (\<lambda>w. Inr (False, v, w)))))"

section \<open>Calls to make, and the whole\<close>

text \<open>The calls of the auto-call list: every entry is a list of dial strings.\<close>

definition str_nil :: "string option \<Rightarrow> string" where
  "str_nil s = (case s of None \<Rightarrow> [] | Some t \<Rightarrow> t)"

definition outcall_timeout :: "string option \<Rightarrow> int" where
  "outcall_timeout toval =
     (case toval of None \<Rightarrow> 60 | Some s \<Rightarrow> let t = atoi s in if t < 10 \<or> t > 500 then 60 else t)"

definition outcall_entry :: "conf_env \<Rightarrow> switch_channel \<Rightarrow> string \<Rightarrow> conf_world \<Rightarrow> conf_world outcome" where
  "outcall_entry env ch entry w =
     bindE (switch_separate_string (Some entry) (CHR '','') 512) (\<lambda>argv.
       let var = (\<lambda>n. get_variable env ch (''conference_auto_outcall_'' @ n)) in
       Inr (fold (\<lambda>a. emit (Outcall_bg (str_nil (var ''prefix'') @ a) (outcall_timeout (var ''timeout''))
                       (str_nil (var ''flags'')) (var ''caller_id_name'') (var ''caller_id_number'') (var ''profile'')))
              argv w))"

fun outcall_entries :: "conf_env \<Rightarrow> switch_channel \<Rightarrow> string list \<Rightarrow> conf_world \<Rightarrow> conf_world outcome" where
  "outcall_entries env ch [] w = Inr w"
| "outcall_entries env ch (e # es) w = bindE (outcall_entry env ch e w) (outcall_entries env ch es)"

text \<open>
  \<open>others\<close> is what the other threads do while the calls are being made.  The Boolean says
  whether the channel is still there.
\<close>

definition auto_outcalls ::
    "output_env \<Rightarrow> ptr \<Rightarrow> string list \<Rightarrow> (conf_world \<Rightarrow> conf_world) \<Rightarrow> conf_world \<Rightarrow> (bool \<times> conf_world) outcome" where
  "auto_outcalls oe p calls others w =
     bindE (member_channel w p) (\<lambda>ch.
     let ann = get_variable (o_env oe) ch ''conference_auto_outcall_announce'';
         w = (if ann \<noteq> None \<and> \<not> silent_req ch then upd_conf (\<lambda>c. c\<lparr>c_special_announce := ann\<rparr>) w else w);
         w = set_cflag CFLAG_OUTCALL w
     in bindE (outcall_entries (o_env oe) ch calls w) (\<lambda>w.
        bindE (tag_app switch_channel_set_app_flag_key p w) (\<lambda>w.
        bindE (tag_app switch_channel_clear_app_flag_key p (others w)) (\<lambda>w.
        bindE (member_channel w p) (\<lambda>ch.
          if \<not> switch_channel_test_ready (o_session oe) ch True False
          then Inr (False, upd_conf (\<lambda>c. c\<lparr>c_cancel_cause := SWITCH_CAUSE_ORIGINATOR_CANCEL\<rparr>) w)
          else bindE (conference_member_play_file (o_env oe) w p (Some ''tone_stream://%(500,0,640)'') 0)
                 (\<lambda>(_, w). Inr (True, w)))))))"

definition conference_loop_output ::
    "output_env \<Rightarrow> ptr \<Rightarrow> bool \<Rightarrow> string list option \<Rightarrow> (conf_world \<Rightarrow> conf_world) \<Rightarrow>
       ((conf_world \<Rightarrow> conf_world) \<times> turn_input) list \<Rightarrow> output_vars \<Rightarrow> conf_world \<Rightarrow>
       (bool \<times> output_vars \<times> conf_world) outcome" where
  "conference_loop_output oe p timer_ok call_list others is v w =
     (if \<not> m_conference (mem w p) then Inl AssertionFailed
      else if \<not> timer_ok then Inr (False, v, w)
      else
        let w = emit (Launch_input p) (set_mflag p MFLAG_ITHREAD w) in
        bindE (case call_list of None \<Rightarrow> Inr (True, w) | Some calls \<Rightarrow> auto_outcalls oe p calls others w) (\<lambda>(ready, w).
        if \<not> ready then bindE (output_end p w) (\<lambda>w. Inr (False, v, w))
        else output_loop oe p is v (if cflag w CFLAG_ANSWERED then w else emit (Answer_channel p) w)))"

section \<open>Callbacks that keep something\<close>

text \<open>
  A machine all of whose user data are \<open>good\<close> calls back with good user data only; what every
  callback keeps then, feeding and pinging the machine keep.
\<close>

definition good_binding :: "('u \<Rightarrow> bool) \<Rightarrow> 'u switch_ivr_dmachine_binding \<Rightarrow> bool" where
  "good_binding good b \<longleftrightarrow> (\<forall>u. bd_user_data b = Some u \<longrightarrow> good u)"

definition good_machine :: "('u \<Rightarrow> bool) \<Rightarrow> 'u switch_ivr_dmachine \<Rightarrow> bool" where
  "good_machine good dm \<longleftrightarrow>
     (\<forall>bs\<in>set (dm_heads dm). \<forall>b\<in>set bs. good_binding good b) \<and>
     (\<forall>h. dm_realm dm = Some h \<longrightarrow> h < length (dm_heads dm)) \<and>
     (\<forall>r h. dm_binding_hash dm r = Some h \<longrightarrow> h < length (dm_heads dm)) \<and>
     (\<forall>b. dm_last_matching_binding dm = Some b \<longrightarrow> good_binding good b) \<and>
     (\<forall>u. dm_user_data dm = Some u \<longrightarrow> good u) \<and> (\<forall>u. match_user_data (dm_match dm) = Some u \<longrightarrow> good u)"

definition good_vars :: "('u \<Rightarrow> bool) \<Rightarrow> 'u match_vars \<Rightarrow> bool" where
  "good_vars good v \<longleftrightarrow> (\<forall>b. mv_exact v = Some b \<or> mv_both v = Some b \<longrightarrow> good_binding good b)"

lemma match_steps_good:
  assumes "good_binding good b" and "good_vars good v"
  shows "good_vars good (fst (match_regex t b v))" "good_vars good (fst (match_exact ds full b v))"
    "good_vars good (match_longer ds b v)"
  using assms by (auto simp: good_vars_def match_regex_def match_exact_def match_longer_def)

lemma match_loop_good:
  "\<forall>b\<in>set bs. good_binding good b \<Longrightarrow> good_vars good v \<Longrightarrow> good_vars good (match_loop rx ds full t bs v)"
proof (induction bs arbitrary: v)
  case (Cons b bs)
  have b: "good_binding good b" "\<forall>b\<in>set bs. good_binding good b" using Cons.prems(1) by simp_all
  obtain v1 k1 v2 k2 where m: "match_regex t b v = (v1, k1)" "match_exact ds full b v = (v2, k2)" by fastforce
  have g: "good_vars good v1" "good_vars good v2"
    using match_steps_good(1) [OF b(1) Cons.prems(2), of t] match_steps_good(2) [OF b(1) Cons.prems(2), of ds full] m
    by simp_all
  then have l: "good_vars good (match_longer ds b v2)" using match_steps_good(3) [OF b(1)] by blast
  from Cons.IH [OF b(2)] show ?case
    unfolding match_loop.simps m Let_def prod.case using Cons.prems(2) g l by (auto simp del: not_None_eq)
qed simp

lemma match_result_good:
  assumes "good_machine good dm" and "match_result t (match_bindings env dm t) = Some b"
  shows "good_binding good b"
proof -
  have "good_vars good (match_bindings env dm t)"
  proof (cases "dm_realm dm")
    case (Some h)
    then have "dm_heads dm ! h \<in> set (dm_heads dm)" using assms(1) by (simp add: good_machine_def)
    then have "\<forall>b\<in>set (dm_heads dm ! h). good_binding good b" using assms(1) by (simp add: good_machine_def)
    from match_loop_good [OF this, of match_none] Some show ?thesis by (simp add: match_bindings_def good_vars_def)
  qed (simp add: match_bindings_def good_vars_def)
  with assms(2) show ?thesis by (auto simp: match_result_def good_vars_def Let_def split: if_splits)
qed

lemma check_match_good: "good_machine good dm \<Longrightarrow> good_machine good (snd (switch_ivr_dmachine_check_match env dm t))"
  using match_result_good [of good dm t env]
  by (auto simp: switch_ivr_dmachine_check_match_def Let_def split: option.split) (auto simp: good_machine_def)

locale dm_keeper =
  fixes env :: "('u, 'w) dm_env"
    and good :: "'u \<Rightarrow> bool"
    and keeps :: "'w \<Rightarrow> 'w \<Rightarrow> bool"
  assumes keeps_refl: "keeps w w"
    and keeps_trans: "keeps w w' \<Longrightarrow> keeps w' w'' \<Longrightarrow> keeps w w''"
    and call_keeps: "dm_call env f dm w = Inr (s, dm', w') \<Longrightarrow>
      (\<forall>u. match_user_data (dm_match dm) = Some u \<longrightarrow> good u) \<Longrightarrow> dm' = dm \<and> keeps w w'"
begin

lemma run_callback_keeps:
  assumes "run_callback env cb r dm w = Inr (r', dm', w')" and "good_machine good dm"
  shows "dm' = dm \<and> keeps w w'"
  using assms call_keeps keeps_refl
  by (auto simp: run_callback_def bindE_eq_Inr good_machine_def split: option.splits)

lemma good_user_data: "good_machine good dm \<Longrightarrow> good_machine good (with_user_data cb dm)"
  by (simp add: good_machine_def with_user_data_def)

lemma good_clear: "good_machine good dm \<Longrightarrow> good_machine good (snd (switch_ivr_dmachine_clear dm))"
  by (simp add: good_machine_def switch_ivr_dmachine_clear_def)

lemma ping_found_keeps:
  assumes "ping_found env dm w = Inr (r, dm', w')" and "good_machine good dm"
  shows "good_machine good dm' \<and> keeps w w'"
proof -
  obtain bp where bp: "dm_last_matching_binding dm = Some bp"
    using assms(1) by (auto simp: ping_found_def split: option.splits)
  let ?dm = "dm\<lparr>dm_match := \<lparr>match_digits = Some Last_matching_digits, match_key = bd_key bp,
      match_type = DM_MATCH_POSITIVE, match_user_data = bd_user_data bp\<rparr>, dm_is_match := True\<rparr>"
  obtain r1 dm1 w1 where c: "run_callback env (bd_callback bp) SWITCH_STATUS_FOUND ?dm w = Inr (r1, dm1, w1)"
      "run_callback env (dm_match_callback dm1) r1 (with_user_data (dm_match_callback dm1) dm1) w1 = Inr (r, dm', w')"
    using assms(1) bp by (auto simp: ping_found_def Let_def bindE_eq_Inr)
  have g: "good_machine good ?dm" using assms(2) bp by (simp add: good_machine_def good_binding_def)
  with run_callback_keeps [OF c(1)] have "dm1 = ?dm" "keeps w w1" by auto
  with g run_callback_keeps [OF c(2)] good_user_data show ?thesis using keeps_trans by blast
qed

lemma ping_failed_keeps:
  assumes "ping_failed env r dm w = Inr (r', dm', w')" and "good_machine good dm"
  shows "good_machine good dm' \<and> keeps w w'"
proof -
  let ?dm = "dm\<lparr>dm_last_failed_digits := dm_digits dm,
    dm_match := (dm_match dm)\<lparr>match_digits := Some Last_failed_digits, match_type := DM_MATCH_NEGATIVE\<rparr>\<rparr>"
  have "good_machine good ?dm" using assms(2) by (simp add: good_machine_def)
  with assms(1) show ?thesis
    using run_callback_keeps good_user_data unfolding ping_failed_def Let_def by blast
qed

lemma ping_keeps:
  assumes "switch_ivr_dmachine_ping env now dm w = Inr (r, dm', w')" and "good_machine good dm"
  shows "good_machine good dm' \<and> keeps w w'"
proof -
  define dm1 where "dm1 = snd (switch_ivr_dmachine_check_timeout now dm)"
  define t where "t = fst (switch_ivr_dmachine_check_timeout now dm)"
  define dm2 where "dm2 = snd (switch_ivr_dmachine_check_match env dm1 t)"
  have g1: "good_machine good dm1" using assms(2)
    by (simp add: dm1_def switch_ivr_dmachine_check_timeout_def Let_def good_machine_def)
  have g2: "good_machine good dm2" using check_match_good [OF g1] by (simp add: dm2_def)
  obtain r3 dm3 w3 where s: "ping_found env dm2 w = Inr (r3, dm3, w3) \<or> (dm3, w3) = (dm2, w)"
    and e: "ping_failed env r3 dm3 w3 = Inr (r, dm', w') \<or> (\<exists>d. ping_failed env r3 dm3 w3 = Inr (r, d, w') \<and>
        dm' = snd (switch_ivr_dmachine_clear d)) \<or> (dm' = dm3 \<or> dm' = snd (switch_ivr_dmachine_clear dm3)) \<and> w' = w3"
    using assms(1) unfolding switch_ivr_dmachine_ping_def Let_def
    by (auto simp: dm1_def t_def dm2_def bindE_eq_Inr split: prod.splits if_splits)
  have "good_machine good dm3" "keeps w w3" using s ping_found_keeps [OF _ g2] g2 keeps_refl by auto
  then show ?thesis using e ping_failed_keeps good_clear keeps_trans by blast
qed

lemma feed_keeps:
  assumes "switch_ivr_dmachine_feed env now later dm ds w = Inr (r, dm', w')" and "good_machine good dm"
  shows "good_machine good dm' \<and> keeps w w'"
proof (cases "length ds + length (dm_digits dm) > unat (dm_max_digit_len dm)")
  case True
  with assms keeps_refl show ?thesis by (simp add: switch_ivr_dmachine_feed_def)
next
  case False
  with assms(1) obtain new where "switch_ivr_dmachine_ping env later
      (dm\<lparr>dm_digits := new, dm_cur_digit_len := of_nat (length new), dm_last_digit_time := now\<rparr>) w = Inr (r, dm', w')"
    by (auto simp: switch_ivr_dmachine_feed_def bindE_eq_Inr)
  from ping_keeps [OF this] show ?thesis using assms(2) unfolding good_machine_def by simp
qed

end

section \<open>Membership\<close>

definition good_key :: "key_binding \<Rightarrow> bool" where
  "good_key b \<longleftrightarrow> (\<exists>n. (n, kb_handler b) \<in> set control_mappings)"

interpretation confkeys: dm_keeper "conf_dm_env env regex" good_key "\<lambda>w w'. conf_kept w' = conf_kept w" for env regex
  by unfold_locales
    (auto simp: conf_dm_env_def bindE_eq_Inr good_key_def dest!: dispatcher_keeps split: option.splits)

lemma good_new_machine: "good_machine good_key (switch_ivr_dmachine_create ms ims None None None)"
  by (simp add: switch_ivr_dmachine_create_def good_machine_def)

lemma good_set_realm: "good_machine good dm \<Longrightarrow> good_machine good (snd (switch_ivr_dmachine_set_realm dm r))"
  by (auto simp: switch_ivr_dmachine_set_realm_def good_machine_def split: option.split)

lemma good_realm_head:
  assumes "good_machine good dm" and "realm_head dm r = (h, dm1)"
  shows "good_machine good dm1" "h < length (dm_heads dm1)"
  using assms by (auto simp: realm_head_def good_machine_def Let_def less_Suc_eq split: option.splits if_splits)

lemma good_add:
  assumes "good_machine good dm" and "good_binding good b" and "h < length (dm_heads dm)"
  shows "good_machine good (dm\<lparr>dm_heads := (dm_heads dm)[h := dm_heads dm ! h @ [b]]\<rparr>)"
proof -
  have "\<forall>b\<in>set (dm_heads dm ! h). good_binding good b"
    using assms(1) nth_mem [OF assms(3)] by (simp add: good_machine_def)
  then have "\<forall>bs\<in>set ((dm_heads dm)[h := dm_heads dm ! h @ [b]]). \<forall>b\<in>set bs. good_binding good b"
    using assms(1,2) by (auto simp: good_machine_def dest!: set_update_subset_insert [THEN subsetD])
  with assms(1) show ?thesis by (simp add: good_machine_def)
qed

lemma good_do_binding:
  assumes "good_machine good_key dm" and "(n, h) \<in> set control_mappings"
  shows "good_machine good_key (do_binding p h ds data dm)"
proof (cases "length ds > DMACHINE_MAX_DIGIT_LEN - 1")
  case True
  then show ?thesis using assms(1) by (simp add: do_binding_def switch_ivr_dmachine_bind_def)
next
  case False
  let ?rx = "ds \<noteq> [] \<and> hd ds = CHR ''~''"
  let ?b = "\<lparr>bd_digits = (if ?rx then tl ds else ds), bd_key = 0, bd_callback = Some 0, bd_is_regex = ?rx,
    bd_user_data = Some \<lparr>kb_member = p, kb_binded_dtmf = ds, kb_data = data, kb_handler = h\<rparr>\<rparr>"
  obtain k dm1 where rh: "realm_head dm ''conf'' = (k, dm1)" by fastforce
  have "good_binding good_key ?b" using assms(2) by (auto simp: good_binding_def good_key_def)
  note g = good_add [OF good_realm_head(1) [OF assms(1) rh] this good_realm_head(2) [OF assms(1) rh]]
  from g good_set_realm [OF g, of "''conf''"] False show ?thesis
    by (auto simp: do_binding_def switch_ivr_dmachine_bind_def rh Let_def good_machine_def)
qed

lemma good_bind_controls:
  assumes "good_machine good_key dm"
  shows "good_machine good_key (member_bind_controls p xs dm)"
proof -
  have m: "good_machine good_key (fold (\<lambda>(n, h) d. if P n then do_binding p h ds data d else d) ms d)"
    if "good_machine good_key d" "set ms \<subseteq> set control_mappings" for P ds data ms d
    using that
  proof (induction ms arbitrary: d)
    case (Cons m ms)
    obtain n h where "m = (n, h)" by fastforce
    with Cons show ?case using good_do_binding [of d n h p ds data] by simp
  qed simp
  have "good_machine good_key (bind_control p x d)" if "good_machine good_key d" for x d
    using m [OF that subset_refl] that by (simp add: bind_control_def)
  then have "good_machine good_key (fold (bind_control p) ys d)" if "good_machine good_key d" for ys d
    using that by (induction ys arbitrary: d) simp_all
  with assms show ?thesis by (simp add: member_bind_controls_def split: option.split)
qed

lemma kept_send_all_dtmf [simp]: "conf_kept (conference_send_all_dtmf w p ds) = conf_kept w"
proof -
  have "conf_kept (send_all_dtmf_loop own ps ds w) = conf_kept w" for own ps
    by (induction ps arbitrary: w) (simp_all add: kept_fold)
  then show ?thesis by (simp add: conference_send_all_dtmf_def)
qed

definition keyed :: "output_env \<Rightarrow> bool" where
  "keyed oe \<longleftrightarrow> (\<exists>env regex. o_dm_env oe = conf_dm_env env regex)"

lemma output_keys_keeps:
  assumes "output_keys oe i p dm w = Inr (dm', w')" and "keyed oe" and "good_machine good_key dm"
  shows "good_machine good_key dm' \<and> conf_kept w' = conf_kept w"
proof -
  from assms(2) obtain env regex where e: "o_dm_env oe = conf_dm_env env regex" by (auto simp: keyed_def)
  have s: "conf_kept (set_member_channel p ch' w) = conf_kept w" if "member_channel w p = Inr ch" for ch ch'
    using that by (intro kept_set_channel) (auto simp: member_channel_def split: option.splits)
  from assms(1,3) show ?thesis
    by (auto simp: output_keys_def bindE_eq_Inr Let_def e s split: if_splits
        dest!: confkeys.feed_keeps confkeys.ping_keeps)
qed

lemma add_file_data_keeps: "member_add_file_data p file data w = Inr (d, w') \<Longrightarrow> conf_kept w' = conf_kept w"
  by (auto simp: member_add_file_data_def file_member_done_def bindE_eq_Inr kept_upd_mem split: list.splits if_splits)

lemma send_frame_keeps [simp]: "conf_kept (snd (send_frame i p d w)) = conf_kept w"
  by (simp add: send_frame_def Let_def)

lemma output_mixed_keeps: "output_mixed oe i p w = Inr (go, w') \<Longrightarrow> conf_kept w' = conf_kept w"
proof -
  assume "output_mixed oe i p w = Inr (go, w')"
  then obtain b data d w2 where "w' = upd_mem p (\<lambda>m. m\<lparr>m_mux_buffer := b\<rparr>) w \<or>
      member_add_file_data p (o_file i) data (upd_mem p (\<lambda>m. m\<lparr>m_mux_buffer := b\<rparr>) w) = Inr (d, w2) \<and>
      w' = snd (send_frame i p d w2)"
    unfolding output_mixed_def bindE_eq_Inr Let_def
    by (auto simp: bindE_eq_Inr split: if_splits) (metis snd_conv)+
  then show ?thesis using add_file_data_keeps by (auto simp: kept_upd_mem)
qed

lemma output_audio_keeps: "output_audio oe i p low w = Inr (go, low', w') \<Longrightarrow> conf_kept w' = conf_kept w"
  by (auto simp: output_audio_def Let_def bindE_eq_Inr split: if_splits dest!: output_mixed_keeps add_file_data_keeps)

lemma check_delay_keeps [simp]: "conf_kept (snd (check_delay oe p low w)) = conf_kept w"
  by (simp add: check_delay_def Let_def)

lemma flush_mux_keeps: "flush_mux p w = Inr w' \<Longrightarrow> conf_kept w' = conf_kept w"
  by (auto simp: flush_mux_def bindE_eq_Inr kept_upd_mem split: if_splits)

lemma deliver_keeps:
  assumes "deliver oe i p low w = Inr (go, low', w')"
  shows "conf_kept w' = conf_kept w"
proof -
  obtain low1 w1 where c: "check_delay oe p low w = (low1, w1)" by fastforce
  then have "conf_kept w1 = conf_kept w" using check_delay_keeps [of oe p low w] by simp
  with assms c show ?thesis
    by (auto simp: deliver_def bindE_eq_Inr split: if_splits dest!: output_audio_keeps flush_mux_keeps)
qed

lemma unstable_indications [simp]: "\<not> stable MFLAG_INDICATE_MUTE_DETECT" "\<not> stable MFLAG_ITHREAD"
  by (simp_all add: stable_def)

lemma indicate_keeps:
  assumes "indicate env f sound words p w = Inr w'" and "\<not> stable f"
  shows "conf_kept w' = conf_kept w"
  using assms by (auto simp: indicate_def bindE_eq_Inr split: if_splits dest!: kept_play)

lemma indications_keep: "indications env p w = Inr w' \<Longrightarrow> conf_kept w' = conf_kept w"
  by (auto simp: indications_def bindE_eq_Inr dest!: indicate_keeps)

lemma private_events_keep: "private_events i p w = Inr w' \<Longrightarrow> conf_kept w' = conf_kept w"
  by (auto simp: private_events_def bindE_eq_Inr split: if_splits dest!: tag_app_keeps)

lemma output_start_keeps [simp]: "conf_kept (output_answer p ch (output_message i w)) = conf_kept w"
  by (simp add: output_answer_def output_message_def Let_def split: option.split prod.split)

lemma output_turn_keeps:
  assumes "output_turn oe p i v w = Inr (go, v', w')" and "keyed oe" and "good_machine good_key (machine v)"
  shows "good_machine good_key (machine v') \<and> conf_kept w' = conf_kept w"
  using assms(1) output_keys_keeps [OF _ assms(2,3)]
  by (fastforce simp: output_turn_def bindE_eq_Inr Let_def split: if_splits
      dest!: deliver_keeps indications_keep private_events_keep)

lemma output_end_keeps: "output_end p w = Inr w' \<Longrightarrow> conf_kept w' = conf_kept w"
  by (auto simp: output_end_def bindE_eq_Inr Let_def kept_upd_conf)

section \<open>What a caller hears\<close>

lemma toss_content:
  assumes "buf_inv b"
  shows "buf_inv (fst (switch_buffer_toss b n)) \<and> buf_content (fst (switch_buffer_toss b n)) = drop n (buf_content b) \<and>
    (buf_data (fst (switch_buffer_toss b n)) = None \<longleftrightarrow> buf_data b = None)"
  using toss_effect [OF assms, of n] by (auto simp: same_config_def)

lemma volume_samples:
  assumes "length d = n"
  shows "\<exists>d'. switch_change_sln_volume d n l = Inr d' \<and> length d' = n"
  using change_volume_ok(1) [of n d l] assms by auto

lemma flush_effect:
  assumes "buf_inv (m_mux_buffer (mem w p))" and "buf_data (m_mux_buffer (mem w p)) \<noteq> None"
  shows "\<exists>w'. flush_mux p w = Inr w' \<and> buf_inv (m_mux_buffer (mem w' p)) \<and> out w' = out w \<and> \<not> mflag w' p MFLAG_FLUSH_BUFFER \<and>
    buf_content (m_mux_buffer (mem w' p)) = (if mflag w p MFLAG_FLUSH_BUFFER then [] else buf_content (m_mux_buffer (mem w p))) \<and>
    (\<forall>q. q \<noteq> p \<longrightarrow> mem w' q = mem w q)"
proof (cases "mflag w p MFLAG_FLUSH_BUFFER \<and> switch_buffer_inuse (m_mux_buffer (mem w p)) \<noteq> 0")
  case True
  from zero_effect [OF assms] obtain b where "switch_buffer_zero (m_mux_buffer (mem w p)) = Inr b" "buf_inv b" "buf_content b = []"
    by blast
  with True show ?thesis by (auto simp: flush_mux_def clear_mflag_def)
next
  case False
  have "buf_content (m_mux_buffer (mem w p)) = []" if "switch_buffer_inuse (m_mux_buffer (mem w p)) = 0"
    using that length_content [OF assms(1)] by (simp add: switch_buffer_inuse_def)
  with False assms show ?thesis by (auto simp: flush_mux_def clear_mflag_def)
qed

lemma output_mixed_effect:
  assumes "buf_inv (m_mux_buffer (mem w p))" and "m_fnode (mem w p) = []" and "0 < o_samples oe"
    and "2 * o_samples oe \<le> SWITCH_RECOMMENDED_BUFFER_SIZE" and "o_write_ok i"
    and "2 * o_samples oe \<le> length (buf_content (m_mux_buffer (mem w p)))"
  shows "\<exists>d. (if mflag w p MFLAG_CAN_HEAR
      then switch_change_sln_volume (samples_of (take (2 * o_samples oe) (buf_content (m_mux_buffer (mem w p)))))
             (o_samples oe) (m_volume_out_level (mem w p)) = Inr d
      else d = replicate (o_samples oe) (- 1)) \<and>
    output_mixed oe i p w = Inr (True, emit (Write_frame p d)
      (upd_mem p (\<lambda>m. m\<lparr>m_mux_buffer := fst (switch_buffer_toss (m_mux_buffer m) (2 * o_samples oe))\<rparr>) w))"
proof -
  let ?u = "buf_content (m_mux_buffer (mem w p))" and ?n = "o_samples oe"
  have len: "length (take (2 * ?n) ?u) = 2 * ?n" using assms(6) by simp
  then have ne: "take (2 * ?n) ?u \<noteq> []" using assms(3) by force
  obtain d' where d': "switch_change_sln_volume (samples_of (take (2 * ?n) ?u)) ?n (m_volume_out_level (mem w p)) = Inr d'"
    using volume_samples [of "samples_of (take (2 * ?n) ?u)" ?n] len by auto
  have w: "upd_mem p (\<lambda>m. m\<lparr>m_mux_buffer := fst (switch_buffer_toss (m_mux_buffer m) (2 * ?n))\<rparr>) w =
      upd_mem p (\<lambda>m. m\<lparr>m_mux_buffer := fst (switch_buffer_toss (m_mux_buffer (mem w p)) (2 * ?n))\<rparr>) w"
    by (simp add: upd_mem_def)
  show ?thesis unfolding w
    using d' ne len assms(2,4,5) read_effect [OF assms(1), of "2 * ?n"]
    by (auto simp: output_mixed_def Let_def member_add_file_data_def send_frame_def)
qed

text \<open>Looking at the delay only sets the flag of the flush.\<close>

lemma check_delay_effect:
  assumes "buf_inv (m_mux_buffer (mem w p))"
  defines "u \<equiv> buf_content (m_mux_buffer (mem w p))"
  obtains low1 w1 where "check_delay oe p low w = (low1, w1)" "conf w1 = conf w" "out w1 = out w"
    "m_mux_buffer (mem w1 p) = m_mux_buffer (mem w p)" "m_fnode (mem w1 p) = m_fnode (mem w p)"
    "m_volume_out_level (mem w1 p) = m_volume_out_level (mem w p)"
    "\<And>f. f \<noteq> MFLAG_FLUSH_BUFFER \<Longrightarrow> mflag w1 p f = mflag w p f" "\<And>q. q \<noteq> p \<Longrightarrow> mem w1 q = mem w q"
    "mflag w1 p MFLAG_FLUSH_BUFFER \<longleftrightarrow> mflag w p MFLAG_FLUSH_BUFFER \<or>
       u \<noteq> [] \<and> (if 2 * o_samples oe \<le> length u then length u > o_flush_len oe else low + 1 \<ge> 5)"
    "low1 = (if u \<noteq> [] \<and> length u < 2 * o_samples oe then low + 1 else low)"
proof -
  have used: "switch_buffer_inuse (m_mux_buffer (mem w p)) = length u"
    using length_content [OF assms(1)] by (simp add: switch_buffer_inuse_def u_def)
  obtain low1 w1 where c: "check_delay oe p low w = (low1, w1)" by fastforce
  define fl where "fl \<longleftrightarrow> u \<noteq> [] \<and> (if 2 * o_samples oe \<le> length u then length u > o_flush_len oe else low + 1 \<ge> 5)"
  have w1: "w1 = (if fl then set_mflag p MFLAG_FLUSH_BUFFER w else w)"
    using c used by (auto simp: check_delay_def fl_def Let_def split: if_splits)
  have low1: "low1 = (if u \<noteq> [] \<and> length u < 2 * o_samples oe then low + 1 else low)"
    using c used by (auto simp: check_delay_def Let_def split: if_splits)
  from c show ?thesis by (rule that) (auto simp: w1 low1 set_mflag_def fl_def [symmetric])
qed

lemma deliver_packet:
  assumes "buf_inv (m_mux_buffer (mem w p))" and "buf_data (m_mux_buffer (mem w p)) \<noteq> None" and "m_fnode (mem w p) = []"
    and "0 < o_samples oe" and "2 * o_samples oe \<le> SWITCH_RECOMMENDED_BUFFER_SIZE" and "o_write_ok i"
  defines "u \<equiv> buf_content (m_mux_buffer (mem w p))" and "n \<equiv> o_samples oe"
  assumes "2 * n \<le> length u"
  shows "\<exists>w' d. deliver oe i p low w = Inr (True, 0, w') \<and> buf_inv (m_mux_buffer (mem w' p)) \<and>
    (if mflag w p MFLAG_CAN_HEAR
     then switch_change_sln_volume (samples_of (take (2 * n) u)) n (m_volume_out_level (mem w p)) = Inr d
     else d = replicate n (- 1)) \<and>
    out w' = out w @ [Write_frame p d] \<and>
    buf_content (m_mux_buffer (mem w' p)) =
      (if mflag w p MFLAG_FLUSH_BUFFER \<or> length u > o_flush_len oe then [] else drop (2 * n) u) \<and>
    (\<forall>q. q \<noteq> p \<longrightarrow> mem w' q = mem w q)"
proof -
  from check_delay_effect [OF assms(1), of oe low, folded u_def n_def] obtain low1 w1
    where c: "check_delay oe p low w = (low1, w1)" "conf w1 = conf w" and o1: "out w1 = out w"
      and m1: "m_mux_buffer (mem w1 p) = m_mux_buffer (mem w p)" "m_fnode (mem w1 p) = m_fnode (mem w p)"
        "m_volume_out_level (mem w1 p) = m_volume_out_level (mem w p)"
        "\<And>f. f \<noteq> MFLAG_FLUSH_BUFFER \<Longrightarrow> mflag w1 p f = mflag w p f" "\<And>q. q \<noteq> p \<Longrightarrow> mem w1 q = mem w q"
      and fl: "mflag w1 p MFLAG_FLUSH_BUFFER \<longleftrightarrow> mflag w p MFLAG_FLUSH_BUFFER \<or>
        u \<noteq> [] \<and> (if 2 * n \<le> length u then length u > o_flush_len oe else low + 1 \<ge> 5)"
      and "low1 = (if u \<noteq> [] \<and> length u < 2 * n then low + 1 else low)"
    by blast
  have used: "switch_buffer_inuse (m_mux_buffer (mem w p)) = length u"
    using length_content [OF assms(1)] by (simp add: switch_buffer_inuse_def u_def)
  have le: "2 * o_samples oe \<le> length (buf_content (m_mux_buffer (mem w1 p)))" using assms(9) by (simp add: m1 u_def n_def)
  have inv1: "buf_inv (m_mux_buffer (mem w1 p))" "m_fnode (mem w1 p) = []" using assms(1,3) by (simp_all add: m1)
  let ?w2 = "\<lambda>d. emit (Write_frame p d) (upd_mem p (\<lambda>m. m\<lparr>m_mux_buffer := fst (switch_buffer_toss (m_mux_buffer m) (2 * n))\<rparr>) w1)"
  obtain d where d: "if mflag w p MFLAG_CAN_HEAR
      then switch_change_sln_volume (samples_of (take (2 * n) u)) n (m_volume_out_level (mem w p)) = Inr d
      else d = replicate n (- 1)"
    and om: "output_mixed oe i p w1 = Inr (True, ?w2 d)"
    using output_mixed_effect [OF inv1 assms(4-6) le, unfolded m1(1,3), folded u_def n_def] by (auto simp: m1(4))
  have t: "buf_inv (m_mux_buffer (mem (?w2 d) p))" "buf_data (m_mux_buffer (mem (?w2 d) p)) \<noteq> None"
    "buf_content (m_mux_buffer (mem (?w2 d) p)) = drop (2 * n) u"
    using toss_content [OF assms(1), of "2 * n"] assms(2) by (simp_all add: emit_def m1 u_def)
  obtain w3 where f: "flush_mux p (?w2 d) = Inr w3" "buf_inv (m_mux_buffer (mem w3 p))" "out w3 = out (?w2 d)"
    "buf_content (m_mux_buffer (mem w3 p)) = (if mflag (?w2 d) p MFLAG_FLUSH_BUFFER then [] else drop (2 * n) u)"
    "\<forall>q. q \<noteq> p \<longrightarrow> mem w3 q = mem (?w2 d) q"
    using flush_effect [OF t(1,2)] t(3) by auto
  have "deliver oe i p low w = Inr (True, 0, w3)"
    using om f(1) assms(9) used by (simp add: deliver_def c output_audio_def m1 n_def)
  moreover have "u \<noteq> []" using assms(4,9) by (auto simp: n_def)
  ultimately show ?thesis
    using assms(9) d f fl by (intro exI [of _ w3] exI [of _ d]) (auto simp: emit_def m1 o1)
qed

lemma deliver_short:
  assumes "buf_inv (m_mux_buffer (mem w p))" and "buf_data (m_mux_buffer (mem w p)) \<noteq> None" and "m_fnode (mem w p) = []"
    and "0 < o_samples oe" and "2 * o_samples oe \<le> SWITCH_RECOMMENDED_BUFFER_SIZE" and "o_write_ok i"
    and "c_comfort_noise_level (conf w) = 0"
  defines "u \<equiv> buf_content (m_mux_buffer (mem w p))" and "n \<equiv> o_samples oe"
  assumes "\<not> 2 * n \<le> length u"
  shows "\<exists>w'. deliver oe i p low w = Inr (True, if u = [] then low else low + 1, w') \<and> buf_inv (m_mux_buffer (mem w' p)) \<and>
    out w' = out w @ (if \<not> cflag w CFLAG_WASTE_BANDWIDTH \<and> mflag w p MFLAG_WASTE_BANDWIDTH
                      then [Write_frame p (replicate n (- 1))] else []) \<and>
    buf_content (m_mux_buffer (mem w' p)) = (if mflag w p MFLAG_FLUSH_BUFFER \<or> u \<noteq> [] \<and> low + 1 \<ge> 5 then [] else u) \<and>
    (\<forall>q. q \<noteq> p \<longrightarrow> mem w' q = mem w q)"
proof -
  from check_delay_effect [OF assms(1), of oe low, folded u_def n_def] obtain low1 w1
    where c: "check_delay oe p low w = (low1, w1)" "conf w1 = conf w" and o1: "out w1 = out w"
      and m1: "m_mux_buffer (mem w1 p) = m_mux_buffer (mem w p)" "m_fnode (mem w1 p) = m_fnode (mem w p)"
        "m_volume_out_level (mem w1 p) = m_volume_out_level (mem w p)"
        "\<And>f. f \<noteq> MFLAG_FLUSH_BUFFER \<Longrightarrow> mflag w1 p f = mflag w p f" "\<And>q. q \<noteq> p \<Longrightarrow> mem w1 q = mem w q"
      and fl: "mflag w1 p MFLAG_FLUSH_BUFFER \<longleftrightarrow> mflag w p MFLAG_FLUSH_BUFFER \<or>
        u \<noteq> [] \<and> (if 2 * n \<le> length u then length u > o_flush_len oe else low + 1 \<ge> 5)"
      and low1: "low1 = (if u \<noteq> [] \<and> length u < 2 * n then low + 1 else low)"
    by blast
  have used: "switch_buffer_inuse (m_mux_buffer (mem w p)) = length u"
    using length_content [OF assms(1)] by (simp add: switch_buffer_inuse_def u_def)
  let ?frame = "if \<not> cflag w CFLAG_WASTE_BANDWIDTH \<and> mflag w p MFLAG_WASTE_BANDWIDTH
    then emit (Write_frame p (replicate n (- 1))) w1 else w1"
  have t: "buf_inv (m_mux_buffer (mem ?frame p))" "buf_data (m_mux_buffer (mem ?frame p)) \<noteq> None"
    using assms(1,2) by (simp_all add: emit_def m1)
  obtain w3 where f: "flush_mux p ?frame = Inr w3" "buf_inv (m_mux_buffer (mem w3 p))" "out w3 = out ?frame"
    "buf_content (m_mux_buffer (mem w3 p)) = (if mflag ?frame p MFLAG_FLUSH_BUFFER then [] else u)"
    "\<forall>q. q \<noteq> p \<longrightarrow> mem w3 q = mem ?frame q"
    using flush_effect [OF t] by (auto simp: emit_def m1 u_def)
  have "output_audio oe i p low1 w1 = Inr (True, low1, ?frame)"
    using assms(3,5-7,10) used
    by (simp add: output_audio_def m1 n_def c(2) silence_def blank_frame_def send_frame_def Let_def)
  then have "deliver oe i p low w = Inr (True, if u = [] then low else low + 1, w3)"
    using f(1) assms(10) by (simp add: deliver_def c low1)
  then show ?thesis
    using assms(10) f fl by (intro exI [of _ w3]) (auto simp: emit_def m1 o1)
qed

text \<open>
  C5. A turn of the output loop for a caller without a file of its own, in a conference without
  comfort noise, whose frames can be written: when a packet or more of mixed audio waits, exactly
  one frame is written, the oldest packet with the caller's volume applied, or silence for a
  caller that is deaf; the rest of the audio stays in order, or is dropped at once when more than
  \<open>flush_len\<close> bytes waited or a flush was asked for, and \<open>low_count\<close> starts again from 0.  A rest
  shorter than a packet adds one to \<open>low_count\<close> (modulo \<open>2 ^ 32\<close>) and stays while the counter is
  below 5: it is dropped in the fifth such turn since the last packet.  So the delay is bounded:
  after the turn less than a packet waits, or no more than \<open>flush_len\<close> without the packet written.
\<close>

theorem output_delivers:
  assumes "buf_inv (m_mux_buffer (mem w p))" and "buf_data (m_mux_buffer (mem w p)) \<noteq> None" and "m_fnode (mem w p) = []"
    and "0 < o_samples oe" and "2 * o_samples oe \<le> SWITCH_RECOMMENDED_BUFFER_SIZE" and "o_write_ok i"
    and "c_comfort_noise_level (conf w) = 0"
  defines "u \<equiv> buf_content (m_mux_buffer (mem w p))" and "n \<equiv> o_samples oe"
  shows "\<exists>w'. deliver oe i p low w =
      Inr (True, if 2 * n \<le> length u then 0 else if u = [] then low else low + 1, w') \<and>
    buf_inv (m_mux_buffer (mem w' p)) \<and>
    (let left = buf_content (m_mux_buffer (mem w' p)) in
     (if 2 * n \<le> length u
      then (\<exists>d. (if mflag w p MFLAG_CAN_HEAR
                 then switch_change_sln_volume (samples_of (take (2 * n) u)) n (m_volume_out_level (mem w p)) = Inr d
                 else d = replicate n (- 1)) \<and> out w' = out w @ [Write_frame p d]) \<and>
           left = (if mflag w p MFLAG_FLUSH_BUFFER \<or> length u > o_flush_len oe then [] else drop (2 * n) u)
      else out w' = out w @ (if \<not> cflag w CFLAG_WASTE_BANDWIDTH \<and> mflag w p MFLAG_WASTE_BANDWIDTH
                             then [Write_frame p (replicate n (- 1))] else []) \<and>
           left = (if mflag w p MFLAG_FLUSH_BUFFER \<or> u \<noteq> [] \<and> low + 1 \<ge> 5 then [] else u)) \<and>
     length left \<le> max (2 * n - 1) (o_flush_len oe - 2 * n)) \<and>
    (\<forall>q. q \<noteq> p \<longrightarrow> mem w' q = mem w q)"
proof (cases "2 * n \<le> length u")
  case True
  from deliver_packet [OF assms(1-6), folded u_def n_def, OF True] obtain w' d
    where "deliver oe i p low w = Inr (True, 0, w')" "buf_inv (m_mux_buffer (mem w' p))"
      "if mflag w p MFLAG_CAN_HEAR
       then switch_change_sln_volume (samples_of (take (2 * n) u)) n (m_volume_out_level (mem w p)) = Inr d
       else d = replicate n (- 1)"
      "out w' = out w @ [Write_frame p d]" "\<forall>q. q \<noteq> p \<longrightarrow> mem w' q = mem w q"
      "buf_content (m_mux_buffer (mem w' p)) =
        (if mflag w p MFLAG_FLUSH_BUFFER \<or> length u > o_flush_len oe then [] else drop (2 * n) u)"
    by blast
  with True show ?thesis by (intro exI [of _ w']) (auto simp: Let_def)
next
  case False
  from deliver_short [OF assms(1-7), folded u_def n_def, OF False] obtain w'
    where "deliver oe i p low w = Inr (True, if u = [] then low else low + 1, w')" "buf_inv (m_mux_buffer (mem w' p))"
      "out w' = out w @ (if \<not> cflag w CFLAG_WASTE_BANDWIDTH \<and> mflag w p MFLAG_WASTE_BANDWIDTH
         then [Write_frame p (replicate n (- 1))] else [])" "\<forall>q. q \<noteq> p \<longrightarrow> mem w' q = mem w q"
      "buf_content (m_mux_buffer (mem w' p)) = (if mflag w p MFLAG_FLUSH_BUFFER \<or> u \<noteq> [] \<and> low + 1 \<ge> 5 then [] else u)"
    by blast
  with False show ?thesis by (intro exI [of _ w']) (auto simp: Let_def)
qed

section \<open>Keys pressed within one turn\<close>

text \<open>
  C37. All the keys that wait when a turn begins are given to the digit machine at once.  When they
  are more than its longest code can still take, none of them counts: no control is run, the
  machine does not change, and the keys are gone.  With codes of one key each this happens to any
  two keys that arrive within a turn.
\<close>

theorem keys_typed_together_lost:
  assumes "m_session (mem w p) = Some ch" and "dtmf_queue ch \<noteq> []" and "\<not> mflag w p MFLAG_DIST_DTMF"
    and "m_dmachine (mem w p)"
    and "unat (dm_max_digit_len dm) < length (dm_digits dm) + min 127 (length (dtmf_queue ch))"
  shows "\<exists>ch'. output_keys oe i p dm w = Inr (dm, set_member_channel p ch' w) \<and>
    dtmf_queue ch' = drop 127 (dtmf_queue ch)"
proof -
  obtain s ch' where d: "dequeue_string_loop (o_limits oe) ch 127 = (s, ch')" by fastforce
  with dequeue_loop_takes [of "o_limits oe" ch 127]
  have s: "s = map digit (take 127 (dtmf_queue ch))" "dtmf_queue ch' = drop 127 (dtmf_queue ch)" by simp_all
  have "unat (dm_max_digit_len dm) < length s + length (dm_digits dm)" using assms(5) by (simp add: s(1) min.commute)
  then have "switch_ivr_dmachine_feed (o_dm_env oe) now later dm s w' = Inr (SWITCH_STATUS_FALSE, dm, w')" for now later w'
    by (simp add: switch_ivr_dmachine_feed_def)
  then have "output_keys oe i p dm w = Inr (dm, set_member_channel p ch' w)"
    using assms(1-4) d
    by (simp add: output_keys_def member_channel_def switch_channel_has_dtmf_def switch_channel_dequeue_dtmf_string_def
        set_member_channel_def Let_def)
  with s(2) show ?thesis by blast
qed

section \<open>Packets of the usual sizes\<close>

text \<open>The float division gives the exact number of samples for the rates and intervals in use.\<close>

lemma samples_per_packet_table:
  "list_all (\<lambda>r. list_all (\<lambda>n. switch_samples_per_packet r n = r * n div 1000) [10, 20, 30, 40, 60, 80, 120])
     [8000, 11025, 16000, 22050, 32000, 44100, 48000]"
  by code_simp

section \<open>An example\<close>

definition quiet_turn :: turn_input where
  "quiet_turn = \<lparr>o_now = 0, o_later = 0, o_message = None, o_file = [], o_write_ok = True, o_private_events = False,
     o_seed = 0, o_stale = []\<rparr>"

definition plain_output :: output_env where
  "plain_output = \<lparr>o_env = plain_env, o_session = i_session voice_env, o_limits = default_limits,
     o_dm_env = conf_dm_env plain_env (\<lambda>_ _. False), o_samples = 1, o_flush_len = 10\<rparr>"

definition full_buffer :: switch_buffer where
  "full_buffer = plain_buffer\<lparr>buf_data := Some [1, 0, 2, 0, 3, 0], buf_datalen := 6, buf_used := 6, buf_actually_used := 6\<rparr>"

definition listening :: conf_world where
  "listening = upd_mem 2 (\<lambda>m. m\<lparr>m_mux_buffer := full_buffer\<rparr>) (voice_world speaker)"

theorem output_delivers_witness:
  "\<exists>w'. deliver plain_output quiet_turn 2 3 listening = Inr (True, 0, w') \<and> out w' = [Write_frame 2 [1]] \<and>
    buf_content (m_mux_buffer (mem w' 2)) = [2, 0, 3, 0]"
proof -
  have f: "buf_inv full_buffer" "buf_data full_buffer \<noteq> None" "buf_content full_buffer = [1, 0, 2, 0, 3, 0]"
    by (simp_all add: full_buffer_def plain_buffer_def buf_inv_def buf_content_def)
  have l: "m_mux_buffer (mem listening 2) = full_buffer" "m_fnode (mem listening 2) = []" "out listening = []"
    "c_comfort_noise_level (conf listening) = 0" "m_flags (mem listening 2) = speaker" "m_volume_out_level (mem listening 2) = 0"
    by (simp_all add: listening_def voice_world_def caller_def plain_conf_def)
  have s: "sample_of_bytes 1 0 = 1" by (simp add: sample_of_bytes_def)
  have "0 < o_samples plain_output" "2 * o_samples plain_output \<le> SWITCH_RECOMMENDED_BUFFER_SIZE" "o_write_ok quiet_turn"
    by (simp_all add: plain_output_def quiet_turn_def SWITCH_RECOMMENDED_BUFFER_SIZE_def)
  with output_delivers [of listening 2 plain_output quiet_turn 3] f l show ?thesis
    by (auto simp: plain_output_def switch_change_sln_volume_def s Let_def)
qed

theorem keys_typed_together_lost_witness:
  "\<exists>ch' dm. unat (dm_max_digit_len dm) = 1 \<and>
    output_keys plain_output quiet_turn 2 dm
      (upd_mem 2 (\<lambda>m. m\<lparr>m_dmachine := True, m_session := Some (blank_channel\<lparr>dtmf_queue := [key CHR ''1'', key CHR ''2'']\<rparr>)\<rparr>)
         (voice_world speaker)) =
      Inr (dm, set_member_channel 2 ch'
        (upd_mem 2 (\<lambda>m. m\<lparr>m_dmachine := True, m_session := Some (blank_channel\<lparr>dtmf_queue := [key CHR ''1'', key CHR ''2'']\<rparr>)\<rparr>)
           (voice_world speaker))) \<and> dtmf_queue ch' = []"
proof -
  let ?ch = "blank_channel\<lparr>dtmf_queue := [key CHR ''1'', key CHR ''2'']\<rparr>"
  let ?w = "upd_mem 2 (\<lambda>m. m\<lparr>m_dmachine := True, m_session := Some ?ch\<rparr>) (voice_world speaker)"
  let ?dm = "(switch_ivr_dmachine_create 0 0 None None None :: key_binding switch_ivr_dmachine)\<lparr>dm_max_digit_len := 1\<rparr>"
  have "m_session (mem ?w 2) = Some ?ch" "dtmf_queue ?ch \<noteq> []" "\<not> mflag ?w 2 MFLAG_DIST_DTMF" "m_dmachine (mem ?w 2)"
    "unat (dm_max_digit_len ?dm) < length (dm_digits ?dm) + min 127 (length (dtmf_queue ?ch))"
    by (simp_all add: voice_world_facts switch_ivr_dmachine_create_def)
  from keys_typed_together_lost [OF this, of plain_output quiet_turn] obtain ch' where
    k: "output_keys plain_output quiet_turn 2 ?dm ?w = Inr (?dm, set_member_channel 2 ch' ?w)" "dtmf_queue ch' = drop 127 (dtmf_queue ?ch)"
    by blast
  show ?thesis by (rule exI [of _ ch'], rule exI [of _ ?dm]) (use k in simp)
qed

end
