(* ===== verification/Conference_System.thy ===== *)
theory Conference_System
  imports Conference_Output
begin

text \<open>
  The conference as a whole: whoever joins, leaves, types or gives commands, the input and output
  threads of the members and the mixing thread, in any order.  Each step is one operation that
  holds the locks it needs.
\<close>

section \<open>What mixing keeps\<close>

lemma unstable_audio [simp]: "\<not> stable MFLAG_HAS_AUDIO"
  by (simp add: stable_def)

lemma read_member_keeps: "read_member env p (w, r) = Inr (w', r') \<Longrightarrow> conf_kept w' = conf_kept w"
  by (auto simp: read_member_def Let_def bindE_eq_Inr kept_upd_mem split: if_splits)

lemma read_members_keep: "read_members env ps (w, r) = Inr (w', r') \<Longrightarrow> conf_kept w' = conf_kept w"
  by (induction ps arbitrary: w r) (auto simp: bindE_eq_Inr dest!: read_member_keeps)

lemma idle_music_keeps: "idle_music env n w = Inr w' \<Longrightarrow> conf_kept w' = conf_kept w"
  by (auto simp: idle_music_def Let_def split: if_splits dest!: kept_play)

lemma turn_silence_keeps [simp]: "conf_kept (check_silence env w) = conf_kept w"
  by (simp add: check_silence_def)

lemma auto_record_keeps: "auto_record_step env w = Inr w' \<Longrightarrow> conf_kept w' = conf_kept w"
  by (auto simp: auto_record_step_def Let_def bindE_eq_Inr kept_upd_conf split: option.splits if_splits list.splits)

lemma turn_video_keeps [simp]: "conf_kept (video_step n b w) = conf_kept w"
  by (simp add: video_step_def split: option.split prod.split)

lemma play_file_done_keeps [simp]: "conf_kept (play_file_done n w) = conf_kept w"
  by (simp add: play_file_done_def)

lemma conf_file_keeps: "conf_file_step env s = Inr (s', i) \<Longrightarrow> conf_kept (x_world s') = conf_kept (x_world s)"
  by (auto simp: conf_file_step_def Let_def bindE_eq_Inr kept_upd_conf split: list.splits if_splits)

lemma async_file_keeps: "async_file_step env (s, j) = Inr (s', i) \<Longrightarrow> conf_kept (x_world s') = conf_kept (x_world s)"
  by (auto simp: async_file_step_def Let_def bindE_eq_Inr kept_upd_conf split: option.splits if_splits)

lemma waste_keeps: "waste_step env (s, j) = Inr (s', i) \<Longrightarrow> conf_kept (x_world s') = conf_kept (x_world s)"
  by (auto simp: waste_step_def Let_def bindE_eq_Inr split: if_splits)

lemma file_steps_keep: "file_steps env s = Inr (s', i) \<Longrightarrow> conf_kept (x_world s') = conf_kept (x_world s)"
  by (auto simp: file_steps_def bindE_eq_Inr dest!: conf_file_keeps async_file_keeps waste_keeps)

lemma write_members_keep: "write_members env m qs w = Inr (go, w') \<Longrightarrow> conf_kept w' = conf_kept w"
proof (induction qs arbitrary: w)
  case (Cons q qs)
  show ?case
  proof (cases "gets_audio w q")
    case True
    with Cons.prems obtain b where "w' = upd_mem q (\<lambda>m. m\<lparr>m_mux_buffer := b\<rparr>) w \<or>
        write_members env m qs (upd_mem q (\<lambda>m. m\<lparr>m_mux_buffer := b\<rparr>) w) = Inr (go, w')"
      by (auto simp: bindE_eq_Inr Let_def split: if_split_asm)
    then show ?thesis using Cons.IH [of "upd_mem q (\<lambda>m. m\<lparr>m_mux_buffer := b\<rparr>) w"] by (auto simp: kept_upd_mem)
  qed (use Cons in auto)
qed simp

lemma agc_step_keeps: "agc_step env m w = Inr w' \<Longrightarrow> conf_kept w' = conf_kept w"
  unfolding agc_step_def Let_def
  by (auto simp only: sum.inject sum.distinct split: if_splits intro!: kept_upd_conf) simp_all

lemma mix_step_keeps: "mix_step env f i w = Inr (go, w') \<Longrightarrow> conf_kept w' = conf_kept w"
  by (auto simp: mix_step_def Let_def bindE_eq_Inr loop_counts_def kept_upd_conf split: if_splits
      dest!: write_members_keep agc_step_keeps)

lemma close_nodes_keep [simp]: "conf_kept (close_nodes ns w) = conf_kept w"
  by (rule kept_core) simp

lemma close_done_keeps [simp]: "conf_kept (close_done_files w) = conf_kept w"
  by (simp add: close_done_files_def Let_def kept_upd_conf split: option.split list.split)

lemma conference_turn_keeps:
  assumes "conference_turn env s = Inr (go, s')"
  shows "conf_kept (x_world s') = conf_kept (x_world s)"
proof -
  obtain w1 r w2 w3 s4 i w5 where
    "read_members env (c_members (conf (x_world s))) (x_world s, 0) = Inr (w1, r)"
    "idle_music env (nomoh_members (x_world s)) w1 = Inr w2" "auto_record_step env (check_silence env w2) = Inr w3"
    "file_steps env (s\<lparr>x_world := video_step (members_with_video (x_world s)) (video_bridge_members (x_world s)) w3\<rparr>) =
      Inr (s4, i)"
    and m: "(if r \<noteq> 0 \<or> has_file_data i then mix_step env (x_file_frame s4) i (x_world s4) else Inr (True, x_world s4)) =
      Inr (go, w5)"
    and s': "x_world s' = (if go then close_done_files w5 else w5)"
    using assms by (auto simp: conference_turn_def Let_def bindE_eq_Inr)
  then have "conf_kept (x_world s4) = conf_kept (x_world s)"
    by (auto dest!: read_members_keep idle_music_keeps auto_record_keeps file_steps_keep)
  moreover have "conf_kept w5 = conf_kept (x_world s4)" using m by (auto split: if_splits dest!: mix_step_keeps)
  ultimately show ?thesis by (simp add: s')
qed

lemma release_members_keep: "release_members env ps w = Inr w' \<Longrightarrow> conf_kept w' = conf_kept w"
  by (induction ps arbitrary: w) (auto simp: bindE_eq_Inr split: if_splits)

lemma kept_EC [simp]: "conf_kept (w\<lparr>EC := n\<rparr>) = conf_kept w"
  by (rule kept_core) simp

lemma thread_end_keeps: "conference_thread_end env w = Inr w' \<Longrightarrow> conf_kept w' = conf_kept w"
  by (auto simp: conference_thread_end_def Let_def bindE_eq_Inr kept_upd_conf split: if_splits option.splits
      dest!: release_members_keep)

section \<open>The room\<close>

type_synonym room = "conf_world \<times> (ptr \<Rightarrow> key_binding switch_ivr_dmachine)"

text \<open>
  The local variables of the input thread and \<open>low_count\<close> of the output thread may be anything.
  A caller's digit machine is made and bound when it joins.
\<close>

inductive room_step :: "room \<Rightarrow> room \<Rightarrow> bool" where
  people: "conf_step w w' \<Longrightarrow> room_step (w, ms) (w', ms)"
| bind: "room_step (w, ms) (w, ms(p := member_bind_controls p xs (switch_ivr_dmachine_create dt it None None None)))"
| speak: "input_frame ie p fr v w = Inr (go, v', w') \<Longrightarrow> room_step (w, ms) (w', ms)"
| speak_start: "room_step (w, ms) (clear_mflag p MFLAG_TALKING w, ms)"
| speak_end: "room_step (w, ms) (input_end p w, ms)"
| hear: "keyed oe \<Longrightarrow> output_turn oe p i \<lparr>low_count = low, machine = ms p\<rparr> w = Inr (go, v', w') \<Longrightarrow>
    room_step (w, ms) (w', ms(p := machine v'))"
| hear_end: "output_end p w = Inr w' \<Longrightarrow> room_step (w, ms) (w', ms)"
| mix: "x_world s = w \<Longrightarrow> conference_turn env s = Inr (go, s') \<Longrightarrow> room_step (w, ms) (x_world s', ms)"
| finish: "conference_thread_end env w = Inr w' \<Longrightarrow> room_step (w, ms) (w', ms)"

definition room_start :: "room \<Rightarrow> bool" where
  "room_start r \<longleftrightarrow> conf_fresh (fst r) \<and> (\<forall>p. good_machine good_key (snd r p))"

definition room_inv :: "room \<Rightarrow> bool" where
  "room_inv r \<longleftrightarrow> conf_inv (fst r) \<and> (\<forall>p. good_machine good_key (snd r p))"

lemma room_step_inv: "room_step r r' \<Longrightarrow> room_inv r \<Longrightarrow> room_inv r'"
proof (induction rule: room_step.induct)
  case (people w w' ms)
  then show ?case using conf_step_inv by (simp add: room_inv_def)
next
  case (bind w ms p xs dt it)
  then show ?case using good_bind_controls [OF good_new_machine] by (simp add: room_inv_def)
next
  case (speak ie p fr v w go v' w' ms)
  then show ?case using input_frame_inv by (auto simp: room_inv_def)
next
  case (speak_start w ms p)
  then show ?case using kept_inv [of "clear_mflag p MFLAG_TALKING w" w] by (simp add: room_inv_def)
next
  case (speak_end w ms p)
  then show ?case using kept_inv [of "input_end p w" w] by (simp add: room_inv_def input_end_def)
next
  case (hear oe p i low ms w go v' w')
  then have g: "good_machine good_key (ms p)" "conf_inv w" by (simp_all add: room_inv_def)
  from output_turn_keeps [OF hear(2,1)] g have "good_machine good_key (machine v')" "conf_kept w' = conf_kept w" by simp_all
  then show ?case using kept_inv g(2) hear.prems by (simp add: room_inv_def)
next
  case (hear_end p w w' ms)
  then show ?case using kept_inv [OF output_end_keeps] by (simp add: room_inv_def)
next
  case (mix s w env go s' ms)
  then show ?case using kept_inv [OF conference_turn_keeps] by (simp add: room_inv_def)
next
  case (finish env w w' ms)
  then show ?case using kept_inv [OF thread_end_keeps] by (simp add: room_inv_def)
qed

interpretation rooms: step_system room_start room_step room_inv
proof
  show "room_inv r" if "room_start r" for r using that conf_fresh_inv by (simp add: room_inv_def room_start_def)
  show "room_inv r'" if "room_inv r" and "room_step r r'" for r r' using that(2,1) by (rule room_step_inv)
qed

text \<open>
  C3. Whatever the callers, the commands, the input and output threads and the mixing thread have
  done, in whatever order: no member is listed twice; \<open>count\<close> is the number of members with a
  channel and \<open>end_count\<close> that of the members that end the conference (as long as there are fewer
  than \<open>2 ^ 32\<close> members); the floor is held by a member or nobody; every member with a channel has
  a session; looking up a number finds the first member with a channel that has it; and the keys
  of every caller are bound to handlers of the table of controls only.
\<close>

theorem room_invariant:
  assumes "room_start r0" and "room_step\<^sup>*\<^sup>* r0 (w, ms)" and "length (c_members (conf w)) < 2 ^ 32"
  shows "distinct (c_members (conf w)) \<and>
    unat (c_count (conf w)) = length (filter (\<lambda>p. \<not> mflag w p MFLAG_NOCHANNEL) (c_members (conf w))) \<and>
    c_end_count (conf w) = int (length (filter (\<lambda>p. \<not> mflag w p MFLAG_NOCHANNEL \<and> mflag w p MFLAG_ENDCONF)
      (c_members (conf w)))) \<and>
    (\<forall>p. c_floor_holder (conf w) = Some p \<longrightarrow> p \<in> set (c_members (conf w))) \<and>
    (\<forall>p\<in>set (c_members (conf w)). \<not> mflag w p MFLAG_NOCHANNEL \<longrightarrow> m_session (mem w p) \<noteq> None) \<and>
    (\<forall>mid p. conference_member_get w mid = Some p \<longleftrightarrow>
      mid \<noteq> 0 \<and> (\<exists>as bs. c_members (conf w) = as @ p # bs \<and> \<not> mflag w p MFLAG_NOCHANNEL \<and>
        m_id (mem w p) = mid \<and> (\<forall>q\<in>set as. \<not> (\<not> mflag w q MFLAG_NOCHANNEL \<and> m_id (mem w q) = mid)))) \<and>
    (\<forall>p bs b u. bs \<in> set (dm_heads (ms p)) \<and> b \<in> set bs \<and> bd_user_data b = Some u \<longrightarrow>
      kb_handler u \<in> snd ` set control_mappings)"
proof -
  have i: "room_inv (w, ms)" using assms(1,2) by (rule rooms.reachable_inv)
  then have inv: "conf_inv w" by (simp add: room_inv_def)
  have "length (filter (has_channel w) (c_members (conf w))) < 2 ^ 32"
    using assms(3) length_filter_le [of "has_channel w" "c_members (conf w)"] by linarith
  then have c: "unat (c_count (conf w)) = length (filter (has_channel w) (c_members (conf w)))"
    by (simp add: conf_invD(5) [OF inv] unat_of_nat)
  have g: "\<forall>mid p. conference_member_get w mid = Some p \<longleftrightarrow>
      mid \<noteq> 0 \<and> (\<exists>as bs. c_members (conf w) = as @ p # bs \<and> has_channel w p \<and> m_id (mem w p) = mid \<and>
        (\<forall>q\<in>set as. \<not> (has_channel w q \<and> m_id (mem w q) = mid)))"
    using member_get_iff [OF inv] by blast
  have k: "\<exists>n. (n, kb_handler u) \<in> set control_mappings"
    if "bs \<in> set (dm_heads (ms p))" "b \<in> set bs" "bd_user_data b = Some u" for p bs b u
  proof -
    have "good_machine good_key (ms p)" using i by (simp add: room_inv_def)
    then have "good_binding good_key b" using that(1,2) unfolding good_machine_def by blast
    then show ?thesis using that(3) by (simp add: good_binding_def good_key_def)
  qed
  have h: "\<forall>p bs b u. bs \<in> set (dm_heads (ms p)) \<and> b \<in> set bs \<and> bd_user_data b = Some u \<longrightarrow>
      kb_handler u \<in> snd ` set control_mappings"
    using k image_eqI [of _ snd] by (metis snd_conv)
  note v = inv [unfolded conf_inv_def]
  show ?thesis by (intro conjI c g h) (use v in blast)+
qed

theorem room_invariant_witness:
  "\<exists>w. room_step\<^sup>*\<^sup>* (sample_world, \<lambda>_. switch_ivr_dmachine_create 0 0 None None None)
      (w, \<lambda>_. switch_ivr_dmachine_create 0 0 None None None) \<and> c_members (conf w) = [1] \<and> unat (c_count (conf w)) = 1"
proof -
  let ?ms = "\<lambda>_ :: ptr. switch_ivr_dmachine_create 0 0 None None None :: key_binding switch_ivr_dmachine"
  obtain w where s: "conf_fresh sample_world" "conf_step sample_world w" "joined sample_world 1 w"
    using sample_join by blast
  have m: "c_members (conf w) = [1]" "\<not> mflag w 1 MFLAG_NOCHANNEL"
    using s(3) by (simp_all add: joined_def sample_world_def plain_conf_def caller_def)
  have st: "room_start (sample_world, ?ms)" using s(1) by (simp add: room_start_def good_new_machine)
  have r: "room_step\<^sup>*\<^sup>* (sample_world, ?ms) (w, ?ms)" using s(2) by (intro r_into_rtranclp room_step.people)
  from room_invariant [OF st r] m have "unat (c_count (conf w)) = 1" by simp
  with r m(1) show ?thesis by blast
qed

end
