(* ===== verification/Conference_Admission.thy ===== *)
theory Conference_Admission
  imports Collect_Digits Conference_System
begin

text \<open>
  How a caller gets into a conference: \<open>conference_function\<close> of \<^verbatim>\<open>mod_conference.c\<close>, the application
  the dialplan runs.  Its argument names the conference, a profile, a PIN and flags; the conference
  is looked up or made; the caller is asked for the PIN; a locked or full conference is refused;
  then the member joins, its output loop runs, and it leaves.

  Blocking calls are given as what they deliver: playing a file or speaking gives a status and the
  digit that interrupted it, collecting digits gets its turns (\<open>Collect_Digits\<close>).  While a caller is
  asked, other threads work on the conference; each try comes with what they do.  The value is
  \<open>None\<close> as long as a call waits for more than it is given.  Opening the configuration, making a
  conference from it, the codecs and answering a call are arguments.
\<close>

section \<open>The argument of the application\<close>

record app_args =
  aa_flags :: "string option"
  aa_bridgeto :: "string option"
  aa_name :: string
  aa_pin :: "string option"
  aa_profile :: string

definition flags_prefix :: string where
  "flags_prefix = ''+flags{''"

definition bridge_prefix :: string where
  "bridge_prefix = ''bridge:''"

definition cut_flags :: "string option \<Rightarrow> string \<Rightarrow> string \<times> string option" where
  "cut_flags var mydata =
     (case strstr mydata flags_prefix of
        Some i \<Rightarrow> (take i mydata, Some (takeWhile (\<lambda>c. c \<noteq> CHR ''}'') (drop (i + length flags_prefix) mydata)))
      | None \<Rightarrow> (mydata, var))"

definition cut_bridge :: "string \<Rightarrow> (string \<times> string option) option" where
  "cut_bridge mydata =
     (if strncasecmp_eq (length bridge_prefix) mydata bridge_prefix then
        let rest = drop (length bridge_prefix) mydata in
        map_option (\<lambda>i. (take i rest, Some (drop (i + 1) rest))) (strchr rest (CHR '':''))
      else Some (mydata, None))"

text \<open>Cutting a string at a character gives what is before it and, if it is there, what is behind.\<close>

definition cut_at :: "char \<Rightarrow> string \<Rightarrow> string \<times> string option" where
  "cut_at c s = (case strchr s c of None \<Rightarrow> (s, None) | Some i \<Rightarrow> (take i s, Some (drop (i + 1) s)))"

definition parse_app_args :: "string option \<Rightarrow> string \<Rightarrow> app_args option" where
  "parse_app_args var data =
     (let (mydata, fl) = cut_flags var data in
      map_option (\<lambda>(mydata, bridgeto).
        let (name, pin) = cut_at (CHR ''+'') (dropWhile (\<lambda>c. c = CHR '' '') mydata);
            (name, profile) = cut_at (CHR ''@'') name
        in \<lparr>aa_flags = fl, aa_bridgeto = bridgeto, aa_name = name, aa_pin = pin,
            aa_profile = (case profile of None \<Rightarrow> ''default'' | Some p \<Rightarrow> p)\<rparr>)
        (cut_bridge mydata))"

section \<open>Library routines\<close>

definition switch_true :: "string option \<Rightarrow> bool" where
  "switch_true expr =
     (case expr of
        None \<Rightarrow> False
      | Some e \<Rightarrow>
          strcasecmp_eq e ''yes'' \<or> strcasecmp_eq e ''on'' \<or> strcasecmp_eq e ''true'' \<or>
          strcasecmp_eq e ''enabled'' \<or> strcasecmp_eq e ''active'' \<or> strcasecmp_eq e ''allow'' \<or>
          (switch_is_number e \<and> atoi e \<noteq> 0))"

fun switch_stristr :: "string \<Rightarrow> string \<Rightarrow> nat option" where
  "switch_stristr instr [] = None"
| "switch_stristr instr (x # xs) =
     (if instr \<noteq> [] \<and> strncasecmp_eq (length instr) (x # xs) instr then Some 0
      else map_option Suc (switch_stristr instr xs))"

text \<open>
  \<open>strtol\<close> with base 0: the prefix chooses the base.  The Boolean says whether the number was
  out of the range of a \<open>long\<close>.
\<close>

definition digit_value :: "char \<Rightarrow> int option" where
  "digit_value c =
     (let n = of_char c :: int in
      if 48 \<le> n \<and> n \<le> 57 then Some (n - 48)
      else if 97 \<le> n \<and> n \<le> 122 then Some (n - 87)
      else if 65 \<le> n \<and> n \<le> 90 then Some (n - 55) else None)"

fun number_in :: "int \<Rightarrow> int \<Rightarrow> string \<Rightarrow> int" where
  "number_in base acc [] = acc"
| "number_in base acc (c # cs) =
     (case digit_value c of
        Some d \<Rightarrow> if d < base then number_in base (acc * base + d) cs else acc
      | None \<Rightarrow> acc)"

definition hex_digit :: "char \<Rightarrow> bool" where
  "hex_digit c \<longleftrightarrow> (case digit_value c of Some d \<Rightarrow> d < 16 | None \<Rightarrow> False)"

fun magnitude :: "string \<Rightarrow> int" where
  "magnitude (z # x # d # cs) =
     (if z = CHR ''0'' \<and> (x = CHR ''x'' \<or> x = CHR ''X'') \<and> hex_digit d then number_in 16 0 (d # cs)
      else number_in (if z = CHR ''0'' then 8 else 10) 0 (z # x # d # cs))"
| "magnitude (z # cs) = number_in (if z = CHR ''0'' then 8 else 10) 0 (z # cs)"
| "magnitude [] = 0"

definition strtol0 :: "string \<Rightarrow> int \<times> bool" where
  "strtol0 s =
     (let n = (case dropWhile c_isspace s of
                 [] \<Rightarrow> 0
               | c # cs \<Rightarrow> if c = CHR ''-'' then - magnitude cs
                           else if c = CHR ''+'' then magnitude cs else magnitude (c # cs))
      in if n > 2 ^ 63 - 1 then (2 ^ 63 - 1, True) else if n < - (2 ^ 63) then (- (2 ^ 63), True) else (n, False))"

section \<open>Playing to the caller alone\<close>

record play_input =
  pl_reads :: "switch_status_t list"
  pl_status :: switch_status_t
  pl_digit :: "char option"
  pl_after :: "switch_channel \<Rightarrow> switch_channel"

record call_env =
  k_env :: conf_env
  k_session :: session_view
  k_limits :: dtmf_limits
  k_answer :: "switch_channel \<Rightarrow> switch_status_t \<times> switch_channel"
  k_silence_ok :: bool

fun lead_in :: "switch_status_t \<Rightarrow> switch_status_t list \<Rightarrow> switch_status_t" where
  "lead_in st [] = st"
| "lead_in st (s # ss) = (if SWITCH_READ_ACCEPTABLE s then lead_in s ss else s)"

text \<open>The digit that interrupts the player is stored in the first byte of the buffer.\<close>

definition put_digit :: "char option \<Rightarrow> string \<Rightarrow> string" where
  "put_digit d buf = (case d of None \<Rightarrow> buf | Some d \<Rightarrow> d # tl buf)"

text \<open>\<open>buf\<close> is the caller's buffer, if one was given.\<close>

definition conference_local_play_file ::
    "call_env \<Rightarrow> play_input \<Rightarrow> string \<Rightarrow> nat \<Rightarrow> string \<Rightarrow> switch_channel \<Rightarrow> conf_world \<Rightarrow>
       switch_status_t \<times> string \<times> switch_channel \<times> conf_world" where
  "conference_local_play_file k i path leadin buf c w =
     (let st = lead_in SWITCH_STATUS_SUCCESS (take leadin (pl_reads i)) in
      if st \<noteq> SWITCH_STATUS_SUCCESS then (st, buf, c, w)
      else
        let path = expand_variables (k_env k) c path;
            played = (\<lambda>e. (pl_status i, put_digit (pl_digit i) buf, pl_after i c, emit e w))
        in if strncasecmp_eq 4 path ''say:'' then
             (case (c_tts_engine (conf w), c_tts_voice (conf w)) of
                (Some e, Some v) \<Rightarrow> played (Speak_session e v (drop 4 path))
              | _ \<Rightarrow> (SWITCH_STATUS_FALSE, buf, c, w))
           else played (Play_session
                  (if \<not> switch_is_file_path path \<and> c_sound_prefix (conf w) \<noteq> None
                   then the (c_sound_prefix (conf w)) @ ''/'' @ path else path)))"

text \<open>Playing without a buffer for digits.\<close>

definition local_sound ::
    "call_env \<Rightarrow> play_input \<Rightarrow> string \<Rightarrow> nat \<Rightarrow> switch_channel \<times> conf_world \<Rightarrow> switch_channel \<times> conf_world" where
  "local_sound k i path leadin s =
     (case s of (c, w) \<Rightarrow> snd (snd (conference_local_play_file k (i\<lparr>pl_digit := None\<rparr>) path leadin [] c w)))"

section \<open>The PIN\<close>

definition cf_pin_url_param_name :: string where
  "cf_pin_url_param_name = ''X-ConfPin=''"

text \<open>Whether the entry is valid, and whether it is that of a moderator.\<close>

definition validate_pin :: "string \<Rightarrow> string option \<Rightarrow> string option \<Rightarrow> bool \<times> bool" where
  "validate_pin buf pin mpin =
     (let valid = (pin = Some buf); md = (\<not> valid \<and> mpin = Some buf) in (valid \<or> md, md))"

text \<open>
  A PIN given in the variable \<open>supplied_pin\<close>, up to a semicolon, is copied into \<open>pin_buf[80]\<close>
  without looking at its length.  With exactly 80 bytes there is no NUL behind it, and comparing it
  with a PIN that begins with it reads on behind the buffer.
\<close>

definition pin_buf_size :: nat where
  "pin_buf_size = 80"

definition supplied_entry :: "string \<Rightarrow> string" where
  "supplied_entry s =
     takeWhile (\<lambda>c. c \<noteq> CHR '';'')
       (case switch_stristr cf_pin_url_param_name s of
          Some i \<Rightarrow> drop (i + length cf_pin_url_param_name) s | None \<Rightarrow> s)"

definition supplied_pin :: "string option \<Rightarrow> string option \<Rightarrow> string option \<Rightarrow> (bool \<times> bool) outcome" where
  "supplied_pin value pin mpin =
     (if zstr value then Inr (False, False)
      else let e = supplied_entry (the value) in
           if length e > pin_buf_size then Inl OutOfBounds
           else if length e = pin_buf_size \<and> (\<exists>q\<in>set_option pin \<union> set_option mpin. prefix e q) then Inl OutOfBounds
           else Inr (validate_pin e pin mpin))"

text \<open>
  One try: the prompt, the digits, and what the others do meanwhile.  \<open>read_entry\<close> gives the
  status and what is in \<open>pin_buf\<close>.
\<close>

record pin_try =
  pt_prompt :: play_input
  pt_start :: int
  pt_turns :: "collect_turn list"
  pt_bad :: play_input
  pt_others :: "conf_world \<Rightarrow> conf_world"

definition pin_prompt :: "call_env \<Rightarrow> play_input \<Rightarrow> switch_channel \<Rightarrow> conf_world \<Rightarrow>
    switch_status_t \<times> string \<times> switch_channel \<times> conf_world" where
  "pin_prompt k i c w =
     (let text = ''please enter the conference pin number'';
          spoken = (\<lambda>e v. (pl_status i, [], pl_after i c, emit (Speak_session e v text) w))
      in case c_pin_sound (conf w) of
           Some s \<Rightarrow> conference_local_play_file k i s 20 [] c w
         | None \<Rightarrow>
             (case (c_tts_engine (conf w), c_tts_voice (conf w)) of
                (Some e, Some v) \<Rightarrow> spoken e v
              | _ \<Rightarrow> spoken ''flite'' ''slt''))"

definition pin_args :: "nat \<Rightarrow> string \<Rightarrow> collect_args" where
  "pin_args maxpin buf =
     \<lparr>ca_buflen = pin_buf_size - length buf, ca_maxdigits = maxpin - length buf, ca_terminators = ''#'',
      ca_want_term = True, ca_first_timeout = 10000, ca_digit_timeout = 0, ca_abs_timeout = 0\<rparr>"

definition read_entry ::
    "call_env \<Rightarrow> nat \<Rightarrow> pin_try \<Rightarrow> switch_channel \<Rightarrow> conf_world \<Rightarrow>
       (switch_status_t \<times> string \<times> switch_channel \<times> conf_world) option outcome" where
  "read_entry k maxpin t c w =
     (let (pstatus, buf, c, w) = pin_prompt k (pt_prompt t) c w in
      bindE (if pstatus \<noteq> SWITCH_STATUS_SUCCESS \<and> pstatus \<noteq> SWITCH_STATUS_BREAK
             then bindE (switch_channel_perform_hangup (k_session k) c SWITCH_CAUSE_DESTINATION_OUT_OF_ORDER) (\<lambda>(_, c, _). Inr c)
             else Inr c) (\<lambda>c.
      if length buf < maxpin then
        bindE (switch_ivr_collect_digits_count (k_limits k) (k_session k) (k_silence_ok k) (pt_start t) (pt_start t)
                 (pt_turns t) (pin_args maxpin buf) [] c) (\<lambda>r.
          Inr (map_option (\<lambda>r. (if cr_status r = SWITCH_STATUS_TIMEOUT then SWITCH_STATUS_SUCCESS else cr_status r,
                                buf @ cr_buf r, cr_channel r, w)) r))
      else Inr (Some (SWITCH_STATUS_SUCCESS, buf, c, w))))"

text \<open>
  The loop over the tries.  \<open>strlen\<close> of a PIN that is not there follows a null pointer.  The value
  says whether a PIN was right, whether it was that of a moderator, and the state.
\<close>

definition after_entry :: "call_env \<Rightarrow> pin_try \<Rightarrow> bool \<Rightarrow> switch_channel \<times> conf_world \<Rightarrow> switch_channel \<times> conf_world" where
  "after_entry k t valid s =
     (if valid then s
      else let (c, w) = (case c_bad_pin_sound (conf (snd s)) of Some f \<Rightarrow> local_sound k (pt_bad t) f 20 s | None \<Rightarrow> s)
           in (switch_channel_flush_dtmf c, w))"

definition pin_turn ::
    "call_env \<Rightarrow> string option \<Rightarrow> string option \<Rightarrow> pin_try \<Rightarrow> switch_channel \<Rightarrow> conf_world \<Rightarrow>
       (switch_status_t \<times> bool \<times> bool \<times> switch_channel \<times> conf_world) option outcome" where
  "pin_turn k pin mpin t c w =
     (case (pin, mpin) of
        (Some d, Some m) \<Rightarrow>
          bindE (read_entry k (max (length d) (length m)) t c w) (\<lambda>r.
            case r of
              None \<Rightarrow> Inr None
            | Some (status, buf, c, w) \<Rightarrow>
                let (valid, md) = (if status = SWITCH_STATUS_SUCCESS then validate_pin buf pin mpin else (False, False));
                    (c, w) = after_entry k t valid (c, w)
                in Inr (Some (status, valid, md, c, pt_others t w)))
      | _ \<Rightarrow> Inl NullPointer)"

fun pin_loop ::
    "call_env \<Rightarrow> string option \<Rightarrow> string option \<Rightarrow> pin_try list \<Rightarrow> int \<Rightarrow> switch_status_t \<Rightarrow> bool \<Rightarrow> bool \<Rightarrow>
       switch_channel \<Rightarrow> conf_world \<Rightarrow> (bool \<times> bool \<times> switch_channel \<times> conf_world) option outcome" where
  "pin_loop k pin mpin ts retries status valid md c w =
     (if valid \<or> retries = 0 \<or> status \<noteq> SWITCH_STATUS_SUCCESS then Inr (Some (valid, md, c, w))
      else case ts of
             [] \<Rightarrow> Inr None
           | t # ts \<Rightarrow>
               bindE (pin_turn k pin mpin t c w) (\<lambda>r.
                 case r of
                   None \<Rightarrow> Inr None
                 | Some (status, valid, md', c, w) \<Rightarrow>
                     pin_loop k pin mpin ts (retries - 1) status valid (md \<or> md') c w))"

declare pin_loop.simps [simp del]

definition default_sounds :: "conference_obj \<Rightarrow> conference_obj" where
  "default_sounds c =
     c\<lparr>c_pin_sound := (case c_pin_sound c of None \<Rightarrow> Some ''conference/conf-pin.wav'' | s \<Rightarrow> s),
       c_bad_pin_sound := (case c_bad_pin_sound c of None \<Rightarrow> Some ''conference/conf-bad-pin.wav'' | s \<Rightarrow> s)\<rparr>"

definition ask_pin ::
    "call_env \<Rightarrow> string option \<Rightarrow> string option \<Rightarrow> pin_try list \<Rightarrow> switch_channel \<Rightarrow> conf_world \<Rightarrow>
       (bool \<times> bool \<times> switch_channel \<times> conf_world) option outcome" where
  "ask_pin k pin mpin ts c w =
     (let c = snd (k_answer k c) in
      bindE (supplied_pin (get_variable (k_env k) c ''supplied_pin'') pin mpin) (\<lambda>(valid, md).
        pin_loop k pin mpin ts (c_pin_retries (conf w)) SWITCH_STATUS_SUCCESS valid md c (upd_conf default_sounds w)))"

section \<open>Admission\<close>

record call_input =
  i_tries :: "pin_try list"
  i_announce :: play_input
  i_refusal :: play_input
  i_others :: "conf_world \<Rightarrow> conf_world"

definition enforce_security :: "call_env \<Rightarrow> switch_channel \<Rightarrow> bool" where
  "enforce_security k c =
     (case get_variable (k_env k) c ''conference_enforce_security'' of
        None \<Rightarrow> direction c = SWITCH_CALL_DIRECTION_INBOUND
      | Some v \<Rightarrow> switch_true (Some v))"

text \<open>
  The PINs that count: \<open>dpin\<close> is the null pointer when the argument has no PIN, \<open>mdpin\<close> the empty
  string; those of the conference take their place.
\<close>

definition effective_pin :: "string option \<Rightarrow> conference_obj \<Rightarrow> string option" where
  "effective_pin dpin c = (if zstr dpin \<and> c_pin c \<noteq> None then c_pin c else dpin)"

definition effective_mpin :: "conference_obj \<Rightarrow> string option" where
  "effective_mpin c = (case c_mpin c of None \<Rightarrow> Some [] | Some m \<Rightarrow> Some m)"

definition refuse :: "call_env \<Rightarrow> play_input \<Rightarrow> string option \<Rightarrow> switch_channel \<times> conf_world \<Rightarrow> switch_channel \<times> conf_world" where
  "refuse k i sound s =
     (case sound of None \<Rightarrow> s | Some f \<Rightarrow> local_sound k i f 20 (snd (k_answer k (fst s)), snd s))"

definition announce :: "call_env \<Rightarrow> play_input \<Rightarrow> switch_channel \<times> conf_world \<Rightarrow> switch_channel \<times> conf_world" where
  "announce k i s =
     (case c_special_announce (conf (snd s)) of
        Some f \<Rightarrow> if silent_req (fst s) then s else local_sound k i f (unat CONF_DEFAULT_LEADIN) s
      | None \<Rightarrow> s)"

text \<open>
  The Booleans of the values say whether the caller may come in, and whether it came with the PIN
  of a moderator.
\<close>

definition check_room ::
    "call_env \<Rightarrow> call_input \<Rightarrow> bool \<Rightarrow> bool \<Rightarrow> switch_channel \<times> conf_world \<Rightarrow> bool \<times> bool \<times> switch_channel \<times> conf_world" where
  "check_room k i enforce md s =
     (let (c, w) = announce k (i_announce i) s; w = i_others i w in
      if cflag w CFLAG_LOCKED \<and> enforce
      then (False, md, refuse k (i_refusal i) (c_locked_sound (conf w)) (c, w))
      else if c_max_members (conf w) > 0 \<and> c_count (conf w) \<ge> c_max_members (conf w)
      then (False, md, refuse k (i_refusal i) (c_maxmember_sound (conf w)) (c, w))
      else (True, md, c, w))"

text \<open>From the read lock to the last check.\<close>

definition admit ::
    "call_env \<Rightarrow> call_input \<Rightarrow> bool \<Rightarrow> string option \<Rightarrow> switch_channel \<Rightarrow> conf_world \<Rightarrow>
       (bool \<times> bool \<times> switch_channel \<times> conf_world) option outcome" where
  "admit k i enforce dpin c w =
     (let pin = effective_pin dpin (conf w); mpin = effective_mpin (conf w) in
      bindE (if enforce \<and> (\<not> zstr pin \<or> \<not> zstr mpin) then ask_pin k pin mpin (i_tries i) c w
             else Inr (Some (True, False, c, w))) (\<lambda>r.
        Inr (map_option (\<lambda>(valid, md, s). if valid then check_room k i enforce md s else (False, md, s)) r)))"

section \<open>The conference of a call\<close>

definition variable_sound :: "call_env \<Rightarrow> switch_channel \<Rightarrow> string \<Rightarrow> string option \<Rightarrow> string option" where
  "variable_sound k c var sound = (if zstr sound then get_variable (k_env k) c var else sound)"

definition max_members_override :: "string option \<Rightarrow> uint32 \<Rightarrow> uint32" where
  "max_members_override str limit =
     (if zstr str then limit
      else let (n, out_of_range) = strtol0 (the str); v = word_of_int n :: uint32
           in if out_of_range \<or> v = 1 then limit else v)"

text \<open>A conference made for this call; \<open>launch_conference_thread\<close> marks it as running.\<close>

definition new_room :: "call_env \<Rightarrow> switch_channel \<Rightarrow> conference_obj \<Rightarrow> conference_obj" where
  "new_room k c r =
     r\<lparr>c_moh_sound := variable_sound k c ''conference_moh_sound'' (c_moh_sound r),
       c_perpetual_sound := variable_sound k c ''conference_perpetual_sound'' (c_perpetual_sound r),
       c_min := 1,
       c_max_members := max_members_override (get_variable (k_env k) c ''conference_max_members'') (c_max_members r),
       c_flags := insert CFLAG_RUNNING (insert CFLAG_DYNAMIC (c_flags r))\<rparr>"

definition bridge_room :: "conference_obj \<Rightarrow> conference_obj" where
  "bridge_room r =
     r\<lparr>c_min := 2, c_flags := insert CFLAG_RUNNING (insert CFLAG_BRIDGE_TO (insert CFLAG_DYNAMIC (c_flags r)))\<rparr>"

text \<open>
  What setting up finds: whether the configuration opens, which names are those of conferences,
  the conference made from the configuration, the read lock, the unique id of the session.
\<close>

record setup_input =
  su_config_ok :: bool
  su_exists :: "string \<Rightarrow> bool"
  su_new :: "conference_obj option"
  su_lock_ok :: bool
  su_uuid :: string

text \<open>
  The first Boolean says whether there is a conference, the second whether the call goes on with
  it, the third whether the checks of \<open>admit\<close> are to be made.
\<close>

definition find_room ::
    "call_env \<Rightarrow> setup_input \<Rightarrow> app_args \<Rightarrow> switch_channel \<Rightarrow> conf_world \<Rightarrow>
       (bool \<times> bool \<times> bool \<times> switch_channel \<times> conf_world) outcome" where
  "find_room k s a c w =
     (let name = (let last = get_variable (k_env k) c ''last_transfered_conference'' in
                  if switch_channel_test_flag c CF_RECOVERED \<noteq> 0 \<and> \<not> zstr last then the last else aa_name a);
          named = (\<lambda>c w. bindE (set_variable c ''conference_name'' (Some (c_name (conf w)))) (\<lambda>c. Inr (c, w)))
      in if \<not> su_config_ok s then Inr (False, False, False, c, w)
         else if aa_bridgeto a \<noteq> None then
           let name = (if name = ''_uuid_'' then su_uuid s else name) in
           if su_exists s name then Inr (True, False, False, c, w)
           else (case su_new s of
                   None \<Rightarrow> Inr (False, False, False, c, w)
                 | Some r \<Rightarrow> bindE (named c (w\<lparr>conf := r\<rparr>)) (\<lambda>(c, w). Inr (True, True, False, c, upd_conf bridge_room w)))
         else
           bindE (if su_exists s name then bindE (named c w) (\<lambda>(c, w). Inr (True, c, w))
                  else case su_new s of
                         None \<Rightarrow> Inr (False, c, w)
                       | Some r \<Rightarrow> bindE (named c (w\<lparr>conf := r\<rparr>)) (\<lambda>(c, w). Inr (True, c, upd_conf (new_room k c) w)))
             (\<lambda>(there, c, w). Inr (there, there \<and> su_lock_ok s, True, c, w)))"

section \<open>Joining, and the whole call\<close>

definition CONF_BUFFER_SIZE :: nat where
  "CONF_BUFFER_SIZE = 1024 * 128"

definition CONF_DBLOCK_SIZE :: nat where
  "CONF_DBLOCK_SIZE = CONF_BUFFER_SIZE"

definition CONF_DBUFFER_SIZE :: nat where
  "CONF_DBUFFER_SIZE = CONF_BUFFER_SIZE"

definition CONF_DBUFFER_MAX :: nat where
  "CONF_DBUFFER_MAX = 0"

text \<open>Which of the codecs, the resampler and the three buffers can be had, and the next buffer number.\<close>

record media_input =
  me_rate :: uint32
  me_read_codec :: bool
  me_resampler :: bool
  me_resample_buffer :: bool
  me_write_codec :: bool
  me_audio_buffer :: bool
  me_mux_buffer :: bool
  me_buffer_id :: uint32

definition conf_buffer :: "bool \<Rightarrow> uint32 \<Rightarrow> switch_buffer option" where
  "conf_buffer memory bid =
     fst (snd (switch_buffer_create_dynamic memory memory bid CONF_DBLOCK_SIZE CONF_DBUFFER_SIZE CONF_DBUFFER_MAX))"

definition setup_media :: "media_input \<Rightarrow> ptr \<Rightarrow> conf_world \<Rightarrow> bool \<times> conf_world" where
  "setup_media i p w =
     (if \<not> me_read_codec i then (False, w)
      else
        let w = upd_mem p (\<lambda>m. m\<lparr>m_frame := replicate SWITCH_RECOMMENDED_BUFFER_SIZE 0\<rparr>) w in
        if me_rate i \<noteq> c_rate (conf w) \<and> (\<not> me_resampler i \<or> \<not> me_resample_buffer i) then (False, w)
        else if \<not> me_write_codec i then (False, w)
        else case conf_buffer (me_audio_buffer i) (me_buffer_id i) of
               None \<Rightarrow> (False, w)
             | Some a \<Rightarrow>
                 let w = upd_mem p (\<lambda>m. m\<lparr>m_audio_buffer := a\<rparr>) w in
                 (case conf_buffer (me_mux_buffer i) (me_buffer_id i + 1) of
                    None \<Rightarrow> (False, w)
                  | Some b \<Rightarrow> (True, upd_mem p (\<lambda>m. m\<lparr>m_mux_buffer := b\<rparr>) w)))"

definition null_buffer :: switch_buffer where
  "null_buffer = \<lparr>buf_data = None, buf_head = 0, buf_used = 0, buf_actually_used = 0, buf_datalen = 0,
     buf_max_len = 0, buf_blocksize = 0, buf_mutex = None, buf_flags = 0, buf_id = 0, buf_loops = 0\<rparr>"

definition zero_member :: conference_member where
  "zero_member = (caller 0 {} None)\<lparr>m_audio_buffer := null_buffer, m_mux_buffer := null_buffer\<rparr>"

record member_input =
  mi_media :: media_input
  mi_confmid :: "uint32 option"

text \<open>The member up to its joining; \<open>None\<close> when media cannot be set up.\<close>

definition prepare_member ::
    "member_input \<Rightarrow> string option \<Rightarrow> bool \<Rightarrow> ptr \<Rightarrow> switch_channel \<Rightarrow> conf_world \<Rightarrow> (bool \<times> conf_world) outcome" where
  "prepare_member i flags_str md p c w =
     (let (done, w) = setup_media (mi_media i) p (upd_mem p (\<lambda>m. m\<lparr>m_session := Some c\<rparr>) w)
      in if \<not> done then Inr (False, w)
         else
           let (mid, w) = (case mi_confmid i of Some mid \<Rightarrow> (mid, w) | None \<Rightarrow> next_member_id w) in
           bindE (set_variable c ''conference_member_id'' (Some (show_nat (unat mid)))) (\<lambda>c.
           bindE (set_mflags flags_str (c_mflags (conf w))) (\<lambda>fl.
             let fl = insert MFLAG_RUNNING fl;
                 fl = (if md then insert MFLAG_MOD fl else fl);
                 w = upd_mem p (\<lambda>m. m\<lparr>m_id := mid, m_session := Some c, m_flags := m_flags m \<union> fl\<rparr>) w
             in Inr (True, if MFLAG_MINTWO \<in> fl then upd_conf (\<lambda>r. r\<lparr>c_min := 2\<rparr>) w else w))))"

text \<open>
  The turns of the output loop, as \<open>Conference_Output\<close> takes them.  When they are used up the call
  is still in the conference.
\<close>

record stay_input =
  st_env :: output_env
  st_timer_ok :: bool
  st_calls :: "string list option"
  st_others :: "conf_world \<Rightarrow> conf_world"
  st_turns :: "((conf_world \<Rightarrow> conf_world) \<times> turn_input) list"
  st_vars :: output_vars

definition stay :: "stay_input \<Rightarrow> ptr \<Rightarrow> conf_world \<Rightarrow> conf_world option outcome" where
  "stay s p w =
     bindE (conference_loop_output (st_env s) p (st_timer_ok s) (st_calls s) (st_others s) (st_turns s) (st_vars s) w)
       (\<lambda>(more, _, w). Inr (if more then None else Some w))"

definition set_destruct :: "conf_world \<Rightarrow> conf_world" where
  "set_destruct w = (if cflag w CFLAG_DYNAMIC \<and> c_count (conf w) = 0 then set_cflag CFLAG_DESTRUCT w else w)"

text \<open>What a member that was kicked hears.\<close>

definition kicked_sound :: "call_env \<Rightarrow> ptr \<Rightarrow> switch_channel \<Rightarrow> conf_world \<Rightarrow> conf_world" where
  "kicked_sound k p c w =
     (case c_kicked_sound (conf w) of
        None \<Rightarrow> w
      | Some f \<Rightarrow>
          if \<not> mflag w p MFLAG_KICKED then w
          else if strncasecmp_eq 4 f ''say:'' then
            (case (c_tts_engine (conf w), c_tts_voice (conf w)) of
               (Some e, Some v) \<Rightarrow> emit (Speak_session e v (drop 4 f)) w
             | _ \<Rightarrow> w)
          else let f = expand_variables (k_env k) c f in
               emit (Play_session (if \<not> switch_is_file_path f \<and> c_sound_prefix (conf w) \<noteq> None
                                   then the (c_sound_prefix (conf w)) @ ''/'' @ f else f)) w)"

record whole_input =
  wi_media :: bool
  wi_setup :: setup_input
  wi_call :: call_input
  wi_outcall_ok :: bool
  wi_member :: member_input
  wi_stay :: stay_input

definition silent_entry :: "call_env \<Rightarrow> switch_channel \<Rightarrow> switch_channel" where
  "silent_entry k c =
     (if switch_channel_test_app_flag_key ''conf_silent'' c CONF_SILENT_DONE = 0 \<and>
         (switch_channel_test_flag c CF_RECOVERED \<noteq> 0 \<or> switch_true (get_variable (k_env k) c ''conference_silent_entry''))
      then switch_channel_set_app_flag_key ''conf_silent'' c CONF_SILENT_REQ else c)"

text \<open>The call or the bridge; the Boolean says whether the call goes on.\<close>

definition bridge_out :: "bool \<Rightarrow> app_args \<Rightarrow> switch_channel \<Rightarrow> conf_world \<Rightarrow> bool \<times> conf_world" where
  "bridge_out outcall_ok a c w =
     (if \<not> zstr (aa_bridgeto a) \<and> \<not> strcasecmp_eq (the (aa_bridgeto a)) ''none'' then (outcall_ok, w)
      else (True, if direction c = SWITCH_CALL_DIRECTION_INBOUND then set_cflag CFLAG_ANSWERED w else w))"

definition member_stays ::
    "call_env \<Rightarrow> whole_input \<Rightarrow> app_args \<Rightarrow> bool \<Rightarrow> ptr \<Rightarrow> switch_channel \<Rightarrow> conf_world \<Rightarrow> conf_world option outcome" where
  "member_stays k i a md p c w =
     (let (go, w) = bridge_out (wi_outcall_ok i) a c w in
      if \<not> go then Inr (Some w)
      else bindE (prepare_member (wi_member i) (aa_flags a) md p c w) (\<lambda>(done, w).
        if \<not> done then Inr (Some w)
        else bindE (conference_add_member (k_env k) w p) (\<lambda>(st, w).
          if st \<noteq> SWITCH_STATUS_SUCCESS then Inr (Some w)
          else bindE (stay (wi_stay i) p w) (\<lambda>r.
            case r of
              None \<Rightarrow> Inr None
            | Some w \<Rightarrow> bindE (conference_del_member (k_env k) w p) (\<lambda>(_, w). Inr (Some w))))))"

text \<open>
  The member begins as zeros.  At the end the conference is marked for destruction when it was
  made for calls and is empty.  The value is the channel, as the stay left it, and the world.
\<close>

definition own_channel :: "ptr \<Rightarrow> switch_channel \<Rightarrow> conf_world \<Rightarrow> switch_channel" where
  "own_channel p c w = (case m_session (mem w p) of Some c \<Rightarrow> c | None \<Rightarrow> c)"

definition call_done ::
    "call_env \<Rightarrow> bool \<Rightarrow> ptr \<Rightarrow> switch_channel \<Rightarrow> conf_world \<Rightarrow> (switch_channel \<times> conf_world) option outcome" where
  "call_done k there p c w =
     (let w = (if there then kicked_sound k p (own_channel p c w) (set_destruct w) else w) in
      bindE (set_variable (own_channel p c w) ''last_transfered_conference'' None) (\<lambda>c. Inr (Some (c, w))))"

definition conference_function ::
    "call_env \<Rightarrow> whole_input \<Rightarrow> string option \<Rightarrow> ptr \<Rightarrow> switch_channel \<Rightarrow> conf_world \<Rightarrow>
       (switch_channel \<times> conf_world) option outcome" where
  "conference_function k i data p c w =
     (let (answered, c) = k_answer k (silent_entry k c); w = w\<lparr>mem := (mem w)(p := zero_member)\<rparr> in
      if answered \<noteq> SWITCH_STATUS_SUCCESS \<or> \<not> wi_media i \<or> zstr data then Inr (Some (c, w))
      else case parse_app_args (get_variable (k_env k) c ''conference_member_flags'') (the data) of
             None \<Rightarrow> call_done k False p c w
           | Some a \<Rightarrow>
               bindE (find_room k (wi_setup i) a c w) (\<lambda>(there, go, check, c, w).
               bindE (if \<not> go then Inr (Some (False, False, c, w))
                      else if check then admit k (wi_call i) (enforce_security k c) (aa_pin a) c w
                      else Inr (Some (True, False, c, w))) (\<lambda>r.
               case r of
                 None \<Rightarrow> Inr None
               | Some (allowed, md, c, w) \<Rightarrow>
                   bindE (if allowed then member_stays k i a md p c w else Inr (Some w)) (\<lambda>r.
                     case r of None \<Rightarrow> Inr None | Some w \<Rightarrow> call_done k there p c w))))"

section \<open>Who gets in\<close>

text \<open>The tries the loop can make: a negative number of retries never runs out.\<close>

definition allowed_tries :: "int \<Rightarrow> pin_try list \<Rightarrow> pin_try list" where
  "allowed_tries retries ts = (if retries < 0 then ts else take (nat retries) ts)"

lemma allowed_tries_Cons: "retries \<noteq> 0 \<Longrightarrow> allowed_tries retries (t # ts) = t # allowed_tries (retries - 1) ts"
  by (auto simp: allowed_tries_def nat_diff_distrib take_Cons' less_le)

text \<open>\<open>e\<close> is what the caller entered in the try \<open>t\<close>.\<close>

definition typed :: "call_env \<Rightarrow> nat \<Rightarrow> pin_try \<Rightarrow> string \<Rightarrow> bool" where
  "typed k maxpin t e \<longleftrightarrow> (\<exists>c w c' w'. read_entry k maxpin t c w = Inr (Some (SWITCH_STATUS_SUCCESS, e, c', w')))"

lemma pin_turn_entry:
  assumes "pin_turn k pin mpin t c w = Inr (Some (status, valid, md, c', w'))"
  obtains d m where "pin = Some d" "mpin = Some m"
    "valid \<longrightarrow> (\<exists>e. typed k (max (length d) (length m)) t e \<and> (e = d \<or> e = m) \<and> (md \<longleftrightarrow> e \<noteq> d))" "\<not> valid \<longrightarrow> \<not> md"
proof -
  obtain d m where dm: "pin = Some d" "mpin = Some m"
    using assms by (auto simp: pin_turn_def split: option.splits)
  obtain r0 where r0: "read_entry k (max (length d) (length m)) t c w = Inr r0"
    using assms by (cases "read_entry k (max (length d) (length m)) t c w") (auto simp: pin_turn_def dm)
  then obtain st buf c1 w1 where r: "read_entry k (max (length d) (length m)) t c w = Inr (Some (st, buf, c1, w1))"
    using assms by (cases r0) (auto simp: pin_turn_def dm)
  have v: "(valid, md) = (if st = SWITCH_STATUS_SUCCESS then validate_pin buf pin mpin else (False, False))"
    using assms dm r by (auto simp: pin_turn_def Let_def split: prod.splits if_splits)
  have "typed k (max (length d) (length m)) t buf" if "st = SWITCH_STATUS_SUCCESS" using r that by (auto simp: typed_def)
  with dm v show ?thesis
    by (intro that [of d m] impI exI [of _ buf]) (auto simp: validate_pin_def Let_def split: if_splits)
qed

lemma pin_loop_valid:
  assumes "pin_loop k pin mpin ts retries status valid md c w = Inr (Some (True, md', c', w'))"
  shows "valid \<and> md' = md \<or>
    \<not> valid \<and> (\<exists>d m t e. pin = Some d \<and> mpin = Some m \<and> t \<in> set (allowed_tries retries ts) \<and>
      typed k (max (length d) (length m)) t e \<and> (e = d \<or> e = m) \<and> (md' \<longleftrightarrow> md \<or> e \<noteq> d))"
  using assms
proof (induction ts arbitrary: retries status valid md c w)
  case Nil
  then show ?case by (subst (asm) pin_loop.simps) (auto split: if_splits)
next
  case (Cons t ts)
  show ?case
  proof (cases "valid \<or> retries = 0 \<or> status \<noteq> SWITCH_STATUS_SUCCESS")
    case True
    with Cons.prems show ?thesis by (subst (asm) pin_loop.simps) auto
  next
    case False
    obtain st v md1 c1 w1 where p: "pin_turn k pin mpin t c w = Inr (Some (st, v, md1, c1, w1))"
      and l: "pin_loop k pin mpin ts (retries - 1) st v (md \<or> md1) c1 w1 = Inr (Some (True, md', c', w'))"
      using Cons.prems False by (subst (asm) pin_loop.simps) (auto simp: bindE_eq_Inr split: option.splits)
    have a: "allowed_tries retries (t # ts) = t # allowed_tries (retries - 1) ts" using False by (simp add: allowed_tries_Cons)
    from p obtain d m where t: "pin = Some d" "mpin = Some m"
      "v \<longrightarrow> (\<exists>e. typed k (max (length d) (length m)) t e \<and> (e = d \<or> e = m) \<and> (md1 \<longleftrightarrow> e \<noteq> d))" "\<not> v \<longrightarrow> \<not> md1"
      by (rule pin_turn_entry)
    show ?thesis
    proof (cases v)
      case True
      with t(3) obtain e where "typed k (max (length d) (length m)) t e" "e = d \<or> e = m" "md1 \<longleftrightarrow> e \<noteq> d" by blast
      moreover have "md' \<longleftrightarrow> md \<or> md1" using l True by (subst (asm) pin_loop.simps) simp
      ultimately show ?thesis using False t(1,2) by (auto simp: a)
    next
      case v: False
      with Cons.IH [OF l] t(4) False show ?thesis by (auto simp: a)
    qed
  qed
qed

text \<open>What the caller gave as its PIN: in the variable, or in one of the tries.\<close>

definition entered :: "call_env \<Rightarrow> string \<Rightarrow> string \<Rightarrow> pin_try list \<Rightarrow> switch_channel \<Rightarrow> string \<Rightarrow> bool" where
  "entered k d m ts c e \<longleftrightarrow>
     (\<exists>v. get_variable (k_env k) (snd (k_answer k c)) ''supplied_pin'' = Some v \<and> v \<noteq> [] \<and> e = supplied_entry v) \<or>
     (\<exists>t\<in>set ts. typed k (max (length d) (length m)) t e)"

lemma ask_pin_valid:
  assumes "ask_pin k pin (Some m) ts c w = Inr (Some (True, md, c', w'))"
  shows "\<exists>e. entered k (the pin) m (allowed_tries (c_pin_retries (conf w)) ts) c e \<and>
    (pin = Some e \<or> e = m) \<and> (md \<longleftrightarrow> pin \<noteq> Some e)"
proof -
  let ?v = "get_variable (k_env k) (snd (k_answer k c)) ''supplied_pin''"
  obtain valid md0 where s: "supplied_pin ?v pin (Some m) = Inr (valid, md0)"
    and l: "pin_loop k pin (Some m) ts (c_pin_retries (conf w)) SWITCH_STATUS_SUCCESS valid md0 (snd (k_answer k c))
      (upd_conf default_sounds w) = Inr (Some (True, md, c', w'))"
    using assms by (auto simp: ask_pin_def bindE_eq_Inr Let_def)
  have v: "if zstr ?v then \<not> valid \<and> \<not> md0 else (valid, md0) = validate_pin (supplied_entry (the ?v)) pin (Some m)"
    using s by (auto simp: supplied_pin_def Let_def split: if_splits)
  show ?thesis
  proof (cases valid)
    case True
    then have "\<not> zstr ?v" "(True, md0) = validate_pin (supplied_entry (the ?v)) pin (Some m)" using v by (auto split: if_splits)
    moreover have "md = md0" using pin_loop_valid [OF l] True by simp
    ultimately show ?thesis
      by (intro exI [of _ "supplied_entry (the ?v)"])
        (auto simp: entered_def validate_pin_def zstr_def Let_def split: option.splits)
  next
    case False
    then have "\<not> md0" using v by (auto simp: validate_pin_def Let_def split: if_splits)
    with pin_loop_valid [OF l] False obtain d t e where
      "pin = Some d" "t \<in> set (allowed_tries (c_pin_retries (conf w)) ts)" "typed k (max (length d) (length m)) t e"
      "e = d \<or> e = m" "md \<longleftrightarrow> e \<noteq> d" by blast
    then show ?thesis by (intro exI [of _ e]) (auto simp: entered_def)
  qed
qed

lemma check_room_open:
  assumes "check_room k i enforce md s = (True, md', c', w')"
  shows "md' = md \<and> (enforce \<longrightarrow> \<not> cflag w' CFLAG_LOCKED) \<and>
    (c_max_members (conf w') = 0 \<or> c_count (conf w') < c_max_members (conf w'))"
  using assms by (auto simp: check_room_def Let_def word_gt_0 not_le split: prod.splits if_splits)

text \<open>
  C6. A caller that security is enforced for gets past the checks only when the conference was
  not locked and, at that moment, had room for one more; and, when there is a PIN or a PIN of
  moderators, only if what it supplied or typed in one of the tries it is allowed is one of
  the two.  It counts as a moderator exactly if that was not the ordinary PIN.
\<close>

theorem admission_guard:
  fixes w :: conf_world and dpin :: "string option"
  defines "pin \<equiv> effective_pin dpin (conf w)" and "mpin \<equiv> effective_mpin (conf w)"
  assumes "admit k i True dpin c w = Inr (Some (True, md, c', w'))"
  shows "\<not> cflag w' CFLAG_LOCKED \<and>
    (c_max_members (conf w') = 0 \<or> c_count (conf w') < c_max_members (conf w')) \<and>
    (if zstr pin \<and> zstr mpin then \<not> md
     else \<exists>e. entered k (the pin) (the mpin) (allowed_tries (c_pin_retries (conf w)) (i_tries i)) c e \<and>
            (pin = Some e \<or> mpin = Some e) \<and> (md \<longleftrightarrow> pin \<noteq> Some e))"
proof -
  obtain m where m: "mpin = Some m" by (cases "c_mpin (conf w)") (auto simp: mpin_def effective_mpin_def)
  let ?ask = "if \<not> zstr pin \<or> \<not> zstr mpin then ask_pin k pin mpin (i_tries i) c w else Inr (Some (True, False, c, w))"
  obtain valid md1 s1 where a: "?ask = Inr (Some (valid, md1, s1))"
    and r: "(if valid then check_room k i True md1 s1 else (False, md1, s1)) = (True, md, c', w')"
    using assms(3) unfolding admit_def Let_def pin_def [symmetric] mpin_def [symmetric]
    by (auto simp: bindE_eq_Inr simp del: split_paired_Ex split_paired_All)
  have valid: "valid" using r by (auto split: if_splits)
  with r check_room_open [of k i True md1 s1 md c' w'] have w': "md1 = md" "\<not> cflag w' CFLAG_LOCKED"
    "c_max_members (conf w') = 0 \<or> c_count (conf w') < c_max_members (conf w')" by auto
  obtain c1 w1 where s1: "s1 = (c1, w1)" by fastforce
  have "if zstr pin \<and> zstr mpin then \<not> md
     else \<exists>e. entered k (the pin) (the mpin) (allowed_tries (c_pin_retries (conf w)) (i_tries i)) c e \<and>
            (pin = Some e \<or> mpin = Some e) \<and> (md \<longleftrightarrow> pin \<noteq> Some e)"
    using a ask_pin_valid [of k pin m "i_tries i" c w md c1 w1] valid w'(1) by (auto simp: m s1 split: if_splits)
  with w'(2,3) show ?thesis by blast
qed

text \<open>
  C38. The PIN of a conference without a PIN of moderators can be left out: the missing PIN of moderators is
  the empty string, so a caller that enters nothing, be it that it presses the terminator or
  waits for the timeout, is let in, and as a moderator.
\<close>

theorem empty_entry_is_moderator:
  assumes "effective_pin dpin (conf w) = Some d" and "d \<noteq> []" and "c_mpin (conf w) = None" and "c_pin_retries (conf w) \<noteq> 0"
    and "zstr (get_variable (k_env k) (snd (k_answer k c)) ''supplied_pin'')" and "i_tries i = t # ts"
    and "read_entry k (length d) t (snd (k_answer k c)) (upd_conf default_sounds w) = Inr (Some (SWITCH_STATUS_SUCCESS, [], c1, w1))"
    and "c_special_announce (conf (pt_others t w1)) = None"
    and "\<not> cflag (i_others i (pt_others t w1)) CFLAG_LOCKED" and "c_max_members (conf (i_others i (pt_others t w1))) = 0"
  shows "\<exists>w'. admit k i True dpin c w = Inr (Some (True, True, c1, w')) \<and>
    (\<forall>mi fl p w2. prepare_member mi fl True p c1 w' = Inr (True, w2) \<longrightarrow> mflag w2 p MFLAG_MOD)"
proof -
  have t: "pin_turn k (Some d) (Some []) t (snd (k_answer k c)) (upd_conf default_sounds w) =
      Inr (Some (SWITCH_STATUS_SUCCESS, True, True, c1, pt_others t w1))"
    using assms(2,7) by (simp add: pin_turn_def validate_pin_def after_entry_def)
  have "ask_pin k (Some d) (Some []) (t # ts) c w = Inr (Some (True, True, c1, pt_others t w1))"
    using assms(4,5) t by (simp add: ask_pin_def supplied_pin_def pin_loop.simps)
  then have "admit k i True dpin c w = Inr (Some (True, True, c1, i_others i (pt_others t w1)))"
    using assms by (simp add: admit_def check_room_def effective_mpin_def zstr_def announce_def Let_def)
  moreover have "mflag w2 p MFLAG_MOD" if "prepare_member mi fl True p c1 w' = Inr (True, w2)" for mi fl p w' w2
    using that by (auto simp: prepare_member_def bindE_eq_Inr Let_def split: prod.splits if_splits option.splits)
  ultimately show ?thesis by blast
qed

text \<open>
  C39. A conference that has only a PIN of moderators stops the whole program: the first time a
  caller is asked, the length of the ordinary PIN is taken, and that is a null pointer.
\<close>

theorem moderator_pin_alone_faults:
  assumes "effective_pin dpin (conf w) = None" and "c_mpin (conf w) = Some m" and "m \<noteq> []" and "c_pin_retries (conf w) \<noteq> 0"
    and "zstr (get_variable (k_env k) (snd (k_answer k c)) ''supplied_pin'')" and "i_tries i \<noteq> []"
  shows "admit k i True dpin c w = Inl NullPointer"
proof -
  obtain t ts where "i_tries i = t # ts" using assms(6) by (cases "i_tries i") auto
  then have "ask_pin k None (Some m) (i_tries i) c w = Inl NullPointer"
    using assms(4,5) by (simp add: ask_pin_def supplied_pin_def pin_loop.simps pin_turn_def)
  with assms(1-3) show ?thesis by (simp add: admit_def effective_mpin_def zstr_def)
qed

section \<open>Asking ends\<close>

lemma hangup_total:
  assumes "cause \<noteq> SWITCH_CAUSE_LOSE_RACE"
  shows "\<exists>s c' acts. switch_channel_perform_hangup sv c cause = Inr (s, c', acts)"
  using assms
  by (auto simp: switch_channel_perform_hangup_def switch_channel_clear_flag_def flag_variables_def Let_def
      CF_BLOCK_STATE_def CF_LEG_HOLDING_def CF_OUTBOUND_def CF_RECOVERED_def split: prod.splits)

lemma prompt_digit: "length (fst (snd (pin_prompt k i c w))) \<le> 1"
  by (auto simp: pin_prompt_def conference_local_play_file_def put_digit_def Let_def split: option.splits)

text \<open>A try that is given turns enough; \<open>n\<close> is the length of the longer PIN.\<close>

definition enough_turns :: "nat \<Rightarrow> pin_try \<Rightarrow> bool" where
  "enough_turns n t \<longleftrightarrow> paced (pt_start t) (pt_turns t) \<and>
     (\<forall>u\<in>set (pt_turns t). ct_later u < pt_start t + 1000 * 2 ^ 32) \<and> n * 10001 + 10000 < length (pt_turns t)"

lemma read_entry_ends:
  assumes "n < pin_buf_size" and "enough_turns n t"
  shows "\<exists>r. read_entry k n t c w = Inr (Some r)"
proof -
  obtain st buf c1 w1 where p: "pin_prompt k (pt_prompt t) c w = (st, buf, c1, w1)" by (rule prod_cases4)
  have buf: "length buf \<le> 1" using prompt_digit [of k "pt_prompt t" c w] p by simp
  have "SWITCH_CAUSE_DESTINATION_OUT_OF_ORDER \<noteq> SWITCH_CAUSE_LOSE_RACE"
    by (simp add: SWITCH_CAUSE_DESTINATION_OUT_OF_ORDER_def SWITCH_CAUSE_LOSE_RACE_def)
  from hangup_total [OF this, of "k_session k" c1] obtain s0 c0 acts
    where "switch_channel_perform_hangup (k_session k) c1 SWITCH_CAUSE_DESTINATION_OUT_OF_ORDER = Inr (s0, c0, acts)" by blast
  then obtain c2 where h: "(if st \<noteq> SWITCH_STATUS_SUCCESS \<and> st \<noteq> SWITCH_STATUS_BREAK
      then bindE (switch_channel_perform_hangup (k_session k) c1 SWITCH_CAUSE_DESTINATION_OUT_OF_ORDER) (\<lambda>(_, c, _). Inr c)
      else Inr c1) = Inr c2"
    by (cases "st \<noteq> SWITCH_STATUS_SUCCESS \<and> st \<noteq> SWITCH_STATUS_BREAK") auto
  have "\<exists>r. switch_ivr_collect_digits_count (k_limits k) (k_session k) (k_silence_ok k) (pt_start t) (pt_start t)
      (pt_turns t) (pin_args n buf) [] c2 = Inr (Some r)" if "length buf < n"
  proof -
    have "(n - length buf) * 10001 + 10000 < length (pt_turns t)"
      using assms(2) mult_le_mono1 [of "n - length buf" n 10001] unfolding enough_turns_def by linarith
    moreover have "n - length buf < pin_buf_size - length buf" using assms(1) that by (intro diff_less_mono) auto
    ultimately show ?thesis
      using assms(2) that collect_digits_ends [of "pin_args n buf" "[]" "pt_start t" "pt_turns t" "k_limits k" "k_session k"
          "k_silence_ok k" "pt_start t" c2]
      by (auto simp: pin_args_def enough_turns_def)
  qed
  then show ?thesis using h by (cases "length buf < n") (auto simp: read_entry_def p)
qed

lemma pin_loop_ends:
  assumes "length d < pin_buf_size" and "length m < pin_buf_size"
    and "\<forall>t\<in>set ts. enough_turns (max (length d) (length m)) t" and "0 \<le> retries" and "nat retries \<le> length ts"
  shows "\<exists>r. pin_loop k (Some d) (Some m) ts retries status valid md c w = Inr (Some r)"
  using assms(3-)
proof (induction ts arbitrary: retries status valid md c w)
  case Nil
  then show ?case by (simp add: pin_loop.simps)
next
  case (Cons t ts)
  obtain st buf c1 w1 where "read_entry k (max (length d) (length m)) t c w = Inr (Some (st, buf, c1, w1))"
    using read_entry_ends [of "max (length d) (length m)" t k c w] assms(1,2) Cons.prems(1) by auto
  then have "\<exists>x. pin_turn k (Some d) (Some m) t c w = Inr (Some x)"
    by (simp add: pin_turn_def Let_def case_prod_unfold)
  then obtain st v md1 c2 w2 where p: "pin_turn k (Some d) (Some m) t c w = Inr (Some (st, v, md1, c2, w2))" by fastforce
  show ?case
  proof (cases "valid \<or> retries = 0 \<or> status \<noteq> SWITCH_STATUS_SUCCESS")
    case True
    then show ?thesis by (simp add: pin_loop.simps)
  next
    case False
    then have "\<exists>r. pin_loop k (Some d) (Some m) ts (retries - 1) st v (md \<or> md1) c2 w2 = Inr (Some r)"
      using Cons.prems by (intro Cons.IH) (auto simp: nat_diff_distrib)
    with False p show ?thesis by (subst pin_loop.simps) simp
  qed
qed

text \<open>
  C7. Asking a caller for the PIN ends without a fault whatever the caller presses, and after no
  more than the tries the conference allows: both PINs are there and shorter than the buffer of
  80 bytes, so is what was supplied in the variable, and the clock goes on.  Each try
  returns within about ten seconds per digit of the longer PIN.
\<close>

theorem pin_check_ends:
  assumes "length d < pin_buf_size" and "length m < pin_buf_size"
    and "\<forall>v. get_variable (k_env k) (snd (k_answer k c)) ''supplied_pin'' = Some v \<longrightarrow> length (supplied_entry v) < pin_buf_size"
    and "0 \<le> c_pin_retries (conf w)" and "nat (c_pin_retries (conf w)) \<le> length ts"
    and "\<forall>t\<in>set ts. paced (pt_start t) (pt_turns t) \<and> (\<forall>u\<in>set (pt_turns t). ct_later u < pt_start t + 1000 * 2 ^ 32) \<and>
      max (length d) (length m) * 10001 + 10000 < length (pt_turns t)"
  shows "\<exists>valid md c' w'. ask_pin k (Some d) (Some m) ts c w = Inr (Some (valid, md, c', w'))"
proof -
  let ?v = "get_variable (k_env k) (snd (k_answer k c)) ''supplied_pin''"
  obtain valid md where s: "supplied_pin ?v (Some d) (Some m) = Inr (valid, md)"
  proof (cases "zstr ?v")
    case False
    then obtain v where "?v = Some v" by (auto simp: zstr_def split: option.splits)
    with assms(3) False show ?thesis
      by (intro that [of "fst (validate_pin (supplied_entry v) (Some d) (Some m))" "snd (validate_pin (supplied_entry v) (Some d) (Some m))"])
        (simp add: supplied_pin_def)
  next
    case True
    then show ?thesis by (intro that [of False False]) (simp add: supplied_pin_def)
  qed
  have "\<exists>r. pin_loop k (Some d) (Some m) ts (c_pin_retries (conf w)) SWITCH_STATUS_SUCCESS valid md (snd (k_answer k c))
      (upd_conf default_sounds w) = Inr (Some r)"
    using assms by (intro pin_loop_ends) (auto simp: enough_turns_def)
  with s show ?thesis by (auto simp: ask_pin_def)
qed

section \<open>Examples\<close>

definition ready_channel :: switch_channel where
  "ready_channel = blank_channel\<lparr>ch_state := CS_EXECUTE, running_state := CS_EXECUTE\<rparr>"

text \<open>A caller without variables; \<open>waiting n\<close> are \<open>n\<close> turns in which nothing happens.\<close>

definition plain_call :: call_env where
  "plain_call = \<lparr>k_env = plain_env, k_session = idle_session, k_limits = default_limits,
     k_answer = \<lambda>c. (SWITCH_STATUS_SUCCESS, c), k_silence_ok = True\<rparr>"

definition waiting :: "nat \<Rightarrow> collect_turn list" where
  "waiting n = map (\<lambda>j. \<lparr>ct_others = \<lambda>c. c, ct_now = 1000 * int j, ct_later = 1000 * int j, ct_read = SWITCH_STATUS_SUCCESS\<rparr>) [1..<n + 1]"

definition played :: play_input where
  "played = \<lparr>pl_reads = [], pl_status = SWITCH_STATUS_SUCCESS, pl_digit = None, pl_after = \<lambda>c. c\<rparr>"

text \<open>A try in which the keys \<open>ds\<close> arrive in the first turn.\<close>

definition press :: "string \<Rightarrow> collect_turn" where
  "press ds = \<lparr>ct_others = \<lambda>c. c\<lparr>dtmf_queue := dtmf_queue c @
       map (\<lambda>d. \<lparr>digit = d, duration = 2000, dtmf_flags = 0, dtmf_source = SWITCH_DTMF_APP\<rparr>) ds\<rparr>,
     ct_now = 1000, ct_later = 1000, ct_read = SWITCH_STATUS_SUCCESS\<rparr>"

definition try_of :: "collect_turn list \<Rightarrow> pin_try" where
  "try_of ts = \<lparr>pt_prompt = played, pt_start = 0, pt_turns = ts, pt_bad = played, pt_others = \<lambda>w. w\<rparr>"

definition calls :: "pin_try list \<Rightarrow> call_input" where
  "calls ts = \<lparr>i_tries = ts, i_announce = played, i_refusal = played, i_others = \<lambda>w. w\<rparr>"

definition pin_world :: "string option \<Rightarrow> string option \<Rightarrow> conf_world" where
  "pin_world pin mpin = sample_world\<lparr>conf := plain_conf\<lparr>c_pin := pin, c_mpin := mpin, c_pin_retries := 3\<rparr>\<rparr>"

lemma paced_from: "paced (1000 * int m) (map (\<lambda>j. \<lparr>ct_others = \<lambda>c. c, ct_now = 1000 * int j, ct_later = 1000 * int j,
    ct_read = SWITCH_STATUS_SUCCESS\<rparr>) [Suc m..<n])"
proof (induction "n - Suc m" arbitrary: m)
  case 0
  then show ?case by simp
next
  case (Suc x)
  then have "[Suc m..<n] = Suc m # [Suc (Suc m)..<n]" by (simp add: upt_conv_Cons)
  with Suc.hyps(1) [of "Suc m"] Suc.hyps(2) show ?case by simp
qed

lemma paced_waiting: "paced 0 (waiting n)"
  using paced_from [of 0 "n + 1"] by (simp add: waiting_def)

theorem pin_check_ends_witness:
  "\<exists>valid md c' w'. ask_pin plain_call (Some ''7'') (Some []) (replicate 3 (try_of (waiting 20002))) ready_channel
     (pin_world (Some ''7'') None) = Inr (Some (valid, md, c', w'))"
proof (rule pin_check_ends)
  have "\<forall>u\<in>set (waiting 20002). ct_later u < 0 + 1000 * 2 ^ 32" by (auto simp: waiting_def)
  moreover have "length (waiting 20002) = 20002" by (simp add: waiting_def)
  ultimately show "\<forall>t\<in>set (replicate 3 (try_of (waiting 20002))). paced (pt_start t) (pt_turns t) \<and>
      (\<forall>u\<in>set (pt_turns t). ct_later u < pt_start t + 1000 * 2 ^ 32) \<and> max (length ''7'') (length ([] :: string)) * 10001 + 10000 < length (pt_turns t)"
    using paced_waiting [of 20002] by (simp add: try_of_def)
qed (simp_all add: pin_buf_size_def plain_call_def plain_env_def pin_world_def)

lemma prompt_played:
  assumes "c_pin_sound (conf w) = None"
  shows "\<exists>e. pin_prompt plain_call played c (upd_conf default_sounds w) =
    (SWITCH_STATUS_SUCCESS, [], c, emit e (upd_conf default_sounds w))"
proof -
  have "\<not> strncasecmp_eq 4 ''conference/conf-pin.wav'' ''say:''" by code_simp
  with assms show ?thesis
    by (auto simp: pin_prompt_def default_sounds_def upd_conf_def conference_local_play_file_def played_def plain_call_def
        plain_env_def put_digit_def Let_def)
qed

lemma ready_test: "switch_channel_test_ready idle_session (ready_channel\<lparr>dtmf_queue := q\<rparr>) True False"
  by (simp add: switch_channel_test_ready_def idle_session_def ready_channel_def blank_channel_def CF_defs state_order
      switch_channel_test_flag_def switch_channel_state_change_pending_def)

text \<open>What a caller enters that presses a key right after the prompt: \<open>#\<close> alone is the empty entry.\<close>

lemma press_key:
  "\<exists>c. switch_ivr_collect_digits_count default_limits idle_session True 0 0 [press [d]] (pin_args (Suc 0) []) [] ready_channel =
    Inr (Some \<lparr>cr_status = SWITCH_STATUS_SUCCESS, cr_buf = (if d = CHR ''#'' then [] else [d]),
      cr_term = (if d = CHR ''#'' then Some d else None), cr_channel = c\<rparr>)"
  using ready_test
  by (simp add: switch_ivr_collect_digits_count_def set_timeouts_def pin_args_def collect_step_def press_def
      elapsed_ms_def switch_channel_has_dtmf_def switch_channel_dequeue_dtmf_def limit_duration_def default_limits_def is_terminator_def
      ready_channel_def blank_channel_def pin_buf_size_def Let_def)

lemma press_entry:
  assumes "c_pin_sound (conf w) = None"
  shows "\<exists>c e. read_entry plain_call (Suc 0) (try_of [press [d]]) ready_channel (upd_conf default_sounds w) =
    Inr (Some (SWITCH_STATUS_SUCCESS, if d = CHR ''#'' then [] else [d], c, emit e (upd_conf default_sounds w)))"
proof -
  obtain e where "pin_prompt plain_call played ready_channel (upd_conf default_sounds w) =
      (SWITCH_STATUS_SUCCESS, [], ready_channel, emit e (upd_conf default_sounds w))" using prompt_played [OF assms] by blast
  with press_key [of d] show ?thesis by (auto simp: read_entry_def try_of_def plain_call_def)
qed

lemma plain_call_facts: "k_answer plain_call c = (SWITCH_STATUS_SUCCESS, c)" "get_variable (k_env plain_call) c v = None"
  by (simp_all add: plain_call_def plain_env_def)

theorem admission_guard_witness:
  "\<exists>c' w'. admit plain_call (calls [try_of [press ''7'']]) True None ready_channel (pin_world (Some ''7'') (Some ''8'')) =
       Inr (Some (True, False, c', w')) \<and> \<not> cflag w' CFLAG_LOCKED"
proof -
  let ?w = "pin_world (Some ''7'') (Some ''8'')" and ?t = "try_of [press ''7'']"
  obtain c e where r: "read_entry plain_call (Suc 0) ?t ready_channel (upd_conf default_sounds ?w) =
      Inr (Some (SWITCH_STATUS_SUCCESS, ''7'', c, emit e (upd_conf default_sounds ?w)))"
    using press_entry [of ?w "CHR ''7''"] by (auto simp: pin_world_def plain_conf_def)
  have "pin_turn plain_call (Some ''7'') (Some ''8'') ?t ready_channel (upd_conf default_sounds ?w) =
      Inr (Some (SWITCH_STATUS_SUCCESS, True, False, c, emit e (upd_conf default_sounds ?w)))"
    using r by (simp add: pin_turn_def validate_pin_def after_entry_def) (simp add: try_of_def)
  then have "admit plain_call (calls [?t]) True None ready_channel ?w =
      Inr (Some (True, False, c, emit e (upd_conf default_sounds ?w)))"
    by (simp add: admit_def ask_pin_def pin_loop.simps supplied_pin_def plain_call_facts effective_pin_def effective_mpin_def
        zstr_def check_room_def announce_def calls_def pin_world_def emit_def upd_conf_def default_sounds_def plain_conf_def)
  from this admission_guard [OF this] show ?thesis by blast
qed

theorem empty_entry_is_moderator_witness:
  "\<exists>c w'. admit plain_call (calls [try_of [press ''#'']]) True None ready_channel (pin_world (Some ''7'') None) =
       Inr (Some (True, True, c, w')) \<and>
     (\<forall>mi fl p w2. prepare_member mi fl True p c w' = Inr (True, w2) \<longrightarrow> mflag w2 p MFLAG_MOD)"
proof -
  let ?w = "pin_world (Some ''7'') None" and ?t = "try_of [press ''#'']"
  obtain c e where r: "read_entry plain_call (Suc 0) ?t ready_channel (upd_conf default_sounds ?w) =
      Inr (Some (SWITCH_STATUS_SUCCESS, [], c, emit e (upd_conf default_sounds ?w)))"
    using press_entry [of ?w "CHR ''#''"] by (auto simp: pin_world_def plain_conf_def)
  show ?thesis
    by (intro exI [of _ c], rule empty_entry_is_moderator [where d = "''7''" and t = ?t and ts = "[]" and
          ?w1.0 = "emit e (upd_conf default_sounds ?w)"])
      (simp_all add: r plain_call_facts zstr_def calls_def effective_pin_def,
       simp_all add: pin_world_def plain_conf_def try_of_def emit_def upd_conf_def default_sounds_def)
qed

theorem moderator_pin_alone_faults_witness:
  "admit plain_call (calls [try_of []]) True None ready_channel (pin_world None (Some ''8'')) = Inl NullPointer"
  by (rule moderator_pin_alone_faults [where m = "''8''"])
    (simp_all add: plain_call_facts zstr_def calls_def effective_pin_def pin_world_def plain_conf_def)

end
