(* ===== verification/Conference_Record.thy ===== *)
theory Conference_Record
  imports Conference_Admission
begin

text \<open>
  The recording of a conference, \<open>conference_record_thread_run\<close> of \<^verbatim>\<open>mod_conference.c\<close>: a member
  without a channel whose audio is written to a file (a handle of \<^verbatim>\<open>switch_core_file.c\<close>).  A turn of its loop writes a packet of the
  mix when one waits, and silence when none came for two turns; at the end what still waits is
  written.

  Every turn comes with what the other threads do before it (\<open>rt_others\<close>) and between its looks at
  the buffer (\<open>rt_between\<close>), whether the file is paused, and whether the write succeeds.  A value
  \<open>None\<close> means that a loop still runs when what it is given is used up.
\<close>

section \<open>File handles\<close>

text \<open>
  What matters of a handle that was to be opened for writing (\<^verbatim>\<open>switch_core_file.c\<close>): without the
  interface of a file format, with one but not open, or open.  A handle of zeroes has no format.
\<close>

datatype file_handle = No_format | Not_open | File_open

text \<open>
  The path of a file may begin with a directory to spool in, in brackets; the format is told by
  what follows the last dot, or by what precedes \<open>://\<close>, which is copied to an array of 128 bytes.
  The formats that modules registered, whether the format opens the file and whether it is there
  afterwards are given.
\<close>

definition unspooled_path :: "string \<Rightarrow> string" where
  "unspooled_path path =
     (if take 2 path = ''[/'' then
        (case switch_find_end_paren (Some path) (CHR ''['') (CHR '']'') of
           Some e \<Rightarrow> drop (e + 1) path | None \<Rightarrow> path)
      else path)"

definition path_ext :: "string \<Rightarrow> string option" where
  "path_ext path =
     (if CHR ''.'' \<in> set path then Some (rev (takeWhile (\<lambda>c. c \<noteq> CHR ''.'') (rev path))) else None)"

definition open_format :: "(string \<Rightarrow> bool) \<Rightarrow> bool \<Rightarrow> bool \<Rightarrow> bool \<Rightarrow> string \<Rightarrow> file_handle" where
  "open_format formats open_ok created is_stream ext =
     (if \<not> formats ext then No_format
      else if \<not> open_ok then Not_open
      else if \<not> is_stream \<and> \<not> created then Not_open
      else File_open)"

definition switch_core_file_open :: "(string \<Rightarrow> bool) \<Rightarrow> bool \<Rightarrow> bool \<Rightarrow> string \<Rightarrow> file_handle outcome" where
  "switch_core_file_open formats open_ok created file_path =
     (if file_path = [] then Inr No_format
      else case strstr file_path ''://'' of
        Some i \<Rightarrow> if i + 1 > 128 then Inl OutOfBounds
                  else Inr (open_format formats open_ok created True (take i file_path))
      | None \<Rightarrow> (case path_ext (unspooled_path file_path) of
                  None \<Rightarrow> Inr No_format
                | Some ext \<Rightarrow> Inr (open_format formats open_ok created False ext)))"

text \<open>
  Writing asserts a format, and fails when the handle is not open.  What an open handle is given
  is an event; \<open>written\<close> says whether the format reports success.
\<close>

definition switch_core_file_write ::
    "file_handle \<Rightarrow> bool \<Rightarrow> string \<Rightarrow> int16 list \<Rightarrow> conf_world \<Rightarrow> (bool \<times> conf_world) outcome" where
  "switch_core_file_write fh written path data w =
     (case fh of
        No_format \<Rightarrow> Inl AssertionFailed
      | Not_open \<Rightarrow> Inr (False, w)
      | File_open \<Rightarrow> Inr (written, emit (Write_record path data) w))"

section \<open>The loop\<close>

record record_turn =
  rt_others :: "conf_world \<Rightarrow> conf_world"
  rt_between :: "(conf_world \<Rightarrow> conf_world) list"
  rt_paused :: bool
  rt_write_ok :: bool

record record_vars =
  rv_lead_in :: nat
  rv_no_data :: nat

datatype record_audio = Paused | Nothing | Audio "switch_byte_t list"

text \<open>
  From the label \<open>again\<close>: \<open>n\<close> samples are asked for when \<open>used\<close> bytes or more are there.  When
  nothing was read the buffer is looked at once more, and if a packet has come the loop starts again.
\<close>

fun record_again ::
    "nat \<Rightarrow> ptr \<Rightarrow> bool \<Rightarrow> (conf_world \<Rightarrow> conf_world) list \<Rightarrow> nat \<Rightarrow> conf_world \<Rightarrow> (record_audio \<times> conf_world) option outcome" where
  "record_again n p paused bs used w =
     (if paused then Inr (Some (Paused, set_mflag p MFLAG_FLUSH_BUFFER w))
      else
        bindE (if used \<ge> 2 * n then switch_buffer_read (m_mux_buffer (mem w p)) (2 * n)
               else Inr (m_mux_buffer (mem w p), [])) (\<lambda>(b, got).
        let w = upd_mem p (\<lambda>m. m\<lparr>m_mux_buffer := b\<rparr>) w in
        if length got div 2 \<noteq> 0 then Inr (Some (Audio got, w))
        else case bs of
               [] \<Rightarrow> Inr None
             | f # bs \<Rightarrow>
                 let w = f w; used = switch_buffer_inuse (m_mux_buffer (mem w p)) in
                 if used \<ge> 2 * n then record_again n p paused bs used w else Inr (Some (Nothing, w))))"

declare record_again.simps [simp del]

definition write_packet :: "record_turn \<Rightarrow> ptr \<Rightarrow> string \<Rightarrow> int16 list \<Rightarrow> conf_world \<Rightarrow> conf_world outcome" where
  "write_packet t p path data w =
     bindE (if data = [] then Inr (False, w) else switch_core_file_write File_open (rt_write_ok t) path data w) (\<lambda>(go, w).
       Inr (if go then w else clear_mflag p MFLAG_RUNNING w))"

definition record_step ::
    "nat \<Rightarrow> ptr \<Rightarrow> string \<Rightarrow> record_turn \<Rightarrow> record_vars \<Rightarrow> conf_world \<Rightarrow> (record_vars \<times> conf_world) option outcome" where
  "record_step n p path t v w =
     (if rv_lead_in v \<noteq> 0 then Inr (Some (v\<lparr>rv_lead_in := rv_lead_in v - 1\<rparr>, w))
      else
        bindE (flush_mux p w) (\<lambda>w.
        bindE (record_again n p (rt_paused t) (rt_between t) (switch_buffer_inuse (m_mux_buffer (mem w p))) w) (\<lambda>r.
        case r of
          None \<Rightarrow> Inr None
        | Some (Paused, w) \<Rightarrow> Inr (Some (v, w))
        | Some (Audio got, w) \<Rightarrow>
            bindE (write_packet t p path (samples_of got) w) (\<lambda>w. Inr (Some (v\<lparr>rv_no_data := 0\<rparr>, w)))
        | Some (Nothing, w) \<Rightarrow>
            let v = v\<lparr>rv_no_data := rv_no_data v + 1\<rparr> in
            if rv_no_data v < 2 then Inr (Some (v, w))
            else bindE (write_packet t p path (replicate n (- 1)) w) (\<lambda>w. Inr (Some (v, w))))))"

fun record_loop ::
    "nat \<Rightarrow> ptr \<Rightarrow> string \<Rightarrow> record_turn list \<Rightarrow> record_vars \<Rightarrow> conf_world \<Rightarrow> (record_vars \<times> conf_world) option outcome" where
  "record_loop n p path [] v w = Inr None"
| "record_loop n p path (t # ts) v w =
     (let w = rt_others t w in
      if \<not> (mflag w p MFLAG_RUNNING \<and> cflag w CFLAG_RUNNING \<and> c_count (conf w) \<noteq> 0) then Inr (Some (v, w))
      else bindE (record_step n p path t v w) (\<lambda>r.
        case r of None \<Rightarrow> Inr None | Some (v, w) \<Rightarrow> record_loop n p path ts v w))"

section \<open>The end\<close>

text \<open>What waits is written, a packet or less at a time; before each read the others run.\<close>

fun record_drain ::
    "nat \<Rightarrow> ptr \<Rightarrow> string \<Rightarrow> file_handle \<Rightarrow> (conf_world \<Rightarrow> conf_world) list \<Rightarrow> conf_world \<Rightarrow> conf_world option outcome" where
  "record_drain n p path fh [] w = Inr None"
| "record_drain n p path fh (f # fs) w =
     (let w = f w in
      bindE (switch_buffer_read (m_mux_buffer (mem w p)) (2 * n)) (\<lambda>(b, got).
      let w = upd_mem p (\<lambda>m. m\<lparr>m_mux_buffer := b\<rparr>) w in
      if got = [] then Inr (Some w)
      else bindE (switch_core_file_write fh True path (samples_of got) w) (\<lambda>(_, w). record_drain n p path fh fs w)))"

definition record_event :: "string \<Rightarrow> string \<Rightarrow> conf_world \<Rightarrow> conf_world" where
  "record_event action path w = fire_conf [Hdr ''Action'' action, Hdr ''Path'' path] w"

text \<open>What follows the last write: the member leaves, the file is closed and the end is told.\<close>

definition record_close :: "conf_env \<Rightarrow> ptr \<Rightarrow> string \<Rightarrow> file_handle \<Rightarrow> conf_world \<Rightarrow> conf_world outcome" where
  "record_close env p path fh w =
     bindE (conference_del_member env w p) (\<lambda>(_, w).
     let w = clear_mflag p MFLAG_RUNNING w;
         w = (if fh = File_open then emit (Close_record path) w else w)
     in Inr (record_event ''stop-recording'' path w))"

text \<open>
  The label \<open>end\<close>.  \<open>has_mux\<close> says whether there is a buffer: reading from none follows a null pointer.
\<close>

definition record_end ::
    "conf_env \<Rightarrow> nat \<Rightarrow> ptr \<Rightarrow> string \<Rightarrow> bool \<Rightarrow> file_handle \<Rightarrow> nat \<Rightarrow> (conf_world \<Rightarrow> conf_world) list \<Rightarrow> conf_world \<Rightarrow>
       conf_world option outcome" where
  "record_end env n p path has_mux fh no_data fs w =
     bindE (if no_data \<noteq> 0 then Inr (Some w)
            else if \<not> has_mux then Inl NullPointer
            else record_drain n p path fh fs w) (\<lambda>r.
     case r of
       None \<Rightarrow> Inr None
     | Some w \<Rightarrow> bindE (record_close env p path fh w) (\<lambda>w. Inr (Some w)))"

section \<open>The thread\<close>

record record_input =
  ri_lock_ok :: bool
  ri_audio_ok :: bool
  ri_mux_ok :: bool
  ri_buffer_id :: uint32
  ri_formats :: "string \<Rightarrow> bool"
  ri_open_ok :: bool
  ri_created :: bool
  ri_timer_ok :: bool

definition record_member :: "string \<Rightarrow> uint32 \<Rightarrow> conference_member" where
  "record_member path mid =
     zero_member\<lparr>m_flags := {MFLAG_CAN_HEAR, MFLAG_NOCHANNEL, MFLAG_RUNNING}, m_conference := True, m_rec_path := path,
       m_id := mid, m_frame := replicate SWITCH_RECOMMENDED_BUFFER_SIZE 0\<rparr>"

text \<open>What follows joining the conference: the file, the timer and the loop.\<close>

definition record_joined ::
    "conf_env \<Rightarrow> record_input \<Rightarrow> nat \<Rightarrow> string \<Rightarrow> ptr \<Rightarrow> record_turn list \<Rightarrow> (conf_world \<Rightarrow> conf_world) list \<Rightarrow> conf_world \<Rightarrow>
       conf_world option outcome" where
  "record_joined env i n path p ts fs w =
     bindE (switch_core_file_open (ri_formats i) (ri_open_ok i) (ri_created i) path) (\<lambda>fh.
     if fh \<noteq> File_open then record_end env n p path True fh 0 fs w
     else let w = emit (Open_record path) w in
       if \<not> ri_timer_ok i then record_end env n p path True fh 0 fs w
       else
         let w = emit (Record_string ''TITLE'' (''Conference '' @ c_name (conf w))) w;
             w = emit (Record_string ''ARTIST'' ''FreeSWITCH mod_conference Software Conference Module'') w;
             w = (if test_eflag w EFLAG_RECORD then record_event ''start-recording'' path w else w)
         in bindE (record_loop n p path ts \<lparr>rv_lead_in = 20, rv_no_data = 0\<rparr> w) (\<lambda>r.
            case r of
              None \<Rightarrow> Inr None
            | Some (v, w) \<Rightarrow> record_end env n p path True fh (rv_no_data v) fs w))"

definition conference_record_thread_run ::
    "conf_env \<Rightarrow> record_input \<Rightarrow> string \<Rightarrow> ptr \<Rightarrow> record_turn list \<Rightarrow> (conf_world \<Rightarrow> conf_world) list \<Rightarrow> conf_world \<Rightarrow>
       conf_world option outcome" where
  "conference_record_thread_run env i path p ts fs w =
     (let n = unat (switch_samples_per_packet (c_rate (conf w)) (c_interval (conf w))) in
      if \<not> ri_lock_ok i then Inr (Some w)
      else
        let (mid, w) = next_member_id w;
            w = w\<lparr>mem := (mem w)(p := record_member path mid)\<rparr>
        in case (conf_buffer (ri_audio_ok i) (ri_buffer_id i), conf_buffer (ri_mux_ok i) (ri_buffer_id i + 1)) of
             (Some a, Some b) \<Rightarrow>
               bindE (conference_add_member env (upd_mem p (\<lambda>m. m\<lparr>m_audio_buffer := a, m_mux_buffer := b\<rparr>) w) p) (\<lambda>(st, w).
                 if st \<noteq> SWITCH_STATUS_SUCCESS then record_end env n p path True No_format 0 fs w
                 else record_joined env i n path p ts fs w)
           | _ \<Rightarrow> record_end env n p path False No_format 0 fs w)"

section \<open>Nothing is lost\<close>

abbreviation waits :: "conf_world \<Rightarrow> ptr \<Rightarrow> switch_byte_t list" where
  "waits w p \<equiv> buf_content (m_mux_buffer (mem w p))"

text \<open>
  A buffer of whole samples that can grow, as the thread makes it, far from the end of the address
  space; and a recording with such a buffer that nobody wants flushed.
\<close>

definition record_limit :: nat where
  "record_limit = 2 ^ 62"

definition sound_buffer :: "switch_buffer \<Rightarrow> bool" where
  "sound_buffer b \<longleftrightarrow> buf_inv b \<and> buf_data b \<noteq> None \<and> buf_dynamic b \<and> buf_max_len b = 0 \<and>
     buf_datalen b \<le> 2 * record_limit \<and> buf_blocksize b \<le> record_limit \<and> even (length (buf_content b))"

definition sound_member :: "conf_world \<Rightarrow> ptr \<Rightarrow> bool" where
  "sound_member w p \<longleftrightarrow> sound_buffer (m_mux_buffer (mem w p)) \<and> \<not> mflag w p MFLAG_FLUSH_BUFFER"

text \<open>What was written to the file of a name.\<close>

definition recorded :: "string \<Rightarrow> conf_world \<Rightarrow> int16 list list" where
  "recorded path w =
     List.map_filter (\<lambda>e. case e of Write_record q d \<Rightarrow> if q = path then Some d else None | _ \<Rightarrow> None) (out w)"

lemma recorded_write [simp]: "recorded path (emit (Write_record path d) w) = recorded path w @ [d]"
  by (simp add: recorded_def emit_def List.map_filter_def)

text \<open>The other threads add the bytes \<open>bs\<close> to what waits, as long as there is room, and do not write to the file.\<close>

definition feeds :: "string \<Rightarrow> ptr \<Rightarrow> (conf_world \<Rightarrow> conf_world) \<Rightarrow> switch_byte_t list \<Rightarrow> bool" where
  "feeds path p f bs \<longleftrightarrow>
     (\<forall>w. sound_member w p \<and> length (waits w p) + length bs \<le> record_limit \<longrightarrow>
        sound_member (f w) p \<and> waits (f w) p = waits w p @ bs \<and> recorded path (f w) = recorded path w)"

text \<open>The write of the mixing thread (in \<open>write_members\<close>) into the buffer of the recording is such a step.\<close>

lemma write_datalen:
  assumes "buf_inv b" and "buf_data b = Some d" and "buf_grown b (length src) < 2 ^ 64"
    and "switch_buffer_write hp b src = Inr (b', r)"
  shows "buf_datalen b' = buf_datalen b \<or>
    buf_datalen b < buf_used b + length src \<and> buf_datalen b' = buf_grown b (length src)"
proof -
  have store: "buffer_store c src = Inr (b', r) \<Longrightarrow> buf_datalen b' = buf_datalen c" for c
    by (auto simp: buffer_store_def bindE_eq_Inr Let_def split: if_splits option.splits)
  obtain b1 where b1: "(if size_sub (buf_datalen b) (buf_actually_used b) < length src then buffer_compact b d else Inr b) = Inr b1"
    "same_config b b1" "buf_datalen b1 = buf_datalen b" "buf_used b1 = buf_used b"
    using write_prepare [OF assms(1,2), of "length src"] by blast
  have le: "buf_used b \<le> buf_datalen b" "buf_datalen b < 2 ^ 64" using assms(1) by (auto simp: buf_inv_def)
  have grow: "buffer_grow hp b1 e (length src) = Some b2 \<Longrightarrow> buf_datalen b2 = buf_grown b (length src)" for e b2
    using b1(2,3) assms(3)
    by (auto simp: buffer_grow_def buf_grown_def same_config_def size_add_exact max_def Let_def split: if_splits)
  show ?thesis
    using assms(2,4) b1 le grow store
    by (auto simp: switch_buffer_write_def size_sub_exact split: if_splits option.splits)
qed

definition mixer_write :: "heap \<Rightarrow> ptr \<Rightarrow> switch_byte_t list \<Rightarrow> conf_world \<Rightarrow> conf_world" where
  "mixer_write hp p bs w =
     (case switch_buffer_write hp (m_mux_buffer (mem w p)) bs of
        Inl _ \<Rightarrow> w | Inr (b, _) \<Rightarrow> upd_mem p (\<lambda>m. m\<lparr>m_mux_buffer := b\<rparr>) w)"

lemma mixer_write_feeds:
  assumes "\<And>n. realloc_ok hp n" and "even (length bs)"
  shows "feeds path p (mixer_write hp p bs) bs"
  unfolding feeds_def
proof (intro allI impI)
  fix w assume w: "sound_member w p \<and> length (waits w p) + length bs \<le> record_limit"
  let ?b = "m_mux_buffer (mem w p)"
  have b: "buf_inv ?b" "buf_dynamic ?b" "buf_max_len ?b = 0" "buf_datalen ?b \<le> 2 * record_limit" "buf_blocksize ?b \<le> record_limit"
      "even (length (waits w p))"
    and l: "buf_used ?b + length bs \<le> record_limit"
    using w length_content [of ?b] by (auto simp: sound_member_def sound_buffer_def)
  obtain d where d: "buf_data ?b = Some d" using w by (auto simp: sound_member_def sound_buffer_def)
  have g: "buf_grown ?b (length bs) < 2 ^ 64" using b(4,5) l by (auto simp: buf_grown_def record_limit_def)
  have fits: "buf_fits hp ?b (length bs)" using b(2,3) assms(1) by (simp add: buf_fits_def)
  from write_effect [OF b(1) d g, of hp] fits obtain b' r
    where e: "switch_buffer_write hp ?b bs = Inr (b', r)" "buf_inv b'" "same_config ?b b'" "buf_content b' = waits w p @ bs"
    by (auto split: if_splits)
  from write_datalen [OF b(1) d g e(1)] l b(4,5) have "buf_datalen b' \<le> 2 * record_limit" by (auto simp: buf_grown_def)
  with b e assms(2) d have "sound_buffer b'" by (auto simp: sound_buffer_def same_config_def buf_dynamic_def)
  with w e(1,4) show "sound_member (mixer_write hp p bs w) p \<and> waits (mixer_write hp p bs w) p = waits w p @ bs \<and>
      recorded path (mixer_write hp p bs w) = recorded path w"
    by (simp add: mixer_write_def sound_member_def recorded_def)
qed

text \<open>The packets written for audio, with silence of \<open>n\<close> samples anywhere in between.\<close>

inductive filled :: "nat \<Rightarrow> switch_byte_t list \<Rightarrow> int16 list list \<Rightarrow> bool" where
  no_packet: "filled n [] []"
| packet: "even (length d) \<Longrightarrow> filled n bs cs \<Longrightarrow> filled n (d @ bs) (samples_of d # cs)"
| silent: "filled n bs cs \<Longrightarrow> filled n bs (replicate n (- 1) # cs)"

lemma filled_append: "filled n as cs \<Longrightarrow> filled n bs ds \<Longrightarrow> filled n (as @ bs) (cs @ ds)"
  by (induction rule: filled.induct) (auto intro: filled.intros)

lemma filled_one: "even (length d) \<Longrightarrow> filled n d [samples_of d]"
  using filled.packet [OF _ filled.no_packet, of d n] by simp

lemma sound_upd:
  assumes "sound_member w p"
  shows "sound_member (upd_mem p (\<lambda>m. m\<lparr>m_mux_buffer := fst (switch_buffer_toss (m_mux_buffer (mem w p)) (2 * n))\<rparr>) w) p \<and>
    waits (upd_mem p (\<lambda>m. m\<lparr>m_mux_buffer := fst (switch_buffer_toss (m_mux_buffer (mem w p)) (2 * n))\<rparr>) w) p = drop (2 * n) (waits w p)"
  using assms toss_content [of "m_mux_buffer (mem w p)" "2 * n"]
  by (auto simp: sound_member_def sound_buffer_def switch_buffer_toss_def buf_dynamic_def Let_def)

text \<open>One turn that neither pauses nor fails writes some packets, and what is written comes off the front.\<close>

lemma again_effect:
  assumes "sound_member w p" and "0 < n" and "bs \<noteq> []" and "\<forall>f\<in>set bs. feeds path p f []"
    and "length (waits w p) \<le> record_limit"
  shows "\<exists>r w'. record_again n p False bs (switch_buffer_inuse (m_mux_buffer (mem w p))) w = Inr (Some (r, w')) \<and>
    sound_member w' p \<and> recorded path w' = recorded path w \<and>
    ((\<exists>d. r = Audio d \<and> even (length d) \<and> d \<noteq> [] \<and> waits w p = d @ waits w' p) \<or>
      r = Nothing \<and> waits w' p = waits w p \<and> length (waits w p) < 2 * n)"
proof -
  let ?b = "m_mux_buffer (mem w p)"
  have used: "switch_buffer_inuse ?b = length (waits w p)"
    using assms(1) length_content [of ?b] by (simp add: sound_member_def sound_buffer_def switch_buffer_inuse_def)
  have inv: "buf_inv ?b" using assms(1) by (simp add: sound_member_def sound_buffer_def)
  show ?thesis
  proof (cases "2 * n \<le> length (waits w p)")
    case True
    let ?w = "upd_mem p (\<lambda>m. m\<lparr>m_mux_buffer := fst (switch_buffer_toss ?b (2 * n))\<rparr>) w"
    have "record_again n p False bs (switch_buffer_inuse ?b) w = Inr (Some (Audio (take (2 * n) (waits w p)), ?w))"
      using True assms(2) read_effect [OF inv, of "2 * n"] by (subst record_again.simps) (simp add: used)
    moreover have "take (2 * n) (waits w p) \<noteq> []" using True assms(2) by auto
    ultimately show ?thesis using sound_upd [OF assms(1), of n] True by (auto simp: min_absorb2 recorded_def)
  next
    case False
    obtain f bs' where bs: "bs = f # bs'" using assms(3) by (cases bs) auto
    then have f: "sound_member (f w) p" "waits (f w) p = waits w p" "recorded path (f w) = recorded path w"
      using assms(1,4,5) by (auto simp: feeds_def)
    then have "switch_buffer_inuse (m_mux_buffer (mem (f w) p)) = length (waits w p)"
      using length_content [of "m_mux_buffer (mem (f w) p)"] by (simp add: sound_member_def sound_buffer_def switch_buffer_inuse_def)
    moreover have "upd_mem p (\<lambda>m. m\<lparr>m_mux_buffer := ?b\<rparr>) w = w" by (simp add: upd_mem_def)
    ultimately have "record_again n p False bs (switch_buffer_inuse ?b) w = Inr (Some (Nothing, f w))"
      using False by (subst record_again.simps) (simp add: used bs)
    with f False show ?thesis by auto
  qed
qed

definition good_turn :: "string \<Rightarrow> ptr \<Rightarrow> record_turn \<Rightarrow> bool" where
  "good_turn path p t \<longleftrightarrow> \<not> rt_paused t \<and> rt_write_ok t \<and> rt_between t \<noteq> [] \<and> (\<forall>f\<in>set (rt_between t). feeds path p f [])"

lemma mem_emit: "mem (emit e w) = mem w"
  by (simp add: emit_def)

lemma sound_emit [simp]: "sound_member (emit e w) p \<longleftrightarrow> sound_member w p"
  by (simp add: sound_member_def emit_def)

text \<open>Silence is only written after the lead-in, and once a turn found no packet less than one waits.\<close>

definition keeps_up :: "nat \<Rightarrow> ptr \<Rightarrow> record_vars \<Rightarrow> conf_world \<Rightarrow> bool" where
  "keeps_up n p v w \<longleftrightarrow> rv_no_data v = 0 \<or> rv_lead_in v = 0 \<and> length (waits w p) < 2 * n"

lemma step_effect:
  assumes "sound_member w p" and "0 < n" and "good_turn path p t"
    and "rv_no_data v = 0 \<or> rv_lead_in v = 0"
    and "length (waits w p) \<le> record_limit"
  shows "\<exists>v' w' bs cs. record_step n p path t v w = Inr (Some (v', w')) \<and> sound_member w' p \<and> keeps_up n p v' w' \<and>
    waits w p = bs @ waits w' p \<and> recorded path w' = recorded path w @ cs \<and> filled n bs cs"
proof (cases "rv_lead_in v \<noteq> 0")
  case True
  with assms(1,4) show ?thesis by (auto simp: record_step_def keeps_up_def intro!: exI [of _ "[]"] filled.no_packet)
next
  case False
  have t: "\<not> rt_paused t" "rt_write_ok t" "rt_between t \<noteq> []" "\<forall>f\<in>set (rt_between t). feeds path p f []"
    using assms(3) by (simp_all add: good_turn_def)
  have fl: "flush_mux p w = Inr w" using assms(1) by (simp add: flush_mux_def sound_member_def)
  from again_effect [OF assms(1,2) t(3,4) assms(5)] obtain r w1
    where r: "record_again n p False (rt_between t) (switch_buffer_inuse (m_mux_buffer (mem w p))) w = Inr (Some (r, w1))"
      "sound_member w1 p" "recorded path w1 = recorded path w"
      and d: "(\<exists>d. r = Audio d \<and> even (length d) \<and> d \<noteq> [] \<and> waits w p = d @ waits w1 p) \<or>
        r = Nothing \<and> waits w1 p = waits w p \<and> length (waits w p) < 2 * n"
    by blast
  note eq = record_step_def write_packet_def switch_core_file_write_def fl t(1,2) r(1)
  from d show ?thesis
  proof (elim disjE exE conjE)
    fix d assume d: "r = Audio d" "even (length d)" "d \<noteq> []" "waits w p = d @ waits w1 p"
    have "samples_of d \<noteq> []" using d(2,3) by (metis length_0_conv length_samples_of dvd_div_eq_0_iff)
    then have "record_step n p path t v w = Inr (Some (v\<lparr>rv_no_data := 0\<rparr>, emit (Write_record path (samples_of d)) w1))"
      using False d(1) by (simp add: eq)
    then show ?thesis using d r(2,3) filled_one [OF d(2)]
      by (intro exI [of _ "v\<lparr>rv_no_data := 0\<rparr>"] exI [of _ "emit (Write_record path (samples_of d)) w1"] exI [of _ d]
          exI [of _ "[samples_of d]"]) (simp add: keeps_up_def mem_emit)
  next
    assume n: "r = Nothing" "waits w1 p = waits w p" "length (waits w p) < 2 * n"
    let ?v = "v\<lparr>rv_no_data := rv_no_data v + 1\<rparr>"
    show ?thesis
    proof (cases "rv_no_data v + 1 < 2")
      case True
      then have "record_step n p path t v w = Inr (Some (?v, w1))" using False n(1) by (simp add: eq)
      then show ?thesis using n r(2,3)
        by (intro exI [of _ ?v] exI [of _ w1] exI [of _ "[]"]) (use False in \<open>simp add: filled.no_packet keeps_up_def\<close>)
    next
      case more: False
      then have "record_step n p path t v w = Inr (Some (?v, emit (Write_record path (replicate n (- 1))) w1))"
        using False n(1) assms(2) by (simp add: eq)
      then show ?thesis using n r(2,3) filled.silent [OF filled.no_packet, of n]
        by (intro exI [of _ ?v] exI [of _ "emit (Write_record path (replicate n (- 1))) w1"] exI [of _ "[]"]
            exI [of _ "[replicate n (- 1)]"]) (use False in \<open>simp add: keeps_up_def mem_emit\<close>)
    qed
  qed
qed

text \<open>A run of the loop: what was written and what still waits are what waited and what was added, in order.\<close>

lemma loop_effect:
  assumes "sound_member w p" and "0 < n"
    and "list_all2 (\<lambda>t bs. good_turn path p t \<and> feeds path p (rt_others t) bs) ts fed"
    and "record_loop n p path ts v w = Inr (Some (v', w'))" and "keeps_up n p v w"
    and "length (waits w p) + length (concat fed) \<le> record_limit"
  shows "\<exists>j bs cs. sound_member w' p \<and> waits w p @ concat (take (Suc j) fed) = bs @ waits w' p \<and>
    recorded path w' = recorded path w @ cs \<and> filled n bs cs \<and>
    (rv_no_data v' \<noteq> 0 \<longrightarrow> length (waits w' p) < 2 * n + length (fed ! j))"
  using assms(3,1,4,5,6)
proof (induction ts fed arbitrary: v w rule: list_all2_induct)
  case Nil
  then show ?case by simp
next
  case (Cons t ts a fed)
  let ?w = "rt_others t w"
  have o: "sound_member ?w p" "waits ?w p = waits w p @ a" "recorded path ?w = recorded path w"
    using Cons.hyps(1) Cons.prems(1,4) by (auto simp: feeds_def)
  show ?case
  proof (cases "mflag ?w p MFLAG_RUNNING \<and> cflag ?w CFLAG_RUNNING \<and> c_count (conf ?w) \<noteq> 0")
    case False
    with Cons.prems(2) have "w' = ?w" "v' = v" by (auto simp: Let_def)
    with o Cons.prems(3) show ?thesis
      by (intro exI [of _ 0] exI [of _ "[]"]) (auto simp: filled.no_packet keeps_up_def)
  next
    case True
    have g: "good_turn path p t" "rv_no_data v = 0 \<or> rv_lead_in v = 0" using Cons.hyps(1) Cons.prems(3) by (auto simp: keeps_up_def)
    have "length (waits ?w p) \<le> record_limit" using o(2) Cons.prems(4) by simp
    from step_effect [OF o(1) assms(2) g this] obtain v1 w1 bs cs
      where s: "record_step n p path t v ?w = Inr (Some (v1, w1))" "sound_member w1 p" "waits ?w p = bs @ waits w1 p"
        "recorded path w1 = recorded path ?w @ cs" "filled n bs cs" "keeps_up n p v1 w1" by blast
    have "record_loop n p path ts v1 w1 = Inr (Some (v', w'))" using Cons.prems(2) True s(1) by (simp add: Let_def)
    moreover have "length (waits w1 p) + length (concat fed) \<le> record_limit"
      using arg_cong [OF s(3), of length] o(2) Cons.prems(4) by simp
    ultimately obtain j bs' cs' where i: "sound_member w' p"
      "waits w1 p @ concat (take (Suc j) fed) = bs' @ waits w' p"
      "recorded path w' = recorded path w1 @ cs'" "filled n bs' cs'"
      "rv_no_data v' \<noteq> 0 \<longrightarrow> length (waits w' p) < 2 * n + length (fed ! j)" using Cons.IH [OF s(2) _ s(6)] by blast
    have "waits w p @ concat (take (Suc (Suc j)) (a # fed)) = (bs @ bs') @ waits w' p" using o(2) s(3) i(2) by simp (metis append.assoc)
    moreover have "recorded path w' = recorded path w @ (cs @ cs')" using o(3) s(4) i(3) by simp
    ultimately show ?thesis using i(1,5) filled_append [OF s(5) i(4)]
      by (intro exI [of _ "Suc j"] exI [of _ "bs @ bs'"] exI [of _ "cs @ cs'"]) simp
  qed
qed

lemma drain_effect:
  assumes "sound_member w p" and "0 < n" and "list_all2 (feeds path p) fs late"
    and "length (waits w p) + length (concat late) < length fs" and "length (waits w p) + length (concat late) \<le> record_limit"
  shows "\<exists>w' j cs. record_drain n p path File_open fs w = Inr (Some w') \<and> waits w' p = [] \<and>
    recorded path w' = recorded path w @ cs \<and> filled n (waits w p @ concat (take j late)) cs"
  using assms(3,1,4,5)
proof (induction fs late arbitrary: w rule: list_all2_induct)
  case Nil
  then show ?case by simp
next
  case (Cons f fs a late)
  let ?w = "f w" and ?b = "m_mux_buffer (mem (f w) p)"
  let ?w1 = "upd_mem p (\<lambda>m. m\<lparr>m_mux_buffer := fst (switch_buffer_toss ?b (2 * n))\<rparr>) ?w"
  have o: "sound_member ?w p" "waits ?w p = waits w p @ a" "recorded path ?w = recorded path w"
    using Cons.hyps(1) Cons.prems(1,3) by (auto simp: feeds_def)
  have r: "switch_buffer_read ?b (2 * n) = Inr (fst (switch_buffer_toss ?b (2 * n)), take (2 * n) (waits ?w p))"
    using o(1) by (intro read_effect) (simp add: sound_member_def sound_buffer_def)
  have t: "sound_member ?w1 p" "waits ?w1 p = drop (2 * n) (waits ?w p)" using sound_upd [OF o(1), of n] by blast+
  show ?case
  proof (cases "waits ?w p = []")
    case True
    with r t o show ?thesis
      by (intro exI [of _ ?w1] exI [of _ "Suc 0"] exI [of _ "[]"]) (auto simp: Let_def recorded_def intro: filled.no_packet)
  next
    case False
    let ?d = "take (2 * n) (waits ?w p)" and ?w2 = "emit (Write_record path (samples_of (take (2 * n) (waits ?w p)))) ?w1"
    have "?d \<noteq> []" using False assms(2) by simp
    then have g: "record_drain n p path File_open (f # fs) w = record_drain n p path File_open fs ?w2"
      using r by (simp add: Let_def switch_core_file_write_def)
    have w2: "sound_member ?w2 p" using t(1) by simp
    have left: "waits ?w2 p = drop (2 * n) (waits ?w p)" using t(2) by (simp add: emit_def)
    have "length (waits ?w2 p) + length (concat late) < length fs" "length (waits ?w2 p) + length (concat late) \<le> record_limit"
    proof -
      have "length (waits ?w2 p) < length (waits ?w p)" using False assms(2) by (simp only: left length_drop) simp
      moreover have "length (waits ?w p) = length (waits w p) + length a" by (simp add: o(2))
      ultimately show "length (waits ?w2 p) + length (concat late) < length fs"
        "length (waits ?w2 p) + length (concat late) \<le> record_limit" using Cons.prems(2,3) by simp_all
    qed
    from Cons.IH [OF w2 this] obtain w' j cs where i: "record_drain n p path File_open fs ?w2 = Inr (Some w')" "waits w' p = []"
      "recorded path w' = recorded path ?w2 @ cs" "filled n (waits ?w2 p @ concat (take j late)) cs" by blast
    have "even (length ?d)" using o(1) by (auto simp: sound_member_def sound_buffer_def min_def)
    then have "filled n (?d @ waits ?w2 p @ concat (take j late)) (samples_of ?d # cs)" using i(4) by (rule filled.packet)
    moreover have "waits w p @ concat (take (Suc j) (a # late)) = waits ?w p @ concat (take j late)" by (simp add: o(2))
    then have "waits w p @ concat (take (Suc j) (a # late)) = ?d @ waits ?w2 p @ concat (take j late)"
      by (simp only: left append_assoc [symmetric] append_take_drop_id)
    ultimately have "filled n (waits w p @ concat (take (Suc j) (a # late))) (samples_of ?d # cs)" by (simp only:)
    moreover have "recorded path w' = recorded path w @ (samples_of ?d # cs)" using i(3) o(3) by (simp add: recorded_def [of _ "upd_mem _ _ _"]) (simp add: recorded_def)
    moreover have "record_drain n p path File_open (f # fs) w = Inr (Some w')" using g i(1) by (simp only:)
    ultimately show ?thesis using i(2) by blast
  qed
qed

text \<open>
  C8. What a recording is sent gets into the file: whatever the mixing thread adds before the turns
  and before the reads of the end, the packets written by the loop and at the end are, in order and with
  nothing but packets of silence in between, all that waited and was added, up to what is left when
  the file is closed.  Nothing is left when the last turn found a packet; otherwise what is left is
  shorter than a packet and what came since.  The writing of the rest ends, at the latest after as
  many reads as bytes were to come, and closing follows.
\<close>

theorem recording_is_complete:
  assumes "sound_member w p" and "0 < n"
    and "list_all2 (\<lambda>t bs. good_turn path p t \<and> feeds path p (rt_others t) bs) ts fed"
    and "record_loop n p path ts \<lparr>rv_lead_in = lead, rv_no_data = 0\<rparr> w = Inr (Some (v', w'))"
    and "list_all2 (feeds path p) fs late" and "length (waits w' p) + length (concat late) < length fs"
    and "length (waits w p) + length (concat fed) + length (concat late) \<le> record_limit"
  shows "\<exists>w'' j k bs cs.
    record_end env n p path True File_open (rv_no_data v') fs w' = bindE (record_close env p path File_open w'') (\<lambda>w. Inr (Some w)) \<and>
    recorded path w'' = recorded path w @ cs \<and> filled n bs cs \<and>
    bs @ waits w'' p = waits w p @ concat (take (Suc j) fed) @ concat (take k late) \<and>
    (if rv_no_data v' = 0 then waits w'' p = [] else length (waits w'' p) < 2 * n + length (fed ! j))"
proof -
  have "keeps_up n p \<lparr>rv_lead_in = lead, rv_no_data = 0\<rparr> w" by (simp add: keeps_up_def)
  moreover have "length (waits w p) + length (concat fed) \<le> record_limit" using assms(7) by simp
  ultimately obtain j bs cs where l: "sound_member w' p"
    "waits w p @ concat (take (Suc j) fed) = bs @ waits w' p"
    "recorded path w' = recorded path w @ cs" "filled n bs cs"
    "rv_no_data v' \<noteq> 0 \<longrightarrow> length (waits w' p) < 2 * n + length (fed ! j)" using loop_effect [OF assms(1-4)] by blast
  have "length (concat fed) = length (concat (take (Suc j) fed)) + length (concat (drop (Suc j) fed))"
    by (simp only: length_append [symmetric] concat_append [symmetric] append_take_drop_id)
  then have room: "length (waits w' p) + length (concat late) \<le> record_limit"
    using arg_cong [OF l(2), of length] assms(7) by simp
  show ?thesis
  proof (cases "rv_no_data v' = 0")
    case True
    from drain_effect [OF l(1) assms(2,5,6) room] obtain w'' k ds where d: "record_drain n p path File_open fs w' = Inr (Some w'')"
      "waits w'' p = []" "recorded path w'' = recorded path w' @ ds" "filled n (waits w' p @ concat (take k late)) ds" by blast
    have "(bs @ waits w' p @ concat (take k late)) @ waits w'' p = waits w p @ concat (take (Suc j) fed) @ concat (take k late)"
      using l(2) d(2) by (metis append.assoc append_Nil2)
    with True l(3) d filled_append [OF l(4) d(4)] show ?thesis
      by (intro exI [of _ w''] exI [of _ j] exI [of _ k] exI [of _ "bs @ waits w' p @ concat (take k late)"] exI [of _ "cs @ ds"])
        (simp add: record_end_def)
  next
    case False
    with l show ?thesis
      by (intro exI [of _ w'] exI [of _ j] exI [of _ 0] exI [of _ bs] exI [of _ cs]) (simp add: record_end_def)
  qed
qed

lemma conf_buffer_empty: "conf_buffer memory i = Some b \<Longrightarrow> sound_buffer b \<and> buf_content b = []"
  by (auto simp: sound_buffer_def record_limit_def buf_dynamic_def SWITCH_BUFFER_FLAG_DYNAMIC_def CONF_DBUFFER_MAX_def CONF_DBLOCK_SIZE_def conf_buffer_def switch_buffer_create_dynamic_def buf_inv_def buf_content_def CONF_DBUFFER_SIZE_def CONF_BUFFER_SIZE_def
      split: if_splits)

text \<open>A handle that is not open takes what waits and writes nothing; reading it still ends.\<close>

lemma drain_discards:
  assumes "sound_member w p" and "0 < n" and "list_all2 (feeds path p) fs late"
    and "length (waits w p) + length (concat late) < length fs" and "length (waits w p) + length (concat late) \<le> record_limit"
  shows "\<exists>w'. record_drain n p path Not_open fs w = Inr (Some w') \<and> waits w' p = [] \<and> recorded path w' = recorded path w"
  using assms(3,1,4,5)
proof (induction fs late arbitrary: w rule: list_all2_induct)
  case (Cons f fs a late)
  let ?w = "f w" and ?b = "m_mux_buffer (mem (f w) p)"
  let ?w1 = "upd_mem p (\<lambda>m. m\<lparr>m_mux_buffer := fst (switch_buffer_toss ?b (2 * n))\<rparr>) ?w"
  have o: "sound_member ?w p" "waits ?w p = waits w p @ a" "recorded path ?w = recorded path w"
    using Cons.hyps(1) Cons.prems(1,3) by (auto simp: feeds_def)
  have r: "switch_buffer_read ?b (2 * n) = Inr (fst (switch_buffer_toss ?b (2 * n)), take (2 * n) (waits ?w p))"
    using o(1) by (intro read_effect) (simp add: sound_member_def sound_buffer_def)
  have t: "sound_member ?w1 p" "waits ?w1 p = drop (2 * n) (waits ?w p)" using sound_upd [OF o(1), of n] by blast+
  have rec: "recorded path ?w1 = recorded path w" using o(3) by (simp add: recorded_def)
  show ?case
  proof (cases "waits ?w p = []")
    case True
    with r t(2) rec show ?thesis by (intro exI [of _ ?w1]) (simp add: Let_def)
  next
    case False
    then have g: "record_drain n p path Not_open (f # fs) w = record_drain n p path Not_open fs ?w1"
      using r assms(2) by (simp add: Let_def switch_core_file_write_def)
    have "length (waits ?w1 p) < length (waits ?w p)" using False assms(2) by (simp only: t(2) length_drop) simp
    moreover have "length (waits ?w p) = length (waits w p) + length a" by (simp add: o(2))
    ultimately have "length (waits ?w1 p) + length (concat late) < length fs"
      "length (waits ?w1 p) + length (concat late) \<le> record_limit" using Cons.prems(2,3) by simp_all
    from Cons.IH [OF t(1) this] show ?thesis unfolding g rec .
  qed
qed simp

text \<open>With its buffers the thread joins the conference, where its buffer is empty at first.\<close>

lemma record_thread_joins:
  fixes w :: conf_world
  assumes "ri_lock_ok i" and "ri_audio_ok i" and "ri_mux_ok i"
  defines "n \<equiv> unat (switch_samples_per_packet (c_rate (conf w)) (c_interval (conf w)))"
  shows "\<exists>w1. sound_member w1 p \<and> waits w1 p = [] \<and> recorded path w1 = recorded path w \<and>
    (\<forall>ts fs. conference_record_thread_run env i path p ts fs w = record_joined env i n path p ts fs w1)"
proof -
  obtain b c where b: "conf_buffer True (ri_buffer_id i) = Some b" "conf_buffer True (ri_buffer_id i + 1) = Some c"
    by (simp add: conf_buffer_def switch_buffer_create_dynamic_def CONF_DBUFFER_SIZE_def)
  have c: "sound_buffer c" "buf_content c = []" using conf_buffer_empty [OF b(2)] by simp_all
  obtain mid w0 where w0: "next_member_id w = (mid, w0)" by fastforce
  then have "out w0 = out w" by (auto simp: next_member_id_def Let_def)
  let ?w1 = "link_member env p (upd_mem p (\<lambda>m. m\<lparr>m_audio_buffer := b, m_mux_buffer := c\<rparr>)
      (w0\<lparr>mem := (mem w0)(p := record_member path mid)\<rparr>))"
  have "sound_member ?w1 p" "waits ?w1 p = []" using c by (simp_all add: sound_member_def link_member_def upd_conf_def record_member_def)
  moreover have "recorded path ?w1 = recorded path w"
    using \<open>out w0 = out w\<close> by (simp add: recorded_def link_member_def upd_conf_def upd_mem_def)
  moreover have "conference_record_thread_run env i path p ts fs w = record_joined env i n path p ts fs ?w1" for ts fs
    using assms(1-3) b w0
    by (simp add: conference_record_thread_run_def conference_add_member_def link_member_same record_member_def n_def Let_def)
  ultimately show ?thesis by blast
qed


section \<open>Examples\<close>

text \<open>
  A sample waits, the mixing thread adds a second one before the turn in which the recording is
  stopped, and a third one before the first read of the end.
\<close>

definition record_world :: conf_world where
  "record_world = sample_world\<lparr>mem := (mem sample_world)(3 := (mem sample_world 3)\<lparr>m_mux_buffer :=
     plain_buffer\<lparr>buf_data := Some [1, 0], buf_used := 2, buf_actually_used := 2, buf_datalen := 2\<rparr>\<rparr>)\<rparr>"

definition free_heap :: heap where
  "free_heap = \<lparr>realloc_ok = (\<lambda>_. True), junk = (\<lambda>_. 0)\<rparr>"

definition stop_turn :: record_turn where
  "stop_turn = \<lparr>rt_others = (\<lambda>w. clear_mflag 3 MFLAG_RUNNING (mixer_write free_heap 3 [2, 0] w)), rt_between = [\<lambda>w. w],
     rt_paused = False, rt_write_ok = True\<rparr>"

definition end_reads :: "(conf_world \<Rightarrow> conf_world) list" where
  "end_reads = mixer_write free_heap 3 [3, 0] # replicate 9 (\<lambda>w. w)"

lemma record_world_sound: "sound_member record_world 3" "waits record_world 3 = [1, 0]" "recorded path record_world = []"
  by (simp_all add: sound_member_def sound_buffer_def record_limit_def record_world_def sample_world_def caller_def plain_buffer_def
      buf_inv_def buf_content_def buf_dynamic_def SWITCH_BUFFER_FLAG_DYNAMIC_def
      recorded_def List.map_filter_def)

lemma feeds_then_clear: "feeds path p f bs \<Longrightarrow> feeds path p (\<lambda>w. clear_mflag p MFLAG_RUNNING (f w)) bs"
  by (auto simp: feeds_def sound_member_def clear_mflag_def recorded_def)

lemma example_feeds:
  "feeds path p (\<lambda>w. w) []" "feeds path 3 (rt_others stop_turn) [2, 0]" "list_all2 (feeds path 3) end_reads ([3, 0] # replicate 9 [])"
proof -
  have f: "feeds path 3 (mixer_write free_heap 3 [x, 0]) [x, 0]" for x by (rule mixer_write_feeds) (simp_all add: free_heap_def)
  show i: "feeds path p (\<lambda>w. w) []" for p by (simp add: feeds_def)
  show "feeds path 3 (rt_others stop_turn) [2, 0]" using feeds_then_clear [OF f] by (simp add: stop_turn_def)
  show "list_all2 (feeds path 3) end_reads ([3, 0] # replicate 9 [])"
    using f i by (simp add: end_reads_def list_all2_conv_all_nth [of _ "replicate _ _"])
qed

theorem recording_is_complete_witness:
  "\<exists>v w' w'' cs. record_loop (Suc 0) 3 ''a.wav'' [stop_turn] \<lparr>rv_lead_in = 0, rv_no_data = 0\<rparr> record_world = Inr (Some (v, w')) \<and>
     record_end plain_env (Suc 0) 3 ''a.wav'' True File_open (rv_no_data v) end_reads w' =
       bindE (record_close plain_env 3 ''a.wav'' File_open w'') (\<lambda>w. Inr (Some w)) \<and>
     recorded ''a.wav'' w'' = cs \<and> (\<exists>k. filled (Suc 0) ([1, 0, 2, 0] @ concat (take k ([3, 0] # replicate 9 []))) cs)"
proof -
  let ?w' = "rt_others stop_turn record_world" and ?v = "\<lparr>rv_lead_in = 0, rv_no_data = 0\<rparr>"
  have "\<not> mflag ?w' 3 MFLAG_RUNNING" by (simp add: stop_turn_def clear_mflag_def)
  then have l: "record_loop (Suc 0) 3 ''a.wav'' [stop_turn] ?v record_world = Inr (Some (?v, ?w'))" by (simp add: Let_def)
  have t: "list_all2 (\<lambda>t bs. good_turn ''a.wav'' 3 t \<and> feeds ''a.wav'' 3 (rt_others t) bs) [stop_turn] [[2, 0]]"
    using example_feeds(1,2) by (simp add: good_turn_def) (simp add: stop_turn_def)
  have w: "waits ?w' 3 = [1, 0, 2, 0]"
    using example_feeds(2) record_world_sound unfolding feeds_def by (auto simp: record_limit_def)
  from recording_is_complete [OF record_world_sound(1) _ t l example_feeds(3), of plain_env] obtain w'' j k bs cs
    where e: "record_end plain_env (Suc 0) 3 ''a.wav'' True File_open (rv_no_data ?v) end_reads ?w' =
        bindE (record_close plain_env 3 ''a.wav'' File_open w'') (\<lambda>w. Inr (Some w))"
      "recorded ''a.wav'' w'' = recorded ''a.wav'' record_world @ cs" "filled (Suc 0) bs cs"
      "bs @ waits w'' 3 = waits record_world 3 @ concat (take (Suc j) [[2, 0]]) @ concat (take k ([3, 0] # replicate 9 []))"
      "waits w'' 3 = []"
    by (auto simp: w record_limit_def end_reads_def record_world_sound)
  have "bs = [1, 0, 2, 0] @ concat (take k ([3, 0] # replicate 9 []))" using e(4,5) by (simp add: record_world_sound(2))
  with l e(1-3) show ?thesis
    by (intro exI [of _ ?v] exI [of _ ?w'] exI [of _ w''] exI [of _ cs]) (auto simp: record_world_sound(3))
qed

text \<open>Only the format \<open>wav\<close> is known, and its files cannot be opened.\<close>

definition failing_input :: "bool \<Rightarrow> record_input" where
  "failing_input memory = \<lparr>ri_lock_ok = True, ri_audio_ok = memory, ri_mux_ok = True, ri_buffer_id = 0,
     ri_formats = (\<lambda>ext. ext = ''wav''), ri_open_ok = False, ri_created = False, ri_timer_ok = True\<rparr>"


end
