(* ===== verification/Conference_Levels.thy ===== *)
theory Conference_Levels
  imports Conference_Voice
begin

text \<open>
  The ranges of what the input thread measures.  The sources keep the score, its running mean, the
  gain and the two hit counters in integers that could hold far more; the model of the running mean
  takes the conversion of the scores to \<open>float\<close> for exact.  The invariant below says that this is
  so: whatever frames arrive, the values stay within the ranges they are meant to have.
\<close>

definition typed_member :: "conference_member \<Rightarrow> bool" where
  "typed_member m \<longleftrightarrow> m_score m \<le> 32768 \<and> m_last_score m \<le> 32768 \<and> m_score_iir m \<le> SCORE_MAX_IIR \<and>
     - 12 \<le> m_agc_volume_in_level m \<and> m_agc_volume_in_level m \<le> 12"

lemma typed_clear_avg [simp]: "typed_member (clear_avg m) = typed_member m"
  by (simp add: typed_member_def clear_avg_def)

lemma typed_fields [simp]:
  "typed_member (m\<lparr>m_flags := a\<rparr>) = typed_member m" "typed_member (m\<lparr>m_nt_tally := b\<rparr>) = typed_member m"
  "typed_member (m\<lparr>m_last_talking := c\<rparr>) = typed_member m" "typed_member (m\<lparr>m_agc_concur := d\<rparr>) = typed_member m"
  "typed_member (m\<lparr>m_audio_buffer := e\<rparr>) = typed_member m" "typed_member (m\<lparr>m_vol_period := f\<rparr>) = typed_member m"
  "typed_member (m\<lparr>m_avg_tally := g, m_avg_itt := h, m_avg_score := i\<rparr>) = typed_member m"
  by (simp_all add: typed_member_def)

lemma typed_agc_level:
  "typed_member m \<Longrightarrow> typed_member (m\<lparr>m_agc_volume_in_level := switch_normalize_volume_granular x\<rparr>)"
  "typed_member m \<Longrightarrow> typed_member (m\<lparr>m_agc_volume_in_level := 0\<rparr>)"
  by (auto simp: typed_member_def switch_normalize_volume_granular_def Let_def)

lemma typed_check_agc: "typed_member m \<Longrightarrow> typed_member (check_agc_levels c m)"
  by (simp add: check_agc_levels_def typed_agc_level)

lemma typed_agc_frame: "typed_member m \<Longrightarrow> typed_member (agc_frame impl c m)"
  by (simp add: agc_frame_def agc_average_def typed_check_agc Let_def)

lemma score_iir_bound: "next_score_iir s i \<le> SCORE_MAX_IIR"
  by (simp add: next_score_iir_def Let_def not_less)

lemma typed_measure: "typed_member m \<Longrightarrow> s \<le> 32768 \<Longrightarrow> typed_member (measure_member impl c s m)"
proof -
  assume m: "typed_member m" "s \<le> 32768"
  define m1 where "m1 = agc_frame impl c (m\<lparr>m_score := s, m_vol_period := (if m_vol_period m = 0 then 0 else m_vol_period m - 1)\<rparr>)"
  have "typed_member m1" unfolding m1_def by (intro typed_agc_frame) (use m in \<open>simp add: typed_member_def\<close>)
  then show ?thesis using score_iir_bound by (simp add: measure_member_def m1_def [symmetric] typed_member_def Let_def)
qed

lemma typed_upd: "(\<And>m. typed_member m \<Longrightarrow> typed_member (f m)) \<Longrightarrow> typed_member (mem w p) \<Longrightarrow> typed_member (mem (upd_mem p f w) p)"
  by simp

lemma typed_flags [simp]:
  "typed_member (mem (set_mflag q f w) p) = typed_member (mem w p)" "typed_member (mem (clear_mflag q f w) p) = typed_member (mem w p)"
  by (simp_all add: set_mflag_def clear_mflag_def)

lemma typed_nt_tally [simp]: "typed_member (mem (set_nt_tally f p w) p) = typed_member (mem w p)"
  by (simp add: set_nt_tally_def)

lemma typed_quiet_hit: "typed_member (mem w p) \<Longrightarrow> typed_member (mem (snd (quiet_hit p v w)) p)"
  by (simp add: quiet_hit_def typed_check_agc Let_def)

lemma typed_cng: "typed_member (mem w p) \<Longrightarrow> typed_member (mem (snd (cng_frame p v w)) p)"
  by (auto simp: cng_frame_def Let_def intro: typed_quiet_hit)

lemma typed_settle: "typed_member (mem w p) \<Longrightarrow> typed_member (mem (settle_gain impl p w) p)"
  by (simp add: settle_gain_def typed_agc_level Let_def)

lemma typed_start: "typed_member (mem w p) \<Longrightarrow> typed_member (mem (start_talking p w) p)"
  by (simp add: start_talking_def Let_def)

lemma typed_loud: "typed_member (mem w p) \<Longrightarrow> typed_member (mem (snd (snd (loud_frame env p v w))) p)"
  by (simp add: loud_frame_def typed_start Let_def)

lemma typed_quiet: "typed_member (mem w p) \<Longrightarrow> typed_member (mem (snd (quiet_frame p v w)) p)"
  by (simp add: quiet_frame_def typed_quiet_hit Let_def)

lemma typed_detect:
  assumes "typed_member (mem w p)" and "detect_talking env p v w = (fl, v', w')"
  shows "typed_member (mem w' p)"
proof -
  obtain fl1 v1 w1 where d: "(if noise_gate_check (conf w) (mem w p) then loud_frame env p v w else (False, quiet_frame p v w)) = (fl1, v1, w1)"
    by (rule prod_cases3)
  have "typed_member (mem w1 p)" using d typed_loud [OF assms(1), of env v] typed_quiet [OF assms(1), of v] by (auto split: if_splits)
  moreover have "w' = upd_mem p (\<lambda>m. m\<lparr>m_last_score := m_score m\<rparr>) w1" using assms(2) d by (simp add: detect_talking_def)
  ultimately show ?thesis by (simp add: typed_member_def)
qed

lemma hits_quiet_hit: "hits_ok v \<Longrightarrow> hits_ok (fst (quiet_hit p v w))"
  by (auto simp: quiet_hit_def hits_ok_def hangover_def Let_def word_le_nat_alt hits_Suc)

lemma hits_detect:
  assumes "hits_ok v" and "detect_talking env p v w = (fl, v', w')"
  shows "hits_ok v'"
proof -
  have q: "hits_ok (v\<lparr>hangunder_hits := dec_hits (hangunder_hits v)\<rparr>)" "hits_ok (v\<lparr>hangover_hits := dec_hits (hangover_hits v)\<rparr>)"
    using assms(1) by (auto simp: hits_ok_def)
  have "unat (hangunder_hits v + 1) = Suc (unat (hangunder_hits v))" using assms(1) by (intro hits_Suc) (simp add: hits_ok_def)
  then have l: "hits_ok (fst (snd (loud_frame env p v w)))"
    using q(2) by (auto simp: loud_frame_def hits_ok_def hangunder_def Let_def word_le_nat_alt)
  have "hits_ok (fst (quiet_frame p v w))" using q(1) hits_quiet_hit by (simp add: quiet_frame_def Let_def)
  with l assms(2) show ?thesis by (auto simp: detect_talking_def split: prod.splits if_splits)
qed

lemma frame_score_range:
  assumes "number_of_channels impl = 1" and "frame_ok fr" and "\<not> fr_cng fr" and "frame_score impl fr = Inr s"
  shows "s \<le> 32768"
proof -
  let ?n = "int (length (fr_data fr))"
  have "(\<Sum>x\<leftarrow>fr_data fr. \<bar>sint x\<bar>) div ?n \<le> 32768"
  proof (cases "?n = 0")
    case False
    then show ?thesis using zdiv_mono1 [OF amplitude_bounds(2) [of "fr_data fr"], of ?n] by simp
  qed simp
  then have "uint s \<le> uint (32768 :: uint32)" using frame_score_mean [OF assms] by simp
  then show ?thesis by (simp add: word_le_def)
qed

lemma volume_keeps_shape:
  assumes "frame_volume m fr = Inr fr'" and "frame_ok fr" and "\<not> fr_cng fr"
  shows "frame_ok fr' \<and> \<not> fr_cng fr'"
proof -
  have "unat (fr_datalen fr) div 2 \<le> length (fr_data fr)" using assms(2,3) by (simp add: frame_ok_def)
  from frame_volume_ok [OF this, of m] obtain d where "length d = length (fr_data fr)" "fr' = fr\<lparr>fr_data := d\<rparr>"
    using assms(1) by auto
  with assms(2,3) show ?thesis by (simp add: frame_ok_def)
qed

lemma typed_pass_on: "pass_on ie p fr w = Inr (go, w') \<Longrightarrow> typed_member (mem w' p) = typed_member (mem w p)"
  by (auto simp: pass_on_def Let_def bindE_eq_Inr split: if_splits prod.splits)

lemma typed_frame:
  assumes "typed_member (mem w p)" and "hits_ok v" and "frame_ok fr" and "number_of_channels (i_impl ie) = 1"
    and "input_frame ie p fr v w = Inr (go, v', w')"
  shows "typed_member (mem w' p) \<and> hits_ok v'"
proof (cases "fr_cng fr")
  case True
  with assms(5) have "cng_frame p v w = (v', w')" by (auto simp: input_frame_def split: if_splits)
  then show ?thesis using typed_cng [OF assms(1), of v] talk_cng(2) [OF assms(2), of p w] by simp
next
  case False
  obtain fl go1 w2 where mf: "media_frame ie p fr v w = Inr (fl, go1, v', w2)" and w2: "mem w' = mem w2"
    using assms(5) False by (auto simp: input_frame_def bindE_eq_Inr split: if_splits)
  let ?w = "settle_gain (i_impl ie) p w"
  from media_frame_parts [OF mf] obtain fr' w1 where po: "pass_on ie p fr' w1 = Inr (go1, w2)"
    and d: "if mflag w p MFLAG_CAN_SPEAK \<or> mflag w p MFLAG_MUTE_DETECT
     then \<exists>s. frame_volume (mem ?w p) fr = Inr fr' \<and> frame_score (i_impl ie) fr' = Inr s \<and>
       detect_talking (i_env ie) p v (upd_mem p (measure_member (i_impl ie) (conf w) s) ?w) = (fl, v', w1)
     else fr' = fr \<and> \<not> fl \<and> v' = v \<and> w1 = ?w" by blast
  have t: "typed_member (mem ?w p)" using assms(1) by (rule typed_settle)
  have "typed_member (mem w1 p) \<and> hits_ok v'"
  proof (cases "mflag w p MFLAG_CAN_SPEAK \<or> mflag w p MFLAG_MUTE_DETECT")
    case True
    with d obtain s where s: "frame_volume (mem ?w p) fr = Inr fr'" "frame_score (i_impl ie) fr' = Inr s"
      "detect_talking (i_env ie) p v (upd_mem p (measure_member (i_impl ie) (conf w) s) ?w) = (fl, v', w1)" by auto
    have "s \<le> 32768" using volume_keeps_shape [OF s(1) assms(3) False] s(2) by (intro frame_score_range [OF assms(4)]) auto
    with t have "typed_member (mem (upd_mem p (measure_member (i_impl ie) (conf w) s) ?w) p)" by (simp add: typed_measure)
    with typed_detect [OF _ s(3)] hits_detect [OF assms(2) s(3)] show ?thesis by simp
  qed (use d t assms(2) in simp)
  with typed_pass_on [OF po] w2 show ?thesis by simp
qed

text \<open>
  C10. Whatever frames a member sends, and whatever the other threads do to it that keeps its
  levels in range, after any number of frames its score and the one before are at most 32768, the
  running mean at most \<open>SCORE_MAX_IIR\<close>, the gain between -12 and 12, and the two counters of the
  detection below their limits.
\<close>

theorem levels_typed:
  assumes "typed_member (mem w p)" and "number_of_channels (i_impl ie) = 1"
    and "\<forall>r\<in>set rs. \<forall>w. frame_ok (fst (snd (r w))) \<and> (typed_member (mem w p) \<longrightarrow> typed_member (mem (snd (snd (r w))) p))"
    and "conference_loop_input ie p rs w = Inr (go_on, v, w')"
  shows "typed_member (mem w' p) \<and> unat (hangover_hits v) < 40 \<and> unat (hangunder_hits v) < 5"
proof -
  have "typed_member (mem w' p) \<and> hits_ok v"
    if "input_loop ie p rs v0 w0 = Inr (go_on, v, w')" "typed_member (mem w0 p)" "hits_ok v0" for v0 w0
    using assms(3) that
  proof (induction rs arbitrary: v0 w0)
    case Nil
    then show ?case by simp
  next
    case (Cons r rs)
    obtain st fr w1 where r: "r w0 = (st, fr, w1)" by (rule prod_cases3)
    have k: "frame_ok fr" "typed_member (mem w1 p)" using Cons.prems(1,3) r by (auto dest!: spec [of _ w0])
    obtain ch where ch: "member_channel w0 p = Inr ch" using Cons.prems(2) by (auto simp: bindE_eq_Inr)
    note IH = Cons.IH [of v0 w1] Cons.prems
    show ?case
    proof (cases "input_frame ie p fr v0 w1")
      case (Inl e)
      with Cons.prems ch r k IH(1) show ?thesis by (auto simp: input_end_def split: if_splits)
    next
      case (Inr x)
      obtain go v2 w2 where x: "x = (go, v2, w2)" by (rule prod_cases3)
      with typed_frame [OF k(2) Cons.prems(4) k(1) assms(2)] Inr have "typed_member (mem w2 p)" "hits_ok v2" by auto
      with Cons.prems ch r k IH(1) Inr x Cons.IH [of v2 w2] show ?thesis by (auto simp: input_end_def split: if_splits)
    qed
  qed
  from this [of no_hits "clear_mflag p MFLAG_TALKING w"] assms(1,4) show ?thesis
    by (auto simp: conference_loop_input_def bindE_eq_Inr hits_ok_def no_hits_def)
qed

theorem levels_typed_witness:
  "\<exists>v w'. conference_loop_input voice_env 2 [given loud] (voice_world speaker) = Inr (True, v, w') \<and>
    typed_member (mem w' 2) \<and> unat (hangover_hits v) < 40 \<and> unat (hangunder_hits v) < 5"
proof -
  obtain v w' where l: "conference_loop_input voice_env 2 [given loud] (voice_world speaker) = Inr (True, v, w')"
    using loud_loop(1) by blast
  have t: "typed_member (mem (voice_world speaker) 2)" by (simp add: voice_world_def caller_def typed_member_def)
  have r: "\<forall>r\<in>set [given loud]. \<forall>w. frame_ok (fst (snd (r w))) \<and> (typed_member (mem w 2) \<longrightarrow> typed_member (mem (snd (snd (r w))) 2))"
    by (simp add: given_def frame_ok_def)
  from levels_typed [OF t voice_env_facts(2) r l] l show ?thesis by blast
qed

end
