(* ===== verification/Conference_Path.thy ===== *)
theory Conference_Path
  imports Conference_Output
begin

text \<open>
  The way of a voice through the conference: from the buffers that the input threads fill, through a
  whole turn of the mixing thread (\<open>conference_turn\<close>), to the frame that the output thread of a
  listener writes to its session (\<open>deliver\<close>).
\<close>

section \<open>Reading all members\<close>

definition talks :: "mix_env \<Rightarrow> conf_world \<Rightarrow> ptr \<Rightarrow> bool" where
  "talks env w p \<longleftrightarrow> x_bytes env \<le> length (buf_content (m_audio_buffer (mem w p)))"

definition packet_of :: "mix_env \<Rightarrow> conf_world \<Rightarrow> ptr \<Rightarrow> int16 list" where
  "packet_of env w p = samples_of (take (x_bytes env) (buf_content (m_audio_buffer (mem w p))))"

text \<open>What reading makes of a member.\<close>

definition taken :: "mix_env \<Rightarrow> conference_member \<Rightarrow> conference_member" where
  "taken env m =
     (let b = m_audio_buffer m; n = x_bytes env in
      if n \<le> length (buf_content b)
      then m\<lparr>m_audio_buffer := fst (switch_buffer_toss b n), m_frame := take n (buf_content b) @ drop n (m_frame m),
             m_read := of_nat n, m_flags := insert MFLAG_HAS_AUDIO (m_flags m)\<rparr>
      else m\<lparr>m_read := 0, m_flags := m_flags m - {MFLAG_HAS_AUDIO}\<rparr>)"

definition readable :: "mix_env \<Rightarrow> conf_world \<Rightarrow> ptr \<Rightarrow> bool" where
  "readable env w p \<longleftrightarrow> buf_inv (m_audio_buffer (mem w p)) \<and> x_bytes env \<le> length (m_frame (mem w p))"

lemma read_member_exact:
  assumes "readable env w p" and "0 < x_samples env"
  shows "read_member env p (w, r) = Inr (upd_mem p (taken env) w, if talks env w p then r + 1 else r)"
proof -
  let ?b = "m_audio_buffer (mem w p)"
  have inv: "buf_inv ?b" and room: "x_bytes env \<le> length (m_frame (mem w p))" using assms(1) by (simp_all add: readable_def)
  have used: "switch_buffer_inuse ?b = length (buf_content ?b)" by (simp add: switch_buffer_inuse_def length_content [OF inv])
  have pos: "0 < x_bytes env" using assms(2) by (simp add: x_bytes_def)
  show ?thesis
  proof (cases "talks env w p")
    case True
    then have got: "length (take (x_bytes env) (buf_content ?b)) = x_bytes env" by (simp add: talks_def)
    with pos have "take (x_bytes env) (buf_content ?b) \<noteq> []" by auto
    with True got room used pos show ?thesis
      by (simp add: read_member_def Let_def talks_def read_effect [OF inv] clear_mflag_def set_mflag_def upd_mem_def taken_def
          mem_write_def)
  next
    case False
    with used show ?thesis
      by (simp add: read_member_def Let_def talks_def clear_mflag_def upd_mem_def taken_def)
  qed
qed

lemma read_members_exact:
  assumes "\<forall>p\<in>set ps. readable env w p" and "distinct ps" and "0 < x_samples env"
  shows "\<exists>w'. read_members env ps (w, r) = Inr (w', r + of_nat (length (filter (talks env w) ps))) \<and> conf w' = conf w \<and>
    (\<forall>q. mem w' q = (if q \<in> set ps then taken env (mem w q) else mem w q))"
  using assms(1,2)
proof (induction ps arbitrary: w r)
  case (Cons p ps)
  let ?w = "upd_mem p (taken env) w" and ?r = "if talks env w p then r + 1 else r"
  have o: "mem ?w q = mem w q" if "q \<noteq> p" for q using that by (simp add: upd_mem_def)
  have "\<forall>q\<in>set ps. readable env ?w q" using Cons.prems o by (auto simp: readable_def)
  with Cons.IH [of ?w ?r] Cons.prems(2) obtain w' where w':
    "read_members env ps (?w, ?r) = Inr (w', ?r + of_nat (length (filter (talks env ?w) ps)))" "conf w' = conf ?w"
    "\<forall>q. mem w' q = (if q \<in> set ps then taken env (mem ?w q) else mem ?w q)" by auto
  have "filter (talks env ?w) ps = filter (talks env w) ps"
    using Cons.prems(2) o by (intro filter_cong refl) (auto simp: talks_def)
  with w' Cons.prems read_member_exact [OF _ assms(3), of w p r] show ?case
    by (intro exI [of _ w']) (auto simp: o add.assoc [symmetric] upd_mem_def)
qed simp

lemma taken_keeps [simp]:
  "m_mux_buffer (taken env m) = m_mux_buffer m" "m_id (taken env m) = m_id m" "m_relationships (taken env m) = m_relationships m"
  "m_fnode (taken env m) = m_fnode m" "m_volume_out_level (taken env m) = m_volume_out_level m"
  "f \<noteq> MFLAG_HAS_AUDIO \<Longrightarrow> f \<in> m_flags (taken env m) \<longleftrightarrow> f \<in> m_flags m"
  by (auto simp: taken_def Let_def)

lemma samples_of_append: "even (length a) \<Longrightarrow> samples_of (a @ b) = samples_of a @ samples_of b"
  by (induction a rule: samples_of.induct) auto

lemma taken_voice:
  assumes "talks env w p" and "mem w' p = taken env (mem w p)" and "x < x_samples env"
  shows "voice w' p x = sint (packet_of env w p ! x)"
proof -
  have "m_frame (mem w' p) = take (x_bytes env) (buf_content (m_audio_buffer (mem w p))) @ drop (x_bytes env) (m_frame (mem w p))"
    using assms(1,2) by (simp add: taken_def talks_def Let_def)
  moreover have "length (take (x_bytes env) (buf_content (m_audio_buffer (mem w p)))) = 2 * x_samples env"
    using assms(1) by (simp add: talks_def x_bytes_def)
  ultimately show ?thesis using assms(3) by (simp add: voice_def packet_of_def samples_of_append nth_append)
qed

section \<open>The turn around the mixing\<close>

lemma check_silence_conf: "\<exists>F. conf (check_silence env w) = (conf w)\<lparr>c_flags := F\<rparr>"
  by (auto simp: check_silence_def set_cflag_def upd_conf_def intro: exI [of _ "c_flags (conf w)"])

lemma video_step_conf [simp]: "conf (video_step v b w) = conf w"
  by (simp add: video_step_def emit_def split: option.split)

lemma close_done_mem [simp]: "mem (close_done_files w) = mem w"
  by (auto simp: close_done_files_def close_nodes_def emit_def upd_conf_def Let_def split: option.splits list.splits)

text \<open>
  What the turn needs: members with usable buffers, room for a packet in the output buffers, and
  at least one voice but fewer than the 256 at which the count of voices wraps.
\<close>

definition ready_to_mix :: "mix_env \<Rightarrow> conf_world \<Rightarrow> bool" where
  "ready_to_mix env w \<longleftrightarrow>
     (let ms = c_members (conf w); n = length (filter (talks env w) ms) in
      0 < x_samples env \<and> x_samples env \<le> 2048 \<and> agc_safe env w \<and> no_playback w \<and>
      distinct ms \<and> length ms < 65535 \<and> 0 < n \<and> n < 256 \<and>
      (\<forall>p\<in>set ms. readable env w p \<and> (talks env w p \<longrightarrow> mflag w p MFLAG_RUNNING) \<and>
         (gets_audio w p \<longrightarrow> mux_ready env w p \<and> buf_fits (x_heap env) (m_mux_buffer (mem w p)) (x_bytes env))))"

text \<open>The sum of the voices that \<open>q\<close> hears, at the sample \<open>x\<close>.\<close>

definition voices_for :: "mix_env \<Rightarrow> conf_world \<Rightarrow> ptr \<Rightarrow> nat \<Rightarrow> int" where
  "voices_for env w q x =
     sum_list (map (\<lambda>p. sint (packet_of env w p ! x))
       (filter (\<lambda>p. p \<noteq> q \<and> talks env w p \<and> \<not> shut_out w q p) (c_members (conf w))))"

lemma read_world:
  assumes "ready_to_mix env w" and "\<forall>q\<in>set (c_members (conf w)). mem w2 q = taken env (mem w q)"
    and "conf w2 = (conf w)\<lparr>c_flags := F\<rparr>" and "CFLAG_WASTE_BANDWIDTH \<notin> F"
  shows "agc_safe env w2" "frames_full env w2"
    "\<forall>p\<in>set (c_members (conf w2)). mflag w2 p MFLAG_HAS_AUDIO \<longrightarrow> mflag w2 p MFLAG_RUNNING"
    "\<forall>q\<in>set (c_members (conf w2)). gets_audio w2 q \<longrightarrow>
       mux_ready env w2 q \<and> buf_fits (x_heap env) (m_mux_buffer (mem w2 q)) (x_bytes env)"
    "q \<in> set (c_members (conf w)) \<Longrightarrow> gets_audio w2 q = gets_audio w q"
    "q \<in> set (c_members (conf w)) \<Longrightarrow> x < x_samples env \<Longrightarrow>
       sum_list (map (\<lambda>p. voice w2 p x)
         (filter (\<lambda>p. p \<noteq> q \<and> mflag w2 p MFLAG_HAS_AUDIO \<and> \<not> shut_out w2 q p) (c_members (conf w2)))) = voices_for env w q x"
proof -
  let ?ms = "c_members (conf w)"
  have r: "0 < x_samples env" "x_samples env \<le> 2048" "agc_safe env w" "no_playback w"
    "\<And>p. p \<in> set ?ms \<Longrightarrow> (talks env w p \<longrightarrow> mflag w p MFLAG_RUNNING) \<and>
       (gets_audio w p \<longrightarrow> mux_ready env w p \<and> buf_fits (x_heap env) (m_mux_buffer (mem w p)) (x_bytes env))"
    using assms(1) by (simp_all add: ready_to_mix_def Let_def)
  have ms: "c_members (conf w2) = ?ms" by (simp add: assms(3))
  have m: "mem w2 q = taken env (mem w q)" if "q \<in> set ?ms" for q using assms(2) that by simp
  have has: "mflag w2 q MFLAG_HAS_AUDIO \<longleftrightarrow> talks env w q" if "q \<in> set ?ms" for q
    using m [OF that] by (simp add: taken_def talks_def Let_def)
  show ga: "gets_audio w2 q = gets_audio w q" if "q \<in> set ?ms" for q
    using r(4) assms(4) by (simp add: gets_audio_def m [OF that] assms(3) no_playback_def)
  show "agc_safe env w2" using r(3) by (simp add: agc_safe_def assms(3))
  have "x_bytes env < 2 ^ 32" using r(2) by (simp add: x_bytes_def)
  then have "unat (of_nat (x_bytes env) :: uint32) = x_bytes env" by (simp add: unat_of_nat)
  then show "frames_full env w2"
    using m has by (auto simp: frames_full_def ms taken_def talks_def Let_def)
  show "\<forall>p\<in>set (c_members (conf w2)). mflag w2 p MFLAG_HAS_AUDIO \<longrightarrow> mflag w2 p MFLAG_RUNNING"
    using r(5) has by (simp add: ms m)
  show "\<forall>q\<in>set (c_members (conf w2)). gets_audio w2 q \<longrightarrow>
       mux_ready env w2 q \<and> buf_fits (x_heap env) (m_mux_buffer (mem w2 q)) (x_bytes env)"
    using r(5) ga by (simp add: ms mux_ready_def m)
  show "sum_list (map (\<lambda>p. voice w2 p x)
      (filter (\<lambda>p. p \<noteq> q \<and> mflag w2 p MFLAG_HAS_AUDIO \<and> \<not> shut_out w2 q p) (c_members (conf w2)))) = voices_for env w q x"
    if "q \<in> set ?ms" "x < x_samples env"
  proof -
    have "shut_out w2 q p = shut_out w q p" if "p \<in> set ?ms" for p
      using that m [OF that] m [OF \<open>q \<in> set ?ms\<close>] by (simp add: shut_out_def no_speak_def no_hear_def assms(3))
    then have "filter (\<lambda>p. p \<noteq> q \<and> mflag w2 p MFLAG_HAS_AUDIO \<and> \<not> shut_out w2 q p) ?ms =
        filter (\<lambda>p. p \<noteq> q \<and> talks env w p \<and> \<not> shut_out w q p) ?ms"
      using has by (intro filter_cong) auto
    then show ?thesis
      using taken_voice [OF _ m that(2)] unfolding voices_for_def ms by (intro arg_cong [of _ _ sum_list] map_cong) auto
  qed
qed

text \<open>A whole turn: every member that gets audio is sent one packet, the sum of the other voices, clipped.\<close>

lemma turn_mixes:
  assumes "ready_to_mix env (x_world s)"
  defines "w \<equiv> x_world s"
  shows "\<exists>s'. conference_turn env s = Inr (True, s') \<and>
    (\<forall>q\<in>set (c_members (conf w)). gets_audio w q \<longrightarrow>
      (\<exists>b fr. mem (x_world s') q = (taken env (mem w q))\<lparr>m_mux_buffer := b\<rparr> \<and> buf_inv b \<and> buf_data b \<noteq> None \<and>
        buf_content b = buf_content (m_mux_buffer (mem w q)) @ bytes_of fr \<and> length fr = x_samples env \<and>
        (\<forall>x<x_samples env. sint (fr ! x) = switch_normalize_to_16bit (voices_for env w q x))))"
proof -
  let ?ms = "c_members (conf w)" and ?info = "\<lparr>file_sample_len = x_samples env, has_file_data = False\<rparr>"
  have r: "0 < x_samples env" "x_samples env \<le> 2048" "no_playback w" "distinct ?ms" "length ?ms < 65535"
      "\<forall>p\<in>set ?ms. readable env w p"
    and cnt: "0 < length (filter (talks env w) ?ms)" "length (filter (talks env w) ?ms) < 256"
    using assms by (simp_all add: ready_to_mix_def Let_def)
  obtain w1 where w1: "read_members env ?ms (w, 0) = Inr (w1, of_nat (length (filter (talks env w) ?ms)))" "conf w1 = conf w"
      "\<forall>q. mem w1 q = (if q \<in> set ?ms then taken env (mem w q) else mem w q)"
    using read_members_exact [OF r(6,4,1), of 0] by auto
  have "unat (of_nat (length (filter (talks env w) ?ms)) :: uint8) = length (filter (talks env w) ?ms)"
    using cnt(2) by (simp add: unat_of_nat)
  then have ready: "(of_nat (length (filter (talks env w) ?ms)) :: uint8) \<noteq> 0" using cnt(1) by auto
  define w2 where "w2 = video_step (members_with_video w) (video_bridge_members w) (check_silence env w1)"
  have q: "no_playback w1" "no_playback (check_silence env w1)" "no_playback w2"
    using r(3) w1(2) by (simp_all add: w2_def check_silence_keeps video_step_keeps) (simp_all add: no_playback_def)
  obtain F where F: "conf w2 = (conf w)\<lparr>c_flags := F\<rparr>"
    using check_silence_conf [of env w1] w1(2) by (auto simp: w2_def)
  then have F': "CFLAG_WASTE_BANDWIDTH \<notin> F" using q(3) by (simp add: no_playback_def)
  have m2: "\<forall>q\<in>set ?ms. mem w2 q = taken env (mem w q)" using w1(3) by (simp add: w2_def check_silence_keeps video_step_keeps)
  note rw = read_world [OF assms(1) [folded w_def] m2 F F']
  have d: "distinct (c_members (conf w2))" "length (c_members (conf w2)) < 65535" using r(4,5) by (simp_all add: F)
  obtain w3 where w3: "mix_step env (x_file_frame s) ?info w2 = Inr (True, w3)"
      "\<forall>q. mem w3 q = (mem w2 q)\<lparr>m_mux_buffer := m_mux_buffer (mem w3 q)\<rparr>"
      "\<forall>q\<in>set (c_members (conf w2)). gets_audio w2 q \<longrightarrow> buf_inv (m_mux_buffer (mem w3 q)) \<and> buf_data (m_mux_buffer (mem w3 q)) \<noteq> None \<and>
        (\<exists>fr. buf_content (m_mux_buffer (mem w3 q)) = buf_content (m_mux_buffer (mem w2 q)) @ bytes_of fr \<and> length fr = x_samples env \<and>
          (\<forall>x<x_samples env. sint (fr ! x) = switch_normalize_to_16bit (file_value (x_file_frame s) ?info x +
            sum_list (map (\<lambda>p. voice w2 p x)
              (filter (\<lambda>p. p \<noteq> q \<and> mflag w2 p MFLAG_HAS_AUDIO \<and> \<not> shut_out w2 q p) (c_members (conf w2)))))))"
    using mix_step_effect [OF r(1,2) rw(1) d rw(2-4), of "x_file_frame s" ?info] by (force split: if_splits)
  let ?s = "s\<lparr>x_world := close_done_files w3\<rparr>"
  have "conference_turn env s = Inr (True, ?s)"
    using w1(1) ready w3(1)
    by (simp add: conference_turn_def w_def [symmetric] no_playback_steps [OF q(1)] no_playback_steps [OF q(2)]
        no_playback_steps [OF q(3)] Let_def flip: w2_def)
  moreover have "\<exists>b fr. mem (x_world ?s) q = (taken env (mem w q))\<lparr>m_mux_buffer := b\<rparr> \<and> buf_inv b \<and> buf_data b \<noteq> None \<and>
        buf_content b = buf_content (m_mux_buffer (mem w q)) @ bytes_of fr \<and> length fr = x_samples env \<and>
        (\<forall>x<x_samples env. sint (fr ! x) = switch_normalize_to_16bit (voices_for env w q x))"
    if mq: "q \<in> set ?ms" "gets_audio w q" for q
  proof -
    from w3(3) mq rw(5) [OF mq(1)] obtain fr where "buf_inv (m_mux_buffer (mem w3 q))" "buf_data (m_mux_buffer (mem w3 q)) \<noteq> None"
      "buf_content (m_mux_buffer (mem w3 q)) = buf_content (m_mux_buffer (mem w2 q)) @ bytes_of fr" "length fr = x_samples env"
      "\<forall>x<x_samples env. sint (fr ! x) = switch_normalize_to_16bit (voices_for env w q x)"
      using rw(6) [OF mq(1)] by (auto simp: F file_value_def)
    moreover have "mem w3 q = (taken env (mem w q))\<lparr>m_mux_buffer := m_mux_buffer (mem w3 q)\<rparr>"
      using spec [OF w3(2), of q] m2 mq(1) by metis
    ultimately show ?thesis using m2 mq(1) by (intro exI [of _ "m_mux_buffer (mem w3 q)"] exI [of _ fr]) simp
  qed
  ultimately show ?thesis by blast
qed

section \<open>From the buffers to the listener\<close>

text \<open>
  C2. The whole way of the voices.  After a turn of the mixing thread the next delivery of the output
  thread writes to the session of a listener, to whom nothing was waiting, one frame whose samples
  are the sum of the packets that waited in the buffers of the other members and are not shut out
  for it, clipped once to 16 bits and scaled by its volume; neither thread ends or fails.
\<close>

theorem voices_reach_listener:
  fixes s :: mix_state
  defines "w \<equiv> x_world s"
  assumes "ready_to_mix env w" and "q \<in> set (c_members (conf w))" and "mflag w q MFLAG_RUNNING" and "mflag w q MFLAG_CAN_HEAR"
    and "buf_content (m_mux_buffer (mem w q)) = []" and "m_fnode (mem w q) = []"
    and "o_samples oe = x_samples env" and "o_write_ok i"
  shows "\<exists>s' w' fr d. conference_turn env s = Inr (True, s') \<and> deliver oe i q low (x_world s') = Inr (True, 0, w') \<and>
    out w' = out (x_world s') @ [Write_frame q d] \<and>
    switch_change_sln_volume fr (x_samples env) (m_volume_out_level (mem w q)) = Inr d \<and> length fr = x_samples env \<and>
    (\<forall>x<x_samples env. sint (fr ! x) = switch_normalize_to_16bit (voices_for env w q x))"
proof -
  have n: "0 < x_samples env" "x_samples env \<le> 2048" using assms(2) by (simp_all add: ready_to_mix_def Let_def)
  have "gets_audio w q" using assms(4,5) by (simp add: gets_audio_def)
  with turn_mixes [of env s, folded w_def, OF assms(2)] assms(3) obtain s' b fr
    where t: "conference_turn env s = Inr (True, s')" "mem (x_world s') q = (taken env (mem w q))\<lparr>m_mux_buffer := b\<rparr>"
      "buf_inv b" "buf_data b \<noteq> None" "buf_content b = buf_content (m_mux_buffer (mem w q)) @ bytes_of fr"
      "length fr = x_samples env" "\<forall>x<x_samples env. sint (fr ! x) = switch_normalize_to_16bit (voices_for env w q x)"
    by blast
  obtain w' d where "deliver oe i q low (x_world s') = Inr (True, 0, w')" "out w' = out (x_world s') @ [Write_frame q d]"
      "switch_change_sln_volume fr (x_samples env) (m_volume_out_level (mem w q)) = Inr d"
    using deliver_packet [of "x_world s'" q oe i low] t(2-6) n assms(5-9)
    by (auto simp: SWITCH_RECOMMENDED_BUFFER_SIZE_def)
  with t show ?thesis by blast
qed

section \<open>An example\<close>

text \<open>Two members speak loudly at the same time, and a third one listens.\<close>

definition spoken :: "switch_byte_t list \<Rightarrow> switch_buffer" where
  "spoken bs = plain_buffer\<lparr>buf_data := Some bs, buf_datalen := length bs, buf_used := length bs, buf_actually_used := length bs\<rparr>"

definition party :: "uint32 \<Rightarrow> switch_byte_t list \<Rightarrow> conference_member" where
  "party i bs = (talker i {MFLAG_RUNNING} [0, 0])\<lparr>m_audio_buffer := spoken bs\<rparr>"

definition party_world :: conf_world where
  "party_world = sample_world\<lparr>conf := plain_conf\<lparr>c_members := [2, 3, 4]\<rparr>,
     mem := (\<lambda>p. if p = 2 then party 2 [48, 117] else if p = 3 then party 3 [16, 39] else party 4 [])\<rparr>"

lemmas party_defs = room_defs party_world_def party_def spoken_def

lemma party_content:
  "buf_content (m_audio_buffer (mem party_world 2)) = [48, 117]" "buf_content (m_audio_buffer (mem party_world 3)) = [16, 39]"
  "buf_content (m_audio_buffer (mem party_world 4)) = []" "c_members (conf party_world) = [2, 3, 4]"
  by (simp_all add: party_defs buf_content_def)

lemma party_talks: "talks talk_env party_world 2" "talks talk_env party_world 3" "\<not> talks talk_env party_world 4"
  by (simp_all add: talks_def party_content x_bytes_def talk_env_def)

lemma no_relations: "\<not> shut_out party_world q p"
  by (simp add: shut_out_def party_defs)

lemma party_voices: "voices_for talk_env party_world 4 0 = 40000"
proof -
  have "filter (\<lambda>p. p \<noteq> 4 \<and> talks talk_env party_world p \<and> \<not> shut_out party_world 4 p) [2, 3, 4] = [2, 3]"
    using party_talks no_relations by simp
  moreover have "sint (packet_of talk_env party_world 2 ! 0) = 30000" "sint (packet_of talk_env party_world 3 ! 0) = 10000"
    by (simp_all add: packet_of_def party_content x_bytes_def talk_env_def sample_of_bytes_def)
  ultimately show ?thesis by (simp add: voices_for_def party_content)
qed

lemma party_ready: "ready_to_mix talk_env party_world"
proof -
  have "filter (talks talk_env party_world) [2, 3, 4] = [2, 3]" by (simp add: party_talks)
  moreover have "readable talk_env party_world p" for p
    by (simp add: readable_def party_defs buf_inv_def)
  moreover have "mux_ready talk_env party_world p \<and> buf_fits (x_heap talk_env) (m_mux_buffer (mem party_world p)) (x_bytes talk_env)" for p
    by (simp add: party_defs mux_ready_def buf_fits_def buf_inv_def buf_grown_def buf_dynamic_def SWITCH_BUFFER_FLAG_DYNAMIC_def)
  moreover have "mflag party_world p MFLAG_RUNNING" for p by (simp add: party_defs)
  moreover have "agc_safe talk_env party_world" "no_playback party_world" "x_samples talk_env = 1"
    by (simp_all add: party_defs agc_safe_def no_playback_def)
  ultimately show ?thesis by (simp add: ready_to_mix_def party_content)
qed

theorem voices_reach_listener_witness:
  "\<exists>s' w'. conference_turn talk_env \<lparr>x_world = party_world, x_file_frame = [], x_async_frame = []\<rparr> = Inr (True, s') \<and>
     deliver plain_output quiet_turn 4 0 (x_world s') = Inr (True, 0, w') \<and>
     out w' = out (x_world s') @ [Write_frame 4 [32767]]"
proof -
  let ?s = "\<lparr>x_world = party_world, x_file_frame = [], x_async_frame = []\<rparr>"
  have f: "4 \<in> set (c_members (conf party_world))" "mflag party_world 4 MFLAG_RUNNING" "mflag party_world 4 MFLAG_CAN_HEAR"
    "buf_content (m_mux_buffer (mem party_world 4)) = []" "m_fnode (mem party_world 4) = []" "x_samples talk_env = 1"
    "o_samples plain_output = 1" "o_write_ok quiet_turn" "m_volume_out_level (mem party_world 4) = 0"
    by (simp_all add: party_defs buf_content_def plain_output_def quiet_turn_def)
  obtain s' w' fr d where r: "conference_turn talk_env ?s = Inr (True, s')"
      "deliver plain_output quiet_turn 4 0 (x_world s') = Inr (True, 0, w')" "out w' = out (x_world s') @ [Write_frame 4 d]"
      "switch_change_sln_volume fr 1 0 = Inr d" "length fr = 1" "sint (fr ! 0) = switch_normalize_to_16bit 40000"
    using voices_reach_listener [of talk_env ?s 4 plain_output quiet_turn 0] party_ready party_voices f by auto
  from r(5) obtain z where z: "fr = [z]" by (auto simp: length_Suc_conv)
  with r(6) have "sint z = 32767" by (simp add: switch_normalize_to_16bit_def SWITCH_SMAX_def SWITCH_SMIN_def)
  then have "sint z = sint (32767 :: int16)" by simp
  then have "z = 32767" by (simp only: signed_word_eqI)
  with r(4) z have "d = [32767]" by (simp add: switch_change_sln_volume_def)
  with r show ?thesis by blast
qed

end
