(* ===== verification/Spec2Isabelle.thy ===== *)
theory Spec2Isabelle
  imports Buffer Encoding Network_List Port_Allocator Event_Copy Event_Dispatch Scheduler Channel Stun
    Audio Conference_Record Conference_Levels Conference_Path
begin

text \<open>
  Verification of the core of FreeSWITCH and of its conference application.

  \<^bold>\<open>The program.\<close>  FreeSWITCH is a telephony switch.  Its core (\<^verbatim>\<open>src/src/switch_*.c\<close>) gives
  modules the data structures of a call: a \<^emph>\<open>channel\<close> with its state machine, flags, digit queue
  and handlers; \<^emph>\<open>events\<close>, lists of headers that are fired into queues and delivered to the
  callbacks bound to them; \<^emph>\<open>buffers\<close> between the threads that read and write audio; a
  \<^emph>\<open>scheduler\<close> of tasks; and the utilities everything rests on.  The conference application
  (\<^verbatim>\<open>src/src/mod/applications/mod_conference/mod_conference.c\<close>) is the client of most of these:
  members are sessions with a channel, their audio waits in buffers, one thread per conference
  mixes it, commands arrive as text split by the string utilities, and everything that happens is
  told in events.

  \<^bold>\<open>Theories.\<close>
  \<^item> \<open>Prelude\<close>: results with faults (\<open>outcome\<close>: a value or one of the faults a C program
    can run into, such as a write outside of a block or a null pointer), blocks of memory
    (\<open>mem_read\<close>, \<open>mem_write\<close>), C strings in blocks, and the locales \<open>step_system\<close> (an
    invariant of a step relation holds in every reachable state) and its relatives.
  \<^item> \<open>Buffer\<close> (\<^verbatim>\<open>switch_buffer.c\<close>): \<open>switch_buffer\<close> is the structure; each routine is a
    definition of the same name, \<open>realloc\<close> is a parameter.  The lemmas show that writes append,
    reads take from the front, and that a fixed buffer refines a bounded byte queue.
  \<^item> \<open>Strings\<close>, \<open>Encoding\<close>, \<open>Network_List\<close> (\<^verbatim>\<open>switch_utils.c\<close>): tokenisers, search and
    replace, escaping and quoting, the character tables; \<^verbatim>\<open>&\<close>-, base64 and percent encoding in
    the caller's buffer; access lists for IPv4 and IPv6.
  \<^item> \<open>Port_Allocator\<close> (\<^verbatim>\<open>switch_core_port_allocator.c\<close>): the allocator as a machine over
    requests and releases; the random numbers are a parameter, and the search loop is shown to
    end for every stream of them.
  \<^item> \<open>Event\<close>, \<open>Event_Copy\<close>, \<open>Event_Dispatch\<close> (\<^verbatim>\<open>switch_event.c\<close>): headers with arrays,
    copies and serialization; bindings, subclasses, queues, event and dispatch threads.  The
    threads are a step relation, one atomic step per queue operation.
  \<^item> \<open>Scheduler\<close> (\<^verbatim>\<open>switch_scheduler.c\<close>): tasks, their numbers, the loop over them.
  \<^item> \<open>Channel\<close> (\<^verbatim>\<open>switch_channel.c\<close>, limits of \<^verbatim>\<open>switch_core.c\<close>): the state machine with
    hangup, flags, handlers, cause names, and the digit queue.
  \<^item> \<open>Stun\<close> (\<^verbatim>\<open>switch_stun.c\<close>): packets built and parsed in place.
  \<^item> \<open>Audio\<close> (\<^verbatim>\<open>switch_resample.c\<close>): 16-bit samples; the products with a volume factor are
    rounded as IEEE doubles are.
  \<^item> \<open>Conference\<close>, \<open>Conference_Commands\<close>, \<open>Conference_Mix\<close> (\<^verbatim>\<open>mod_conference.c\<close>): the
    conference with its members as one world (\<open>conf_world\<close>: the conference, a store of members,
    what was emitted); joining, leaving and playback; the API commands, the key controls and flag
    lists; the mixing thread.
  \<^item> \<open>Dmachine\<close> (\<^verbatim>\<open>switch_ivr_async.c\<close>) and \<open>Conference_Keys\<close>: the digit machine, which collects
    the keys a caller presses and finds the binding they stand for, as a machine over everything
    that can be called on it; the controls of the conference are its client through the locale
    \<open>dm_client\<close>.
  \<^item> \<open>Conference_Voice\<close>: the input thread of a member (\<open>conference_loop_input\<close>), from a frame of
    media to the bytes that wait for the mixer: volume, score, automatic gain, detection of
    talking, the gate, and who holds the floor.
  \<^item> \<open>Conference_Output\<close>: the output thread (\<open>conference_loop_output\<close>), from the mix to the frames
    that are written to the session: messages, keys, delay, the member's own files, indications,
    and the calls a conference starts by itself.
  \<^item> \<open>Collect_Digits\<close> (\<^verbatim>\<open>switch_ivr.c\<close>) and \<open>Conference_Admission\<close>: how a caller gets into a conference
    (\<open>conference_function\<close>): the argument, the PIN, the lock, the limit of members, joining, staying and leaving.
  \<^item> \<open>Conference_Record\<close>: the recording of a conference (\<open>conference_record_thread_run\<close>), a member without a
    channel whose audio goes to a file, with what \<^verbatim>\<open>switch_core_file.c\<close> does to the handle when it is opened and
    written to; what a recording writes is shown to be all it was sent, in order.
  \<^item> \<open>Conference_Levels\<close>: the ranges of score, running mean and gain that the input thread keeps.
  \<^item> \<open>Conference_Path\<close>: a turn of the mixing thread and the delivery of the output thread in sequence, from the
    buffers of the speakers to the frame that a listener is sent.
  \<^item> \<open>Conference_System\<close>: all of these as one step relation (\<open>room_step\<close>) in any order.

  \<^bold>\<open>State and errors.\<close>  Structures are records with the fields the code uses, enumerations
  are datatypes, machine integers keep their width as words or are wrapped explicitly.
  Pointers into a structure are indices or numbers of a store.  A routine that can leave a block,
  follow a null pointer, divide by zero or fail an assertion returns an \<open>outcome\<close>; theorems about
  success therefore also say that none of these happens, and theorems about defects exhibit the
  fault.  Output (events fired, replies to a command, calls into modules) is collected in order.

  \<^bold>\<open>Loops and fuel.\<close>  Loops over lists and strings are structural recursion or functions with a
  measure.  The loop of the port allocator over random numbers takes the stream of numbers and a
  bound that is shown to suffice (\<open>port_request_fresh\<close>).  String replacement advances by the
  length of the search string and is a total function for a non-empty one.  The threads that run
  for ever (event threads, scheduler, conference) are modelled by one turn, by a step relation
  over turns, or by a loop over the list of what each turn is given.  Such a loop has the value
  \<open>None\<close> when it still runs at the end of the list; theorems that it ends give a length of the
  list that is enough (\<open>pin_check_ends\<close>: about ten seconds of turns for each key and try;
  \<open>recording_is_complete\<close>: one look at the buffer more than samples wait).

  \<^bold>\<open>Parameters.\<close>  Code outside of the repository or at the border of the modelled part is an
  argument: memory given by \<open>realloc\<close> and pools, \<open>inet_pton\<close>, random numbers, the clock,
  callbacks of bindings and tasks, receive hooks of sessions, audio delivered by files and the
  speech engine, channel variables during expansion.

  \<^bold>\<open>What the theorems show.\<close>  For each component the properties that make it correct: the mix
  sent to a member is the sum of the others clipped once; only a caller with a right PIN gets into an
  open conference with room for it; a recording holds every sample sent to it; membership counts are exact in every
  run; buffers, unique events and digit queues refine queues, maps and windows; no event is
  lost or duplicated between firing and delivery; a hangup is final; ports and task numbers are
  never given out twice; access lists decide by the longest prefix; encodings, names and packets
  are read back as they were written.  Where the code does not do what it means to do, a
  theorem states exactly when it happens: counters that wrap, buffers that are too short, entries
  that are ignored, audio that is lost.

  \<^bold>\<open>Not modelled.\<close>  Locks and condition variables (each operation holds them throughout and
  is one atomic step); sockets, files, codecs, the data base, module loading and start-up (calls
  into libraries and the operating system); of \<^verbatim>\<open>switch_event.c\<close> the forms that rest on XML and
  JSON libraries; of \<^verbatim>\<open>switch_channel.c\<close> caller profiles, exports and variable expansion; of
  \<^verbatim>\<open>mod_conference.c\<close> the configuration of a conference (XML), video and outgoing calls; the other modules; vendored libraries.
\<close>

end
